(* ===== verification/Ticketd_Prelude.thy ===== *)
theory Ticketd_Prelude
  imports Main "HOL-Library.Word"
begin

unbundle bit_operations_syntax

section \<open>Prelude: faults, C integers, arrays and loops\<close>

text \<open>
  What every component of the development shares: the machine words of the C code, the ways
  a C function can fail to return (a failed \<^verbatim>\<open>assert\<close>, a bad pointer, an index outside its
  array), the error monad the models are written in, C's remainder, array accesses with an
  explicit bounds check, and loops over arrays whose body may fault.

  A C \<^verbatim>\<open>int\<close> is an \<open>int\<close>: signed overflow is undefined in C, so the models do not wrap it.
  An \<^verbatim>\<open>unsigned int\<close> or \<^verbatim>\<open>uint32_t\<close> is a \<open>32 word\<close>, a \<^verbatim>\<open>uint64_t\<close> a \<open>64 word\<close>, a byte an
  \<open>8 word\<close>; conversions between \<^verbatim>\<open>int\<close> and \<^verbatim>\<open>unsigned\<close> are written out.
\<close>

type_synonym byte = "8 word"
type_synonym u16 = "16 word"
type_synonym u32 = "32 word"
type_synonym u64 = "64 word"
type_synonym addr = nat

named_theorems fault_simps \<open>rewrite rules of the error monad\<close>
named_theorems frame_simps \<open>fields that an operation leaves alone\<close>

subsection \<open>Faults\<close>

datatype fault =
    Assert_failed
  | Null_deref
  | Dangling_deref
  | Out_of_bounds
  | Div_by_zero
  | Fatal int
  | Exit int

definition bindE :: "fault + 'a \<Rightarrow> ('a \<Rightarrow> fault + 'b) \<Rightarrow> fault + 'b" where
  "bindE m k = (case m of Inl f \<Rightarrow> Inl f | Inr x \<Rightarrow> k x)"

definition assertE :: "bool \<Rightarrow> fault + unit" where
  "assertE p = (if p then Inr () else Inl Assert_failed)"

fun foldE :: "('x \<Rightarrow> 'a \<Rightarrow> fault + 'a) \<Rightarrow> 'x list \<Rightarrow> 'a \<Rightarrow> fault + 'a" where
  "foldE f [] a = Inr a"
| "foldE f (x # xs) a = bindE (f x a) (foldE f xs)"

subsection \<open>Pointers, arrays and the remainder of C\<close>

definition deref :: "(addr \<rightharpoonup> 'a) \<Rightarrow> addr option \<Rightarrow> fault + 'a" where
  "deref h p = (case p of None \<Rightarrow> Inl Null_deref
     | Some a \<Rightarrow> (case h a of None \<Rightarrow> Inl Dangling_deref | Some v \<Rightarrow> Inr v))"

definition arr_get :: "'a list \<Rightarrow> int \<Rightarrow> fault + 'a" where
  "arr_get xs i = (if 0 \<le> i \<and> i < int (length xs) then Inr (xs ! nat i) else Inl Out_of_bounds)"

definition arr_set :: "'a list \<Rightarrow> int \<Rightarrow> 'a \<Rightarrow> fault + 'a list" where
  "arr_set xs i v =
     (if 0 \<le> i \<and> i < int (length xs) then Inr (xs[nat i := v]) else Inl Out_of_bounds)"

definition c_rem :: "int \<Rightarrow> int \<Rightarrow> fault + int" where
  "c_rem a b = (if b = 0 then Inl Div_by_zero else Inr (sgn a * (\<bar>a\<bar> mod \<bar>b\<bar>)))"

definition c_div :: "int \<Rightarrow> int \<Rightarrow> int" where
  "c_div a b = sgn a * sgn b * (\<bar>a\<bar> div \<bar>b\<bar>)"

subsection \<open>Rules of the error monad\<close>

lemma bindE_Inl [simp, fault_simps]: "bindE (Inl f) k = Inl f"
  by (simp add: bindE_def)

lemma bindE_Inr [simp, fault_simps]: "bindE (Inr x) k = k x"
  by (simp add: bindE_def)

lemma bindE_eq_Inr [simp, fault_simps]:
  "(bindE m k = Inr y) = (\<exists>x. m = Inr x \<and> k x = Inr y)"
  by (cases m) simp_all

lemma Inr_eq_bindE [simp, fault_simps]:
  "(Inr y = bindE m k) = (\<exists>x. m = Inr x \<and> k x = Inr y)"
  by (cases m) auto

lemma bindE_eq_Inl [fault_simps]:
  "(bindE m k = Inl f) = (m = Inl f \<or> (\<exists>x. m = Inr x \<and> k x = Inl f))"
  by (cases m) simp_all

lemma bindE_assoc: "bindE (bindE m k) l = bindE m (\<lambda>x. bindE (k x) l)"
  by (cases m) simp_all

lemma assertE_eq_Inr [simp, fault_simps]: "(assertE p = Inr u) = p"
  by (simp add: assertE_def)

lemma assertE_True [simp]: "assertE True = Inr ()"
  by (simp add: assertE_def)

lemma assertE_False [simp]: "assertE False = Inl Assert_failed"
  by (simp add: assertE_def)

lemma foldE_append: "foldE f (xs @ ys) a = bindE (foldE f xs a) (foldE f ys)"
proof (induction xs arbitrary: a)
  case (Cons x xs)
  have "foldE f (xs @ ys) = (\<lambda>b. bindE (foldE f xs b) (foldE f ys))"
    using Cons.IH by blast
  then show ?case by (simp add: bindE_assoc)
qed simp

text \<open>A loop keeps what its body keeps.\<close>

lemma foldE_invariant:
  assumes step: "\<And>x a a'. x \<in> set xs \<Longrightarrow> P a \<Longrightarrow> f x a = Inr a' \<Longrightarrow> P a'"
    and init: "P a" and ret: "foldE f xs a = Inr a'"
  shows "P a'"
  using step init ret
proof (induction xs arbitrary: a)
  case (Cons x xs)
  from Cons.prems(3) obtain b where b: "f x a = Inr b" and rest: "foldE f xs b = Inr a'"
    by auto
  from Cons.prems(1)[OF _ Cons.prems(2) b] have "P b" by simp
  show ?case by (rule Cons.IH[OF _ \<open>P b\<close> rest]) (rule Cons.prems(1), auto)
qed simp

text \<open>A loop whose body cannot fault under an invariant does not fault and keeps it.\<close>

lemma foldE_total:
  assumes step: "\<And>x a. x \<in> set xs \<Longrightarrow> P a \<Longrightarrow> \<exists>a'. f x a = Inr a' \<and> P a'"
    and init: "P a"
  shows "\<exists>a'. foldE f xs a = Inr a' \<and> P a'"
  using step init
proof (induction xs arbitrary: a)
  case (Cons x xs)
  from Cons.prems(1)[of x a] Cons.prems(2) obtain b where "f x a = Inr b" "P b" by auto
  with Cons.IH[of b] Cons.prems(1) show ?case by simp
qed simp

text \<open>A loop over distinct elements whose body touches only the part of the state that belongs to
  its element runs the body once on each part.\<close>

lemma foldE_untouched:
  assumes other: "\<And>p q a a'. f p a = Inr a' \<Longrightarrow> q \<noteq> p \<Longrightarrow> view a' q = view a q"
    and "q \<notin> set ps" "foldE f ps a = Inr a'"
  shows "view a' q = view a q"
  using assms(2,3)
proof (induction ps arbitrary: a)
  case (Cons p ps)
  then obtain b where "f p a = Inr b" "foldE f ps b = Inr a'" by auto
  with Cons other[of p a b q] show ?case by simp
qed simp

lemma foldE_local:
  assumes other: "\<And>p q a a'. f p a = Inr a' \<Longrightarrow> q \<noteq> p \<Longrightarrow> view a' q = view a q"
    and inv: "\<And>p a a'. P a \<Longrightarrow> f p a = Inr a' \<Longrightarrow> P a'"
    and "P a" "distinct ps" "q \<in> set ps" "foldE f ps a = Inr a'"
  shows "\<exists>b b'. P b \<and> f q b = Inr b' \<and> view b q = view a q \<and> view a' q = view b' q"
  using assms(3-6)
proof (induction ps arbitrary: a)
  case (Cons p ps)
  then obtain b where b: "f p a = Inr b" and rest: "foldE f ps b = Inr a'" by auto
  show ?case
  proof (cases "q = p")
    case True
    have "view a' q = view b q"
      by (rule foldE_untouched[OF other _ rest]) (use True Cons.prems in auto)
    with b Cons.prems True show ?thesis by blast
  next
    case False
    with Cons.prems have d: "distinct ps" "q \<in> set ps" by auto
    from Cons.IH[OF inv[OF Cons.prems(1) b] d rest] other[OF b False] show ?thesis by simp
  qed
qed simp

subsection \<open>Lists\<close>

lemma take_Suc_update: "n < length xs \<Longrightarrow> take (Suc n) (xs[n := v]) = take n xs @ [v]"
  by (simp add: take_Suc_conv_app_nth)

subsection \<open>Rules of pointers, arrays and the remainder\<close>

lemma deref_eq_Inr [simp]: "(deref h p = Inr v) = (\<exists>a. p = Some a \<and> h a = Some v)"
  by (auto simp: deref_def split: option.splits)

lemma deref_None [simp]: "deref h None = Inl Null_deref"
  by (simp add: deref_def)

lemma deref_Some [simp]: "h a = Some v \<Longrightarrow> deref h (Some a) = Inr v"
  by simp

lemma arr_get_eq_Inr [simp]:
  "(arr_get xs i = Inr v) = (0 \<le> i \<and> i < int (length xs) \<and> v = xs ! nat i)"
  by (auto simp: arr_get_def)

lemma arr_get_nat: "0 \<le> i \<Longrightarrow> i < int (length xs) \<Longrightarrow> arr_get xs i = Inr (xs ! nat i)"
  by simp

lemma arr_get_oob: "i < 0 \<or> int (length xs) \<le> i \<Longrightarrow> arr_get xs i = Inl Out_of_bounds"
  by (auto simp: arr_get_def)

lemma arr_set_eq_Inr [simp]:
  "(arr_set xs i v = Inr ys) = (0 \<le> i \<and> i < int (length xs) \<and> ys = xs[nat i := v])"
  by (auto simp: arr_set_def)

lemma arr_set_oob: "i < 0 \<or> int (length xs) \<le> i \<Longrightarrow> arr_set xs i v = Inl Out_of_bounds"
  by (auto simp: arr_set_def)

lemma c_rem_nonneg: "0 \<le> a \<Longrightarrow> 0 < b \<Longrightarrow> c_rem a b = Inr (a mod b)"
  by (cases "a = 0") (simp_all add: c_rem_def)

lemma c_rem_less: "0 \<le> a \<Longrightarrow> a < b \<Longrightarrow> c_rem a b = Inr a"
  by (simp add: c_rem_nonneg)

lemma c_div_nonneg: "0 \<le> a \<Longrightarrow> 0 < b \<Longrightarrow> c_div a b = a div b"
  by (cases "a = 0") (simp_all add: c_div_def)

lemma c_div_2_nonneg [simp]: "0 \<le> a \<Longrightarrow> c_div a 2 = a div 2"
  by (simp add: c_div_nonneg)

end
