(* ===== verification/Raft_Types.thy ===== *)
theory Raft_Types
  imports Ticketd_Prelude
begin

section \<open>Data and messages of the Raft library (raft.h)\<close>

text \<open>
  The enumerations, log entries and messages of \<^verbatim>\<open>src/src/raft.h\<close>. An entry's \<^verbatim>\<open>data\<close> (a
  buffer and its length) is the list of its bytes. The entry's term and id are unsigned in the
  C code while the server's term is an \<^verbatim>\<open>int\<close>: comparisons convert the \<^verbatim>\<open>int\<close> to unsigned
  (\<open>word_of_int\<close>), assignments to an \<^verbatim>\<open>int\<close> read the word as signed (\<open>sint\<close>).
\<close>

datatype raft_state_e =
    RAFT_STATE_NONE
  | RAFT_STATE_FOLLOWER
  | RAFT_STATE_CANDIDATE
  | RAFT_STATE_LEADER

text \<open>The field \<^verbatim>\<open>type\<close> of an entry is an \<^verbatim>\<open>int\<close> that also comes from the network, so the
  enumerators of \<^verbatim>\<open>raft_logtype_e\<close> are integers.\<close>

definition RAFT_LOGTYPE_NORMAL :: int where
  "RAFT_LOGTYPE_NORMAL = 0"

definition RAFT_LOGTYPE_ADD_NONVOTING_NODE :: int where
  "RAFT_LOGTYPE_ADD_NONVOTING_NODE = 1"

definition RAFT_LOGTYPE_ADD_NODE :: int where
  "RAFT_LOGTYPE_ADD_NODE = 2"

definition RAFT_LOGTYPE_REMOVE_NODE :: int where
  "RAFT_LOGTYPE_REMOVE_NODE = 3"

lemmas logtype_defs =
  RAFT_LOGTYPE_NORMAL_def RAFT_LOGTYPE_ADD_NONVOTING_NODE_def
  RAFT_LOGTYPE_ADD_NODE_def RAFT_LOGTYPE_REMOVE_NODE_def

record raft_entry =
  ety_term :: u32
  ety_id :: u32
  ety_type :: int
  ety_data :: "byte list"

text \<open>What \<^verbatim>\<open>calloc\<close> leaves in an unused slot of the log.\<close>

definition zero_entry :: raft_entry where
  "zero_entry = \<lparr>ety_term = 0, ety_id = 0, ety_type = 0, ety_data = []\<rparr>"

record msg_entry_response =
  mer_id :: u32
  mer_term :: int
  mer_idx :: int

record msg_requestvote =
  rv_term :: int
  rv_candidate_id :: int
  rv_last_log_idx :: int
  rv_last_log_term :: int

record msg_requestvote_response =
  rvr_term :: int
  rvr_vote_granted :: int

text \<open>\<open>ae_entries\<close> is the memory the pointer \<^verbatim>\<open>entries\<close> may read, \<open>ae_n_entries\<close> the length the
  message claims; they are separate fields, as in C.\<close>

record msg_appendentries =
  ae_term :: int
  ae_prev_log_idx :: int
  ae_prev_log_term :: int
  ae_leader_commit :: int
  ae_n_entries :: int
  ae_entries :: "raft_entry list"

record msg_appendentries_response =
  aer_term :: int
  aer_success :: int
  aer_current_idx :: int
  aer_first_idx :: int

text \<open>Responses before the server fills them in.\<close>

definition zero_aer :: msg_appendentries_response where
  "zero_aer = \<lparr>aer_term = 0, aer_success = 0, aer_current_idx = 0, aer_first_idx = 0\<rparr>"

definition zero_rvr :: msg_requestvote_response where
  "zero_rvr = \<lparr>rvr_term = 0, rvr_vote_granted = 0\<rparr>"

definition zero_mer :: msg_entry_response where
  "zero_mer = \<lparr>mer_id = 0, mer_term = 0, mer_idx = 0\<rparr>"

definition raft_entry_is_voting_cfg_change :: "raft_entry \<Rightarrow> bool" where
  "raft_entry_is_voting_cfg_change ety \<longleftrightarrow>
     RAFT_LOGTYPE_ADD_NODE = ety_type ety \<or> RAFT_LOGTYPE_REMOVE_NODE = ety_type ety"

definition raft_entry_is_cfg_change :: "raft_entry \<Rightarrow> bool" where
  "raft_entry_is_cfg_change ety \<longleftrightarrow>
     RAFT_LOGTYPE_ADD_NODE = ety_type ety \<or>
     RAFT_LOGTYPE_ADD_NONVOTING_NODE = ety_type ety \<or>
     RAFT_LOGTYPE_REMOVE_NODE = ety_type ety"

lemma voting_cfg_change_is_cfg_change:
  "raft_entry_is_voting_cfg_change e \<Longrightarrow> raft_entry_is_cfg_change e"
  by (auto simp: raft_entry_is_voting_cfg_change_def raft_entry_is_cfg_change_def)

end
