(* ===== verification/Raft_Log.thy ===== *)
theory Raft_Log
  imports Raft_Types
begin

section \<open>The entry log (raft_log.c)\<close>

text \<open>
  \<^verbatim>\<open>log_private_t\<close> of \<^verbatim>\<open>src/src/raft_log.c\<close>: an array of \<open>l_size\<close> entries used as a queue, with
  the index of its first entry (\<open>l_front\<close>), one past its last (\<open>l_back\<close>), the number of entries
  and the number of entries already polled (\<open>l_base\<close>). The callbacks of the log are a parameter:
  they act on a state \<open>'x\<close> of their own (the raft server and its user data), and \<^verbatim>\<open>log_offer\<close> may
  replace the entry it is given, as its contract in \<^verbatim>\<open>raft.h\<close> allows. A callback does not touch
  the log itself. \<^verbatim>\<open>malloc\<close> does not fail.

  The abstract value of a log is the list of its live entries, \<open>log_abs\<close>. The locale \<open>entry_log\<close>
  is what the raft server relies on; the interpretation at the end discharges its laws for this
  log as long as nothing is polled, which is how the server uses it.
\<close>

record log_private =
  l_size :: int
  l_count :: int
  l_front :: int
  l_back :: int
  l_base :: int
  l_entries :: "raft_entry list"

record 'x log_cbs =
  cb_offer :: "(raft_entry \<Rightarrow> int \<Rightarrow> 'x \<Rightarrow> fault + raft_entry \<times> 'x) option"
  cb_poll :: "(raft_entry \<Rightarrow> int \<Rightarrow> 'x \<Rightarrow> fault + 'x) option"
  cb_pop :: "(raft_entry \<Rightarrow> int \<Rightarrow> 'x \<Rightarrow> fault + 'x) option"

definition INITIAL_CAPACITY :: int where
  "INITIAL_CAPACITY = 10"

fun ensure_copy ::
  "nat \<Rightarrow> log_private \<Rightarrow> int \<Rightarrow> int \<Rightarrow> raft_entry list \<Rightarrow> fault + raft_entry list" where
  "ensure_copy 0 me i j temp = Inr temp"
| "ensure_copy (Suc n) me i j temp =
     (let j = (if j = l_size me then 0 else j) in
      bindE (arr_get (l_entries me) j) (\<lambda>e.
      bindE (arr_set temp i e) (\<lambda>temp.
      ensure_copy n me (i + 1) (j + 1) temp)))"

definition ensurecapacity :: "log_private \<Rightarrow> fault + log_private" where
  "ensurecapacity me =
     (if l_count me < l_size me then Inr me
      else
        bindE (ensure_copy (nat (l_count me)) me 0 (l_front me)
                 (replicate (nat (l_size me * 2)) zero_entry)) (\<lambda>temp.
        Inr (me\<lparr>l_size := l_size me * 2, l_entries := temp, l_front := 0,
                l_back := l_count me\<rparr>)))"

definition log_new :: log_private where
  "log_new = \<lparr>l_size = INITIAL_CAPACITY, l_count = 0, l_front = 0, l_back = 0, l_base = 0,
     l_entries = replicate (nat INITIAL_CAPACITY) zero_entry\<rparr>"

definition call_offer ::
  "'x log_cbs \<Rightarrow> raft_entry \<Rightarrow> int \<Rightarrow> 'x \<Rightarrow> fault + raft_entry \<times> 'x" where
  "call_offer cbs c idx x = (case cb_offer cbs of None \<Rightarrow> Inr (c, x) | Some f \<Rightarrow> f c idx x)"

definition log_append_entry ::
  "'x log_cbs \<Rightarrow> log_private \<Rightarrow> raft_entry \<Rightarrow> 'x \<Rightarrow> fault + int \<times> log_private \<times> 'x" where
  "log_append_entry cbs me c x =
     (if ety_id c = 0 then Inr (-1, me, x)
      else
        bindE (ensurecapacity me) (\<lambda>me.
        bindE (call_offer cbs c (l_back me) x) (\<lambda>(c, x).
        bindE (arr_set (l_entries me) (l_back me) c) (\<lambda>es.
        Inr (0, me\<lparr>l_entries := es, l_count := l_count me + 1, l_back := l_back me + 1\<rparr>, x)))))"

text \<open>The pointer \<^verbatim>\<open>log_get_from_idx\<close> returns is the part of the array it can read; the number
  of entries goes with it.\<close>

definition log_get_from_idx ::
  "log_private \<Rightarrow> int \<Rightarrow> fault + (raft_entry list \<times> int) option" where
  "log_get_from_idx me idx =
     bindE (assertE (0 \<le> idx - 1)) (\<lambda>_.
     if l_base me + l_count me < idx \<or> idx < l_base me then Inr None
     else
       (let idx = idx - 1 in
        bindE (c_rem (l_front me + idx - l_base me) (l_size me)) (\<lambda>i.
        let logs_till_end_of_log =
          (if i < l_back me then l_back me - i else l_size me - i) in
        bindE (arr_get (l_entries me) i) (\<lambda>_.
        Inr (Some (drop (nat i) (l_entries me), logs_till_end_of_log))))))"

definition log_get_at_idx :: "log_private \<Rightarrow> int \<Rightarrow> fault + raft_entry option" where
  "log_get_at_idx me idx =
     bindE (assertE (0 \<le> idx - 1)) (\<lambda>_.
     if l_base me + l_count me < idx \<or> idx < l_base me then Inr None
     else
       (let idx = idx - 1 in
        bindE (c_rem (l_front me + idx - l_base me) (l_size me)) (\<lambda>i.
        bindE (arr_get (l_entries me) i) (\<lambda>e.
        Inr (Some e)))))"

definition log_count :: "log_private \<Rightarrow> int" where
  "log_count me = l_count me"

definition call_pop ::
  "'x log_cbs \<Rightarrow> log_private \<Rightarrow> 'x \<Rightarrow> fault + 'x" where
  "call_pop cbs me x = (case cb_pop cbs of None \<Rightarrow> Inr x
     | Some f \<Rightarrow> bindE (arr_get (l_entries me) (l_back me - 1)) (\<lambda>e. f e (l_back me) x))"

fun delete_loop ::
  "'x log_cbs \<Rightarrow> nat \<Rightarrow> log_private \<Rightarrow> 'x \<Rightarrow> fault + log_private \<times> 'x" where
  "delete_loop cbs 0 me x = Inr (me, x)"
| "delete_loop cbs (Suc n) me x =
     bindE (call_pop cbs me x) (\<lambda>x.
     delete_loop cbs n (me\<lparr>l_back := l_back me - 1, l_count := l_count me - 1\<rparr>) x)"

definition log_delete ::
  "'x log_cbs \<Rightarrow> log_private \<Rightarrow> int \<Rightarrow> 'x \<Rightarrow> fault + log_private \<times> 'x" where
  "log_delete cbs me idx x =
     (let idx = idx - 1 - l_base me in
      delete_loop cbs (nat (log_count me - idx)) me x)"

definition call_poll ::
  "'x log_cbs \<Rightarrow> raft_entry \<Rightarrow> int \<Rightarrow> 'x \<Rightarrow> fault + 'x" where
  "call_poll cbs e idx x = (case cb_poll cbs of None \<Rightarrow> Inr x | Some f \<Rightarrow> f e idx x)"

definition log_poll ::
  "'x log_cbs \<Rightarrow> log_private \<Rightarrow> 'x \<Rightarrow> fault + raft_entry option \<times> log_private \<times> 'x" where
  "log_poll cbs me x =
     (if 0 = log_count me then Inr (None, me, x)
      else
        bindE (arr_get (l_entries me) (l_front me)) (\<lambda>elem.
        bindE (call_poll cbs elem (l_front me) x) (\<lambda>x.
        Inr (Some elem, me\<lparr>l_front := l_front me + 1, l_count := l_count me - 1,
                           l_base := l_base me + 1\<rparr>, x))))"

definition log_peektail :: "log_private \<Rightarrow> fault + raft_entry option" where
  "log_peektail me =
     (if 0 = log_count me then Inr None
      else if 0 = l_back me then
        bindE (arr_get (l_entries me) (l_size me - 1)) (\<lambda>e. Inr (Some e))
      else
        bindE (arr_get (l_entries me) (l_back me - 1)) (\<lambda>e. Inr (Some e)))"

definition log_empty :: "log_private \<Rightarrow> log_private" where
  "log_empty me = me\<lparr>l_front := 0, l_back := 0, l_count := 0\<rparr>"

definition log_get_current_idx :: "log_private \<Rightarrow> int" where
  "log_get_current_idx me = log_count me + l_base me"

subsection \<open>Well-formed logs and their entries\<close>

definition log_wf :: "log_private \<Rightarrow> bool" where
  "log_wf me \<longleftrightarrow> 0 < l_size me \<and> length (l_entries me) = nat (l_size me) \<and>
     0 \<le> l_front me \<and> 0 \<le> l_count me \<and> l_back me = l_front me + l_count me \<and>
     l_back me \<le> l_size me \<and> 0 \<le> l_base me"

definition log_abs :: "log_private \<Rightarrow> raft_entry list" where
  "log_abs me = take (nat (l_count me)) (drop (nat (l_front me)) (l_entries me))"

lemma length_log_abs: "log_wf me \<Longrightarrow> length (log_abs me) = nat (l_count me)"
  by (auto simp: log_wf_def log_abs_def)

lemma log_abs_nth:
  "log_wf me \<Longrightarrow> i < nat (l_count me) \<Longrightarrow> log_abs me ! i = l_entries me ! (nat (l_front me) + i)"
  by (auto simp: log_wf_def log_abs_def)

lemma log_new_wf: "log_wf log_new" "log_abs log_new = []"
  by (simp_all add: log_wf_def log_new_def INITIAL_CAPACITY_def log_abs_def)

lemma log_count_abs: "log_wf me \<Longrightarrow> log_count me = int (length (log_abs me))"
  by (simp add: log_count_def length_log_abs) (simp add: log_wf_def)

lemma log_current_idx_abs:
  "log_wf me \<Longrightarrow> log_get_current_idx me = int (length (log_abs me)) + l_base me"
  by (simp add: log_get_current_idx_def log_count_abs)

subsection \<open>Reading\<close>

lemma slot_of_idx:
  assumes "log_wf me" "l_base me < idx" "idx \<le> l_base me + l_count me"
  shows "c_rem (l_front me + (idx - 1) - l_base me) (l_size me) =
     Inr (l_front me + (idx - 1) - l_base me)"
  using assms by (intro c_rem_less) (auto simp: log_wf_def)

lemma log_get_at_idx_abs:
  assumes wf: "log_wf me" and idx: "l_base me < idx"
  shows "log_get_at_idx me idx =
    Inr (if idx \<le> l_base me + l_count me then Some (log_abs me ! nat (idx - l_base me - 1)) else None)"
proof (cases "idx \<le> l_base me + l_count me")
  case True
  let ?i = "l_front me + (idx - 1) - l_base me"
  have b: "0 \<le> ?i" "?i < int (length (l_entries me))" "1 \<le> idx"
    using wf True idx by (auto simp: log_wf_def)
  have "nat ?i = nat (l_front me) + nat (idx - l_base me - 1)"
    using wf idx by (simp add: log_wf_def nat_add_distrib[symmetric] algebra_simps)
  moreover have "nat (idx - l_base me - 1) < nat (l_count me)"
    using True idx by linarith
  ultimately have "log_abs me ! nat (idx - l_base me - 1) = l_entries me ! nat ?i"
    using log_abs_nth[OF wf] by simp
  then show ?thesis
    using True idx b slot_of_idx[OF wf idx True]
    by (simp add: log_get_at_idx_def arr_get_nat Let_def)
next
  case False
  then show ?thesis using idx wf by (auto simp: log_get_at_idx_def log_wf_def)
qed

lemma log_get_from_idx_abs:
  assumes wf: "log_wf me" and idx: "l_base me < idx" "idx \<le> l_base me + l_count me"
  shows "\<exists>ptr. log_get_from_idx me idx = Inr (Some (ptr, l_base me + l_count me - (idx - 1))) \<and>
    take (nat (l_base me + l_count me - (idx - 1))) ptr = drop (nat (idx - l_base me - 1)) (log_abs me)"
proof -
  let ?i = "l_front me + (idx - 1) - l_base me"
  have b: "0 \<le> ?i" "?i < int (length (l_entries me))" "1 \<le> idx" "?i < l_back me"
    "l_back me - ?i = l_base me + l_count me - (idx - 1)"
    using wf idx by (auto simp: log_wf_def)
  then have "log_get_from_idx me idx =
      Inr (Some (drop (nat ?i) (l_entries me), l_base me + l_count me - (idx - 1)))"
    using idx slot_of_idx[OF wf idx] by (simp add: log_get_from_idx_def arr_get_nat Let_def)
  moreover have "nat ?i = nat (idx - l_base me - 1) + nat (l_front me)"
    "nat (l_count me) - nat (idx - l_base me - 1) = nat (l_base me + l_count me - (idx - 1))"
    using wf idx by (auto simp: log_wf_def)
  then have "take (nat (l_base me + l_count me - (idx - 1))) (drop (nat ?i) (l_entries me)) =
      drop (nat (idx - l_base me - 1)) (log_abs me)"
    by (simp add: log_abs_def drop_take)
  ultimately show ?thesis by blast
qed

subsection \<open>Appending\<close>

lemma ensure_copy_spec:
  assumes "length (l_entries me) = nat (l_size me)" "0 \<le> i" "0 \<le> j"
    "j + int n \<le> l_size me" "i + int n \<le> int (length temp)"
  shows "ensure_copy n me i j temp =
    Inr (take (nat i) temp @ take n (drop (nat j) (l_entries me)) @ drop (nat i + n) temp)"
  using assms
proof (induction n arbitrary: i j temp)
  case (Suc n)
  let ?e = "l_entries me ! nat j"
  have j: "j \<noteq> l_size me" "nat j < length (l_entries me)" "nat (j + 1) = Suc (nat j)"
    using Suc.prems by auto
  have i: "nat i < length temp" "nat (i + 1) = Suc (nat i)" using Suc.prems by auto
  have "ensure_copy (Suc n) me i j temp = ensure_copy n me (i + 1) (j + 1) (temp[nat i := ?e])"
    using Suc.prems j i by (simp add: arr_get_def arr_set_def Let_def)
  also have "\<dots> = Inr (take (Suc (nat i)) (temp[nat i := ?e]) @
      take n (drop (Suc (nat j)) (l_entries me)) @ drop (Suc (nat i) + n) (temp[nat i := ?e]))"
    using Suc.prems i j by (subst Suc.IH) (simp_all)
  also have "\<dots> = Inr (take (nat i) temp @ take (Suc n) (drop (nat j) (l_entries me)) @
      drop (nat i + Suc n) temp)"
    using i j by (simp add: take_Suc_conv_app_nth Cons_nth_drop_Suc[symmetric])
  finally show ?case .
qed simp

lemma ensurecapacity_spec:
  assumes wf: "log_wf me"
  shows "\<exists>me'. ensurecapacity me = Inr me' \<and> log_wf me' \<and> log_abs me' = log_abs me \<and>
    l_base me' = l_base me \<and> l_back me' = l_back me \<and> l_front me' = l_front me \<and>
    l_count me' = l_count me \<and> l_count me' < l_size me' \<and>
    (l_front me = 0 \<longrightarrow> l_back me' < l_size me') \<and>
    (l_count me < l_size me \<longrightarrow> me' = me)"
proof (cases "l_count me < l_size me")
  case True
  with wf show ?thesis by (auto simp: ensurecapacity_def log_wf_def)
next
  case False
  with wf have f: "l_front me = 0" "l_count me = l_size me" "l_back me = l_size me"
    "length (l_entries me) = nat (l_size me)" "0 < l_size me" "0 \<le> l_base me"
    by (auto simp: log_wf_def)
  have "ensure_copy (nat (l_size me)) me 0 0 (replicate (nat (l_size me * 2)) zero_entry) =
      Inr (l_entries me @ replicate (nat (l_size me)) zero_entry)"
    using f by (subst ensure_copy_spec) (auto simp: nat_mult_distrib)
  then show ?thesis
    using f False by (auto simp: ensurecapacity_def log_wf_def log_abs_def)
qed

lemma log_append_entry_spec:
  assumes wf: "log_wf me" and room: "l_front me = 0 \<or> l_back me < l_size me" and id: "ety_id c \<noteq> 0"
    and offer: "call_offer cbs c (l_back me) x = Inr (c', x')"
  shows "\<exists>me'. log_append_entry cbs me c x = Inr (0, me', x') \<and> log_wf me' \<and>
    log_abs me' = log_abs me @ [c'] \<and> l_base me' = l_base me \<and> l_front me' = l_front me"
proof -
  obtain m where m: "ensurecapacity me = Inr m" "log_wf m" "log_abs m = log_abs me"
    "l_base m = l_base me" "l_back m = l_back me" "l_front m = l_front me" "l_count m = l_count me"
    "l_count m < l_size m" "l_front me = 0 \<longrightarrow> l_back m < l_size m"
    "l_count me < l_size me \<longrightarrow> m = me"
    using ensurecapacity_spec[OF wf] by blast
  have lt: "l_back m < l_size m"
    using m room wf by (auto simp: log_wf_def)
  let ?m = "m\<lparr>l_entries := (l_entries m)[nat (l_back m) := c'], l_count := l_count m + 1,
    l_back := l_back m + 1\<rparr>"
  have "log_append_entry cbs me c x = Inr (0, ?m, x')"
    using id offer m lt by (auto simp: log_append_entry_def log_wf_def arr_set_def)
  moreover have "log_wf ?m" using m lt by (auto simp: log_wf_def)
  moreover have "log_abs ?m = log_abs m @ [c']"
  proof -
    have b: "nat (l_back m) = nat (l_front m) + nat (l_count m)"
      "nat (l_count m) < length (drop (nat (l_front m)) (l_entries m))"
      "nat (l_count m + 1) = Suc (nat (l_count m))"
      using m(2) lt by (auto simp: log_wf_def)
    then show ?thesis
      by (simp add: log_abs_def take_Suc_update drop_update_swap)
  qed
  ultimately show ?thesis using m by auto
qed

text \<open>After a poll the array can be full at its end while the count is below the size. Then
  \<^verbatim>\<open>__ensurecapacity\<close> does not grow it, \<open>l_back\<close> does not wrap, and the new entry is written
  behind the array.\<close>

lemma log_append_after_poll_oob:
  assumes wf: "log_wf me" and full: "0 < l_front me" "l_back me = l_size me" and id: "ety_id c \<noteq> 0"
    and offer: "call_offer cbs c (l_back me) x = Inr (c', x')"
  shows "log_append_entry cbs me c x = Inl Out_of_bounds"
proof -
  have "ensurecapacity me = Inr me" using wf full by (simp add: ensurecapacity_def log_wf_def)
  then show ?thesis
    using wf full id offer by (simp add: log_append_entry_def log_wf_def arr_set_oob)
qed

subsection \<open>Deleting, polling, peeking, emptying\<close>

lemma delete_loop_spec:
  "delete_loop cbs n me x = Inr (me', x') \<Longrightarrow>
     me' = me\<lparr>l_back := l_back me - int n, l_count := l_count me - int n\<rparr>"
proof (induction n arbitrary: me x)
  case (Suc n)
  then obtain x1 where
    "delete_loop cbs n (me\<lparr>l_back := l_back me - 1, l_count := l_count me - 1\<rparr>) x1 = Inr (me', x')"
    by auto
  from Suc.IH[OF this] show ?case by simp
qed simp

lemma log_delete_spec:
  assumes wf: "log_wf me" and idx: "l_base me < idx" and ret: "log_delete cbs me idx x = Inr (me', x')"
  shows "log_wf me' \<and> log_abs me' = take (nat (idx - l_base me - 1)) (log_abs me) \<and>
    l_base me' = l_base me \<and> l_front me' = l_front me \<and> l_size me' = l_size me"
proof -
  let ?n = "nat (l_count me - (idx - 1 - l_base me))"
  have m: "me' = me\<lparr>l_back := l_back me - int ?n, l_count := l_count me - int ?n\<rparr>"
    using ret by (auto simp: log_delete_def log_count_def Let_def dest: delete_loop_spec)
  have "min (nat (idx - l_base me - 1)) (nat (l_count me)) = nat (l_count me - int ?n)"
    using wf idx by (auto simp: log_wf_def)
  then have "log_abs me' = take (nat (idx - l_base me - 1)) (log_abs me)"
    by (simp add: m log_abs_def)
  moreover have "log_wf me'" using wf idx m by (auto simp: log_wf_def)
  ultimately show ?thesis by (simp add: m)
qed

text \<open>The pop callback sees the deleted entries from the youngest to the oldest.\<close>

definition pop_recorder :: "(raft_entry \<times> int) list log_cbs" where
  "pop_recorder = \<lparr>cb_offer = None, cb_poll = None, cb_pop = Some (\<lambda>e i x. Inr (x @ [(e, i)]))\<rparr>"

lemma delete_loop_pops:
  assumes "log_wf me" "int n \<le> l_count me"
  shows "\<exists>me'. delete_loop pop_recorder n me x =
     Inr (me', x @ zip (rev (drop (nat (l_count me) - n) (log_abs me)))
                      (map (\<lambda>i. l_back me - int i) [0..<n]))"
  using assms
proof (induction n arbitrary: me x)
  case (Suc n)
  let ?me = "me\<lparr>l_back := l_back me - 1, l_count := l_count me - 1\<rparr>"
  let ?k = "nat (l_count me - 1)"
  have k: "nat (l_count me) = Suc ?k" "?k - n = nat (l_count me) - Suc n" using Suc.prems by auto
  have wf: "log_wf ?me" "int n \<le> l_count ?me" using Suc.prems by (auto simp: log_wf_def)
  have e: "arr_get (l_entries me) (l_back me - 1) = Inr (log_abs me ! ?k)"
    using Suc.prems log_abs_nth[of me ?k] by (auto simp: log_wf_def nat_add_distrib nat_diff_distrib)
  have "log_abs ?me = take ?k (log_abs me)" using k by (simp add: log_abs_def)
  then have abs: "log_abs me = log_abs ?me @ [log_abs me ! ?k]"
    using take_Suc_conv_app_nth[of ?k "log_abs me"] length_log_abs[OF Suc.prems(1)] k by simp
  have len: "length (log_abs ?me) = ?k" using length_log_abs[OF wf(1)] by simp
  have "rev (drop (nat (l_count me) - Suc n) (log_abs me)) =
      (log_abs me ! ?k) # rev (drop (nat (l_count ?me) - n) (log_abs ?me))"
    using k len by (subst abs) simp
  moreover have "map (\<lambda>i. l_back me - int i) [0..<Suc n] =
      l_back me # map (\<lambda>i. l_back ?me - int i) [0..<n]"
    by (simp add: upt_conv_Cons map_Suc_upt[symmetric] del: upt_Suc)
  moreover obtain me' where "delete_loop pop_recorder n ?me (x @ [(log_abs me ! ?k, l_back me)]) =
     Inr (me', (x @ [(log_abs me ! ?k, l_back me)]) @
        zip (rev (drop (nat (l_count ?me) - n) (log_abs ?me))) (map (\<lambda>i. l_back ?me - int i) [0..<n]))"
    using Suc.IH[OF wf] by blast
  ultimately show ?case
    using e by (simp add: call_pop_def pop_recorder_def)
qed simp

lemma log_poll_spec:
  assumes wf: "log_wf me" and ret: "log_poll cbs me x = Inr (r, me', x')"
  shows "log_wf me' \<and> (case log_abs me of [] \<Rightarrow> r = None \<and> me' = me
     | e # es \<Rightarrow> r = Some e \<and> log_abs me' = es \<and> l_base me' = l_base me + 1)"
proof (cases "l_count me = 0")
  case True
  then have "log_abs me = []" by (simp add: log_abs_def)
  with True wf ret show ?thesis by (simp add: log_poll_def log_count_def)
next
  case False
  with ret wf have me': "me' = me\<lparr>l_front := l_front me + 1, l_count := l_count me - 1,
      l_base := l_base me + 1\<rparr>" and r: "r = Some (l_entries me ! nat (l_front me))"
    by (auto simp: log_poll_def log_count_def)
  have b: "nat (l_front me) < length (l_entries me)" "nat (l_front me + 1) = Suc (nat (l_front me))"
    "nat (l_count me) = Suc (nat (l_count me - 1))"
    using wf False by (auto simp: log_wf_def)
  have "log_abs me = (l_entries me ! nat (l_front me)) # log_abs me'"
    using b by (simp add: log_abs_def me' Cons_nth_drop_Suc[symmetric])
  then show ?thesis using r wf False by (auto simp: me' log_wf_def)
qed

lemma log_peektail_abs:
  assumes wf: "log_wf me"
  shows "log_peektail me = Inr (if log_abs me = [] then None else Some (last (log_abs me)))"
proof (cases "l_count me = 0")
  case True
  then show ?thesis by (simp add: log_peektail_def log_count_def log_abs_def)
next
  case False
  have ne: "log_abs me \<noteq> []" "length (log_abs me) = nat (l_count me)"
    using length_log_abs[OF wf] False wf by (auto simp: log_wf_def)
  then have "last (log_abs me) = log_abs me ! (nat (l_count me) - 1)"
    by (simp add: last_conv_nth)
  also have "\<dots> = l_entries me ! (nat (l_front me) + (nat (l_count me) - 1))"
    using ne by (intro log_abs_nth[OF wf]) (metis diff_less length_greater_0_conv zero_less_one)
  also have "nat (l_front me) + (nat (l_count me) - 1) = nat (l_back me - 1)"
    using wf False by (auto simp: log_wf_def)
  finally show ?thesis
    using wf False ne by (auto simp: log_peektail_def log_count_def log_wf_def arr_get_nat)
qed

lemma log_empty_spec: "log_wf me \<Longrightarrow> log_wf (log_empty me) \<and> log_abs (log_empty me) = []"
  by (auto simp: log_wf_def log_empty_def log_abs_def)

subsection \<open>The interface the raft server relies on\<close>

locale entry_log =
  fixes inv :: "'l \<Rightarrow> bool"
    and ents :: "'l \<Rightarrow> raft_entry list"
    and append :: "'l \<Rightarrow> raft_entry \<Rightarrow> 'x \<Rightarrow> fault + int \<times> 'l \<times> 'x"
    and get :: "'l \<Rightarrow> int \<Rightarrow> fault + raft_entry option"
    and del :: "'l \<Rightarrow> int \<Rightarrow> 'x \<Rightarrow> fault + 'l \<times> 'x"
    and cur :: "'l \<Rightarrow> int"
    and offered :: "raft_entry \<Rightarrow> raft_entry \<Rightarrow> bool"
  assumes cur: "inv l \<Longrightarrow> cur l = int (length (ents l))"
    and get: "inv l \<Longrightarrow> 1 \<le> i \<Longrightarrow>
      get l i = Inr (if i \<le> int (length (ents l)) then Some (ents l ! nat (i - 1)) else None)"
    and append: "inv l \<Longrightarrow> append l c x = Inr (r, l', x') \<Longrightarrow>
      (ety_id c = 0 \<and> r = -1 \<and> l' = l \<and> x' = x) \<or>
      (ety_id c \<noteq> 0 \<and> r = 0 \<and> inv l' \<and> (\<exists>c'. offered c c' \<and> ents l' = ents l @ [c']))"
    and del: "inv l \<Longrightarrow> 1 \<le> i \<Longrightarrow> del l i x = Inr (l', x') \<Longrightarrow>
      inv l' \<and> ents l' = take (nat (i - 1)) (ents l)"
begin

lemma get_Some_iff:
  "inv l \<Longrightarrow> 1 \<le> i \<Longrightarrow> get l i = Inr (Some e) \<longleftrightarrow> i \<le> cur l \<and> e = ents l ! nat (i - 1)"
  by (auto simp: get cur)

lemma get_None_iff: "inv l \<Longrightarrow> 1 \<le> i \<Longrightarrow> get l i = Inr None \<longleftrightarrow> cur l < i"
  by (auto simp: get cur)

lemma append_inv: "inv l \<Longrightarrow> append l c x = Inr (r, l', x') \<Longrightarrow> inv l'"
  using append by blast

lemma append_cur:
  "inv l \<Longrightarrow> append l c x = Inr (r, l', x') \<Longrightarrow> cur l' = (if ety_id c = 0 then cur l else cur l + 1)"
  using append[of l c x r l' x'] by (auto simp: cur)

lemma append_keeps:
  "inv l \<Longrightarrow> append l c x = Inr (r, l', x') \<Longrightarrow> 1 \<le> i \<Longrightarrow> i \<le> cur l \<Longrightarrow> get l' i = get l i"
  using append[of l c x r l' x'] by (auto simp: get cur nth_append)

lemma append_adds:
  assumes "inv l" "append l c x = Inr (r, l', x')" "ety_id c \<noteq> 0"
  shows "\<exists>c'. offered c c' \<and> get l' (cur l + 1) = Inr (Some c')"
proof -
  obtain c' where c': "offered c c'" "inv l'" "ents l' = ents l @ [c']"
    using append[OF assms(1,2)] assms(3) by blast
  then have "get l' (cur l + 1) = Inr (Some c')" using assms(1) by (simp add: get cur)
  with c' show ?thesis by blast
qed

lemma del_cur:
  "inv l \<Longrightarrow> 1 \<le> i \<Longrightarrow> del l i x = Inr (l', x') \<Longrightarrow> cur l' = min (i - 1) (cur l)"
  using del[of l i x l' x'] by (auto simp: cur)

lemma del_keeps:
  "inv l \<Longrightarrow> 1 \<le> i \<Longrightarrow> del l i x = Inr (l', x') \<Longrightarrow> 1 \<le> j \<Longrightarrow> j < i \<Longrightarrow> get l' j = get l j"
  using del[of l i x l' x'] by (auto simp: get)

lemma append_then_del:
  assumes "inv l" "append l c x = Inr (r, l1, x1)" "ety_id c \<noteq> 0"
    and "del l1 (cur l + 1) x1 = Inr (l2, x2)"
  shows "ents l2 = ents l"
proof -
  obtain c' where "inv l1" "ents l1 = ents l @ [c']"
    using append[OF assms(1,2)] assms(3) by blast
  then show ?thesis using del[OF _ _ assms(4)] assms(1) by (simp add: cur)
qed

end

text \<open>Nothing in the server polls the log: it stays at the start of its array.\<close>

definition log_live :: "log_private \<Rightarrow> bool" where
  "log_live me \<longleftrightarrow> log_wf me \<and> l_front me = 0 \<and> l_base me = 0"

lemma log_live_new: "log_live log_new"
  using log_new_wf(1) by (simp add: log_live_def log_new_def)

lemma log_append_ret:
  assumes live: "log_live me" and ret: "log_append_entry cbs me c x = Inr (r, me', x')"
    and id: "ety_id c \<noteq> 0"
  obtains c' where "call_offer cbs c (l_back me) x = Inr (c', x')" "r = 0" "log_live me'"
    "log_abs me' = log_abs me @ [c']"
proof -
  have wf: "log_wf me" and front: "l_front me = 0" using live by (auto simp: log_live_def)
  obtain m where m: "ensurecapacity me = Inr m" "l_back m = l_back me"
    using ensurecapacity_spec[OF wf] by blast
  have "\<exists>y. call_offer cbs c (l_back me) x = Inr y"
    using ret id m by (cases "call_offer cbs c (l_back me) x") (simp_all add: log_append_entry_def)
  then obtain c' x1 where c': "call_offer cbs c (l_back me) x = Inr (c', x1)"
    by auto
  obtain me2 where "log_append_entry cbs me c x = Inr (0, me2, x1)" "log_wf me2"
    "log_abs me2 = log_abs me @ [c']" "l_base me2 = l_base me" "l_front me2 = l_front me"
    using log_append_entry_spec[OF wf _ id c'] front by blast
  then show thesis using ret live c' that[of c'] by (simp add: log_live_def)
qed

interpretation rlog: entry_log log_live log_abs "log_append_entry cbs" log_get_at_idx
  "log_delete cbs" log_get_current_idx
  "\<lambda>c c'. \<exists>i x x'. call_offer cbs c i x = Inr (c', x')" for cbs
proof (unfold_locales, goal_cases)
  case (1 l)
  then show ?case by (simp add: log_live_def log_current_idx_abs)
next
  case (2 l i)
  then have "int (length (log_abs l)) = l_count l"
    using length_log_abs[of l] by (auto simp: log_live_def log_wf_def)
  with 2 show ?case using log_get_at_idx_abs[of l i] by (simp add: log_live_def)
next
  case (3 l c x r l' x')
  show ?case
  proof (cases "ety_id c = 0")
    case True
    with 3 show ?thesis by (simp add: log_append_entry_def)
  next
    case False
    obtain c' where "call_offer cbs c (l_back l) x = Inr (c', x')" "r = 0" "log_live l'"
      "log_abs l' = log_abs l @ [c']"
      by (rule log_append_ret[OF 3 False])
    then show ?thesis using False by metis
  qed
next
  case (4 l i x l' x')
  then show ?case using log_delete_spec[of l i cbs x l' x'] by (simp add: log_live_def)
qed

end
