(* ===== verification/Raft_Node.thy ===== *)
theory Raft_Node
  imports Raft_Types
begin

section \<open>Peers (raft_node.c)\<close>

text \<open>
  \<^verbatim>\<open>raft_node_private_t\<close> of \<^verbatim>\<open>src/src/raft_node.c\<close>. The flags are the bits of an \<^verbatim>\<open>int\<close>, kept as a
  \<open>32 word\<close>. The macros \<^verbatim>\<open>RAFT_NODE_VOTING\<close> (\<^verbatim>\<open>1 << 1\<close>) and \<^verbatim>\<open>RAFT_NODE_HAS_SUFFICIENT_LOG\<close>
  (\<^verbatim>\<open>1 << 2\<close>) are not parenthesised in the source: \<^verbatim>\<open>~RAFT_NODE_VOTING\<close> is \<^verbatim>\<open>(~1) << 1\<close>, and the
  model of \<^verbatim>\<open>raft_node_set_voting\<close> writes it so.
\<close>

record raft_node =
  nd_udata :: "addr option"
  nd_next_idx :: int
  nd_match_idx :: int
  nd_flags :: u32
  nd_id :: int

definition RAFT_NODE_VOTED_FOR_ME :: u32 where
  "RAFT_NODE_VOTED_FOR_ME = 1"

definition RAFT_NODE_VOTING :: u32 where
  "RAFT_NODE_VOTING = push_bit 1 1"

definition RAFT_NODE_HAS_SUFFICIENT_LOG :: u32 where
  "RAFT_NODE_HAS_SUFFICIENT_LOG = push_bit 2 1"

lemmas node_flag_defs =
  RAFT_NODE_VOTED_FOR_ME_def RAFT_NODE_VOTING_def RAFT_NODE_HAS_SUFFICIENT_LOG_def

definition raft_node_new :: "addr option \<Rightarrow> int \<Rightarrow> raft_node" where
  "raft_node_new udata node_id =
     \<lparr>nd_udata = udata, nd_next_idx = 1, nd_match_idx = 0, nd_flags = RAFT_NODE_VOTING,
      nd_id = node_id\<rparr>"

definition raft_node_get_next_idx :: "raft_node \<Rightarrow> int" where
  [simp]: "raft_node_get_next_idx me = nd_next_idx me"

definition raft_node_set_next_idx :: "int \<Rightarrow> raft_node \<Rightarrow> raft_node" where
  "raft_node_set_next_idx nextIdx me = me\<lparr>nd_next_idx := (if nextIdx < 1 then 1 else nextIdx)\<rparr>"

definition raft_node_get_match_idx :: "raft_node \<Rightarrow> int" where
  [simp]: "raft_node_get_match_idx me = nd_match_idx me"

definition raft_node_set_match_idx :: "int \<Rightarrow> raft_node \<Rightarrow> raft_node" where
  "raft_node_set_match_idx matchIdx me = me\<lparr>nd_match_idx := matchIdx\<rparr>"

definition raft_node_get_udata :: "raft_node \<Rightarrow> addr option" where
  [simp]: "raft_node_get_udata me = nd_udata me"

definition raft_node_set_udata :: "addr option \<Rightarrow> raft_node \<Rightarrow> raft_node" where
  "raft_node_set_udata udata me = me\<lparr>nd_udata := udata\<rparr>"

definition raft_node_vote_for_me :: "bool \<Rightarrow> raft_node \<Rightarrow> raft_node" where
  "raft_node_vote_for_me vote me =
     (if vote then me\<lparr>nd_flags := nd_flags me OR RAFT_NODE_VOTED_FOR_ME\<rparr>
      else me\<lparr>nd_flags := nd_flags me AND NOT RAFT_NODE_VOTED_FOR_ME\<rparr>)"

definition raft_node_has_vote_for_me :: "raft_node \<Rightarrow> bool" where
  "raft_node_has_vote_for_me me \<longleftrightarrow> nd_flags me AND RAFT_NODE_VOTED_FOR_ME \<noteq> 0"

definition raft_node_set_voting :: "bool \<Rightarrow> raft_node \<Rightarrow> raft_node" where
  "raft_node_set_voting voting me =
     (if voting then me\<lparr>nd_flags := nd_flags me OR RAFT_NODE_VOTING\<rparr>
      else me\<lparr>nd_flags := nd_flags me AND push_bit 1 (NOT 1)\<rparr>)"

definition raft_node_is_voting :: "raft_node \<Rightarrow> bool" where
  "raft_node_is_voting me \<longleftrightarrow> nd_flags me AND RAFT_NODE_VOTING \<noteq> 0"

definition raft_node_set_has_sufficient_logs :: "raft_node \<Rightarrow> raft_node" where
  "raft_node_set_has_sufficient_logs me = me\<lparr>nd_flags := nd_flags me OR RAFT_NODE_HAS_SUFFICIENT_LOG\<rparr>"

definition raft_node_has_sufficient_logs :: "raft_node \<Rightarrow> bool" where
  "raft_node_has_sufficient_logs me \<longleftrightarrow> nd_flags me AND RAFT_NODE_HAS_SUFFICIENT_LOG \<noteq> 0"

definition raft_node_get_id :: "raft_node \<Rightarrow> int" where
  [simp]: "raft_node_get_id me = nd_id me"

subsection \<open>The flags are independent bits\<close>

lemma and_bit_neq_0: "(w AND push_bit n 1 \<noteq> 0) = bit w n" for w :: "'a::len word"
  by (metis and_exp_eq_0_iff_not_bit push_bit_of_1)

lemma flag_bits:
  "raft_node_has_vote_for_me me = bit (nd_flags me) 0"
  "raft_node_is_voting me = bit (nd_flags me) 1"
  "raft_node_has_sufficient_logs me = bit (nd_flags me) 2"
  using and_bit_neq_0[of "nd_flags me" 0] and_bit_neq_0[of "nd_flags me" 1]
    and_bit_neq_0[of "nd_flags me" 2]
  by (simp_all add: raft_node_has_vote_for_me_def raft_node_is_voting_def
      raft_node_has_sufficient_logs_def node_flag_defs)

lemma bit_flag_constants: "bit (3::int) n = (n < 2)" "bit (4::int) n = (n = 2)"
  using bit_mask_iff[where 'a = int, of 2 n] bit_exp_iff[where 'a = int, of 2 n]
  by (auto simp: mask_numeral)

lemma set_voting_bits:
  "bit (nd_flags (raft_node_set_voting v me)) n =
     (if v then n = 1 \<or> bit (nd_flags me) n else 2 \<le> n \<and> bit (nd_flags me) n)"
  by (auto simp: raft_node_set_voting_def RAFT_NODE_VOTING_def bit_simps bit_flag_constants
      dest: bit_imp_le_length)

lemma vote_for_me_bits:
  "bit (nd_flags (raft_node_vote_for_me v me)) n =
     (if v then n = 0 \<or> bit (nd_flags me) n else n \<noteq> 0 \<and> bit (nd_flags me) n)"
  by (auto simp: raft_node_vote_for_me_def RAFT_NODE_VOTED_FOR_ME_def bit_simps
      dest: bit_imp_le_length)

lemma set_sufficient_bits:
  "bit (nd_flags (raft_node_set_has_sufficient_logs me)) n = (n = 2 \<or> bit (nd_flags me) n)"
  by (auto simp: raft_node_set_has_sufficient_logs_def RAFT_NODE_HAS_SUFFICIENT_LOG_def bit_simps
      bit_flag_constants dest: bit_imp_le_length)

lemmas node_flag_simps = flag_bits set_voting_bits vote_for_me_bits set_sufficient_bits

end
