(* ===== verification/Raft_Server.thy ===== *)
theory Raft_Server
  imports Raft_Log Raft_Node
begin

section \<open>The Raft server (raft_server.c, raft_server_properties.c, raft_private.h)\<close>

text \<open>
  \<^verbatim>\<open>raft_server_private_t\<close> of \<^verbatim>\<open>src/src/raft_private.h\<close> and the functions of
  \<^verbatim>\<open>src/src/raft_server.c\<close> and \<^verbatim>\<open>src/src/raft_server_properties.c\<close>.

  Peers live in a store \<open>node_heap\<close> indexed by address; \<open>nodes\<close> is the array of pointers, and
  \<open>srv_node\<close>, \<open>current_leader\<close> and the \<open>node\<close> arguments are pointers into the store (\<open>None\<close> is
  \<^verbatim>\<open>NULL\<close>). Reading through \<^verbatim>\<open>NULL\<close> or a freed address is a fault. \<open>next_addr\<close> is the address
  the next \<^verbatim>\<open>raft_node_new\<close> gets; allocation does not fail.

  The callbacks of \<^verbatim>\<open>raft_cbs_t\<close> are a parameter \<open>cbs\<close>, each of them optional, over a user state
  \<open>'w\<close>. Callbacks that send, persist or apply read the server and change the user state only;
  \<^verbatim>\<open>log_offer\<close> and \<^verbatim>\<open>node_has_sufficient_logs\<close> may also change the server (ticketd's add and
  remove peers and append entries from there). Their return codes are ignored by the library.
  \<^verbatim>\<open>rand\<close> draws from the user state. The debug logger \<^verbatim>\<open>__log\<close> and \<^verbatim>\<open>raft_free\<close> are left out.

  Every operation takes the server and the user state and returns either a fault or its result
  with both updated.
\<close>

record raft_server =
  current_term :: int
  voted_for :: int
  srv_log :: log_private
  commit_idx :: int
  last_applied_idx :: int
  srv_state :: raft_state_e
  timeout_elapsed :: int
  nodes :: "addr option list"
  num_nodes :: int
  election_timeout :: int
  request_timeout :: int
  current_leader :: "addr option"
  srv_node :: "addr option"
  voting_cfg_change_log_idx :: int
  node_heap :: "addr \<rightharpoonup> raft_node"
  next_addr :: addr

type_synonym 'w st = "raft_server \<times> 'w"

record 'w raft_cbs =
  send_requestvote :: "(raft_server \<Rightarrow> addr \<Rightarrow> msg_requestvote \<Rightarrow> 'w \<Rightarrow> fault + 'w) option"
  send_appendentries :: "(raft_server \<Rightarrow> addr \<Rightarrow> msg_appendentries \<Rightarrow> 'w \<Rightarrow> fault + 'w) option"
  applylog :: "(raft_server \<Rightarrow> raft_entry \<Rightarrow> 'w \<Rightarrow> fault + 'w) option"
  persist_vote :: "(raft_server \<Rightarrow> int \<Rightarrow> 'w \<Rightarrow> fault + 'w) option"
  persist_term :: "(raft_server \<Rightarrow> int \<Rightarrow> 'w \<Rightarrow> fault + 'w) option"
  log_offer :: "(raft_entry \<Rightarrow> int \<Rightarrow> 'w st \<Rightarrow> fault + raft_entry \<times> 'w st) option"
  log_poll_cb :: "(raft_server \<Rightarrow> raft_entry \<Rightarrow> int \<Rightarrow> 'w \<Rightarrow> fault + 'w) option"
  log_pop :: "(raft_server \<Rightarrow> raft_entry \<Rightarrow> int \<Rightarrow> 'w \<Rightarrow> fault + 'w) option"
  node_has_sufficient_logs :: "(addr \<Rightarrow> 'w st \<Rightarrow> fault + 'w st) option"
  rand_fn :: "'w \<Rightarrow> int \<times> 'w"

definition lift_cb ::
  "(raft_server \<Rightarrow> 'a \<Rightarrow> 'w \<Rightarrow> fault + 'w) option \<Rightarrow> 'a \<Rightarrow> 'w st \<Rightarrow> fault + 'w st" where
  "lift_cb cb a sw = (case cb of None \<Rightarrow> Inr sw
     | Some f \<Rightarrow> bindE (f (fst sw) a (snd sw)) (\<lambda>w. Inr (fst sw, w)))"

text \<open>\<^verbatim>\<open>raft_set_callbacks\<close> hands the callbacks of the log to the log.\<close>

definition raft_set_callbacks :: "'w raft_cbs \<Rightarrow> 'w st log_cbs" where
  "raft_set_callbacks cbs =
     \<lparr>cb_offer = log_offer cbs,
      cb_poll = map_option (\<lambda>f e i sw. bindE (f (fst sw) e i (snd sw)) (\<lambda>w. Inr (fst sw, w)))
                  (log_poll_cb cbs),
      cb_pop = map_option (\<lambda>f e i sw. bindE (f (fst sw) e i (snd sw)) (\<lambda>w. Inr (fst sw, w)))
                 (log_pop cbs)\<rparr>"

definition node_get :: "raft_server \<Rightarrow> addr option \<Rightarrow> fault + raft_node" where
  "node_get s p = deref (node_heap s) p"

definition node_upd ::
  "addr option \<Rightarrow> (raft_node \<Rightarrow> raft_node) \<Rightarrow> raft_server \<Rightarrow> fault + raft_server" where
  "node_upd p f s =
     bindE (node_get s p) (\<lambda>n. Inr (s\<lparr>node_heap := (node_heap s)(the p \<mapsto> f n)\<rparr>))"

text \<open>The elements of \<^verbatim>\<open>nodes\<close> a loop up to \<^verbatim>\<open>num_nodes\<close> reads.\<close>

definition node_array :: "raft_server \<Rightarrow> fault + addr option list" where
  "node_array s = (if num_nodes s \<le> int (length (nodes s))
     then Inr (take (nat (num_nodes s)) (nodes s)) else Inl Out_of_bounds)"

definition for_nodes ::
  "(addr option \<Rightarrow> 'w st \<Rightarrow> fault + 'w st) \<Rightarrow> 'w st \<Rightarrow> fault + 'w st" where
  "for_nodes body sw = bindE (node_array (fst sw)) (\<lambda>ps. foldE body ps sw)"

subsection \<open>Properties (raft_server_properties.c)\<close>

definition raft_set_election_timeout :: "int \<Rightarrow> raft_server \<Rightarrow> raft_server" where
  "raft_set_election_timeout millisec s = s\<lparr>election_timeout := millisec\<rparr>"

definition raft_set_request_timeout :: "int \<Rightarrow> raft_server \<Rightarrow> raft_server" where
  "raft_set_request_timeout millisec s = s\<lparr>request_timeout := millisec\<rparr>"

definition raft_get_nodeid :: "raft_server \<Rightarrow> fault + int" where
  "raft_get_nodeid s = bindE (node_get s (srv_node s)) (\<lambda>n. Inr (raft_node_get_id n))"

definition raft_get_log_count :: "raft_server \<Rightarrow> int" where
  "raft_get_log_count s = log_count (srv_log s)"

definition raft_set_current_term :: "'w raft_cbs \<Rightarrow> int \<Rightarrow> 'w st \<Rightarrow> fault + 'w st" where
  "raft_set_current_term cbs trm sw =
     (case sw of (s, w) \<Rightarrow>
      if current_term s < trm
      then lift_cb (persist_term cbs) trm (s\<lparr>current_term := trm, voted_for := -1\<rparr>, w)
      else Inr (s, w))"

definition raft_get_current_idx :: "raft_server \<Rightarrow> int" where
  "raft_get_current_idx s = log_get_current_idx (srv_log s)"

definition raft_set_commit_idx :: "int \<Rightarrow> raft_server \<Rightarrow> fault + raft_server" where
  "raft_set_commit_idx idx s =
     bindE (assertE (commit_idx s \<le> idx)) (\<lambda>_.
     bindE (assertE (idx \<le> raft_get_current_idx s)) (\<lambda>_.
     Inr (s\<lparr>commit_idx := idx\<rparr>)))"

definition raft_set_last_applied_idx :: "int \<Rightarrow> raft_server \<Rightarrow> raft_server" where
  "raft_set_last_applied_idx idx s = s\<lparr>last_applied_idx := idx\<rparr>"

definition raft_set_state :: "raft_state_e \<Rightarrow> raft_server \<Rightarrow> raft_server" where
  "raft_set_state new s =
     (let s = (if new = RAFT_STATE_LEADER then s\<lparr>current_leader := srv_node s\<rparr> else s) in
      s\<lparr>srv_state := new\<rparr>)"

fun find_node :: "raft_server \<Rightarrow> int \<Rightarrow> addr option list \<Rightarrow> fault + addr option" where
  "find_node s nodeid [] = Inr None"
| "find_node s nodeid (p # ps) =
     bindE (node_get s p) (\<lambda>n. if nodeid = raft_node_get_id n then Inr p else find_node s nodeid ps)"

definition raft_get_node :: "raft_server \<Rightarrow> int \<Rightarrow> fault + addr option" where
  "raft_get_node s nodeid = bindE (node_array s) (find_node s nodeid)"

definition raft_get_node_from_idx :: "raft_server \<Rightarrow> int \<Rightarrow> fault + addr option" where
  "raft_get_node_from_idx s idx = arr_get (nodes s) idx"

definition raft_get_current_leader :: "raft_server \<Rightarrow> fault + int" where
  "raft_get_current_leader s =
     (if current_leader s \<noteq> None
      then bindE (node_get s (current_leader s)) (\<lambda>n. Inr (raft_node_get_id n))
      else Inr (-1))"

definition raft_is_follower :: "raft_server \<Rightarrow> bool" where
  "raft_is_follower s \<longleftrightarrow> srv_state s = RAFT_STATE_FOLLOWER"

definition raft_is_leader :: "raft_server \<Rightarrow> bool" where
  "raft_is_leader s \<longleftrightarrow> srv_state s = RAFT_STATE_LEADER"

definition raft_is_candidate :: "raft_server \<Rightarrow> bool" where
  "raft_is_candidate s \<longleftrightarrow> srv_state s = RAFT_STATE_CANDIDATE"

definition raft_get_entry_from_idx :: "raft_server \<Rightarrow> int \<Rightarrow> fault + raft_entry option" where
  "raft_get_entry_from_idx s etyidx = log_get_at_idx (srv_log s) etyidx"

definition raft_get_last_log_term :: "raft_server \<Rightarrow> fault + int" where
  "raft_get_last_log_term s =
     (let current_idx = raft_get_current_idx s in
      if 0 < current_idx
      then bindE (raft_get_entry_from_idx s current_idx) (\<lambda>e.
           case e of Some ety \<Rightarrow> Inr (sint (ety_term ety)) | None \<Rightarrow> Inr 0)
      else Inr 0)"

text \<open>The plain getters.\<close>

definition raft_get_election_timeout :: "raft_server \<Rightarrow> int" where
  [simp]: "raft_get_election_timeout s = election_timeout s"

definition raft_get_request_timeout :: "raft_server \<Rightarrow> int" where
  [simp]: "raft_get_request_timeout s = request_timeout s"

definition raft_get_num_nodes :: "raft_server \<Rightarrow> int" where
  [simp]: "raft_get_num_nodes s = num_nodes s"

definition raft_get_timeout_elapsed :: "raft_server \<Rightarrow> int" where
  [simp]: "raft_get_timeout_elapsed s = timeout_elapsed s"

definition raft_get_voted_for :: "raft_server \<Rightarrow> int" where
  [simp]: "raft_get_voted_for s = voted_for s"

definition raft_get_current_term :: "raft_server \<Rightarrow> int" where
  [simp]: "raft_get_current_term s = current_term s"

definition raft_get_last_applied_idx :: "raft_server \<Rightarrow> int" where
  [simp]: "raft_get_last_applied_idx s = last_applied_idx s"

definition raft_get_commit_idx :: "raft_server \<Rightarrow> int" where
  [simp]: "raft_get_commit_idx s = commit_idx s"

definition raft_get_state :: "raft_server \<Rightarrow> raft_state_e" where
  [simp]: "raft_get_state s = srv_state s"

definition raft_get_current_leader_node :: "raft_server \<Rightarrow> addr option" where
  [simp]: "raft_get_current_leader_node s = current_leader s"

subsection \<open>Life cycle, votes and state changes\<close>

definition raft_new :: raft_server where
  "raft_new = raft_set_state RAFT_STATE_FOLLOWER
     \<lparr>current_term = 0, voted_for = -1, srv_log = log_new, commit_idx = 0, last_applied_idx = 0,
      srv_state = RAFT_STATE_NONE, timeout_elapsed = 0, nodes = [], num_nodes = 0,
      election_timeout = 1000, request_timeout = 200, current_leader = None, srv_node = None,
      voting_cfg_change_log_idx = -1, node_heap = Map.empty, next_addr = 0\<rparr>"

definition raft_already_voted :: "raft_server \<Rightarrow> bool" where
  "raft_already_voted s \<longleftrightarrow> -1 \<noteq> voted_for s"

definition raft_vote_for_nodeid :: "'w raft_cbs \<Rightarrow> int \<Rightarrow> 'w st \<Rightarrow> fault + 'w st" where
  "raft_vote_for_nodeid cbs nodeid sw =
     (case sw of (s, w) \<Rightarrow> lift_cb (persist_vote cbs) nodeid (s\<lparr>voted_for := nodeid\<rparr>, w))"

definition raft_vote :: "'w raft_cbs \<Rightarrow> addr option \<Rightarrow> 'w st \<Rightarrow> fault + 'w st" where
  "raft_vote cbs p sw =
     (if p \<noteq> None
      then bindE (node_get (fst sw) p) (\<lambda>n. raft_vote_for_nodeid cbs (raft_node_get_id n) sw)
      else raft_vote_for_nodeid cbs (-1) sw)"

definition raft_become_follower :: "raft_server \<Rightarrow> raft_server" where
  "raft_become_follower s = raft_set_state RAFT_STATE_FOLLOWER s"

definition raft_get_entries_from_idx ::
  "raft_server \<Rightarrow> int \<Rightarrow> fault + (raft_entry list \<times> int) option" where
  "raft_get_entries_from_idx s idx = log_get_from_idx (srv_log s) idx"

definition raft_send_appendentries ::
  "'w raft_cbs \<Rightarrow> addr option \<Rightarrow> 'w st \<Rightarrow> fault + int \<times> 'w st" where
  "raft_send_appendentries cbs p sw =
     (case sw of (s, w) \<Rightarrow>
      bindE (assertE (p \<noteq> None)) (\<lambda>_.
      bindE (assertE (p \<noteq> srv_node s)) (\<lambda>_.
      case send_appendentries cbs of
        None \<Rightarrow> Inr (-1, s, w)
      | Some send \<Rightarrow>
          bindE (node_get s p) (\<lambda>n.
          let next_idx = raft_node_get_next_idx n in
          bindE (raft_get_entries_from_idx s next_idx) (\<lambda>es.
          bindE (if 1 < next_idx
                 then bindE (raft_get_entry_from_idx s (next_idx - 1)) (\<lambda>prev_ety.
                      Inr (next_idx - 1,
                           case prev_ety of Some e \<Rightarrow> sint (ety_term e) | None \<Rightarrow> 0))
                 else Inr (0, 0)) (\<lambda>(prev_log_idx, prev_log_term).
          bindE (send s (the p)
                  \<lparr>ae_term = current_term s, ae_prev_log_idx = prev_log_idx,
                   ae_prev_log_term = prev_log_term, ae_leader_commit = commit_idx s,
                   ae_n_entries = (case es of Some (_, n) \<Rightarrow> n | None \<Rightarrow> 0),
                   ae_entries = (case es of Some (ptr, _) \<Rightarrow> ptr | None \<Rightarrow> [])\<rparr> w) (\<lambda>w.
          Inr (0, s, w))))))))"

definition raft_send_requestvote ::
  "'w raft_cbs \<Rightarrow> addr option \<Rightarrow> 'w st \<Rightarrow> fault + int \<times> 'w st" where
  "raft_send_requestvote cbs p sw =
     (case sw of (s, w) \<Rightarrow>
      bindE (assertE (p \<noteq> None)) (\<lambda>_.
      bindE (assertE (p \<noteq> srv_node s)) (\<lambda>_.
      bindE (raft_get_last_log_term s) (\<lambda>last_log_term.
      bindE (raft_get_nodeid s) (\<lambda>candidate_id.
      let rv = \<lparr>rv_term = current_term s, rv_candidate_id = candidate_id,
                rv_last_log_idx = raft_get_current_idx s, rv_last_log_term = last_log_term\<rparr> in
      case send_requestvote cbs of
        None \<Rightarrow> Inr (0, s, w)
      | Some send \<Rightarrow> bindE (send s (the p) rv w) (\<lambda>w. Inr (0, s, w)))))))"

text \<open>The test \<^verbatim>\<open>me->node == me->nodes[i] || !raft_node_is_voting(me->nodes[i])\<close>.\<close>

definition skip_peer :: "raft_server \<Rightarrow> addr option \<Rightarrow> fault + bool" where
  "skip_peer s p = (if srv_node s = p then Inr True
     else bindE (node_get s p) (\<lambda>n. Inr (\<not> raft_node_is_voting n)))"

definition become_leader_peer :: "'w raft_cbs \<Rightarrow> addr option \<Rightarrow> 'w st \<Rightarrow> fault + 'w st" where
  "become_leader_peer cbs p sw =
     bindE (skip_peer (fst sw) p) (\<lambda>skip.
     if skip then Inr sw
     else
       (case sw of (s, w) \<Rightarrow>
        bindE (node_upd p (raft_node_set_next_idx (raft_get_current_idx s + 1)) s) (\<lambda>s.
        bindE (node_upd p (raft_node_set_match_idx 0) s) (\<lambda>s.
        bindE (raft_send_appendentries cbs p (s, w)) (\<lambda>(_, sw). Inr sw)))))"

definition raft_become_leader :: "'w raft_cbs \<Rightarrow> 'w st \<Rightarrow> fault + 'w st" where
  "raft_become_leader cbs sw =
     (case sw of (s, w) \<Rightarrow>
      for_nodes (become_leader_peer cbs) (raft_set_state RAFT_STATE_LEADER s, w))"

definition clear_vote_peer :: "addr option \<Rightarrow> 'w st \<Rightarrow> fault + 'w st" where
  "clear_vote_peer p sw =
     (case sw of (s, w) \<Rightarrow>
      bindE (node_upd p (raft_node_vote_for_me False) s) (\<lambda>s. Inr (s, w)))"

definition request_vote_peer :: "'w raft_cbs \<Rightarrow> addr option \<Rightarrow> 'w st \<Rightarrow> fault + 'w st" where
  "request_vote_peer cbs p sw =
     bindE (skip_peer (fst sw) p) (\<lambda>skip.
     if skip then Inr sw
     else bindE (raft_send_requestvote cbs p sw) (\<lambda>(_, sw). Inr sw))"

definition raft_become_candidate :: "'w raft_cbs \<Rightarrow> 'w st \<Rightarrow> fault + 'w st" where
  "raft_become_candidate cbs sw =
     bindE (raft_set_current_term cbs (current_term (fst sw) + 1) sw) (\<lambda>sw.
     bindE (for_nodes clear_vote_peer sw) (\<lambda>sw.
     bindE (raft_vote cbs (srv_node (fst sw)) sw) (\<lambda>(s, w).
     let s = raft_set_state RAFT_STATE_CANDIDATE (s\<lparr>current_leader := None\<rparr>);
         (r, w) = rand_fn cbs w in
     bindE (c_rem r (election_timeout s)) (\<lambda>t.
     for_nodes (request_vote_peer cbs) (s\<lparr>timeout_elapsed := t\<rparr>, w)))))"

definition raft_election_start :: "'w raft_cbs \<Rightarrow> 'w st \<Rightarrow> fault + 'w st" where
  "raft_election_start cbs sw = raft_become_candidate cbs sw"

definition appendentries_all_peer :: "'w raft_cbs \<Rightarrow> addr option \<Rightarrow> 'w st \<Rightarrow> fault + 'w st" where
  "appendentries_all_peer cbs p sw =
     (if srv_node (fst sw) \<noteq> p
      then bindE (raft_send_appendentries cbs p sw) (\<lambda>(_, sw). Inr sw)
      else Inr sw)"

definition raft_send_appendentries_all :: "'w raft_cbs \<Rightarrow> 'w st \<Rightarrow> fault + 'w st" where
  "raft_send_appendentries_all cbs sw =
     (case sw of (s, w) \<Rightarrow> for_nodes (appendentries_all_peer cbs) (s\<lparr>timeout_elapsed := 0\<rparr>, w))"

subsection \<open>Appending, deleting and applying entries\<close>

definition raft_append_entry ::
  "'w raft_cbs \<Rightarrow> raft_entry \<Rightarrow> 'w st \<Rightarrow> fault + int \<times> 'w st" where
  "raft_append_entry cbs ety sw =
     (case sw of (s, w) \<Rightarrow>
      let s = (if raft_entry_is_voting_cfg_change ety
               then s\<lparr>voting_cfg_change_log_idx := raft_get_current_idx s\<rparr> else s) in
      bindE (log_append_entry (raft_set_callbacks cbs) (srv_log s) ety (s, w)) (\<lambda>(e, l, s, w).
      Inr (e, s\<lparr>srv_log := l\<rparr>, w)))"

definition srv_log_delete :: "'w raft_cbs \<Rightarrow> int \<Rightarrow> 'w st \<Rightarrow> fault + 'w st" where
  "srv_log_delete cbs idx sw =
     (case sw of (s, w) \<Rightarrow>
      bindE (log_delete (raft_set_callbacks cbs) (srv_log s) idx (s, w)) (\<lambda>(l, s, w).
      Inr (s\<lparr>srv_log := l\<rparr>, w)))"

definition raft_apply_entry :: "'w raft_cbs \<Rightarrow> 'w st \<Rightarrow> fault + int \<times> 'w st" where
  "raft_apply_entry cbs sw =
     (case sw of (s, w) \<Rightarrow>
      if last_applied_idx s = commit_idx s then Inr (-1, s, w)
      else
        (let log_idx = last_applied_idx s + 1 in
         bindE (raft_get_entry_from_idx s log_idx) (\<lambda>e.
         case e of
           None \<Rightarrow> Inr (-1, s, w)
         | Some e \<Rightarrow>
             bindE (lift_cb (applylog cbs) e (s\<lparr>last_applied_idx := last_applied_idx s + 1\<rparr>, w))
               (\<lambda>(s, w).
             Inr (0, if log_idx = voting_cfg_change_log_idx s
                     then s\<lparr>voting_cfg_change_log_idx := -1\<rparr> else s, w)))))"

text \<open>The loop of \<^verbatim>\<open>raft_apply_all\<close> ignores the result of \<^verbatim>\<open>raft_apply_entry\<close>: where the entry to
  apply is missing it never ends, which is \<open>None\<close> here.\<close>

partial_function (option) raft_apply_all ::
  "'w raft_cbs \<Rightarrow> 'w st \<Rightarrow> (fault + 'w st) option" where
  "raft_apply_all cbs sw =
     (if last_applied_idx (fst sw) < commit_idx (fst sw)
      then (case raft_apply_entry cbs sw of
              Inl f \<Rightarrow> Some (Inl f)
            | Inr (_, sw) \<Rightarrow> raft_apply_all cbs sw)
      else Some (Inr sw))"

definition raft_periodic :: "'w raft_cbs \<Rightarrow> int \<Rightarrow> 'w st \<Rightarrow> fault + int \<times> 'w st" where
  "raft_periodic cbs msec_since_last_period sw =
     (case sw of (s, w) \<Rightarrow>
      let s = s\<lparr>timeout_elapsed := timeout_elapsed s + msec_since_last_period\<rparr> in
      bindE (if srv_state s = RAFT_STATE_LEADER
             then (if request_timeout s \<le> timeout_elapsed s
                   then raft_send_appendentries_all cbs (s, w) else Inr (s, w))
             else if election_timeout s \<le> timeout_elapsed s
             then (if 1 < num_nodes s then raft_election_start cbs (s, w) else Inr (s, w))
             else Inr (s, w)) (\<lambda>(s, w).
      if last_applied_idx s < commit_idx s
      then bindE (raft_apply_entry cbs (s, w)) (\<lambda>(e, sw). Inr (if e = -1 then -1 else 0, sw))
      else Inr (0, s, w)))"

end
