(* ===== verification/Raft_Messages.thy ===== *)
theory Raft_Messages
  imports Raft_Server
begin

section \<open>Messages, entries and membership (raft_server.c)\<close>

text \<open>
  The handlers of the Raft server: append-entries requests and responses, vote requests and
  responses, client entries, and the changes of the set of peers. A handler returns its C
  result, the response it filled in and the new state. The \<^verbatim>\<open>goto\<close>s of
  \<^verbatim>\<open>raft_recv_appendentries\<close> are the constructors of \<open>flow\<close>.
\<close>

datatype 'a flow =
    Next 'a
  | Fail 'a
  | Fail_with_current_idx 'a

text \<open>Go on unless a failure label was taken.\<close>

definition bindF :: "fault + 'a flow \<Rightarrow> ('a \<Rightarrow> fault + 'a flow) \<Rightarrow> fault + 'a flow" where
  "bindF m k = bindE m (\<lambda>f. case f of Next y \<Rightarrow> k y | Fail y \<Rightarrow> Inr (Fail y)
     | Fail_with_current_idx y \<Rightarrow> Inr (Fail_with_current_idx y))"

type_synonym 'w ae_st = "msg_appendentries_response \<times> 'w st"

subsection \<open>raft_recv_appendentries\<close>

text \<open>The step on terms: candidates of the same term and servers of an older one step down, a
  request of an older term is refused.\<close>

definition ae_term_step ::
  "'w raft_cbs \<Rightarrow> msg_appendentries \<Rightarrow> 'w ae_st \<Rightarrow> fault + 'w ae_st flow" where
  "ae_term_step cbs ae x =
     (case x of (r, s, w) \<Rightarrow>
      if raft_is_candidate s \<and> current_term s = ae_term ae
      then Inr (Next (r, raft_become_follower (s\<lparr>voted_for := -1\<rparr>), w))
      else if current_term s < ae_term ae
      then bindE (raft_set_current_term cbs (ae_term ae) (s, w)) (\<lambda>(s, w).
           Inr (Next (r\<lparr>aer_term := ae_term ae\<rparr>, raft_become_follower s, w)))
      else if ae_term ae < current_term s
      then Inr (Fail_with_current_idx (r, s, w))
      else Inr (Next (r, s, w)))"

text \<open>The consistency check on the entry before the new ones.\<close>

definition ae_prev_step ::
  "'w raft_cbs \<Rightarrow> msg_appendentries \<Rightarrow> 'w ae_st \<Rightarrow> fault + 'w ae_st flow" where
  "ae_prev_step cbs ae x =
     (case x of (r, s, w) \<Rightarrow>
      if 0 < ae_prev_log_idx ae
      then
        bindE (raft_get_entry_from_idx s (ae_prev_log_idx ae)) (\<lambda>e.
        case e of
          None \<Rightarrow> Inr (Fail_with_current_idx (r, s, w))
        | Some e \<Rightarrow>
            if raft_get_current_idx s < ae_prev_log_idx ae
            then Inr (Fail_with_current_idx (r, s, w))
            else if ety_term e \<noteq> word_of_int (ae_prev_log_term ae)
            then
              bindE (assertE (commit_idx s < ae_prev_log_idx ae)) (\<lambda>_.
              bindE (srv_log_delete cbs (ae_prev_log_idx ae) (s, w)) (\<lambda>sw.
              Inr (Fail (r\<lparr>aer_current_idx := ae_prev_log_idx ae - 1\<rparr>, sw))))
            else Inr (Next (r, s, w)))
      else Inr (Next (r, s, w)))"

definition ae_heartbeat_step ::
  "'w raft_cbs \<Rightarrow> msg_appendentries \<Rightarrow> 'w st \<Rightarrow> fault + 'w st" where
  "ae_heartbeat_step cbs ae sw =
     (if ae_n_entries ae = 0 \<and> 0 < ae_prev_log_idx ae \<and>
         ae_prev_log_idx ae + 1 < raft_get_current_idx (fst sw)
      then bindE (assertE (commit_idx (fst sw) < ae_prev_log_idx ae + 1)) (\<lambda>_.
           srv_log_delete cbs (ae_prev_log_idx ae + 1) sw)
      else Inr sw)"

text \<open>The first loop: skip the entries the log already has; stop at the first missing one, or
  at the first conflict, which deletes the log from there on. \<open>n\<close> counts the remaining
  iterations.\<close>

fun ae_scan ::
  "'w raft_cbs \<Rightarrow> msg_appendentries \<Rightarrow> nat \<Rightarrow> int \<Rightarrow> 'w ae_st \<Rightarrow> fault + int \<times> 'w ae_st" where
  "ae_scan cbs ae 0 i x = Inr (i, x)"
| "ae_scan cbs ae (Suc n) i (r, s, w) =
     (let ety_index = ae_prev_log_idx ae + 1 + i in
      bindE (raft_get_entry_from_idx s ety_index) (\<lambda>existing_ety.
      let r = r\<lparr>aer_current_idx := ety_index\<rparr> in
      case existing_ety of
        None \<Rightarrow> Inr (i, r, s, w)
      | Some existing \<Rightarrow>
          bindE (arr_get (ae_entries ae) i) (\<lambda>ety.
          if ety_term existing \<noteq> ety_term ety
          then bindE (assertE (commit_idx s < ety_index)) (\<lambda>_.
               bindE (srv_log_delete cbs ety_index (s, w)) (\<lambda>sw. Inr (i, r, sw)))
          else ae_scan cbs ae n (i + 1) (r, s, w))))"

text \<open>The second loop: append what is left.\<close>

fun ae_append ::
  "'w raft_cbs \<Rightarrow> msg_appendentries \<Rightarrow> nat \<Rightarrow> int \<Rightarrow> 'w ae_st \<Rightarrow> fault + 'w ae_st flow" where
  "ae_append cbs ae 0 i x = Inr (Next x)"
| "ae_append cbs ae (Suc n) i (r, sw) =
     bindE (arr_get (ae_entries ae) i) (\<lambda>ety.
     bindE (raft_append_entry cbs ety sw) (\<lambda>(e, sw).
     if e = -1 then Inr (Fail_with_current_idx (r, sw))
     else ae_append cbs ae n (i + 1) (r\<lparr>aer_current_idx := ae_prev_log_idx ae + 1 + i\<rparr>, sw)))"

definition ae_commit_step :: "msg_appendentries \<Rightarrow> raft_server \<Rightarrow> fault + raft_server" where
  "ae_commit_step ae s =
     (if commit_idx s < ae_leader_commit ae
      then (let last_log_idx = max (raft_get_current_idx s) 1 in
            raft_set_commit_idx (min last_log_idx (ae_leader_commit ae)) s)
      else Inr s)"

text \<open>The body between the entry of the function and its two failure labels.\<close>

definition ae_body ::
  "'w raft_cbs \<Rightarrow> addr option \<Rightarrow> msg_appendentries \<Rightarrow> 'w ae_st \<Rightarrow> fault + 'w ae_st flow" where
  "ae_body cbs p ae x =
     bindF (ae_term_step cbs ae x) (\<lambda>y.
     bindF (ae_prev_step cbs ae y) (\<lambda>(r, sw).
     bindE (ae_heartbeat_step cbs ae sw) (\<lambda>sw.
     bindE (ae_scan cbs ae (nat (ae_n_entries ae)) 0
              (r\<lparr>aer_current_idx := ae_prev_log_idx ae\<rparr>, sw)) (\<lambda>(i, y).
     bindF (ae_append cbs ae (nat (ae_n_entries ae - i)) i y) (\<lambda>(r, s, w).
     bindE (ae_commit_step ae s) (\<lambda>s.
     Inr (Next (r\<lparr>aer_success := 1, aer_first_idx := ae_prev_log_idx ae + 1\<rparr>,
                s\<lparr>current_leader := p\<rparr>, w))))))))"

definition raft_recv_appendentries ::
  "'w raft_cbs \<Rightarrow> addr option \<Rightarrow> msg_appendentries \<Rightarrow> msg_appendentries_response \<Rightarrow> 'w st \<Rightarrow>
   fault + int \<times> msg_appendentries_response \<times> 'w st" where
  "raft_recv_appendentries cbs p ae r sw =
     (case sw of (s, w) \<Rightarrow>
      let s = s\<lparr>timeout_elapsed := 0\<rparr>; r = r\<lparr>aer_term := current_term s\<rparr> in
      bindE (ae_body cbs p ae (r, s, w)) (\<lambda>f.
      case f of
        Next (r, sw) \<Rightarrow> Inr (0, r, sw)
      | Fail_with_current_idx (r, sw) \<Rightarrow>
          Inr (-1, r\<lparr>aer_current_idx := raft_get_current_idx (fst sw), aer_success := 0,
                      aer_first_idx := 0\<rparr>, sw)
      | Fail (r, sw) \<Rightarrow> Inr (-1, r\<lparr>aer_success := 0, aer_first_idx := 0\<rparr>, sw)))"

subsection \<open>raft_recv_appendentries_response\<close>

definition aer_count_vote ::
  "raft_server \<Rightarrow> int \<Rightarrow> addr option \<Rightarrow> int \<Rightarrow> fault + int" where
  "aer_count_vote s point p votes =
     bindE (skip_peer s p) (\<lambda>skip.
     if skip then Inr votes
     else
       bindE (node_get s p) (\<lambda>n.
       let match_idx = raft_node_get_match_idx n in
       if 0 < match_idx
       then bindE (raft_get_entry_from_idx s match_idx) (\<lambda>ety.
            case ety of
              None \<Rightarrow> Inl Null_deref
            | Some ety \<Rightarrow>
                Inr (if ety_term ety = word_of_int (current_term s) \<and> point \<le> match_idx
                     then votes + 1 else votes))
       else Inr votes))"

definition aer_update_commit :: "int \<Rightarrow> raft_server \<Rightarrow> fault + raft_server" where
  "aer_update_commit point s =
     bindE (node_array s) (\<lambda>ps.
     bindE (foldE (aer_count_vote s point) ps 1) (\<lambda>votes.
     if c_div (num_nodes s) 2 < votes \<and> commit_idx s < point
     then raft_set_commit_idx point s else Inr s))"

definition aer_sufficient_logs ::
  "'w raft_cbs \<Rightarrow> addr option \<Rightarrow> msg_appendentries_response \<Rightarrow> 'w st \<Rightarrow> fault + 'w st" where
  "aer_sufficient_logs cbs p r sw =
     (case sw of (s, w) \<Rightarrow>
      bindE (node_get s p) (\<lambda>n.
      case node_has_sufficient_logs cbs of
        None \<Rightarrow> Inr (s, w)
      | Some f \<Rightarrow>
          if \<not> raft_node_is_voting n \<and> -1 = voting_cfg_change_log_idx s \<and>
             raft_get_current_idx s \<le> aer_current_idx r + 1 \<and> \<not> raft_node_has_sufficient_logs n
          then bindE (node_upd p raft_node_set_has_sufficient_logs s) (\<lambda>s. f (the p) (s, w))
          else Inr (s, w)))"

definition aer_failure ::
  "'w raft_cbs \<Rightarrow> addr option \<Rightarrow> msg_appendentries_response \<Rightarrow> 'w st \<Rightarrow> fault + int \<times> 'w st" where
  "aer_failure cbs p r sw =
     (case sw of (s, w) \<Rightarrow>
      bindE (node_get s p) (\<lambda>n.
      let next_idx = raft_node_get_next_idx n in
      bindE (assertE (0 \<le> next_idx)) (\<lambda>_.
      bindE (if aer_current_idx r < next_idx - 1
             then node_upd p (raft_node_set_next_idx
                    (min (aer_current_idx r + 1) (raft_get_current_idx s))) s
             else node_upd p (raft_node_set_next_idx (next_idx - 1)) s) (\<lambda>s.
      bindE (raft_send_appendentries cbs p (s, w)) (\<lambda>(_, sw). Inr (0, sw))))))"

definition aer_success_step ::
  "'w raft_cbs \<Rightarrow> addr option \<Rightarrow> msg_appendentries_response \<Rightarrow> 'w st \<Rightarrow> fault + int \<times> 'w st" where
  "aer_success_step cbs p r sw =
     (case sw of (s, w) \<Rightarrow>
      bindE (assertE (aer_current_idx r \<le> raft_get_current_idx s)) (\<lambda>_.
      bindE (node_upd p (raft_node_set_next_idx (aer_current_idx r + 1)) s) (\<lambda>s.
      bindE (node_upd p (raft_node_set_match_idx (aer_current_idx r)) s) (\<lambda>s.
      bindE (aer_sufficient_logs cbs p r (s, w)) (\<lambda>(s, w).
      bindE (aer_update_commit (aer_current_idx r) s) (\<lambda>s.
      bindE (node_get s p) (\<lambda>n.
      bindE (raft_get_entry_from_idx s (raft_node_get_next_idx n)) (\<lambda>e.
      if e \<noteq> None
      then bindE (raft_send_appendentries cbs p (s, w)) (\<lambda>(_, sw). Inr (0, sw))
      else Inr (0, s, w)))))))))"

definition raft_recv_appendentries_response ::
  "'w raft_cbs \<Rightarrow> addr option \<Rightarrow> msg_appendentries_response \<Rightarrow> 'w st \<Rightarrow> fault + int \<times> 'w st" where
  "raft_recv_appendentries_response cbs p r sw =
     (case sw of (s, w) \<Rightarrow>
      bindE (if aer_current_idx r \<noteq> 0
             then bindE (node_get s p) (\<lambda>n. Inr (aer_current_idx r \<le> raft_node_get_match_idx n))
             else Inr False) (\<lambda>stale.
      if stale then Inr (0, s, w)
      else if \<not> raft_is_leader s then Inr (-1, s, w)
      else if current_term s < aer_term r
      then bindE (raft_set_current_term cbs (aer_term r) (s, w)) (\<lambda>(s, w).
           Inr (0, raft_become_follower s, w))
      else if current_term s \<noteq> aer_term r then Inr (0, s, w)
      else if p = None then Inr (0, s, w)
      else if 0 = aer_success r then aer_failure cbs p r (s, w)
      else aer_success_step cbs p r (s, w)))"

subsection \<open>Votes\<close>

definition should_grant_vote :: "raft_server \<Rightarrow> msg_requestvote \<Rightarrow> fault + bool" where
  "should_grant_vote s vr =
     (if rv_term vr < current_term s then Inr False
      else if raft_already_voted s then Inr False
      else
        (let current_idx = raft_get_current_idx s in
         if 0 = current_idx then Inr True
         else
           bindE (raft_get_entry_from_idx s current_idx) (\<lambda>e.
           case e of
             None \<Rightarrow> Inl Null_deref
           | Some e \<Rightarrow>
               if ety_term e < word_of_int (rv_last_log_term vr) then Inr True
               else if word_of_int (rv_last_log_term vr) = ety_term e \<and>
                       current_idx \<le> rv_last_log_idx vr then Inr True
               else Inr False)))"

definition raft_recv_requestvote ::
  "'w raft_cbs \<Rightarrow> msg_requestvote \<Rightarrow> msg_requestvote_response \<Rightarrow> 'w st \<Rightarrow>
   fault + int \<times> msg_requestvote_response \<times> 'w st" where
  "raft_recv_requestvote cbs vr r sw =
     bindE (if current_term (fst sw) < rv_term vr
            then bindE (raft_set_current_term cbs (rv_term vr) sw) (\<lambda>(s, w).
                 Inr (raft_become_follower s, w))
            else Inr sw) (\<lambda>(s, w).
     bindE (should_grant_vote s vr) (\<lambda>grant.
     if grant
     then
       bindE (assertE (\<not> (raft_is_leader s \<or> raft_is_candidate s))) (\<lambda>_.
       bindE (raft_vote_for_nodeid cbs (rv_candidate_id vr) (s, w)) (\<lambda>(s, w).
       Inr (0, r\<lparr>rvr_vote_granted := 1, rvr_term := current_term s\<rparr>,
            s\<lparr>current_leader := None, timeout_elapsed := 0\<rparr>, w)))
     else Inr (0, r\<lparr>rvr_vote_granted := 0, rvr_term := current_term s\<rparr>, s, w)))"

definition raft_votes_is_majority :: "int \<Rightarrow> int \<Rightarrow> bool" where
  "raft_votes_is_majority num nvotes \<longleftrightarrow>
     (if num < nvotes then False else (let half = c_div num 2 in half + 1 \<le> nvotes))"

definition count_vote_peer :: "raft_server \<Rightarrow> addr option \<Rightarrow> int \<Rightarrow> fault + int" where
  "count_vote_peer s p votes =
     bindE (skip_peer s p) (\<lambda>skip.
     if skip then Inr votes
     else bindE (node_get s p) (\<lambda>n.
          Inr (if raft_node_has_vote_for_me n then votes + 1 else votes)))"

definition raft_get_nvotes_for_me :: "raft_server \<Rightarrow> fault + int" where
  "raft_get_nvotes_for_me s =
     bindE (node_array s) (\<lambda>ps.
     bindE (foldE (count_vote_peer s) ps 0) (\<lambda>votes.
     bindE (raft_get_nodeid s) (\<lambda>nodeid.
     Inr (if voted_for s = nodeid then votes + 1 else votes))))"

definition raft_recv_requestvote_response ::
  "'w raft_cbs \<Rightarrow> addr option \<Rightarrow> msg_requestvote_response \<Rightarrow> 'w st \<Rightarrow> fault + int \<times> 'w st" where
  "raft_recv_requestvote_response cbs p r sw =
     (case sw of (s, w) \<Rightarrow>
      if \<not> raft_is_candidate s then Inr (0, s, w)
      else if current_term s < rvr_term r
      then bindE (raft_set_current_term cbs (rvr_term r) (s, w)) (\<lambda>(s, w).
           Inr (0, raft_become_follower s, w))
      else if current_term s \<noteq> rvr_term r then Inr (0, s, w)
      else if 1 = rvr_vote_granted r
      then
        bindE (if p \<noteq> None then node_upd p (raft_node_vote_for_me True) s else Inr s) (\<lambda>s.
        bindE (raft_get_nvotes_for_me s) (\<lambda>votes.
        if raft_votes_is_majority (num_nodes s) votes
        then bindE (raft_become_leader cbs (s, w)) (\<lambda>sw. Inr (0, sw))
        else Inr (0, s, w)))
      else Inr (0, s, w))"

subsection \<open>Client entries\<close>

definition recv_entry_peer :: "'w raft_cbs \<Rightarrow> addr option \<Rightarrow> 'w st \<Rightarrow> fault + 'w st" where
  "recv_entry_peer cbs p sw =
     (if srv_node (fst sw) = p \<or> p = None then Inr sw
      else
        bindE (node_get (fst sw) p) (\<lambda>n.
        if \<not> raft_node_is_voting n then Inr sw
        else if raft_node_get_next_idx n = raft_get_current_idx (fst sw)
        then bindE (raft_send_appendentries cbs p sw) (\<lambda>(_, sw). Inr sw)
        else Inr sw))"

definition raft_recv_entry ::
  "'w raft_cbs \<Rightarrow> raft_entry \<Rightarrow> msg_entry_response \<Rightarrow> 'w st \<Rightarrow>
   fault + int \<times> msg_entry_response \<times> 'w st" where
  "raft_recv_entry cbs e r sw =
     (case sw of (s, w) \<Rightarrow>
      if raft_entry_is_voting_cfg_change e \<and> -1 \<noteq> voting_cfg_change_log_idx s
      then Inr (-1, r, s, w)
      else if \<not> raft_is_leader s then Inr (-1, r, s, w)
      else
        bindE (raft_append_entry cbs
                 \<lparr>ety_term = word_of_int (current_term s), ety_id = ety_id e,
                  ety_type = ety_type e, ety_data = ety_data e\<rparr> (s, w)) (\<lambda>(_, sw).
        bindE (for_nodes (recv_entry_peer cbs) sw) (\<lambda>(s, w).
        let s = (if 1 = num_nodes s then s\<lparr>commit_idx := raft_get_current_idx s\<rparr> else s);
            r = r\<lparr>mer_id := ety_id e, mer_idx := raft_get_current_idx s,
                  mer_term := current_term s\<rparr>;
            s = (if raft_entry_is_voting_cfg_change e
                 then s\<lparr>voting_cfg_change_log_idx := raft_get_current_idx s\<rparr> else s) in
        Inr (0, r, s, w))))"

definition raft_msg_entry_response_committed ::
  "raft_server \<Rightarrow> msg_entry_response \<Rightarrow> fault + int" where
  "raft_msg_entry_response_committed s r =
     bindE (raft_get_entry_from_idx s (mer_idx r)) (\<lambda>ety.
     case ety of
       None \<Rightarrow> Inr 0
     | Some ety \<Rightarrow>
         if word_of_int (mer_term r) \<noteq> ety_term ety then Inr (-1)
         else Inr (if mer_idx r \<le> commit_idx s then 1 else 0))"

subsection \<open>Membership\<close>

definition raft_add_node ::
  "addr option \<Rightarrow> int \<Rightarrow> bool \<Rightarrow> raft_server \<Rightarrow> fault + addr option \<times> raft_server" where
  "raft_add_node udata node_id is_self s =
     bindE (raft_get_node s node_id) (\<lambda>p.
     if p \<noteq> None
     then bindE (node_upd p (raft_node_set_voting True) s) (\<lambda>s. Inr (p, s))
     else if num_nodes s < 0 then Inl Out_of_bounds
     else
       (let a = next_addr s;
            s = s\<lparr>num_nodes := num_nodes s + 1,
                  nodes := take (nat (num_nodes s)) (nodes s) @ [Some a],
                  node_heap := (node_heap s)(a \<mapsto> raft_node_new udata node_id),
                  next_addr := Suc a\<rparr> in
        Inr (Some a, if is_self then s\<lparr>srv_node := Some a\<rparr> else s)))"

definition raft_add_non_voting_node ::
  "addr option \<Rightarrow> int \<Rightarrow> bool \<Rightarrow> raft_server \<Rightarrow> fault + addr option \<times> raft_server" where
  "raft_add_non_voting_node udata node_id is_self s =
     bindE (raft_add_node udata node_id is_self s) (\<lambda>(p, s).
     bindE (node_upd p (raft_node_set_voting False) s) (\<lambda>s. Inr (p, s)))"

text \<open>\<^verbatim>\<open>raft_remove_node\<close> copies every pointer but \<open>p\<close> to an array of \<^verbatim>\<open>num_nodes - 1\<close> pointers.\<close>

definition raft_remove_node :: "addr option \<Rightarrow> raft_server \<Rightarrow> fault + raft_server" where
  "raft_remove_node p s =
     bindE (node_array s) (\<lambda>ps.
     let kept = filter (\<lambda>q. q \<noteq> p) ps; room = nat (num_nodes s - 1) in
     if room < length kept then Inl Out_of_bounds
     else
       Inr (s\<lparr>num_nodes := num_nodes s - 1,
              nodes := kept @ replicate (room - length kept) None,
              node_heap := (case p of None \<Rightarrow> node_heap s | Some a \<Rightarrow> (node_heap s)(a := None))\<rparr>))"

end
