(* ===== verification/Raft_Invariants.thy ===== *)
theory Raft_Invariants
  imports Raft_Messages
begin

section \<open>Invariants of the Raft server\<close>

text \<open>
  The well-formedness of a server and the relation between the states before and after an
  operation. \<open>nodes_wf\<close>: the peer array is full, its pointers are distinct and live, and every
  peer's next index is at least 1. \<open>idx_wf\<close>: applied entries are committed and committed
  entries are in the log. \<open>evolves\<close>: terms, the commit index and the applied index never
  decrease, and the committed entries stay what they are.

  The locale \<open>raft_env\<close> states what the server relies on from its callbacks: \<^verbatim>\<open>log_offer\<close> may
  replace the data of the entry and change the set of peers, and nothing else of the server;
  \<^verbatim>\<open>node_has_sufficient_logs\<close> may do what the server's own operations do.
\<close>

definition nodes_wf :: "raft_server \<Rightarrow> bool" where
  "nodes_wf s \<longleftrightarrow> nat (num_nodes s) = length (nodes s) \<and>
     (\<forall>p \<in> set (nodes s). \<exists>a. p = Some a \<and> a \<in> dom (node_heap s)) \<and>
     distinct (nodes s) \<and> (\<forall>a \<in> dom (node_heap s). a < next_addr s) \<and>
     (\<forall>a n. node_heap s a = Some n \<longrightarrow> 1 \<le> nd_next_idx n)"

definition idx_wf :: "raft_server \<Rightarrow> bool" where
  "idx_wf s \<longleftrightarrow> 0 \<le> last_applied_idx s \<and> last_applied_idx s \<le> commit_idx s \<and>
     commit_idx s \<le> raft_get_current_idx s"

definition srv_inv :: "raft_server \<Rightarrow> bool" where
  "srv_inv s \<longleftrightarrow> nodes_wf s \<and> log_live (srv_log s) \<and> idx_wf s"

abbreviation entries_of :: "raft_server \<Rightarrow> raft_entry list" where
  "entries_of s \<equiv> log_abs (srv_log s)"

definition evolves :: "raft_server \<Rightarrow> raft_server \<Rightarrow> bool" where
  "evolves s s' \<longleftrightarrow> current_term s \<le> current_term s' \<and> commit_idx s \<le> commit_idx s' \<and>
     last_applied_idx s \<le> last_applied_idx s' \<and>
     take (nat (commit_idx s)) (entries_of s') = take (nat (commit_idx s)) (entries_of s)"

definition step_ok :: "raft_server \<Rightarrow> raft_server \<Rightarrow> bool" where
  "step_ok s s' \<longleftrightarrow> srv_inv s' \<and> evolves s s'"

text \<open>The fields a change of peers leaves alone.\<close>

definition peers_only :: "raft_server \<Rightarrow> raft_server \<Rightarrow> bool" where
  "peers_only s s' \<longleftrightarrow>
     s' = s\<lparr>nodes := nodes s', num_nodes := num_nodes s', srv_node := srv_node s',
            node_heap := node_heap s', next_addr := next_addr s'\<rparr>"

text \<open>The fields the index and log invariants depend on.\<close>

definition same_core :: "raft_server \<Rightarrow> raft_server \<Rightarrow> bool" where
  "same_core s s' \<longleftrightarrow> srv_log s' = srv_log s \<and> commit_idx s' = commit_idx s \<and>
     last_applied_idx s' = last_applied_idx s \<and> current_term s' = current_term s"

lemma evolves_refl [simp]: "evolves s s"
  by (simp add: evolves_def)

lemma evolves_trans:
  assumes "evolves a b" "evolves b c"
  shows "evolves a c"
proof -
  let ?m = "nat (commit_idx a)" and ?n = "nat (commit_idx b)"
  have mn: "?m \<le> ?n" using assms(1) by (auto simp: evolves_def)
  have "take ?m (take ?n (entries_of c)) = take ?m (take ?n (entries_of b))"
    using assms(2) by (simp add: evolves_def)
  then have "take ?m (entries_of c) = take ?m (entries_of a)"
    using assms(1) mn by (simp add: evolves_def min_absorb1)
  with assms show ?thesis by (auto simp: evolves_def)
qed

lemma step_ok_refl: "srv_inv s \<Longrightarrow> step_ok s s"
  by (simp add: step_ok_def)

lemma step_ok_trans [trans]: "step_ok a b \<Longrightarrow> step_ok b c \<Longrightarrow> step_ok a c"
  by (auto simp: step_ok_def intro: evolves_trans)

lemma step_ok_inv: "step_ok a b \<Longrightarrow> srv_inv b"
  by (simp add: step_ok_def)

lemma same_core_step:
  "same_core s s' \<Longrightarrow> nodes_wf s' \<Longrightarrow> srv_inv s \<Longrightarrow> step_ok s s'"
  by (auto simp: step_ok_def srv_inv_def idx_wf_def evolves_def same_core_def
      raft_get_current_idx_def)

lemma same_core_refl [simp]: "same_core s s"
  by (simp add: same_core_def)

lemma same_core_trans: "same_core a b \<Longrightarrow> same_core b c \<Longrightarrow> same_core a c"
  by (simp add: same_core_def)

lemma current_idx_len: "log_live (srv_log s) \<Longrightarrow> raft_get_current_idx s = int (length (entries_of s))"
  by (simp add: raft_get_current_idx_def rlog.cur)

lemma srv_inv_current_idx:
  "srv_inv s \<Longrightarrow> raft_get_current_idx s = int (length (entries_of s))"
  by (simp add: srv_inv_def current_idx_len)

subsection \<open>Exact effects of the elementary operations\<close>

lemma lift_cb_server: "lift_cb cb a sw = Inr sw' \<Longrightarrow> fst sw' = fst sw"
  by (auto simp: lift_cb_def split: option.splits)

lemma set_current_term_effect:
  "raft_set_current_term cbs t (s, w) = Inr (s', w') \<Longrightarrow>
     s' = (if current_term s < t then s\<lparr>current_term := t, voted_for := -1\<rparr> else s)"
  by (auto simp: raft_set_current_term_def dest: lift_cb_server split: if_splits)

lemma vote_for_nodeid_effect:
  "raft_vote_for_nodeid cbs n (s, w) = Inr (s', w') \<Longrightarrow> s' = s\<lparr>voted_for := n\<rparr>"
  by (auto simp: raft_vote_for_nodeid_def dest: lift_cb_server)

lemma vote_effect:
  "raft_vote cbs p (s, w) = Inr (s', w') \<Longrightarrow> \<exists>v. s' = s\<lparr>voted_for := v\<rparr> \<and>
     (p = None \<longrightarrow> v = -1) \<and> (\<forall>n. node_get s p = Inr n \<longrightarrow> v = nd_id n)"
  by (auto simp: raft_vote_def node_get_def dest!: vote_for_nodeid_effect split: if_splits)

lemma set_commit_idx_effect:
  "raft_set_commit_idx idx s = Inr s' \<longleftrightarrow>
     commit_idx s \<le> idx \<and> idx \<le> raft_get_current_idx s \<and> s' = s\<lparr>commit_idx := idx\<rparr>"
  by (auto simp: raft_set_commit_idx_def)

lemma send_appendentries_server:
  "raft_send_appendentries cbs p (s, w) = Inr (e, s', w') \<Longrightarrow> s' = s"
  by (auto simp: raft_send_appendentries_def Let_def split: option.splits)

lemma send_requestvote_server:
  "raft_send_requestvote cbs p (s, w) = Inr (e, s', w') \<Longrightarrow> s' = s"
  by (auto simp: raft_send_requestvote_def Let_def split: option.splits)

lemma become_follower_effect:
  "raft_become_follower s = s\<lparr>srv_state := RAFT_STATE_FOLLOWER\<rparr>"
  by (simp add: raft_become_follower_def raft_set_state_def)

lemma node_upd_effect:
  "node_upd p f s = Inr s' \<longleftrightarrow>
     (\<exists>a n. p = Some a \<and> node_heap s a = Some n \<and> s' = s\<lparr>node_heap := (node_heap s)(a \<mapsto> f n)\<rparr>)"
  by (auto simp: node_upd_def node_get_def)

lemma node_upd_other: "node_upd p f s = Inr s' \<Longrightarrow> q \<noteq> p \<Longrightarrow> node_get s' q = node_get s q"
  by (cases q) (auto simp: node_upd_effect node_get_def deref_def split: if_splits)

lemma node_upd_own:
  "node_upd p f s = Inr s' \<Longrightarrow> \<exists>n. node_get s p = Inr n \<and> node_get s' p = Inr (f n)"
  by (auto simp: node_upd_effect node_get_def)

lemma node_upd_nodes_wf:
  assumes wf: "nodes_wf s" and upd: "node_upd p f s = Inr s'"
    and keep: "\<And>n. 1 \<le> nd_next_idx n \<Longrightarrow> 1 \<le> nd_next_idx (f n)"
  shows "nodes_wf s'"
proof -
  obtain a n where p: "node_heap s a = Some n" "s' = s\<lparr>node_heap := (node_heap s)(a \<mapsto> f n)\<rparr>"
    using upd by (auto simp: node_upd_effect)
  have dom: "dom (node_heap s') = dom (node_heap s)" using p by auto
  have nx: "\<forall>b m. node_heap s b = Some m \<longrightarrow> 1 \<le> nd_next_idx m"
    using wf by (simp add: nodes_wf_def)
  then have "1 \<le> nd_next_idx m" if "node_heap s' b = Some m" for b m
    using that p keep by (cases "b = a") auto
  then show ?thesis using wf dom p(2) by (simp add: nodes_wf_def)
qed

lemma node_setters_next_idx [simp]:
  "1 \<le> nd_next_idx (raft_node_set_next_idx i n)"
  "nd_next_idx (raft_node_set_match_idx i n) = nd_next_idx n"
  "nd_next_idx (raft_node_set_udata u n) = nd_next_idx n"
  "nd_next_idx (raft_node_vote_for_me v n) = nd_next_idx n"
  "nd_next_idx (raft_node_set_voting v n) = nd_next_idx n"
  "nd_next_idx (raft_node_set_has_sufficient_logs n) = nd_next_idx n"
  by (simp_all add: raft_node_set_next_idx_def raft_node_set_match_idx_def raft_node_set_udata_def
      raft_node_vote_for_me_def raft_node_set_voting_def raft_node_set_has_sufficient_logs_def)

lemma nodes_wf_cong:
  "nodes s' = nodes s \<Longrightarrow> num_nodes s' = num_nodes s \<Longrightarrow> node_heap s' = node_heap s \<Longrightarrow>
     next_addr s' = next_addr s \<Longrightarrow> nodes_wf s' = nodes_wf s"
  by (simp add: nodes_wf_def)

lemma nodes_wf_count: "nodes_wf s \<Longrightarrow> num_nodes s \<le> int (length (nodes s))"
  by (auto simp: nodes_wf_def)

lemma node_array_wf: "nodes_wf s \<Longrightarrow> node_array s = Inr (nodes s)"
  using nodes_wf_count[of s] by (simp add: node_array_def nodes_wf_def)

lemma node_get_wf: "nodes_wf s \<Longrightarrow> p \<in> set (nodes s) \<Longrightarrow> \<exists>n. node_get s p = Inr n"
  by (fastforce simp: nodes_wf_def node_get_def)

text \<open>The loops over the peers.\<close>

lemma for_nodes_invariant:
  assumes "\<And>p s w s' w'. Q s \<Longrightarrow> body p (s, w) = Inr (s', w') \<Longrightarrow> Q s'"
    and "Q s" and "for_nodes body (s, w) = Inr (s', w')"
  shows "Q s'"
proof -
  from assms(3) obtain ps where "foldE body ps (s, w) = Inr (s', w')"
    by (auto simp: for_nodes_def)
  then have "Q (fst (s', w'))"
    by (rule foldE_invariant[where P = "\<lambda>sw. Q (fst sw)", rotated 2]) (use assms(1,2) in force)+
  then show ?thesis by simp
qed

subsection \<open>The log inside the server\<close>

lemma srv_log_delete_effect:
  assumes "srv_log_delete cbs idx (s, w) = Inr (s', w')"
  shows "\<exists>l. s' = s\<lparr>srv_log := l\<rparr> \<and> log_delete (raft_set_callbacks cbs) (srv_log s) idx (s, w) =
    Inr (l, s, w')"
proof -
  have pop: "call_pop (raft_set_callbacks cbs) me sw = Inr sw' \<Longrightarrow> fst sw' = fst sw" for me sw sw'
    by (auto simp: call_pop_def raft_set_callbacks_def split: option.splits)
  have loop: "delete_loop (raft_set_callbacks cbs) n me sw = Inr (me', sw') \<Longrightarrow> fst sw' = fst sw"
    for n me sw me' sw'
    by (induction n arbitrary: me sw) (auto dest: pop)
  from assms obtain l s1 where
    l: "log_delete (raft_set_callbacks cbs) (srv_log s) idx (s, w) = Inr (l, s1, w')"
    "s' = s1\<lparr>srv_log := l\<rparr>"
    by (auto simp: srv_log_delete_def)
  from l(1) have "s1 = s" by (auto simp: log_delete_def Let_def dest!: loop)
  with l show ?thesis by blast
qed

lemma srv_log_delete_ok:
  assumes inv: "srv_inv s" and idx: "commit_idx s < idx"
    and ret: "srv_log_delete cbs idx (s, w) = Inr (s', w')"
  shows "step_ok s s'" "entries_of s' = take (nat (idx - 1)) (entries_of s)"
    "\<exists>l. s' = s\<lparr>srv_log := l\<rparr>"
proof -
  have i1: "1 \<le> idx" using inv idx by (auto simp: srv_inv_def idx_wf_def)
  obtain l where l: "s' = s\<lparr>srv_log := l\<rparr>"
    "log_delete (raft_set_callbacks cbs) (srv_log s) idx (s, w) = Inr (l, s, w')"
    using srv_log_delete_effect[OF ret] by blast
  have "log_live (srv_log s)" using inv by (simp add: srv_inv_def)
  from rlog.del[OF this i1 l(2)] have live: "log_live l"
    and e: "log_abs l = take (nat (idx - 1)) (entries_of s)" by auto
  show "entries_of s' = take (nat (idx - 1)) (entries_of s)" "\<exists>l. s' = s\<lparr>srv_log := l\<rparr>"
    using l e by auto
  have "min (nat (commit_idx s)) (nat (idx - 1)) = nat (commit_idx s)" using idx by auto
  then have "evolves s s'" using l e by (simp add: evolves_def)
  moreover have "raft_get_current_idx s' = min (idx - 1) (raft_get_current_idx s)"
    using l rlog.del_cur[OF \<open>log_live (srv_log s)\<close> i1 l(2)] by (simp add: raft_get_current_idx_def)
  then have "idx_wf s'" using inv idx l by (auto simp: srv_inv_def idx_wf_def)
  moreover have "nodes_wf s'" using inv l by (simp add: srv_inv_def nodes_wf_def)
  ultimately show "step_ok s s'" using l live by (simp add: step_ok_def srv_inv_def)
qed

subsection \<open>What the server relies on from its callbacks\<close>

locale raft_env =
  fixes cbs :: "'w raft_cbs"
  assumes offer: "log_offer cbs = Some f \<Longrightarrow> nodes_wf s \<Longrightarrow> f e i (s, w) = Inr (e', s', w') \<Longrightarrow>
      peers_only s s' \<and> nodes_wf s' \<and> ety_term e' = ety_term e \<and> ety_id e' = ety_id e \<and>
      ety_type e' = ety_type e"
    and sufficient: "node_has_sufficient_logs cbs = Some g \<Longrightarrow> srv_inv s \<Longrightarrow>
      g a (s, w) = Inr (s', w') \<Longrightarrow> step_ok s s' \<and> current_term s' = current_term s"
    and rand_nonneg: "0 \<le> fst (rand_fn cbs w)"
begin

lemma call_offer_ok:
  "nodes_wf s \<Longrightarrow> call_offer (raft_set_callbacks cbs) e i (s, w) = Inr (e', s', w') \<Longrightarrow>
     peers_only s s' \<and> nodes_wf s' \<and> ety_term e' = ety_term e \<and> ety_id e' = ety_id e \<and>
     ety_type e' = ety_type e"
  using offer by (auto simp: call_offer_def raft_set_callbacks_def peers_only_def split: option.splits)

text \<open>Appending an entry: refused for the id 0, otherwise one entry at the end with the same
  term, id and type; of the other fields only the peers and the pending configuration change
  may differ.\<close>

lemma append_entry_effect:
  assumes inv: "srv_inv s" and ret: "raft_append_entry cbs ety (s, w) = Inr (e, s', w')"
  shows "step_ok s s'"
    "current_term s' = current_term s" "commit_idx s' = commit_idx s" "voted_for s' = voted_for s"
    "srv_state s' = srv_state s" "last_applied_idx s' = last_applied_idx s"
    "voting_cfg_change_log_idx s' = (if raft_entry_is_voting_cfg_change ety
       then raft_get_current_idx s else voting_cfg_change_log_idx s)"
    "(if ety_id ety = 0 then e = -1 \<and> entries_of s' = entries_of s
      else e = 0 \<and> (\<exists>c. ety_term c = ety_term ety \<and> ety_id c = ety_id ety \<and>
             ety_type c = ety_type ety \<and> entries_of s' = entries_of s @ [c]))"
proof -
  define s0 where "s0 = (if raft_entry_is_voting_cfg_change ety
    then s\<lparr>voting_cfg_change_log_idx := raft_get_current_idx s\<rparr> else s)"
  have s0: "nodes_wf s0" "log_live (srv_log s0)" "srv_log s0 = srv_log s"
    using inv by (simp_all add: s0_def srv_inv_def nodes_wf_def)
  from ret obtain l s1 where
    l: "log_append_entry (raft_set_callbacks cbs) (srv_log s0) ety (s0, w) = Inr (e, l, s1, w')"
    and s': "s' = s1\<lparr>srv_log := l\<rparr>"
    by (auto simp: raft_append_entry_def s0_def[symmetric])
  have *: "peers_only s0 s1 \<and> nodes_wf s1 \<and> log_live l \<and>
    (if ety_id ety = 0 then e = -1 \<and> log_abs l = entries_of s
      else e = 0 \<and> (\<exists>c. ety_term c = ety_term ety \<and> ety_id c = ety_id ety \<and>
             ety_type c = ety_type ety \<and> log_abs l = entries_of s @ [c]))"
  proof (cases "ety_id ety = 0")
    case True
    with l s0 show ?thesis by (auto simp: log_append_entry_def peers_only_def)
  next
    case False
    obtain c where c: "call_offer (raft_set_callbacks cbs) ety (l_back (srv_log s0)) (s0, w) =
        Inr (c, s1, w')" "e = 0" "log_live l" "log_abs l = log_abs (srv_log s0) @ [c]"
      by (rule log_append_ret[OF s0(2) l False])
    with call_offer_ok[OF s0(1) c(1)] s0(3) False show ?thesis by auto
  qed
  then have s1: "s1 = s0\<lparr>nodes := nodes s1, num_nodes := num_nodes s1, srv_node := srv_node s1,
      node_heap := node_heap s1, next_addr := next_addr s1\<rparr>"
    by (simp add: peers_only_def)
  have core: "current_term s1 = current_term s" "commit_idx s1 = commit_idx s"
    "voted_for s1 = voted_for s" "srv_state s1 = srv_state s"
    "last_applied_idx s1 = last_applied_idx s"
    "voting_cfg_change_log_idx s1 = (if raft_entry_is_voting_cfg_change ety
       then raft_get_current_idx s else voting_cfg_change_log_idx s)"
    by (subst s1, simp add: s0_def)+
  then show "current_term s' = current_term s" "commit_idx s' = commit_idx s"
    "voted_for s' = voted_for s" "srv_state s' = srv_state s"
    "last_applied_idx s' = last_applied_idx s"
    "voting_cfg_change_log_idx s' = (if raft_entry_is_voting_cfg_change ety
       then raft_get_current_idx s else voting_cfg_change_log_idx s)"
    by (simp_all add: s')
  show res: "(if ety_id ety = 0 then e = -1 \<and> entries_of s' = entries_of s
      else e = 0 \<and> (\<exists>c. ety_term c = ety_term ety \<and> ety_id c = ety_id ety \<and>
             ety_type c = ety_type ety \<and> entries_of s' = entries_of s @ [c]))"
    using * by (simp add: s')
  obtain es where es: "log_abs l = entries_of s @ es" using * by (auto split: if_splits)
  have c: "0 \<le> last_applied_idx s" "last_applied_idx s \<le> commit_idx s"
    "commit_idx s \<le> int (length (entries_of s))"
    using inv by (auto simp: srv_inv_def idx_wf_def current_idx_len)
  then have "evolves s s'" using core es by (simp add: evolves_def s')
  moreover have "idx_wf s'" using core es c * by (simp add: idx_wf_def s' current_idx_len)
  moreover have "nodes_wf s'" using * by (simp add: s' nodes_wf_def)
  ultimately show "step_ok s s'" using * by (simp add: step_ok_def srv_inv_def s')
qed

lemma append_entry_entries:
  assumes "srv_inv s" "raft_append_entry cbs ety (s, w) = Inr (e, s', w')"
  shows "\<exists>es. entries_of s' = entries_of s @ es"
  using append_entry_effect(8)[OF assms] by (auto split: if_splits)

end

end
