(* ===== verification/Raft_Append.thy ===== *)
theory Raft_Append
  imports Raft_Invariants
begin

section \<open>Append-entries requests\<close>

text \<open>
  \<^verbatim>\<open>raft_recv_appendentries\<close>, step by step, under the laws \<open>raft_env\<close> of the callbacks: every
  step keeps the server invariant and the committed entries, and a request that is accepted
  leaves the log with the leader's entries behind the agreed prefix.
\<close>

fun flow_val :: "'a flow \<Rightarrow> 'a" where
  "flow_val (Next y) = y"
| "flow_val (Fail y) = y"
| "flow_val (Fail_with_current_idx y) = y"

text \<open>The log holds the first \<open>k\<close> entries of the request behind the request's previous index.\<close>

definition ae_match :: "msg_appendentries \<Rightarrow> raft_entry list \<Rightarrow> nat \<Rightarrow> bool" where
  "ae_match ae es k \<longleftrightarrow> nat (ae_prev_log_idx ae) + k \<le> length es \<and>
     (\<forall>j < k. j < length (ae_entries ae) \<and>
        ety_term (es ! (nat (ae_prev_log_idx ae) + j)) = ety_term (ae_entries ae ! j))"

lemma ae_match_0: "ae_match ae es 0 = (nat (ae_prev_log_idx ae) \<le> length es)"
  by (simp add: ae_match_def)

lemma ae_match_Suc:
  "ae_match ae es (Suc k) \<longleftrightarrow> ae_match ae es k \<and> nat (ae_prev_log_idx ae) + k < length es \<and>
     k < length (ae_entries ae) \<and>
     ety_term (es ! (nat (ae_prev_log_idx ae) + k)) = ety_term (ae_entries ae ! k)"
  by (auto simp: ae_match_def less_Suc_eq)

lemma ae_match_append: "ae_match ae es k \<Longrightarrow> ae_match ae (es @ fs) k"
  by (auto simp: ae_match_def nth_append)

lemma ae_match_take:
  "ae_match ae es k \<Longrightarrow> nat (ae_prev_log_idx ae) + k \<le> m \<Longrightarrow> ae_match ae (take m es) k"
  by (auto simp: ae_match_def)

lemma get_entry_eq:
  assumes "srv_inv s" "1 \<le> i"
  shows "raft_get_entry_from_idx s i =
    Inr (if i \<le> int (length (entries_of s)) then Some (entries_of s ! nat (i - 1)) else None)"
  using assms rlog.get[of "srv_log s" i] by (simp add: raft_get_entry_from_idx_def srv_inv_def)

lemma get_entry_assert: "i < 1 \<Longrightarrow> raft_get_entry_from_idx s i = Inl Assert_failed"
  by (simp add: raft_get_entry_from_idx_def log_get_at_idx_def)

subsection \<open>The term step\<close>

lemma ae_term_step_cases:
  assumes "ae_term_step cbs ae (r, s, w) = Inr f"
  obtains (same_term_candidate) "raft_is_candidate s" "current_term s = ae_term ae"
      "f = Next (r, s\<lparr>voted_for := -1, srv_state := RAFT_STATE_FOLLOWER\<rparr>, w)"
    | (newer) w' where "current_term s < ae_term ae"
      "f = Next (r\<lparr>aer_term := ae_term ae\<rparr>,
         s\<lparr>current_term := ae_term ae, voted_for := -1, srv_state := RAFT_STATE_FOLLOWER\<rparr>, w')"
    | (older) "ae_term ae < current_term s" "f = Fail_with_current_idx (r, s, w)"
    | (same_term) "current_term s = ae_term ae" "f = Next (r, s, w)"
proof -
  consider "raft_is_candidate s \<and> current_term s = ae_term ae" | "current_term s < ae_term ae"
    | "ae_term ae < current_term s" | "\<not> raft_is_candidate s \<and> current_term s = ae_term ae"
    by linarith
  then show thesis
  proof cases
    case 2
    with assms obtain s1 w1 where sc: "raft_set_current_term cbs (ae_term ae) (s, w) = Inr (s1, w1)"
      and f: "f = Next (r\<lparr>aer_term := ae_term ae\<rparr>, raft_become_follower s1, w1)"
      by (auto simp: ae_term_step_def)
    from set_current_term_effect[OF sc] 2
    have "s1 = s\<lparr>current_term := ae_term ae, voted_for := -1\<rparr>" by simp
    with f 2 newer show ?thesis by (simp add: become_follower_effect)
  qed (use assms same_term_candidate older same_term in
        \<open>simp_all add: ae_term_step_def become_follower_effect\<close>)
qed

lemma ae_term_step_effect:
  assumes "ae_term_step cbs ae (r, s, w) = Inr f" "flow_val f = (r', s', w')"
  shows "srv_log s' = srv_log s" "commit_idx s' = commit_idx s"
    "last_applied_idx s' = last_applied_idx s" "nodes_wf s' = nodes_wf s"
    "current_term s' = max (current_term s) (ae_term ae)"
    "f = Next (r', s', w') \<longleftrightarrow> current_term s \<le> ae_term ae"
    "f \<noteq> Fail y" "f = Fail_with_current_idx (r', s', w') \<Longrightarrow> s' = s"
    "f = Next (r', s', w') \<Longrightarrow> aer_term r = current_term s \<Longrightarrow> aer_term r' = ae_term ae"
  using assms(1)
  by (cases rule: ae_term_step_cases; use assms(2) in \<open>force simp: nodes_wf_def\<close>)+

lemma ae_term_step_ok:
  assumes inv: "srv_inv s" and ret: "ae_term_step cbs ae (r, s, w) = Inr f" "flow_val f = (r', s', w')"
  shows "step_ok s s'"
proof -
  note e = ae_term_step_effect[OF ret]
  have "srv_inv s'" using inv e(1-5) by (simp add: srv_inv_def idx_wf_def raft_get_current_idx_def)
  moreover have "evolves s s'" using e by (simp add: evolves_def)
  ultimately show ?thesis by (simp add: step_ok_def)
qed

subsection \<open>The previous entry and heartbeats\<close>

lemma ae_prev_step_ok:
  assumes inv: "srv_inv s" and ret: "ae_prev_step cbs ae (r, s, w) = Inr f" "flow_val f = (r', s', w')"
  shows "step_ok s s'" "current_term s' = current_term s" "commit_idx s' = commit_idx s"
    "f = Next (r', s', w') \<Longrightarrow> s' = s \<and> r' = r \<and> nat (ae_prev_log_idx ae) \<le> length (entries_of s)"
proof -
  have "step_ok s s' \<and> current_term s' = current_term s \<and> commit_idx s' = commit_idx s \<and>
    (f = Next (r', s', w') \<longrightarrow> s' = s \<and> r' = r \<and> nat (ae_prev_log_idx ae) \<le> length (entries_of s))"
  proof (cases "0 < ae_prev_log_idx ae")
    case False
    with ret inv show ?thesis by (auto simp: ae_prev_step_def step_ok_refl)
  next
    case True
    then have get: "raft_get_entry_from_idx s (ae_prev_log_idx ae) =
        Inr (if ae_prev_log_idx ae \<le> int (length (entries_of s))
             then Some (entries_of s ! nat (ae_prev_log_idx ae - 1)) else None)"
      using get_entry_eq[OF inv] by simp
    show ?thesis
    proof (cases f)
      case (Fail y)
      with True get ret obtain s1 w1 where "commit_idx s < ae_prev_log_idx ae"
        "srv_log_delete cbs (ae_prev_log_idx ae) (s, w) = Inr (s1, w1)" "s' = s1"
        by (auto simp: ae_prev_step_def split: if_splits)
      with Fail srv_log_delete_ok[OF inv] show ?thesis by fastforce
    next
      case (Next y)
      with True get ret inv show ?thesis
        by (auto simp: ae_prev_step_def step_ok_refl split: if_splits)
    next
      case (Fail_with_current_idx y)
      with True get ret inv show ?thesis
        by (auto simp: ae_prev_step_def step_ok_refl split: if_splits)
    qed
  qed
  then show "step_ok s s'" "current_term s' = current_term s" "commit_idx s' = commit_idx s"
    "f = Next (r', s', w') \<Longrightarrow> s' = s \<and> r' = r \<and> nat (ae_prev_log_idx ae) \<le> length (entries_of s)"
    by auto
qed

lemma ae_heartbeat_step_ok:
  assumes inv: "srv_inv s" and ret: "ae_heartbeat_step cbs ae (s, w) = Inr (s', w')"
    and m: "ae_match ae (entries_of s) 0"
  shows "step_ok s s'" "current_term s' = current_term s" "commit_idx s' = commit_idx s"
    "ae_match ae (entries_of s') 0"
    "take (nat (ae_prev_log_idx ae)) (entries_of s') = take (nat (ae_prev_log_idx ae)) (entries_of s)"
proof -
  have "step_ok s s' \<and> current_term s' = current_term s \<and> commit_idx s' = commit_idx s \<and>
    ae_match ae (entries_of s') 0 \<and>
    take (nat (ae_prev_log_idx ae)) (entries_of s') = take (nat (ae_prev_log_idx ae)) (entries_of s)"
  proof (cases "ae_n_entries ae = 0 \<and> 0 < ae_prev_log_idx ae \<and>
      ae_prev_log_idx ae + 1 < raft_get_current_idx s")
    case True
    with ret have c: "commit_idx s < ae_prev_log_idx ae + 1"
      and d: "srv_log_delete cbs (ae_prev_log_idx ae + 1) (s, w) = Inr (s', w')"
      by (auto simp: ae_heartbeat_step_def)
    obtain l where "s' = s\<lparr>srv_log := l\<rparr>" using srv_log_delete_ok(3)[OF inv c d] by blast
    with srv_log_delete_ok(1,2)[OF inv c d] m show ?thesis by (simp add: ae_match_0)
  next
    case False
    then have "ae_heartbeat_step cbs ae (s, w) = Inr (s, w)"
      by (auto simp: ae_heartbeat_step_def)
    with ret inv m show ?thesis by (simp add: step_ok_refl)
  qed
  then show "step_ok s s'" "current_term s' = current_term s" "commit_idx s' = commit_idx s"
    "ae_match ae (entries_of s') 0"
    "take (nat (ae_prev_log_idx ae)) (entries_of s') = take (nat (ae_prev_log_idx ae)) (entries_of s)"
    by auto
qed

subsection \<open>The first loop\<close>

lemma ae_scan_ok:
  assumes "srv_inv s" "0 \<le> ae_prev_log_idx ae" "0 \<le> i" "ae_match ae (entries_of s) (nat i)"
    "ae_scan cbs ae n i (r, s, w) = Inr (i', r', s', w')"
  shows "step_ok s s' \<and> current_term s' = current_term s \<and> commit_idx s' = commit_idx s \<and>
    i \<le> i' \<and> i' \<le> i + int n \<and> ae_match ae (entries_of s') (nat i') \<and>
    (i' = i + int n \<or> length (entries_of s') = nat (ae_prev_log_idx ae) + nat i') \<and>
    take (nat (ae_prev_log_idx ae)) (entries_of s') = take (nat (ae_prev_log_idx ae)) (entries_of s) \<and>
    aer_term r' = aer_term r"
  using assms
proof (induction n arbitrary: i r)
  case 0
  then show ?case by (auto simp: step_ok_refl)
next
  case (Suc n)
  let ?x = "ae_prev_log_idx ae + 1 + i"
  let ?p = "nat (ae_prev_log_idx ae)"
  have idx: "nat (?x - 1) = ?p + nat i" "1 \<le> ?x" using Suc.prems(2,3) by auto
  have len: "?p + nat i \<le> length (entries_of s)" using Suc.prems(4) by (simp add: ae_match_def)
  note get = get_entry_eq[OF Suc.prems(1) idx(2)]
  show ?case
  proof (cases "?x \<le> int (length (entries_of s))")
    case False
    with len idx Suc.prems(2,3) have "length (entries_of s) = ?p + nat i" by linarith
    with Suc.prems get False show ?thesis by (auto simp: Let_def step_ok_refl)
  next
    case True
    let ?e = "entries_of s ! (?p + nat i)"
    from Suc.prems(5) True get idx obtain ety where
      ety: "0 \<le> i" "i < int (length (ae_entries ae))" "ety = ae_entries ae ! nat i"
      by (auto simp: Let_def)
    show ?thesis
    proof (cases "ety_term ?e = ety_term ety")
      case False
      with Suc.prems(5) True get idx ety have c: "commit_idx s < ?x" and i': "i' = i"
        and d: "srv_log_delete cbs ?x (s, w) = Inr (s', w')" and r': "aer_term r' = aer_term r"
        by (auto simp: Let_def)
      obtain l where "s' = s\<lparr>srv_log := l\<rparr>" using srv_log_delete_ok(3)[OF Suc.prems(1) c d] by blast
      moreover have "entries_of s' = take (?p + nat i) (entries_of s)"
        using srv_log_delete_ok(2)[OF Suc.prems(1) c d] idx by simp
      ultimately show ?thesis
        using srv_log_delete_ok(1)[OF Suc.prems(1) c d] i' r' Suc.prems(4) len
        by (simp add: ae_match_take)
    next
      case same: True
      have rec: "ae_scan cbs ae n (i + 1) (r\<lparr>aer_current_idx := ?x\<rparr>, s, w) = Inr (i', r', s', w')"
        using Suc.prems(5) True same get idx ety by (simp add: Let_def arr_get_def)
      have "ae_match ae (entries_of s) (Suc (nat i))"
        using Suc.prems(3,4) True same ety idx by (simp add: ae_match_Suc) linarith
      moreover have "nat (i + 1) = Suc (nat i)" using Suc.prems(3) by simp
      ultimately show ?thesis
        using Suc.IH[OF Suc.prems(1,2) _ _ rec] Suc.prems(3) by auto
    qed
  qed
qed

subsection \<open>The commit index and the accepted request\<close>

lemma ae_commit_step_ok:
  assumes "srv_inv s" "ae_commit_step ae s = Inr s'"
  shows "step_ok s s'" "srv_log s' = srv_log s" "current_term s' = current_term s"
    "commit_idx s' = (if commit_idx s < ae_leader_commit ae
       then min (raft_get_current_idx s) (ae_leader_commit ae) else commit_idx s)"
  using assms
  by (auto simp: ae_commit_step_def set_commit_idx_effect Let_def step_ok_def evolves_def srv_inv_def
      idx_wf_def nodes_wf_def raft_get_current_idx_def split: if_splits)

text \<open>What an accepted request leaves behind.\<close>

definition ae_accepted :: "msg_appendentries \<Rightarrow> addr option \<Rightarrow> msg_appendentries_response \<Rightarrow>
    raft_server \<Rightarrow> raft_server \<Rightarrow> bool" where
  "ae_accepted ae p r' s s' \<longleftrightarrow>
     ae_match ae (entries_of s') (nat (ae_n_entries ae)) \<and>
     take (nat (ae_prev_log_idx ae)) (entries_of s') = take (nat (ae_prev_log_idx ae)) (entries_of s) \<and>
     current_term s' = ae_term ae \<and> current_leader s' = p \<and>
     commit_idx s' = (if commit_idx s < ae_leader_commit ae
       then min (raft_get_current_idx s') (ae_leader_commit ae) else commit_idx s) \<and>
     aer_success r' = 1 \<and> aer_first_idx r' = ae_prev_log_idx ae + 1 \<and> aer_term r' = ae_term ae"

subsection \<open>The second loop\<close>

context raft_env begin

lemma ae_append_ok:
  assumes "srv_inv s" "0 \<le> ae_prev_log_idx ae" "0 \<le> i" "ae_match ae (entries_of s) (nat i)"
    "n = 0 \<or> length (entries_of s) = nat (ae_prev_log_idx ae) + nat i"
    "ae_append cbs ae n i (r, s, w) = Inr f" "flow_val f = (r', s', w')"
  shows "step_ok s s' \<and> current_term s' = current_term s \<and> commit_idx s' = commit_idx s \<and>
    (\<exists>es. entries_of s' = entries_of s @ es) \<and> f \<noteq> Fail (r', s', w') \<and>
    (f = Next (r', s', w') \<longrightarrow> ae_match ae (entries_of s') (nat i + n) \<and>
       aer_term r' = aer_term r \<and>
       aer_current_idx r' = (if n = 0 then aer_current_idx r else ae_prev_log_idx ae + i + int n))"
  using assms
proof (induction n arbitrary: i r s w)
  case 0
  then show ?case by (auto simp: step_ok_refl)
next
  case (Suc n)
  let ?p = "nat (ae_prev_log_idx ae)"
  have len: "length (entries_of s) = ?p + nat i" using Suc.prems(5) by simp
  from Suc.prems(6) obtain ety e s1 w1 where
    ety: "0 \<le> i" "i < int (length (ae_entries ae))" "ety = ae_entries ae ! nat i"
    and app: "raft_append_entry cbs ety (s, w) = Inr (e, s1, w1)"
    and rest: "(if e = -1 then Inr (Fail_with_current_idx (r, s1, w1))
      else ae_append cbs ae n (i + 1) (r\<lparr>aer_current_idx := ae_prev_log_idx ae + 1 + i\<rparr>, s1, w1)) = Inr f"
    by auto
  note eff = append_entry_effect[OF Suc.prems(1) app]
  obtain es where es: "entries_of s1 = entries_of s @ es"
    using append_entry_entries[OF Suc.prems(1) app] by blast
  show ?case
  proof (cases "e = -1")
    case True
    with rest Suc.prems(7) have "f = Fail_with_current_idx (r, s1, w1)" "s' = s1" by auto
    with eff es show ?thesis by auto
  next
    case False
    from False eff(8) obtain c where c: "ety_term c = ety_term ety" "entries_of s1 = entries_of s @ [c]"
      by (auto split: if_splits)
    have i1: "nat (i + 1) = Suc (nat i)" "0 \<le> i + 1" using ety by auto
    have m: "ae_match ae (entries_of s1) (nat (i + 1))"
      using Suc.prems(4) c len ety i1 by (simp add: ae_match_Suc ae_match_append nth_append)
    have l: "n = 0 \<or> length (entries_of s1) = ?p + nat (i + 1)" using c len i1 by simp
    have rec: "ae_append cbs ae n (i + 1) (r\<lparr>aer_current_idx := ae_prev_log_idx ae + 1 + i\<rparr>, s1, w1) =
        Inr f" using rest False by simp
    from Suc.IH[OF step_ok_inv[OF eff(1)] Suc.prems(2) i1(2) m l rec Suc.prems(7)]
    show ?thesis
      using step_ok_trans[OF eff(1)] eff(2,3) c(2) i1(1) by auto
  qed
qed

lemma ae_log_steps_ok:
  assumes inv: "srv_inv s" and prev: "nat (ae_prev_log_idx ae) \<le> length (entries_of s)"
    and hb: "ae_heartbeat_step cbs ae (s, w) = Inr (s1, w1)"
    and sc: "ae_scan cbs ae (nat (ae_n_entries ae)) 0 (r, s1, w1) = Inr (i, r2, s2, w2)"
    and ap: "ae_append cbs ae (nat (ae_n_entries ae - i)) i (r2, s2, w2) = Inr f"
    and f: "flow_val f = (r3, s3, w3)"
  shows "step_ok s s3 \<and> current_term s3 = current_term s \<and> commit_idx s3 = commit_idx s \<and>
    f \<noteq> Fail (r3, s3, w3) \<and>
    (f = Next (r3, s3, w3) \<longrightarrow> ae_match ae (entries_of s3) (nat (ae_n_entries ae)) \<and>
       take (nat (ae_prev_log_idx ae)) (entries_of s3) = take (nat (ae_prev_log_idx ae)) (entries_of s) \<and>
       aer_term r3 = aer_term r)"
proof -
  let ?p = "nat (ae_prev_log_idx ae)" and ?n = "nat (ae_n_entries ae)"
  note h = ae_heartbeat_step_ok[OF inv hb, unfolded ae_match_0, OF prev]
  have inv1: "srv_inv s1" using step_ok_inv[OF h(1)] .
  show ?thesis
  proof (cases "0 \<le> ae_prev_log_idx ae")
    case False
    have "?n = 0"
    proof (rule ccontr)
      assume "?n \<noteq> 0"
      then obtain k where "?n = Suc k" by (cases ?n) auto
      with sc get_entry_assert[of "ae_prev_log_idx ae + 1 + 0" s1] False show False
        by (simp add: Let_def)
    qed
    moreover from this sc have "i = 0" "s2 = s1" "r2 = r" "w2 = w1" by auto
    ultimately have "nat (ae_n_entries ae - i) = 0" by simp
    with ap f have "f = Next (r, s1, w1)" "s3 = s1" "r3 = r" "w3 = w1"
      using \<open>s2 = s1\<close> \<open>r2 = r\<close> \<open>w2 = w1\<close> by auto
    with h \<open>?n = 0\<close> show ?thesis by (simp add: ae_match_0)
  next
    case True
    have m1: "ae_match ae (entries_of s1) (nat 0)" using h(4) by (simp add: ae_match_0)
    note s = ae_scan_ok[OF inv1 True order.refl m1 sc]
    have n: "nat (ae_n_entries ae - i) = ?n - nat i" "0 \<le> i" "nat i \<le> ?n"
      using s by (auto simp: nat_le_iff)
    have len: "?n - nat i = 0 \<or> length (entries_of s2) = ?p + nat i" using s by auto
    have inv2: "srv_inv s2" using s step_ok_inv by blast
    have m2: "ae_match ae (entries_of s2) (nat i)" using s by blast
    note a = ae_append_ok[OF inv2 True n(2) m2 len ap[unfolded n(1)] f]
    from a obtain es where es: "entries_of s3 = entries_of s2 @ es" by blast
    have "?p \<le> length (entries_of s2)" using m2 by (simp add: ae_match_def)
    then have "take ?p (entries_of s3) = take ?p (entries_of s)" using es s h(5) by simp
    moreover have "step_ok s s3"
      using step_ok_trans[OF h(1)] step_ok_trans[of s1 s2 s3] s a by blast
    ultimately show ?thesis using a s h(2,3) n(3) by simp
  qed
qed

lemma ae_body_ok:
  assumes inv: "srv_inv s" and ret: "ae_body cbs p ae (r, s, w) = Inr f" "flow_val f = (r', s', w')"
    and r: "aer_term r = current_term s"
  shows "step_ok s s' \<and> (f = Next (r', s', w') \<longrightarrow> ae_accepted ae p r' s s')"
proof -
  from ret(1) obtain f1 where f1: "ae_term_step cbs ae (r, s, w) = Inr f1"
    by (auto simp: ae_body_def bindF_def)
  obtain r1 s1 w1 where v1: "flow_val f1 = (r1, s1, w1)" by (cases "flow_val f1")
  note t = ae_term_step_effect[OF f1 v1] and tok = ae_term_step_ok[OF inv f1 v1]
  have inv1: "srv_inv s1" using step_ok_inv[OF tok] .
  show ?thesis
  proof (cases "\<exists>y. f1 = Next y")
    case False
    with ret f1 v1 have "f = f1" by (cases f1) (auto simp: ae_body_def bindF_def)
    with False v1 ret tok show ?thesis by auto
  next
    case True
    with v1 have n1: "f1 = Next (r1, s1, w1)" by auto
    with ret(1) f1 obtain f2 where f2: "ae_prev_step cbs ae (r1, s1, w1) = Inr f2"
      by (auto simp: ae_body_def bindF_def)
    obtain r2 s2 w2 where v2: "flow_val f2 = (r2, s2, w2)" by (cases "flow_val f2")
    note q = ae_prev_step_ok[OF inv1 f2 v2]
    show ?thesis
    proof (cases "\<exists>y. f2 = Next y")
      case False
      with ret f1 n1 f2 v2 have "f = f2" by (cases f2) (auto simp: ae_body_def bindF_def)
      with False v2 ret q(1) tok show ?thesis by (auto intro: step_ok_trans)
    next
      case True
      with v2 have n2: "f2 = Next (r2, s2, w2)" by auto
      with q(4) have s2: "s2 = s1" "r2 = r1" "nat (ae_prev_log_idx ae) \<le> length (entries_of s1)" by auto
      from ret(1) f1 n1 f2 n2 s2 obtain s3 w3 i r4 s4 w4 f5 where
        hb: "ae_heartbeat_step cbs ae (s1, w2) = Inr (s3, w3)"
        and sc: "ae_scan cbs ae (nat (ae_n_entries ae)) 0
          (r1\<lparr>aer_current_idx := ae_prev_log_idx ae\<rparr>, s3, w3) = Inr (i, r4, s4, w4)"
        and ap: "ae_append cbs ae (nat (ae_n_entries ae - i)) i (r4, s4, w4) = Inr f5"
        and rest: "bindF (Inr f5) (\<lambda>(r, s, w). bindE (ae_commit_step ae s) (\<lambda>s.
           Inr (Next (r\<lparr>aer_success := 1, aer_first_idx := ae_prev_log_idx ae + 1\<rparr>,
                s\<lparr>current_leader := p\<rparr>, w)))) = Inr f"
        by (auto simp: ae_body_def bindF_def)
      obtain r5 s5 w5 where v5: "flow_val f5 = (r5, s5, w5)" by (cases "flow_val f5")
      note l = ae_log_steps_ok[OF inv1 s2(3) hb sc ap v5]
      have inv5: "srv_inv s5" using l step_ok_inv by blast
      have ok5: "step_ok s s5" using l tok step_ok_trans by blast
      show ?thesis
      proof (cases "\<exists>y. f5 = Next y")
        case False
        with rest have "f = f5" by (cases f5) (auto simp: bindF_def)
        with False v5 ret ok5 show ?thesis by auto
      next
        case True
        with v5 have n5: "f5 = Next (r5, s5, w5)" by auto
        with rest obtain s6 where c: "ae_commit_step ae s5 = Inr s6"
          and f: "f = Next (r5\<lparr>aer_success := 1, aer_first_idx := ae_prev_log_idx ae + 1\<rparr>,
             s6\<lparr>current_leader := p\<rparr>, w5)"
          by (auto simp: bindF_def)
        note cs = ae_commit_step_ok[OF inv5 c]
        have "step_ok s6 (s6\<lparr>current_leader := p\<rparr>)"
          by (rule same_core_step)
            (use step_ok_inv[OF cs(1)] in \<open>simp_all add: same_core_def nodes_wf_def srv_inv_def\<close>)
        then have "step_ok s (s6\<lparr>current_leader := p\<rparr>)"
          using cs(1) ok5 step_ok_trans by blast
        moreover have "current_term s \<le> ae_term ae" using t(6) n1 by simp
        ultimately show ?thesis
          using f ret(2) l n5 cs t n1 r by (auto simp: ae_accepted_def raft_get_current_idx_def)
      qed
    qed
  qed
qed

lemma recv_appendentries_ok:
  assumes inv: "srv_inv s" and ret: "raft_recv_appendentries cbs p ae r (s, w) = Inr (e, r', s', w')"
  shows "step_ok s s'" "e = 0 \<Longrightarrow> ae_accepted ae p r' s s'"
    "e \<noteq> 0 \<Longrightarrow> e = -1 \<and> aer_success r' = 0 \<and> aer_first_idx r' = 0"
proof -
  let ?s = "s\<lparr>timeout_elapsed := 0\<rparr>" and ?r = "r\<lparr>aer_term := current_term s\<rparr>"
  have ok0: "step_ok s ?s"
    by (rule same_core_step) (use inv in \<open>simp_all add: same_core_def nodes_wf_def srv_inv_def\<close>)
  from ret obtain f where f: "ae_body cbs p ae (?r, ?s, w) = Inr f"
    by (auto simp: raft_recv_appendentries_def Let_def)
  obtain r1 s1 w1 where v: "flow_val f = (r1, s1, w1)" by (cases "flow_val f")
  have b: "step_ok ?s s1 \<and> (f = Next (r1, s1, w1) \<longrightarrow> ae_accepted ae p r1 ?s s1)"
    by (rule ae_body_ok[OF step_ok_inv[OF ok0] f v]) simp
  have s': "s' = s1" using ret f v by (cases f) (auto simp: raft_recv_appendentries_def Let_def)
  show "step_ok s s'" using b ok0 s' step_ok_trans by blast
  show "ae_accepted ae p r' s s'" if "e = 0"
    using ret f v b that by (cases f) (auto simp: raft_recv_appendentries_def Let_def ae_accepted_def)
  show "e = -1 \<and> aer_success r' = 0 \<and> aer_first_idx r' = 0" if "e \<noteq> 0"
    using ret f v that by (cases f) (auto simp: raft_recv_appendentries_def Let_def)
qed

end

end
