(* ===== verification/Raft_Election.thy ===== *)
theory Raft_Election
  imports Raft_Invariants
begin

section \<open>Elections\<close>

text \<open>
  Candidates, votes and leaders. What a loop over the peers may change is \<open>heap_step\<close>: the peers'
  own fields. The exact effect of \<^verbatim>\<open>raft_become_leader\<close>, \<^verbatim>\<open>raft_become_candidate\<close>,
  \<^verbatim>\<open>raft_recv_requestvote\<close> and \<^verbatim>\<open>raft_recv_requestvote_response\<close> follows, and that two majorities of
  the same peers share a peer.
\<close>

subsection \<open>Majorities\<close>

locale majority_rule =
  fixes maj :: "int \<Rightarrow> int \<Rightarrow> bool"
  assumes more_than_half: "0 \<le> n \<Longrightarrow> maj n k \<Longrightarrow> n < 2 * k"
begin

lemma overlap:
  assumes fin: "finite N" and sub: "A \<subseteq> N" "B \<subseteq> N"
    and maj: "maj (int (card N)) (int (card A))" "maj (int (card N)) (int (card B))"
  shows "A \<inter> B \<noteq> {}"
proof
  assume "A \<inter> B = {}"
  then have "card A + card B = card (A \<union> B)"
    using fin sub by (simp add: card_Un_disjoint finite_subset)
  also have "\<dots> \<le> card N" using fin sub by (simp add: card_mono)
  finally show False using more_than_half[OF _ maj(1)] more_than_half[OF _ maj(2)] by simp
qed

end

definition commit_majority :: "int \<Rightarrow> int \<Rightarrow> bool" where
  "commit_majority num votes \<longleftrightarrow> c_div num 2 < votes"

interpretation election: majority_rule raft_votes_is_majority
  by unfold_locales (auto simp: raft_votes_is_majority_def Let_def split: if_splits)

interpretation commit: majority_rule commit_majority
  by unfold_locales (auto simp: commit_majority_def)

lemma votes_is_majority_iff:
  "0 \<le> n \<Longrightarrow> raft_votes_is_majority n k \<longleftrightarrow> k \<le> n \<and> n < 2 * k"
  by (auto simp: raft_votes_is_majority_def Let_def)

subsection \<open>Changes inside the peers\<close>

definition heap_step :: "raft_server \<Rightarrow> raft_server \<Rightarrow> bool" where
  "heap_step s s' \<longleftrightarrow> s' = s\<lparr>node_heap := node_heap s'\<rparr> \<and> (nodes_wf s \<longrightarrow> nodes_wf s')"

lemma heap_step_refl [simp]: "heap_step s s"
  by (simp add: heap_step_def)

lemma heap_step_trans: "heap_step a b \<Longrightarrow> heap_step b c \<Longrightarrow> heap_step a c"
proof -
  assume ab: "heap_step a b" and bc: "heap_step b c"
  from ab have b: "b = a\<lparr>node_heap := node_heap b\<rparr>" by (simp add: heap_step_def)
  from bc have "c = b\<lparr>node_heap := node_heap c\<rparr>" by (simp add: heap_step_def)
  then have "c = a\<lparr>node_heap := node_heap c\<rparr>" by (subst (asm) b) simp
  with ab bc show "heap_step a c" by (simp add: heap_step_def)
qed

lemma heap_step_upd:
  "node_upd p f s = Inr s' \<Longrightarrow> (\<And>n. 1 \<le> nd_next_idx n \<Longrightarrow> 1 \<le> nd_next_idx (f n)) \<Longrightarrow> heap_step s s'"
  using node_upd_nodes_wf[of s p f s'] by (auto simp: heap_step_def node_upd_effect)

lemma heap_step_fields:
  assumes "heap_step s s'"
  shows "current_term s' = current_term s" "voted_for s' = voted_for s" "srv_log s' = srv_log s"
    "commit_idx s' = commit_idx s" "last_applied_idx s' = last_applied_idx s"
    "srv_state s' = srv_state s" "timeout_elapsed s' = timeout_elapsed s" "nodes s' = nodes s"
    "num_nodes s' = num_nodes s" "election_timeout s' = election_timeout s"
    "current_leader s' = current_leader s" "srv_node s' = srv_node s"
    "voting_cfg_change_log_idx s' = voting_cfg_change_log_idx s" "next_addr s' = next_addr s"
proof -
  from assms have s': "s' = s\<lparr>node_heap := node_heap s'\<rparr>" by (simp add: heap_step_def)
  show "current_term s' = current_term s" "voted_for s' = voted_for s" "srv_log s' = srv_log s"
    "commit_idx s' = commit_idx s" "last_applied_idx s' = last_applied_idx s"
    "srv_state s' = srv_state s" "timeout_elapsed s' = timeout_elapsed s" "nodes s' = nodes s"
    "num_nodes s' = num_nodes s" "election_timeout s' = election_timeout s"
    "current_leader s' = current_leader s" "srv_node s' = srv_node s"
    "voting_cfg_change_log_idx s' = voting_cfg_change_log_idx s" "next_addr s' = next_addr s"
    by (subst s', simp)+
qed

lemma heap_step_nodes_wf: "heap_step s s' \<Longrightarrow> nodes_wf s \<Longrightarrow> nodes_wf s'"
  unfolding heap_step_def by blast

lemma heap_step_ok: "heap_step s s' \<Longrightarrow> srv_inv s \<Longrightarrow> step_ok s s'"
  by (rule same_core_step)
    (simp_all add: same_core_def heap_step_fields srv_inv_def heap_step_nodes_wf)

lemma for_nodes_heap_step:
  assumes "\<And>p s w s' w'. body p (s, w) = Inr (s', w') \<Longrightarrow> heap_step s s'"
    and "for_nodes body (s, w) = Inr (s', w')"
  shows "heap_step s s'"
  by (rule for_nodes_invariant[where Q = "heap_step s", OF _ heap_step_refl assms(2)])
    (use assms(1) heap_step_trans in blast)

text \<open>Steps that change neither the core fields nor the peers.\<close>

lemma frame_step:
  "same_core s s' \<Longrightarrow> nodes s' = nodes s \<Longrightarrow> num_nodes s' = num_nodes s \<Longrightarrow>
     node_heap s' = node_heap s \<Longrightarrow> next_addr s' = next_addr s \<Longrightarrow> srv_inv s \<Longrightarrow> step_ok s s'"
  by (rule same_core_step) (simp_all add: srv_inv_def nodes_wf_def)

lemma set_state_effect:
  "raft_set_state st s = s\<lparr>srv_state := st,
     current_leader := (if st = RAFT_STATE_LEADER then srv_node s else current_leader s)\<rparr>"
  by (simp add: raft_set_state_def)

lemma set_state_ok: "srv_inv s \<Longrightarrow> step_ok s (raft_set_state st s)"
  by (rule frame_step) (simp_all add: set_state_effect same_core_def)

lemma become_follower_ok: "srv_inv s \<Longrightarrow> step_ok s (raft_become_follower s)"
  by (simp add: raft_become_follower_def set_state_ok)

lemma set_current_term_ok:
  "srv_inv s \<Longrightarrow> raft_set_current_term cbs t (s, w) = Inr (s', w') \<Longrightarrow> step_ok s s'"
  by (drule set_current_term_effect)
    (auto simp: step_ok_def srv_inv_def nodes_wf_def idx_wf_def raft_get_current_idx_def evolves_def)

subsection \<open>Becoming a leader\<close>

lemma become_leader_peer_heap:
  "become_leader_peer cbs p (s, w) = Inr (s', w') \<Longrightarrow> heap_step s s'"
proof -
  assume ret: "become_leader_peer cbs p (s, w) = Inr (s', w')"
  then obtain skip where skip: "skip_peer s p = Inr skip" by (auto simp: become_leader_peer_def)
  show "heap_step s s'"
  proof (cases skip)
    case True
    with ret skip show ?thesis by (simp add: become_leader_peer_def)
  next
    case False
    with ret skip obtain s1 where
      1: "node_upd p (raft_node_set_next_idx (raft_get_current_idx s + 1)) s = Inr s1"
      and 2: "node_upd p (raft_node_set_match_idx 0) s1 = Inr s'"
      by (auto simp: become_leader_peer_def dest!: send_appendentries_server)
    show ?thesis
      by (rule heap_step_trans[OF heap_step_upd[OF 1] heap_step_upd[OF 2]]) simp_all
  qed
qed

lemma become_leader_effect:
  assumes "raft_become_leader cbs (s, w) = Inr (s', w')"
  shows "heap_step (raft_set_state RAFT_STATE_LEADER s) s'"
  using assms for_nodes_heap_step[OF become_leader_peer_heap]
  by (auto simp: raft_become_leader_def)

lemma become_leader_ok:
  assumes "srv_inv s" "raft_become_leader cbs (s, w) = Inr (s', w')"
  shows "step_ok s s'"
proof -
  note set = set_state_ok[OF assms(1), of RAFT_STATE_LEADER]
  show ?thesis
    by (rule step_ok_trans[OF set heap_step_ok[OF become_leader_effect[OF assms(2)] step_ok_inv[OF set]]])
qed

text \<open>A peer is initialised by its own iteration and left alone by the others.\<close>

lemma become_leader_peer_cases:
  assumes "become_leader_peer cbs p (s, w) = Inr (s', w')"
  obtains (skip) "skip_peer s p = Inr True" "s' = s"
  | (init) a n where "skip_peer s p = Inr False" "p = Some a" "node_heap s a = Some n"
      "s' = s\<lparr>node_heap := (node_heap s)(a \<mapsto>
         raft_node_set_match_idx 0 (raft_node_set_next_idx (raft_get_current_idx s + 1) n))\<rparr>"
proof -
  from assms obtain k where k: "skip_peer s p = Inr k" by (auto simp: become_leader_peer_def)
  show thesis
  proof (cases k)
    case True
    with assms k show ?thesis by (intro skip) (simp_all add: become_leader_peer_def)
  next
    case False
    with assms k obtain s1 s2 e where
      1: "node_upd p (raft_node_set_next_idx (raft_get_current_idx s + 1)) s = Inr s1"
      and 2: "node_upd p (raft_node_set_match_idx 0) s1 = Inr s2"
      and 3: "raft_send_appendentries cbs p (s2, w) = Inr (e, s', w')"
      by (auto simp: become_leader_peer_def)
    from 3 have "s' = s2" by (rule send_appendentries_server)
    moreover obtain a n where "p = Some a" "node_heap s a = Some n"
      "s1 = s\<lparr>node_heap := (node_heap s)(a \<mapsto>
         raft_node_set_next_idx (raft_get_current_idx s + 1) n)\<rparr>"
      using 1 by (auto simp: node_upd_effect)
    ultimately show ?thesis using 2 k False by (intro init) (simp_all add: node_upd_effect)
  qed
qed

lemma become_leader_peer_other:
  "become_leader_peer cbs p (s, w) = Inr (s', w') \<Longrightarrow> q \<noteq> p \<Longrightarrow> node_get s' q = node_get s q"
  by (erule become_leader_peer_cases) (auto simp: node_get_def deref_def split: option.splits)

lemma become_leader_initialises:
  assumes wf: "nodes_wf s" and ret: "raft_become_leader cbs (s, w) = Inr (s', w')"
    and p: "p \<in> set (nodes s)" "p \<noteq> srv_node s" "node_get s p = Inr n" "raft_node_is_voting n"
  shows "\<exists>n'. node_get s' p = Inr n' \<and> nd_next_idx n' = max 1 (raft_get_current_idx s + 1) \<and>
    nd_match_idx n' = 0 \<and> nd_id n' = nd_id n \<and> nd_flags n' = nd_flags n"
proof -
  let ?s = "raft_set_state RAFT_STATE_LEADER s"
  let ?P = "\<lambda>sw :: 'a st. heap_step ?s (fst sw)"
  have arr: "node_array ?s = Inr (nodes s)" "distinct (nodes s)"
    using node_array_wf[OF wf] nodes_wf_count[OF wf] wf
    by (simp_all add: set_state_effect node_array_def nodes_wf_def)
  have fold: "foldE (become_leader_peer cbs) (nodes s) (?s, w) = Inr (s', w')"
    using ret arr by (simp add: raft_become_leader_def for_nodes_def)
  have "\<exists>b b'. ?P b \<and> become_leader_peer cbs p b = Inr b' \<and>
      node_get (fst b) p = node_get (fst (?s, w)) p \<and> node_get (fst (s', w')) p = node_get (fst b') p"
  proof (rule foldE_local[where view = "\<lambda>sw. node_get (fst sw)" and P = ?P, OF _ _ _ arr(2) p(1) fold])
    show "node_get (fst a') q = node_get (fst a) q"
      if "become_leader_peer cbs p a = Inr a'" "q \<noteq> p" for p q and a a' :: "'a st"
      using become_leader_peer_other[of cbs p "fst a" "snd a" "fst a'" "snd a'"] that by simp
    show "?P a'" if "?P a" "become_leader_peer cbs p a = Inr a'" for p and a a' :: "'a st"
      using become_leader_peer_heap[of cbs p "fst a" "snd a" "fst a'" "snd a'"] that
        heap_step_trans by simp
  qed simp
  then obtain b bw b' bw' where b: "heap_step ?s b" "become_leader_peer cbs p (b, bw) = Inr (b', bw')"
    "node_get b p = Inr n" "node_get s' p = node_get b' p"
    using p(3) by (auto simp: node_get_def set_state_effect)
  have "skip_peer b p = Inr False"
    using heap_step_fields(12)[OF b(1)] p b(3) by (simp add: skip_peer_def set_state_effect)
  moreover have "raft_get_current_idx b = raft_get_current_idx s"
    using heap_step_fields(3)[OF b(1)] by (simp add: raft_get_current_idx_def set_state_effect)
  ultimately show ?thesis
    using b by (auto elim!: become_leader_peer_cases simp: node_get_def raft_node_set_next_idx_def
        raft_node_set_match_idx_def)
qed

subsection \<open>Counting votes\<close>

definition peer_voted :: "raft_server \<Rightarrow> addr option \<Rightarrow> bool" where
  "peer_voted s p \<longleftrightarrow> p \<noteq> srv_node s \<and>
     (case node_get s p of Inl _ \<Rightarrow> False
      | Inr n \<Rightarrow> raft_node_is_voting n \<and> raft_node_has_vote_for_me n)"

definition voters :: "raft_server \<Rightarrow> addr option set" where
  "voters s = {p \<in> set (nodes s). peer_voted s p}"

lemma count_votes_fold:
  assumes "\<And>p. p \<in> set ps \<Longrightarrow> \<exists>n. node_get s p = Inr n"
  shows "foldE (count_vote_peer s) ps v = Inr (v + int (length (filter (peer_voted s) ps)))"
  using assms
proof (induction ps arbitrary: v)
  case (Cons p ps)
  then obtain n where n: "node_get s p = Inr n" by (meson list.set_intros(1))
  have "count_vote_peer s p v = Inr (if peer_voted s p then v + 1 else v)"
    using n by (auto simp: count_vote_peer_def skip_peer_def peer_voted_def)
  with Cons show ?case by simp
qed simp

lemma nvotes_for_me_eq:
  assumes wf: "nodes_wf s" and me: "node_get s (srv_node s) = Inr me"
  shows "raft_get_nvotes_for_me s =
    Inr (int (card (voters s)) + (if voted_for s = nd_id me then 1 else 0))"
proof -
  have "card (voters s) = length (filter (peer_voted s) (nodes s))"
    using wf distinct_card[of "filter (peer_voted s) (nodes s)"]
    by (simp add: voters_def nodes_wf_def)
  then show ?thesis
    using node_array_wf[OF wf] count_votes_fold[of "nodes s" s 0] node_get_wf[OF wf] me
    by (simp add: raft_get_nvotes_for_me_def raft_get_nodeid_def)
qed

subsection \<open>Becoming a candidate\<close>

lemma clear_vote_peer_heap: "clear_vote_peer p (s, w) = Inr (s', w') \<Longrightarrow> heap_step s s'"
  by (auto simp: clear_vote_peer_def intro!: heap_step_upd)

lemma clear_vote_peer_other:
  "clear_vote_peer p (s, w) = Inr (s', w') \<Longrightarrow> q \<noteq> p \<Longrightarrow> node_get s' q = node_get s q"
  by (auto simp: clear_vote_peer_def dest: node_upd_other)

lemma clear_vote_peer_own:
  "clear_vote_peer p (s, w) = Inr (s', w') \<Longrightarrow> node_get s' p = Inr n \<Longrightarrow> \<not> raft_node_has_vote_for_me n"
  by (auto simp: clear_vote_peer_def node_upd_effect node_get_def node_flag_simps)

lemma clear_votes_effect:
  assumes wf: "nodes_wf s" and ret: "for_nodes clear_vote_peer (s, w) = Inr (s', w')"
  shows "heap_step s s'" "p \<in> set (nodes s) \<Longrightarrow> \<not> peer_voted s' p"
    "node_get s p = Inr n \<Longrightarrow> \<exists>n'. node_get s' p = Inr n' \<and> nd_id n' = nd_id n"
proof -
  show "heap_step s s'" by (rule for_nodes_heap_step[OF clear_vote_peer_heap ret])
  have fold: "foldE clear_vote_peer (nodes s) (s, w) = Inr (s', w')" "distinct (nodes s)"
    using ret node_array_wf[OF wf] wf by (simp_all add: for_nodes_def nodes_wf_def)
  have other: "node_get (fst a') q = node_get (fst a) q"
    if "clear_vote_peer p a = Inr a'" "q \<noteq> p" for p q and a a' :: "'a st"
    using clear_vote_peer_other[of p "fst a" "snd a" "fst a'" "snd a'"] that by simp
  show "\<not> peer_voted s' p" if "p \<in> set (nodes s)"
  proof -
    have "\<exists>b b' :: 'a st. True \<and> clear_vote_peer p b = Inr b' \<and> node_get (fst b) p = node_get (fst (s, w)) p \<and>
        node_get (fst (s', w')) p = node_get (fst b') p"
      by (rule foldE_local[where view = "\<lambda>sw. node_get (fst sw)" and P = "\<lambda>_. True",
          OF _ _ _ fold(2) that fold(1)]) (simp_all add: other)
    then obtain b b' :: "'a st" where "clear_vote_peer p b = Inr b'"
      "node_get s' p = node_get (fst b') p" by auto
    then have "clear_vote_peer p (fst b, snd b) = Inr (fst b', snd b')"
      and eq: "node_get s' p = node_get (fst b') p" by simp_all
    note own = clear_vote_peer_own[OF this(1)]
    show ?thesis using own eq by (auto simp: peer_voted_def split: sum.splits)
  qed
  have "\<forall>q m. node_get (fst (s, w)) q = Inr m \<longrightarrow> (\<exists>m'. node_get (fst (s', w')) q = Inr m' \<and> nd_id m' = nd_id m)"
  proof (rule foldE_invariant[where P = "\<lambda>sw. \<forall>q m. node_get (fst (s, w)) q = Inr m \<longrightarrow>
      (\<exists>m'. node_get (fst sw) q = Inr m' \<and> nd_id m' = nd_id m)", OF _ _ fold(1)])
    fix x and a a' :: "'a st"
    assume I: "\<forall>q m. node_get (fst (s, w)) q = Inr m \<longrightarrow>
        (\<exists>m'. node_get (fst a) q = Inr m' \<and> nd_id m' = nd_id m)"
      and st: "clear_vote_peer x a = Inr a'"
    have "\<exists>m'. node_get (fst a') q = Inr m' \<and> nd_id m' = nd_id m" if "node_get (fst a) q = Inr m" for q m
      using st that
      by (cases a; cases "q = x") (auto simp: clear_vote_peer_def node_upd_effect node_get_def raft_node_vote_for_me_def)
    with I show "\<forall>q m. node_get (fst (s, w)) q = Inr m \<longrightarrow>
        (\<exists>m'. node_get (fst a') q = Inr m' \<and> nd_id m' = nd_id m)" by metis
  qed simp
  then show "\<exists>n'. node_get s' p = Inr n' \<and> nd_id n' = nd_id n" if "node_get s p = Inr n"
    using that by simp
qed

lemma request_vote_peer_server: "request_vote_peer cbs p (s, w) = Inr (s', w') \<Longrightarrow> s' = s"
  by (auto simp: request_vote_peer_def dest: send_requestvote_server split: if_splits)

lemma request_votes_server: "for_nodes (request_vote_peer cbs) (s, w) = Inr (s', w') \<Longrightarrow> s' = s"
  by (rule for_nodes_invariant[where Q = "\<lambda>t. t = s"]) (auto dest: request_vote_peer_server)

lemma become_candidate_parts:
  fixes cbs :: "'w raft_cbs" and w w' :: 'w
  assumes ret: "raft_become_candidate cbs (s, w) = Inr (s', w')"
  obtains s1 and w1 w2 :: 'w and t v where
    "for_nodes clear_vote_peer (s\<lparr>current_term := current_term s + 1, voted_for := -1\<rparr>, w1) = Inr (s1, w2)"
    "srv_node s1 = None \<longrightarrow> v = -1" "\<forall>n. node_get s1 (srv_node s1) = Inr n \<longrightarrow> v = nd_id n"
    "\<exists>w. c_rem (fst (rand_fn cbs w)) (election_timeout s1) = Inr t"
    "s' = s1\<lparr>voted_for := v, srv_state := RAFT_STATE_CANDIDATE, current_leader := None, timeout_elapsed := t\<rparr>"
proof -
  have rand: "(let (r, w) = rand_fn cbs x in f r w) = f (fst (rand_fn cbs x)) (snd (rand_fn cbs x))"
    for x and f :: "int \<Rightarrow> 'w \<Rightarrow> fault + 'w st" by (simp add: split_def Let_def)
  from ret obtain w1 s0 s1 w2 s2 w3 t where
    0: "raft_set_current_term cbs (current_term s + 1) (s, w) = Inr (s0, w1)"
    and 1: "for_nodes clear_vote_peer (s0, w1) = Inr (s1, w2)"
    and 2: "raft_vote cbs (srv_node s1) (s1, w2) = Inr (s2, w3)"
    and 3: "c_rem (fst (rand_fn cbs w3)) (election_timeout s2) = Inr t"
    and 4: "for_nodes (request_vote_peer cbs) (raft_set_state RAFT_STATE_CANDIDATE
       (s2\<lparr>current_leader := None\<rparr>)\<lparr>timeout_elapsed := t\<rparr>, snd (rand_fn cbs w3)) = Inr (s', w')"
    by (auto simp: raft_become_candidate_def rand) (auto simp: Let_def set_state_effect)
  from set_current_term_effect[OF 0] have s0: "s0 = s\<lparr>current_term := current_term s + 1, voted_for := -1\<rparr>"
    by simp
  from vote_effect[OF 2] obtain v where v: "s2 = s1\<lparr>voted_for := v\<rparr>" "srv_node s1 = None \<longrightarrow> v = -1"
    "\<forall>n. node_get s1 (srv_node s1) = Inr n \<longrightarrow> v = nd_id n" by (elim exE conjE) (rule that)
  show thesis
    by (rule that[of w1 s1 w2 v t])
      (use 1 s0 v 3 request_votes_server[OF 4] in \<open>auto simp: set_state_effect\<close>)
qed

lemma become_candidate_ok:
  fixes cbs :: "'w raft_cbs" and w w' :: 'w
  assumes inv: "srv_inv s" and ret: "raft_become_candidate cbs (s, w) = Inr (s', w')"
  shows "step_ok s s'"
proof -
  obtain s1 and w1 w2 :: 'w and t v where
    clr: "for_nodes clear_vote_peer (s\<lparr>current_term := current_term s + 1, voted_for := -1\<rparr>, w1) = Inr (s1, w2)"
    and "srv_node s1 = None \<longrightarrow> v = -1" "\<forall>n. node_get s1 (srv_node s1) = Inr n \<longrightarrow> v = nd_id n"
      "\<exists>w. c_rem (fst (rand_fn cbs w)) (election_timeout s1) = Inr t"
    and s': "s' = s1\<lparr>voted_for := v, srv_state := RAFT_STATE_CANDIDATE, current_leader := None, timeout_elapsed := t\<rparr>"
    by (rule become_candidate_parts[OF ret]) (rule that; assumption)
  let ?s0 = "s\<lparr>current_term := current_term s + 1, voted_for := -1\<rparr>"
  have 0: "step_ok s ?s0"
    using inv by (simp add: step_ok_def srv_inv_def nodes_wf_def idx_wf_def raft_get_current_idx_def evolves_def)
  have 1: "step_ok ?s0 s1"
    using heap_step_ok[OF for_nodes_heap_step[OF clear_vote_peer_heap clr] step_ok_inv[OF 0]] .
  have "step_ok s1 s'" by (rule frame_step) (simp_all add: s' same_core_def step_ok_inv[OF 1])
  with 0 1 show ?thesis using step_ok_trans by blast
qed

text \<open>A new candidate: one term further, its own vote, and no other vote counted for it.\<close>

lemma become_candidate_effect:
  fixes cbs :: "'w raft_cbs" and w w' :: 'w
  assumes wf: "nodes_wf s" and me: "node_get s (srv_node s) = Inr me"
    and ret: "raft_become_candidate cbs (s, w) = Inr (s', w')"
  shows "current_term s' = current_term s + 1" "voted_for s' = nd_id me"
    "srv_state s' = RAFT_STATE_CANDIDATE" "current_leader s' = None" "srv_log s' = srv_log s"
    "nodes s' = nodes s" "voters s' = {}" "raft_get_nvotes_for_me s' = Inr 1"
    "\<exists>w. c_rem (fst (rand_fn cbs w)) (election_timeout s) = Inr (timeout_elapsed s')"
proof -
  let ?s0 = "s\<lparr>current_term := current_term s + 1, voted_for := -1\<rparr>"
  obtain s1 and w1 w2 :: 'w and t v where clr: "for_nodes clear_vote_peer (?s0, w1) = Inr (s1, w2)"
    and "srv_node s1 = None \<longrightarrow> v = -1"
    and v: "\<forall>n. node_get s1 (srv_node s1) = Inr n \<longrightarrow> v = nd_id n"
    and t: "\<exists>w. c_rem (fst (rand_fn cbs w)) (election_timeout s1) = Inr t"
    and s': "s' = s1\<lparr>voted_for := v, srv_state := RAFT_STATE_CANDIDATE, current_leader := None, timeout_elapsed := t\<rparr>"
    by (rule become_candidate_parts[OF ret]) (rule that; assumption)
  have wf0: "nodes_wf ?s0" using wf by (simp add: nodes_wf_def)
  note c = clear_votes_effect[OF wf0 clr] and f = heap_step_fields[OF clear_votes_effect(1)[OF wf0 clr]]
  have "node_get ?s0 (srv_node s) = Inr me" using me by (simp add: node_get_def)
  from c(3)[OF this] obtain me' where me': "node_get s1 (srv_node s) = Inr me'" "nd_id me' = nd_id me"
    by blast
  have vote: "v = nd_id me" using v f(12) me' by simp
  show "current_term s' = current_term s + 1" "voted_for s' = nd_id me"
    "srv_state s' = RAFT_STATE_CANDIDATE" "current_leader s' = None" "srv_log s' = srv_log s"
    "nodes s' = nodes s" "\<exists>w. c_rem (fst (rand_fn cbs w)) (election_timeout s) = Inr (timeout_elapsed s')"
    using f vote t by (simp_all add: s')
  have "peer_voted s' p = peer_voted s1 p" for p by (simp add: s' peer_voted_def node_get_def)
  then show none: "voters s' = {}" using c(2) f(8) by (auto simp: voters_def s')
  have "nodes_wf s'" using heap_step_nodes_wf[OF c(1) wf0] by (simp add: s' nodes_wf_def)
  moreover have "node_get s' (srv_node s') = Inr me'" using me' f(12) by (simp add: s' node_get_def)
  ultimately show "raft_get_nvotes_for_me s' = Inr 1"
    using nvotes_for_me_eq none vote me'(2) by (simp add: s')
qed

subsection \<open>Vote requests\<close>

text \<open>The log of the candidate is at least as up to date as the server's: a later last term, or the
  same last term and at least as many entries. Terms compare as the \<^verbatim>\<open>unsigned\<close> values the C code
  compares.\<close>

definition log_up_to_date :: "raft_server \<Rightarrow> msg_requestvote \<Rightarrow> bool" where
  "log_up_to_date s vr \<longleftrightarrow> entries_of s = [] \<or>
     ety_term (last (entries_of s)) < word_of_int (rv_last_log_term vr) \<or>
     ety_term (last (entries_of s)) = word_of_int (rv_last_log_term vr) \<and>
     int (length (entries_of s)) \<le> rv_last_log_idx vr"

lemma get_last_entry:
  assumes "srv_inv s" "entries_of s \<noteq> []"
  shows "raft_get_entry_from_idx s (raft_get_current_idx s) = Inr (Some (last (entries_of s)))"
proof -
  have live: "log_live (srv_log s)" and cur: "raft_get_current_idx s = int (length (entries_of s))"
    using assms(1) srv_inv_current_idx by (auto simp: srv_inv_def)
  have "1 \<le> raft_get_current_idx s" using cur assms(2) by (simp add: Suc_leI)
  from rlog.get[OF live this] cur assms(2) show ?thesis
    by (simp add: raft_get_entry_from_idx_def last_conv_nth nat_diff_distrib')
qed

lemma should_grant_vote_iff:
  assumes "srv_inv s"
  shows "should_grant_vote s vr =
    Inr (current_term s \<le> rv_term vr \<and> voted_for s = -1 \<and> log_up_to_date s vr)"
proof (cases "entries_of s = []")
  case True
  then show ?thesis
    using srv_inv_current_idx[OF assms]
    by (auto simp: should_grant_vote_def raft_already_voted_def log_up_to_date_def)
next
  case False
  then show ?thesis
    using srv_inv_current_idx[OF assms] get_last_entry[OF assms]
    by (auto simp: should_grant_vote_def raft_already_voted_def log_up_to_date_def Let_def)
qed

text \<open>The server after the step on terms of a vote request.\<close>

definition rv_stepped :: "msg_requestvote \<Rightarrow> raft_server \<Rightarrow> raft_server" where
  "rv_stepped vr s = (if current_term s < rv_term vr
     then s\<lparr>current_term := rv_term vr, voted_for := -1, srv_state := RAFT_STATE_FOLLOWER\<rparr> else s)"

lemma rv_stepped_ok: "srv_inv s \<Longrightarrow> step_ok s (rv_stepped vr s)"
  by (auto simp: rv_stepped_def step_ok_def srv_inv_def nodes_wf_def idx_wf_def
      raft_get_current_idx_def evolves_def)

lemma recv_requestvote_cases:
  assumes inv: "srv_inv s" and ret: "raft_recv_requestvote cbs vr r (s, w) = Inr (e, r', s', w')"
  obtains (granted) "rvr_vote_granted r' = 1" "e = 0" "rvr_term r' = current_term s'"
      "current_term (rv_stepped vr s) \<le> rv_term vr" "voted_for (rv_stepped vr s) = -1"
      "log_up_to_date s vr" "srv_state (rv_stepped vr s) \<notin> {RAFT_STATE_LEADER, RAFT_STATE_CANDIDATE}"
      "s' = (rv_stepped vr s)\<lparr>voted_for := rv_candidate_id vr, current_leader := None, timeout_elapsed := 0\<rparr>"
    | (refused) "rvr_vote_granted r' = 0" "e = 0" "rvr_term r' = current_term s'"
      "\<not> (current_term (rv_stepped vr s) \<le> rv_term vr \<and> voted_for (rv_stepped vr s) = -1 \<and>
         log_up_to_date s vr)" "s' = rv_stepped vr s"
proof -
  from ret obtain s1 w1 g where
    1: "(if current_term s < rv_term vr
         then bindE (raft_set_current_term cbs (rv_term vr) (s, w)) (\<lambda>(s, w). Inr (raft_become_follower s, w))
         else Inr (s, w)) = Inr (s1, w1)"
    and g: "should_grant_vote s1 vr = Inr g"
    and rest: "(if g then bindE (assertE (\<not> (raft_is_leader s1 \<or> raft_is_candidate s1))) (\<lambda>_.
       bindE (raft_vote_for_nodeid cbs (rv_candidate_id vr) (s1, w1)) (\<lambda>(s, w).
       Inr (0, r\<lparr>rvr_vote_granted := 1, rvr_term := current_term s\<rparr>,
            s\<lparr>current_leader := None, timeout_elapsed := 0\<rparr>, w)))
     else Inr (0, r\<lparr>rvr_vote_granted := 0, rvr_term := current_term s1\<rparr>, s1, w1)) = Inr (e, r', s', w')"
    unfolding raft_recv_requestvote_def by auto
  have s1: "s1 = rv_stepped vr s"
    using 1 by (auto simp: rv_stepped_def become_follower_effect dest!: set_current_term_effect split: if_splits)
  have up: "log_up_to_date s1 vr = log_up_to_date s vr" by (simp add: s1 rv_stepped_def log_up_to_date_def)
  have grant: "g = (current_term s1 \<le> rv_term vr \<and> voted_for s1 = -1 \<and> log_up_to_date s vr)"
    using g should_grant_vote_iff[OF step_ok_inv[OF rv_stepped_ok[OF inv]], of vr] s1 up by simp
  show thesis
  proof (cases g)
    case True
    with rest obtain s2 w2 where st: "\<not> raft_is_leader s1" "\<not> raft_is_candidate s1"
      and v: "raft_vote_for_nodeid cbs (rv_candidate_id vr) (s1, w1) = Inr (s2, w2)"
      and res: "e = 0" "r' = r\<lparr>rvr_vote_granted := 1, rvr_term := current_term s2\<rparr>"
        "s' = s2\<lparr>current_leader := None, timeout_elapsed := 0\<rparr>" by auto
    from vote_for_nodeid_effect[OF v] have s2: "s2 = s1\<lparr>voted_for := rv_candidate_id vr\<rparr>" .
    show thesis
      using True grant st res by (intro granted) (simp_all add: s2 s1 raft_is_leader_def raft_is_candidate_def)
  next
    case False
    with rest grant show thesis by (intro refused) (auto simp: s1)
  qed
qed

lemma recv_requestvote_ok:
  assumes inv: "srv_inv s" and ret: "raft_recv_requestvote cbs vr r (s, w) = Inr (e, r', s', w')"
  shows "step_ok s s'"
  using inv ret
proof (cases rule: recv_requestvote_cases)
  case granted
  note 0 = rv_stepped_ok[OF inv, of vr]
  have "step_ok (rv_stepped vr s) s'"
    by (rule frame_step) (simp_all add: granted same_core_def step_ok_inv[OF 0])
  with 0 show ?thesis by (rule step_ok_trans)
next
  case refused
  then show ?thesis using rv_stepped_ok[OF inv] by simp
qed

subsection \<open>Vote responses\<close>

lemma recv_requestvote_response_cases:
  assumes ret: "raft_recv_requestvote_response cbs p r (s, w) = Inr (e, s', w')"
  obtains (ignored) "s' = s" "e = 0"
    | (stepped_down) "raft_is_candidate s" "current_term s < rvr_term r" "e = 0"
        "s' = s\<lparr>current_term := rvr_term r, voted_for := -1, srv_state := RAFT_STATE_FOLLOWER\<rparr>"
    | (counted) s1 votes where "raft_is_candidate s" "rvr_term r = current_term s" "rvr_vote_granted r = 1" "e = 0"
        "(if p = None then s1 = s else node_upd p (raft_node_vote_for_me True) s = Inr s1)"
        "raft_get_nvotes_for_me s1 = Inr votes"
        "(if raft_votes_is_majority (num_nodes s) votes
          then raft_become_leader cbs (s1, w) = Inr (s', w') else s' = s1)"
proof (cases "raft_is_candidate s \<and> current_term s \<le> rvr_term r")
  case False
  with ret have "s' = s" "e = 0" by (auto simp: raft_recv_requestvote_response_def split: if_splits)
  then show thesis by (rule ignored)
next
  case c: True
  show thesis
  proof (cases "current_term s < rvr_term r")
    case True
    with ret c obtain s1 w1 where 1: "raft_set_current_term cbs (rvr_term r) (s, w) = Inr (s1, w1)"
      "s' = raft_become_follower s1" "e = 0" by (auto simp: raft_recv_requestvote_response_def)
    show thesis using c True 1 set_current_term_effect[OF 1(1)]
      by (intro stepped_down) (simp_all add: become_follower_effect)
  next
    case False
    with c have t: "rvr_term r = current_term s" by simp
    show thesis
    proof (cases "rvr_vote_granted r = 1")
      case g: True
      from ret c t g obtain s1 votes where
        1: "(if p \<noteq> None then node_upd p (raft_node_vote_for_me True) s else Inr s) = Inr s1"
        and 2: "raft_get_nvotes_for_me s1 = Inr votes"
        and 3: "(if raft_votes_is_majority (num_nodes s1) votes
           then bindE (raft_become_leader cbs (s1, w)) (\<lambda>sw. Inr (0, sw)) else Inr (0, s1, w)) = Inr (e, s', w')"
        by (auto simp: raft_recv_requestvote_response_def)
      have n: "num_nodes s1 = num_nodes s" using 1 by (auto simp: node_upd_effect split: if_splits)
      have u: "if p = None then s1 = s else node_upd p (raft_node_vote_for_me True) s = Inr s1"
        using 1 by (cases p) simp_all
      have m: "if raft_votes_is_majority (num_nodes s) votes
          then raft_become_leader cbs (s1, w) = Inr (s', w') else s' = s1" and e: "e = 0"
        using 3 by (simp_all add: n split: if_splits)
      show thesis by (rule counted[OF conjunct1[OF c] t g e u 2 m])
    next
      case False
      with ret c t have "s' = s" "e = 0" by (auto simp: raft_recv_requestvote_response_def)
      then show thesis by (rule ignored)
    qed
  qed
qed

lemma vote_for_me_heap:
  "(if p = None then s1 = s else node_upd p (raft_node_vote_for_me True) s = Inr s1) \<Longrightarrow> heap_step s s1"
  by (auto intro!: heap_step_upd split: if_splits)

lemma recv_requestvote_response_ok:
  assumes inv: "srv_inv s" and ret: "raft_recv_requestvote_response cbs p r (s, w) = Inr (e, s', w')"
  shows "step_ok s s'"
  using ret
proof (cases rule: recv_requestvote_response_cases)
  case ignored
  then show ?thesis by (simp add: inv step_ok_refl)
next
  case stepped_down
  then show ?thesis
    using inv by (simp add: step_ok_def srv_inv_def nodes_wf_def idx_wf_def raft_get_current_idx_def evolves_def)
next
  case (counted s1 votes)
  have 1: "step_ok s s1" using heap_step_ok[OF vote_for_me_heap[OF counted(5)] inv] .
  show ?thesis
  proof (cases "raft_votes_is_majority (num_nodes s) votes")
    case True
    with counted(7) become_leader_ok[OF step_ok_inv[OF 1]] have "step_ok s1 s'" by simp
    with 1 show ?thesis by (rule step_ok_trans)
  next
    case False
    with counted(7) 1 show ?thesis by simp
  qed
qed

end
