(* ===== verification/Raft_Leader.thy ===== *)
theory Raft_Leader
  imports Raft_Election
begin

section \<open>Replication, client entries, the timer and membership\<close>

text \<open>
  The leader's side of \<^verbatim>\<open>raft_server.c\<close>: responses to append-entries and the commit rule, entries
  of clients, applying committed entries, the periodic timer, and changes of the peers. Each
  operation keeps the invariant and moves the server forward (\<open>step_ok\<close>).
\<close>

subsection \<open>The commit rule\<close>

definition acked :: "raft_server \<Rightarrow> int \<Rightarrow> addr option \<Rightarrow> bool" where
  "acked s point p \<longleftrightarrow> p \<noteq> srv_node s \<and>
     (case node_get s p of Inl _ \<Rightarrow> False
      | Inr n \<Rightarrow> raft_node_is_voting n \<and> 0 < nd_match_idx n \<and> point \<le> nd_match_idx n \<and>
          nd_match_idx n \<le> int (length (entries_of s)) \<and>
          ety_term (entries_of s ! nat (nd_match_idx n - 1)) = word_of_int (current_term s))"

lemma aer_count_vote_eq:
  assumes live: "log_live (srv_log s)" and ret: "aer_count_vote s point p v = Inr v'"
  shows "v' = (if acked s point p then v + 1 else v)"
proof (cases "skip_peer s p = Inr True")
  case True
  with ret have "v' = v" by (simp add: aer_count_vote_def)
  with True show ?thesis by (auto simp: skip_peer_def acked_def split: if_splits)
next
  case False
  with ret obtain n where n: "skip_peer s p = Inr False" "node_get s p = Inr n"
    by (auto simp: aer_count_vote_def split: if_splits)
  then have vot: "p \<noteq> srv_node s" "raft_node_is_voting n" by (auto simp: skip_peer_def split: if_splits)
  show ?thesis
  proof (cases "0 < nd_match_idx n")
    case True
    then have "1 \<le> nd_match_idx n" by simp
    note get = rlog.get[OF live this]
    from ret n True get show ?thesis using vot
      by (auto simp: aer_count_vote_def acked_def raft_get_entry_from_idx_def Let_def split: if_splits)
  next
    case False
    with ret n vot show ?thesis by (auto simp: aer_count_vote_def acked_def Let_def)
  qed
qed

lemma aer_count_fold:
  assumes live: "log_live (srv_log s)"
  shows "foldE (aer_count_vote s point) ps v = Inr v' \<Longrightarrow>
    v' = v + int (length (filter (acked s point) ps))"
proof (induction ps arbitrary: v)
  case (Cons p ps)
  then obtain u where "aer_count_vote s point p v = Inr u" "foldE (aer_count_vote s point) ps u = Inr v'"
    by auto
  with Cons.IH[of u] aer_count_vote_eq[OF live] show ?case by fastforce
qed simp

lemma aer_update_commit_eq:
  assumes inv: "srv_inv s" and ret: "aer_update_commit point s = Inr s'"
  shows "if commit_idx s < point \<and>
       commit_majority (num_nodes s) (1 + int (card {p \<in> set (nodes s). acked s point p}))
     then point \<le> raft_get_current_idx s \<and> s' = s\<lparr>commit_idx := point\<rparr> else s' = s"
proof -
  have wf: "nodes_wf s" and live: "log_live (srv_log s)" using inv by (simp_all add: srv_inv_def)
  from ret node_array_wf[OF wf] obtain votes where
    v: "foldE (aer_count_vote s point) (nodes s) 1 = Inr votes"
    and rest: "(if c_div (num_nodes s) 2 < votes \<and> commit_idx s < point
      then raft_set_commit_idx point s else Inr s) = Inr s'"
    by (auto simp: aer_update_commit_def)
  have "card {p \<in> set (nodes s). acked s point p} = length (filter (acked s point) (nodes s))"
    using wf distinct_card[of "filter (acked s point) (nodes s)"] by (simp add: nodes_wf_def)
  then have "votes = 1 + int (card {p \<in> set (nodes s). acked s point p})"
    using aer_count_fold[OF live v] by simp
  with rest show ?thesis by (auto simp: set_commit_idx_effect commit_majority_def split: if_splits)
qed

lemma advance_commit_ok:
  "srv_inv s \<Longrightarrow> commit_idx s \<le> point \<Longrightarrow> point \<le> raft_get_current_idx s \<Longrightarrow>
     step_ok s (s\<lparr>commit_idx := point\<rparr>)"
  by (auto simp: step_ok_def srv_inv_def nodes_wf_def idx_wf_def raft_get_current_idx_def evolves_def)

lemma aer_update_commit_ok:
  assumes inv: "srv_inv s" and ret: "aer_update_commit point s = Inr s'"
  shows "step_ok s s'"
  using aer_update_commit_eq[OF assms] advance_commit_ok[OF inv, of point] step_ok_refl[OF inv]
  by (auto split: if_splits)

subsection \<open>Responses to append-entries\<close>

lemma set_next_idx_heap: "node_upd p (raft_node_set_next_idx i) s = Inr s' \<Longrightarrow> heap_step s s'"
  by (erule heap_step_upd) simp_all

lemma set_match_idx_heap: "node_upd p (raft_node_set_match_idx i) s = Inr s' \<Longrightarrow> heap_step s s'"
  by (erule heap_step_upd) simp_all

lemma aer_failure_heap: "aer_failure cbs p r (s, w) = Inr (e, s', w') \<Longrightarrow> heap_step s s'"
  by (auto simp: aer_failure_def Let_def dest!: send_appendentries_server set_next_idx_heap
      split: if_splits)

context raft_env begin

lemma aer_sufficient_logs_ok:
  assumes inv: "srv_inv s" and ret: "aer_sufficient_logs cbs p r (s, w) = Inr (s', w')"
  shows "step_ok s s' \<and> current_term s' = current_term s"
proof (cases "s' = s")
  case True
  then show ?thesis by (simp add: inv step_ok_refl)
next
  case False
  with ret obtain g s1 where g: "node_has_sufficient_logs cbs = Some g"
    and 1: "node_upd p raft_node_set_has_sufficient_logs s = Inr s1" and 2: "g (the p) (s1, w) = Inr (s', w')"
    by (auto simp: aer_sufficient_logs_def split: option.splits if_splits)
  have h: "heap_step s s1" by (rule heap_step_upd[OF 1]) simp
  note ok1 = heap_step_ok[OF h inv]
  from sufficient[OF g step_ok_inv[OF ok1] 2] ok1 heap_step_fields(1)[OF h] show ?thesis
    using step_ok_trans by auto
qed

lemma aer_success_step_ok:
  assumes inv: "srv_inv s" and ret: "aer_success_step cbs p r (s, w) = Inr (e, s', w')"
  shows "step_ok s s'"
proof -
  from ret obtain s1 s2 s3 w3 s4 n and x :: "raft_entry option" where
    1: "node_upd p (raft_node_set_next_idx (aer_current_idx r + 1)) s = Inr s1"
    and 2: "node_upd p (raft_node_set_match_idx (aer_current_idx r)) s1 = Inr s2"
    and 3: "aer_sufficient_logs cbs p r (s2, w) = Inr (s3, w3)"
    and 4: "aer_update_commit (aer_current_idx r) s3 = Inr s4"
    and 5: "(if x \<noteq> None then bindE (raft_send_appendentries cbs p (s4, w3)) (\<lambda>(_, sw). Inr (0, sw))
       else Inr (0, s4, w3)) = Inr (e, s', w')"
    by (auto simp: aer_success_step_def)
  note o1 = heap_step_ok[OF heap_step_trans[OF set_next_idx_heap[OF 1] set_match_idx_heap[OF 2]] inv]
  note o2 = step_ok_trans[OF o1 conjunct1[OF aer_sufficient_logs_ok[OF step_ok_inv[OF o1] 3]]]
  note o3 = step_ok_trans[OF o2 aer_update_commit_ok[OF step_ok_inv[OF o2] 4]]
  have "s' = s4" using 5 by (auto dest: send_appendentries_server split: if_splits)
  with o3 show ?thesis by simp
qed

lemma recv_appendentries_response_ok:
  assumes inv: "srv_inv s" and ret: "raft_recv_appendentries_response cbs p r (s, w) = Inr (e, s', w')"
  shows "step_ok s s'"
proof -
  from ret consider "s' = s"
    | s1 w1 where "raft_set_current_term cbs (aer_term r) (s, w) = Inr (s1, w1)" "s' = raft_become_follower s1"
    | "aer_failure cbs p r (s, w) = Inr (e, s', w')" | "aer_success_step cbs p r (s, w) = Inr (e, s', w')"
    by (auto simp: raft_recv_appendentries_response_def split: if_splits)
  then show ?thesis
  proof cases
    case 1
    then show ?thesis by (simp add: inv step_ok_refl)
  next
    case 2
    note o1 = set_current_term_ok[OF inv 2(1)]
    show ?thesis using step_ok_trans[OF o1 become_follower_ok[OF step_ok_inv[OF o1]]] 2(2) by simp
  next
    case 3
    then show ?thesis by (rule heap_step_ok[OF aer_failure_heap inv])
  next
    case 4
    then show ?thesis by (rule aer_success_step_ok[OF inv])
  qed
qed

end

subsection \<open>Client entries\<close>

lemma recv_entry_peer_server: "recv_entry_peer cbs p (s, w) = Inr (s', w') \<Longrightarrow> s' = s"
  by (auto simp: recv_entry_peer_def dest: send_appendentries_server split: if_splits)

lemma recv_entry_peers_server: "for_nodes (recv_entry_peer cbs) (s, w) = Inr (s', w') \<Longrightarrow> s' = s"
  by (rule for_nodes_invariant[where Q = "\<lambda>t. t = s"]) (auto dest: recv_entry_peer_server)

definition recv_entry_refused :: "raft_entry \<Rightarrow> raft_server \<Rightarrow> bool" where
  "recv_entry_refused e s \<longleftrightarrow>
     raft_entry_is_voting_cfg_change e \<and> voting_cfg_change_log_idx s \<noteq> -1 \<or> \<not> raft_is_leader s"

lemma recv_entry_refused_eq:
  "recv_entry_refused e s \<Longrightarrow> raft_recv_entry cbs e r (s, w) = Inr (-1, r, s, w)"
  by (auto simp: recv_entry_refused_def raft_recv_entry_def)

lemma recv_entry_parts:
  assumes "\<not> recv_entry_refused e s" "raft_recv_entry cbs e r (s, w) = Inr (res, r', s', w')"
  obtains a s1 w1 where
    "raft_append_entry cbs \<lparr>ety_term = word_of_int (current_term s), ety_id = ety_id e,
       ety_type = ety_type e, ety_data = ety_data e\<rparr> (s, w) = Inr (a, s1, w1)"
    "res = 0" "mer_id r' = ety_id e" "mer_idx r' = raft_get_current_idx s1" "mer_term r' = current_term s1"
    "s' = s1\<lparr>commit_idx := (if num_nodes s1 = 1 then raft_get_current_idx s1 else commit_idx s1),
       voting_cfg_change_log_idx := (if raft_entry_is_voting_cfg_change e
         then raft_get_current_idx s1 else voting_cfg_change_log_idx s1)\<rparr>"
proof -
  from assms obtain a s1 w1 s2 where
    1: "raft_append_entry cbs \<lparr>ety_term = word_of_int (current_term s), ety_id = ety_id e,
       ety_type = ety_type e, ety_data = ety_data e\<rparr> (s, w) = Inr (a, s1, w1)"
    and 2: "for_nodes (recv_entry_peer cbs) (s1, w1) = Inr (s2, w')"
    and 3: "(let s = (if 1 = num_nodes s2 then s2\<lparr>commit_idx := raft_get_current_idx s2\<rparr> else s2);
            r = r\<lparr>mer_id := ety_id e, mer_idx := raft_get_current_idx s, mer_term := current_term s\<rparr>;
            s = (if raft_entry_is_voting_cfg_change e
                 then s\<lparr>voting_cfg_change_log_idx := raft_get_current_idx s\<rparr> else s) in (0, r, s)) = (res, r', s')"
    by (auto simp: raft_recv_entry_def recv_entry_refused_def Let_def)
  have "s2 = s1" using recv_entry_peers_server[OF 2] .
  with 3 show thesis
    by (intro that[OF 1]) (auto simp: Let_def raft_get_current_idx_def split: if_splits)
qed

context raft_env begin

lemma recv_entry_ok:
  assumes inv: "srv_inv s" and ret: "raft_recv_entry cbs e r (s, w) = Inr (res, r', s', w')"
  shows "step_ok s s' \<and> current_term s' = current_term s"
proof (cases "recv_entry_refused e s")
  case True
  with ret have "s' = s" by (simp add: recv_entry_refused_eq)
  then show ?thesis by (simp add: inv step_ok_refl)
next
  case False
  obtain a s1 w1 where
    1: "raft_append_entry cbs \<lparr>ety_term = word_of_int (current_term s), ety_id = ety_id e,
       ety_type = ety_type e, ety_data = ety_data e\<rparr> (s, w) = Inr (a, s1, w1)"
    and s': "s' = s1\<lparr>commit_idx := (if num_nodes s1 = 1 then raft_get_current_idx s1 else commit_idx s1),
       voting_cfg_change_log_idx := (if raft_entry_is_voting_cfg_change e
         then raft_get_current_idx s1 else voting_cfg_change_log_idx s1)\<rparr>"
    by (rule recv_entry_parts[OF False ret])
  note eff = append_entry_effect[OF inv 1]
  have inv1: "srv_inv s1" using step_ok_inv[OF eff(1)] .
  let ?s2 = "s1\<lparr>commit_idx := (if num_nodes s1 = 1 then raft_get_current_idx s1 else commit_idx s1)\<rparr>"
  have a: "step_ok s1 ?s2"
    by (rule advance_commit_ok[OF inv1]) (use inv1 in \<open>auto simp: srv_inv_def idx_wf_def\<close>)
  have b: "step_ok ?s2 s'"
    by (rule frame_step) (use step_ok_inv[OF a] in \<open>simp_all add: s' same_core_def\<close>)
  have "current_term s' = current_term s" using eff(2) by (simp add: s')
  with step_ok_trans[OF step_ok_trans[OF eff(1) a] b] show ?thesis by blast
qed

text \<open>An accepted entry is the last of the log, with the leader's term; the response names it. In a
  cluster of one it is committed at once.\<close>

lemma recv_entry_appends:
  assumes inv: "srv_inv s" and ret: "raft_recv_entry cbs e r (s, w) = Inr (0, r', s', w')"
    and eid: "ety_id e \<noteq> 0"
  shows "raft_is_leader s"
    "\<exists>c. entries_of s' = entries_of s @ [c] \<and> ety_term c = word_of_int (current_term s) \<and>
       ety_id c = ety_id e \<and> ety_type c = ety_type e"
    "mer_id r' = ety_id e" "mer_idx r' = int (length (entries_of s'))" "mer_term r' = current_term s"
    "num_nodes s' = 1 \<Longrightarrow> commit_idx s' = mer_idx r'" "num_nodes s' \<noteq> 1 \<Longrightarrow> commit_idx s' = commit_idx s"
proof -
  have nr: "\<not> recv_entry_refused e s" using ret recv_entry_refused_eq[of e s cbs r w] by auto
  then show "raft_is_leader s" by (simp add: recv_entry_refused_def)
  obtain a s1 w1 where
    1: "raft_append_entry cbs \<lparr>ety_term = word_of_int (current_term s), ety_id = ety_id e,
       ety_type = ety_type e, ety_data = ety_data e\<rparr> (s, w) = Inr (a, s1, w1)"
    and r': "mer_id r' = ety_id e" "mer_idx r' = raft_get_current_idx s1" "mer_term r' = current_term s1"
    and s': "s' = s1\<lparr>commit_idx := (if num_nodes s1 = 1 then raft_get_current_idx s1 else commit_idx s1),
       voting_cfg_change_log_idx := (if raft_entry_is_voting_cfg_change e
         then raft_get_current_idx s1 else voting_cfg_change_log_idx s1)\<rparr>"
    by (rule recv_entry_parts[OF nr ret])
  note eff = append_entry_effect[OF inv 1]
  have "raft_get_current_idx s1 = int (length (entries_of s1))"
    using srv_inv_current_idx[OF step_ok_inv[OF eff(1)]] .
  with r' s' eff show
    "mer_id r' = ety_id e" "mer_idx r' = int (length (entries_of s'))" "mer_term r' = current_term s"
    "num_nodes s' = 1 \<Longrightarrow> commit_idx s' = mer_idx r'" "num_nodes s' \<noteq> 1 \<Longrightarrow> commit_idx s' = commit_idx s"
    by simp_all
  show "\<exists>c. entries_of s' = entries_of s @ [c] \<and> ety_term c = word_of_int (current_term s) \<and>
       ety_id c = ety_id e \<and> ety_type c = ety_type e"
    using eff(8) eid s' by auto
qed

end

subsection \<open>Applying entries\<close>

lemma apply_entry_cases:
  assumes inv: "srv_inv s" and pend: "last_applied_idx s < commit_idx s"
    and ret: "raft_apply_entry cbs (s, w) = Inr (e, s', w')"
  shows "e = 0 \<and> last_applied_idx s' = last_applied_idx s + 1 \<and> srv_log s' = srv_log s \<and>
    commit_idx s' = commit_idx s \<and> step_ok s s' \<and>
    lift_cb (applylog cbs) (entries_of s ! nat (last_applied_idx s))
      (s\<lparr>last_applied_idx := last_applied_idx s + 1\<rparr>, w) =
      Inr (s\<lparr>last_applied_idx := last_applied_idx s + 1\<rparr>, w')"
proof -
  let ?i = "last_applied_idx s + 1" and ?s = "s\<lparr>last_applied_idx := last_applied_idx s + 1\<rparr>"
  have b: "0 \<le> last_applied_idx s" "commit_idx s \<le> int (length (entries_of s))" "log_live (srv_log s)"
    using inv by (auto simp: srv_inv_def idx_wf_def current_idx_len)
  have "raft_get_entry_from_idx s ?i = Inr (Some (entries_of s ! nat (last_applied_idx s)))"
    using rlog.get[OF b(3), of ?i] b pend by (simp add: raft_get_entry_from_idx_def)
  with ret pend obtain s1 where
    cb: "lift_cb (applylog cbs) (entries_of s ! nat (last_applied_idx s)) (?s, w) = Inr (s1, w')"
    and res: "e = 0" "s' = (if ?i = voting_cfg_change_log_idx s1 then s1\<lparr>voting_cfg_change_log_idx := -1\<rparr> else s1)"
    by (auto simp: raft_apply_entry_def Let_def)
  have s1: "s1 = ?s" using lift_cb_server[OF cb] by simp
  have core: "last_applied_idx s' = ?i" "srv_log s' = srv_log s" "commit_idx s' = commit_idx s"
    "current_term s' = current_term s" "nodes_wf s' = nodes_wf s"
    using res(2) by (simp_all add: s1 nodes_wf_def)
  have "step_ok s s'"
    using inv pend core by (simp add: step_ok_def srv_inv_def idx_wf_def evolves_def raft_get_current_idx_def)
  with core res(1) cb s1 show ?thesis by simp
qed

lemma apply_entry_nothing:
  "last_applied_idx s = commit_idx s \<Longrightarrow> raft_apply_entry cbs (s, w) = Inr (-1, s, w)"
  by (simp add: raft_apply_entry_def)

text \<open>With an \<^verbatim>\<open>applylog\<close> that returns, \<^verbatim>\<open>raft_apply_all\<close> ends, and it has applied every committed
  entry.\<close>

definition applies :: "'w raft_cbs \<Rightarrow> bool" where
  "applies cbs \<longleftrightarrow> (\<forall>f. applylog cbs = Some f \<longrightarrow> (\<forall>s e w. \<exists>w'. f s e w = Inr w'))"

lemma apply_entry_returns:
  assumes cb: "applies cbs" and inv: "srv_inv s" and pend: "last_applied_idx s < commit_idx s"
  shows "\<exists>s' w'. raft_apply_entry cbs (s, w) = Inr (0, s', w')"
proof -
  have b: "0 \<le> last_applied_idx s" "commit_idx s \<le> int (length (entries_of s))" "log_live (srv_log s)"
    using inv by (auto simp: srv_inv_def idx_wf_def current_idx_len)
  have "raft_get_entry_from_idx s (last_applied_idx s + 1) =
      Inr (Some (entries_of s ! nat (last_applied_idx s)))"
    using rlog.get[OF b(3), of "last_applied_idx s + 1"] b pend by (simp add: raft_get_entry_from_idx_def)
  moreover have "\<exists>y. lift_cb (applylog cbs) x sw = Inr y" for x sw
    using cb by (auto simp: applies_def lift_cb_def split: option.splits)
  ultimately show ?thesis using pend by (fastforce simp: raft_apply_entry_def Let_def)
qed

lemma apply_all_ends:
  assumes "applies cbs" "srv_inv s"
  shows "\<exists>s' w'. raft_apply_all cbs (s, w) = Some (Inr (s', w')) \<and> last_applied_idx s' = commit_idx s \<and>
    srv_log s' = srv_log s \<and> commit_idx s' = commit_idx s \<and> step_ok s s'"
  using assms
proof (induction "nat (commit_idx s - last_applied_idx s)" arbitrary: s w)
  case 0
  then have "last_applied_idx s = commit_idx s" by (auto simp: srv_inv_def idx_wf_def)
  then show ?case using 0 by (subst raft_apply_all.simps) (simp add: step_ok_refl)
next
  case (Suc n)
  then have pend: "last_applied_idx s < commit_idx s" by simp
  obtain s1 w1 where ap: "raft_apply_entry cbs (s, w) = Inr (0, s1, w1)"
    using apply_entry_returns[OF Suc.prems pend] by blast
  note c = apply_entry_cases[OF Suc.prems(2) pend ap]
  have "n = nat (commit_idx s1 - last_applied_idx s1)" using Suc.hyps(2) c by simp
  moreover have "srv_inv s1" using c step_ok_inv by blast
  ultimately obtain s' w' where r: "raft_apply_all cbs (s1, w1) = Some (Inr (s', w'))"
    "last_applied_idx s' = commit_idx s1" "srv_log s' = srv_log s1" "commit_idx s' = commit_idx s1"
    "step_ok s1 s'"
    using Suc.hyps(1)[of s1 w1] Suc.prems(1) by blast
  moreover have "raft_apply_all cbs (s, w) = raft_apply_all cbs (s1, w1)"
    using pend ap by (subst raft_apply_all.simps) simp
  ultimately show ?case using c step_ok_trans by auto
qed

text \<open>The order of application: with an \<^verbatim>\<open>applylog\<close> that appends to a history, \<^verbatim>\<open>raft_apply_all\<close>
  extends the history by the committed entries that were not applied yet, in log order.\<close>

definition records_applied :: "raft_entry list raft_cbs \<Rightarrow> bool" where
  "records_applied cbs \<longleftrightarrow> applylog cbs = Some (\<lambda>s e h. Inr (h @ [e]))"

definition unapplied :: "raft_server \<Rightarrow> raft_entry list" where
  "unapplied s = drop (nat (last_applied_idx s)) (take (nat (commit_idx s)) (entries_of s))"

lemma unapplied_step:
  assumes "srv_inv s" "last_applied_idx s < commit_idx s" "last_applied_idx s' = last_applied_idx s + 1"
    "commit_idx s' = commit_idx s" "srv_log s' = srv_log s"
  shows "unapplied s = entries_of s ! nat (last_applied_idx s) # unapplied s'"
proof -
  have b: "0 \<le> last_applied_idx s" "commit_idx s \<le> int (length (entries_of s))"
    using assms(1) by (auto simp: srv_inv_def idx_wf_def current_idx_len)
  let ?l = "take (nat (commit_idx s)) (entries_of s)" and ?i = "nat (last_applied_idx s)"
  have "?i < length ?l" using b assms(2) by simp
  then have "drop ?i ?l = ?l ! ?i # drop (Suc ?i) ?l" by (rule Cons_nth_drop_Suc[symmetric])
  moreover have "?l ! ?i = entries_of s ! ?i" using b assms(2) by (intro nth_take) simp
  moreover have "nat (last_applied_idx s + 1) = Suc ?i" using b by simp
  ultimately show ?thesis using assms(3-5) by (simp add: unapplied_def)
qed

lemma apply_all_order:
  assumes "records_applied cbs" "srv_inv s"
  shows "\<exists>s'. raft_apply_all cbs (s, h) = Some (Inr (s', h @ unapplied s)) \<and>
    last_applied_idx s' = commit_idx s"
  using assms
proof (induction "nat (commit_idx s - last_applied_idx s)" arbitrary: s h)
  case 0
  then have "last_applied_idx s = commit_idx s" by (auto simp: srv_inv_def idx_wf_def)
  then show ?case by (subst raft_apply_all.simps) (simp add: unapplied_def)
next
  case (Suc n)
  then have pend: "last_applied_idx s < commit_idx s" by simp
  have app: "applies cbs" using Suc.prems(1) by (simp add: applies_def records_applied_def)
  obtain s1 h1 where ap: "raft_apply_entry cbs (s, h) = Inr (0, s1, h1)"
    using apply_entry_returns[OF app Suc.prems(2) pend] by blast
  note c = apply_entry_cases[OF Suc.prems(2) pend ap]
  have h1: "h1 = h @ [entries_of s ! nat (last_applied_idx s)]"
    using c Suc.prems(1) by (simp add: records_applied_def lift_cb_def)
  have "n = nat (commit_idx s1 - last_applied_idx s1)" using Suc.hyps(2) c by simp
  moreover have "srv_inv s1" using c step_ok_inv by blast
  ultimately obtain s' where r: "raft_apply_all cbs (s1, h1) = Some (Inr (s', h1 @ unapplied s1))"
    "last_applied_idx s' = commit_idx s1"
    using Suc.hyps(1)[of s1 h1] Suc.prems(1) by blast
  moreover have "raft_apply_all cbs (s, h) = raft_apply_all cbs (s1, h1)"
    using pend ap by (subst raft_apply_all.simps) simp
  moreover have "h1 @ unapplied s1 = h @ unapplied s"
    using unapplied_step[OF Suc.prems(2) pend, of s1] c by (simp add: h1)
  ultimately show ?case using c by auto
qed

subsection \<open>The timer\<close>

lemma send_all_server:
  assumes "raft_send_appendentries_all cbs (s, w) = Inr (s', w')"
  shows "s' = s\<lparr>timeout_elapsed := 0\<rparr>"
proof -
  have "appendentries_all_peer cbs p (t, v) = Inr (t', v') \<Longrightarrow> t' = t" for p t v t' v'
    by (auto simp: appendentries_all_peer_def dest: send_appendentries_server split: if_splits)
  then show ?thesis
    using for_nodes_invariant[of "\<lambda>t. t = s\<lparr>timeout_elapsed := 0\<rparr>" "appendentries_all_peer cbs"
        "s\<lparr>timeout_elapsed := 0\<rparr>" w s' w'] assms
    by (auto simp: raft_send_appendentries_all_def)
qed

lemma set_timeout_ok: "srv_inv s \<Longrightarrow> step_ok s (s\<lparr>timeout_elapsed := t\<rparr>)"
  by (rule frame_step) (simp_all add: same_core_def)

lemma periodic_ok:
  assumes inv: "srv_inv s" and ret: "raft_periodic cbs ms (s, w) = Inr (e, s', w')"
  shows "step_ok s s'"
proof -
  let ?s = "s\<lparr>timeout_elapsed := timeout_elapsed s + ms\<rparr>"
  have 0: "step_ok s ?s" by (rule set_timeout_ok[OF inv])
  from ret obtain s1 w1 where
    1: "(if srv_state ?s = RAFT_STATE_LEADER
             then (if request_timeout ?s \<le> timeout_elapsed ?s
                   then raft_send_appendentries_all cbs (?s, w) else Inr (?s, w))
             else if election_timeout ?s \<le> timeout_elapsed ?s
             then (if 1 < num_nodes ?s then raft_election_start cbs (?s, w) else Inr (?s, w))
             else Inr (?s, w)) = Inr (s1, w1)"
    and 2: "(if last_applied_idx s1 < commit_idx s1
      then bindE (raft_apply_entry cbs (s1, w1)) (\<lambda>(e, sw). Inr (if e = -1 then -1 else 0, sw))
      else Inr (0, s1, w1)) = Inr (e, s', w')"
    unfolding raft_periodic_def Let_def by auto
  from 1 consider "raft_send_appendentries_all cbs (?s, w) = Inr (s1, w1)"
    | "raft_become_candidate cbs (?s, w) = Inr (s1, w1)" | "s1 = ?s"
    unfolding raft_election_start_def by (auto split: if_splits)
  then have "step_ok ?s s1"
  proof cases
    case 1
    then show ?thesis using send_all_server set_timeout_ok[OF step_ok_inv[OF 0], of 0] by metis
  next
    case 2
    then show ?thesis by (rule become_candidate_ok[OF step_ok_inv[OF 0]])
  next
    case 3
    then show ?thesis using step_ok_refl step_ok_inv[OF 0] by blast
  qed
  then have ok1: "step_ok s s1" using 0 step_ok_trans by blast
  show ?thesis
  proof (cases "last_applied_idx s1 < commit_idx s1")
    case True
    with 2 obtain k where "raft_apply_entry cbs (s1, w1) = Inr (k, s', w')" by auto
    from apply_entry_cases[OF step_ok_inv[OF ok1] True this] show ?thesis using ok1 step_ok_trans by blast
  next
    case False
    with 2 ok1 show ?thesis by simp
  qed
qed

end
