(* ===== verification/Raft_Members.thy ===== *)
theory Raft_Members
  imports Raft_Leader
begin

section \<open>Membership\<close>

text \<open>
  Adding, finding and removing peers. \<open>member_ids\<close> is the abstraction: the node ids of the peer
  array, in order. \<^verbatim>\<open>raft_get_node\<close> is the lookup in it, \<^verbatim>\<open>raft_add_node\<close> adds an id at the end
  unless it is there, \<^verbatim>\<open>raft_remove_node\<close> takes one out.
\<close>

definition node_id_at :: "raft_server \<Rightarrow> addr option \<Rightarrow> int" where
  "node_id_at s p = (case node_get s p of Inl _ \<Rightarrow> -1 | Inr n \<Rightarrow> nd_id n)"

definition member_ids :: "raft_server \<Rightarrow> int list" where
  "member_ids s = map (node_id_at s) (nodes s)"

lemma find_node_spec:
  assumes "\<And>p. p \<in> set ps \<Longrightarrow> \<exists>n. node_get s p = Inr n"
  shows "find_node s nid ps = Inr (Option.bind (find (\<lambda>p. node_id_at s p = nid) ps) id)"
  using assms
proof (induction ps)
  case (Cons p ps)
  then obtain n where "node_get s p = Inr n" by (meson list.set_intros(1))
  then show ?case using Cons by (auto simp: node_id_at_def)
qed simp

lemma get_node_spec:
  "nodes_wf s \<Longrightarrow>
     raft_get_node s nid = Inr (Option.bind (find (\<lambda>p. node_id_at s p = nid) (nodes s)) id)"
  using find_node_spec[of "nodes s" s nid] node_get_wf[of s]
  by (simp add: raft_get_node_def node_array_wf)

lemma get_node_cases:
  assumes "nodes_wf s"
  obtains (absent) "nid \<notin> set (member_ids s)" "raft_get_node s nid = Inr None"
    | (present) a n where "nid \<in> set (member_ids s)" "raft_get_node s nid = Inr (Some a)"
        "Some a \<in> set (nodes s)" "node_heap s a = Some n" "nd_id n = nid"
proof (cases "find (\<lambda>p. node_id_at s p = nid) (nodes s)")
  case None
  then have "nid \<notin> set (member_ids s)" by (auto simp: find_None_iff member_ids_def)
  with None show thesis by (intro absent) (simp_all add: get_node_spec[OF assms])
next
  case (Some p)
  then have p: "p \<in> set (nodes s)" "node_id_at s p = nid" by (auto simp: find_Some_iff)
  then obtain a n where a: "p = Some a" "node_heap s a = Some n"
    using assms by (fastforce simp: nodes_wf_def)
  have "nid \<in> set (member_ids s)" using p by (auto simp: member_ids_def)
  then show thesis
    by (rule present[of a n]) (use Some p a in
        \<open>auto simp: get_node_spec[OF assms] node_id_at_def node_get_def\<close>)
qed

lemma get_node_None_iff:
  "nodes_wf s \<Longrightarrow> raft_get_node s nid = Inr None \<longleftrightarrow> nid \<notin> set (member_ids s)"
  by (erule get_node_cases[of s nid]) auto

subsection \<open>Adding\<close>

definition added_server :: "addr option \<Rightarrow> int \<Rightarrow> bool \<Rightarrow> raft_server \<Rightarrow> raft_server" where
  "added_server udata nid is_self s =
     s\<lparr>num_nodes := num_nodes s + 1, nodes := nodes s @ [Some (next_addr s)],
       node_heap := (node_heap s)(next_addr s \<mapsto> raft_node_new udata nid),
       next_addr := Suc (next_addr s),
       srv_node := (if is_self then Some (next_addr s) else srv_node s)\<rparr>"

lemma add_node_new:
  assumes wf: "nodes_wf s" and new: "nid \<notin> set (member_ids s)" and n: "0 \<le> num_nodes s"
  shows "raft_add_node udata nid is_self s =
    Inr (Some (next_addr s), added_server udata nid is_self s)"
proof -
  have "take (nat (num_nodes s)) (nodes s) = nodes s" using wf by (simp add: nodes_wf_def)
  moreover have "raft_get_node s nid = Inr None" using get_node_None_iff[OF wf] new by simp
  ultimately show ?thesis using n by (simp add: raft_add_node_def added_server_def Let_def)
qed

lemma add_node_new_count:
  assumes "nodes_wf s" "nid \<notin> set (member_ids s)" "raft_add_node udata nid is_self s = Inr (p, s')"
  shows "0 \<le> num_nodes s"
proof -
  have "raft_get_node s nid = Inr None" using get_node_None_iff[OF assms(1)] assms(2) by simp
  then show ?thesis using assms(3) by (simp add: raft_add_node_def split: if_splits)
qed

lemma add_node_existing:
  assumes wf: "nodes_wf s" and old: "nid \<in> set (member_ids s)"
  shows "\<exists>a n. raft_get_node s nid = Inr (Some a) \<and> node_heap s a = Some n \<and> nd_id n = nid \<and>
    raft_add_node udata nid is_self s =
      Inr (Some a, s\<lparr>node_heap := (node_heap s)(a \<mapsto> raft_node_set_voting True n)\<rparr>)"
  using wf
proof (cases rule: get_node_cases[of s nid])
  case (present a n)
  then show ?thesis by (auto simp: raft_add_node_def node_upd_def node_get_def)
qed (use old in auto)

lemma added_nodes_wf:
  assumes wf: "nodes_wf s" and n: "0 \<le> num_nodes s"
  shows "nodes_wf (added_server udata nid is_self s)"
proof -
  let ?s = "added_server udata nid is_self s"
  have live: "\<exists>a. p = Some a \<and> a \<in> dom (node_heap s) \<and> a < next_addr s" if "p \<in> set (nodes s)" for p
    using wf that by (force simp: nodes_wf_def)
  have bound: "a < next_addr s" if "node_heap s a = Some n" for a n
    using wf that by (force simp: nodes_wf_def)
  have "Some (next_addr s) \<notin> set (nodes s)" using live by blast
  moreover have "\<forall>p \<in> set (nodes ?s). \<exists>a. p = Some a \<and> a \<in> dom (node_heap ?s)"
    using live by (fastforce simp: added_server_def)
  moreover have "\<forall>a \<in> dom (node_heap ?s). a < next_addr ?s"
    using bound by (auto simp: added_server_def less_Suc_eq split: if_splits)
  moreover have "\<forall>a n. node_heap ?s a = Some n \<longrightarrow> 1 \<le> nd_next_idx n"
    using wf by (auto simp: added_server_def nodes_wf_def raft_node_new_def)
  ultimately show ?thesis using wf n by (simp add: nodes_wf_def) (simp add: added_server_def nat_add_distrib)
qed

lemma added_member_ids:
  assumes "nodes_wf s"
  shows "member_ids (added_server udata nid is_self s) = member_ids s @ [nid]"
proof -
  have "node_id_at (added_server udata nid is_self s) p = node_id_at s p" if "p \<in> set (nodes s)" for p
  proof -
    from assms that obtain a where a: "p = Some a" "a \<in> dom (node_heap s)" "a < next_addr s"
      by (force simp: nodes_wf_def)
    then show ?thesis by (auto simp: node_id_at_def node_get_def added_server_def deref_def)
  qed
  then show ?thesis
    by (simp add: member_ids_def added_server_def node_id_at_def node_get_def raft_node_new_def)
qed

lemma add_node_ok:
  assumes wf: "nodes_wf s" and ret: "raft_add_node udata nid is_self s = Inr (p, s')"
  shows "nodes_wf s'" "peers_only s s'" "nid \<in> set (member_ids s')"
    "\<exists>a n. p = Some a \<and> node_heap s' a = Some n \<and> nd_id n = nid \<and> raft_node_is_voting n"
proof -
  consider "nid \<notin> set (member_ids s)" | "nid \<in> set (member_ids s)" by blast
  then have "nodes_wf s' \<and> peers_only s s' \<and> nid \<in> set (member_ids s') \<and>
    (\<exists>a n. p = Some a \<and> node_heap s' a = Some n \<and> nd_id n = nid \<and> raft_node_is_voting n)"
  proof cases
    case 1
    note n = add_node_new_count[OF wf 1 ret]
    have s': "p = Some (next_addr s)" "s' = added_server udata nid is_self s"
      using add_node_new[OF wf 1 n] ret by auto
    have "raft_node_is_voting (raft_node_new udata nid)"
      by (simp add: raft_node_is_voting_def raft_node_new_def RAFT_NODE_VOTING_def)
    then show ?thesis using s' added_nodes_wf[OF wf n] added_member_ids[OF wf]
      by (simp add: peers_only_def added_server_def raft_node_new_def)
  next
    case 2
    then obtain a n where a: "node_heap s a = Some n" "nd_id n = nid" "p = Some a"
      "s' = s\<lparr>node_heap := (node_heap s)(a \<mapsto> raft_node_set_voting True n)\<rparr>"
      using add_node_existing[OF wf 2, of udata is_self] ret by auto
    have up: "node_upd (Some a) (raft_node_set_voting True) s = Inr s'"
      using a by (simp add: node_upd_effect)
    have id: "nd_id (raft_node_set_voting True m) = nd_id m" for m by (simp add: raft_node_set_voting_def)
    have "node_id_at s' q = node_id_at s q" for q
      using node_upd_other[OF up, of q] node_upd_own[OF up] id
      by (cases "q = Some a") (auto simp: node_id_at_def)
    then have "member_ids s' = member_ids s" by (simp add: member_ids_def a(4))
    then show ?thesis using node_upd_nodes_wf[OF wf up] a id 2
      by (auto simp: peers_only_def node_flag_simps)
  qed
  then show "nodes_wf s'" "peers_only s s'" "nid \<in> set (member_ids s')"
    "\<exists>a n. p = Some a \<and> node_heap s' a = Some n \<and> nd_id n = nid \<and> raft_node_is_voting n" by auto
qed

subsection \<open>Removing\<close>

lemma filter_neq_remove1: "distinct xs \<Longrightarrow> filter (\<lambda>y. y \<noteq> x) xs = remove1 x xs"
  by (simp add: distinct_remove1_removeAll removeAll_filter_not_eq eq_commute)

lemma remove_node_member:
  assumes wf: "nodes_wf s" and p: "Some a \<in> set (nodes s)"
  shows "raft_remove_node (Some a) s =
    Inr (s\<lparr>num_nodes := num_nodes s - 1, nodes := remove1 (Some a) (nodes s),
           node_heap := (node_heap s)(a := None)\<rparr>)"
proof -
  have n: "nat (num_nodes s) = length (nodes s)" "distinct (nodes s)" using wf by (auto simp: nodes_wf_def)
  have k: "filter (\<lambda>q. q \<noteq> Some a) (nodes s) = remove1 (Some a) (nodes s)"
    by (rule filter_neq_remove1[OF n(2)])
  have "nat (num_nodes s - 1) = length (remove1 (Some a) (nodes s))"
    using n(1) p length_pos_if_in_set[OF p] by (simp add: length_remove1)
  then show ?thesis using node_array_wf[OF wf] by (simp add: raft_remove_node_def k Let_def)
qed

lemma remove_node_absent:
  assumes wf: "nodes_wf s" and p: "p \<notin> set (nodes s)" and some: "nodes s \<noteq> []"
  shows "raft_remove_node p s = Inl Out_of_bounds"
proof -
  have "filter (\<lambda>q. q \<noteq> p) (nodes s) = nodes s" using p by (auto intro!: filter_True)
  moreover have "nat (num_nodes s - 1) < length (nodes s)"
    using nodes_wf_count[OF wf] some by (cases "nodes s") simp_all
  ultimately show ?thesis using node_array_wf[OF wf] by (simp add: raft_remove_node_def Let_def)
qed

lemma removed_nodes_wf:
  assumes wf: "nodes_wf s" and p: "Some a \<in> set (nodes s)"
    and s': "s' = s\<lparr>num_nodes := num_nodes s - 1, nodes := remove1 (Some a) (nodes s),
           node_heap := (node_heap s)(a := None)\<rparr>"
  shows "nodes_wf s'" "member_ids s' = map (node_id_at s) (remove1 (Some a) (nodes s))"
proof -
  have d: "distinct (nodes s)" and n: "nat (num_nodes s) = length (nodes s)"
    and live: "\<forall>q \<in> set (nodes s). \<exists>b. q = Some b \<and> b \<in> dom (node_heap s)"
    and rest: "\<forall>b \<in> dom (node_heap s). b < next_addr s"
      "\<forall>b m. node_heap s b = Some m \<longrightarrow> 1 \<le> nd_next_idx m"
    using wf by (auto simp: nodes_wf_def)
  have set: "set (nodes s') = set (nodes s) - {Some a}" using d by (simp add: s')
  have len: "nat (num_nodes s') = length (nodes s')"
    using n p length_pos_if_in_set[OF p] by (simp add: s' length_remove1)
  have "\<exists>b. q = Some b \<and> b \<in> dom (node_heap s')" if "q \<in> set (nodes s')" for q
  proof -
    from that set have "q \<in> set (nodes s)" "q \<noteq> Some a" by auto
    with live obtain b where "q = Some b" "b \<in> dom (node_heap s)" "b \<noteq> a" by blast
    then show ?thesis by (auto simp: s')
  qed
  then show "nodes_wf s'" using d rest len by (auto simp: nodes_wf_def s')
  have "node_id_at s' q = node_id_at s q" if "q \<noteq> Some a" for q
    using that by (cases q) (auto simp: node_id_at_def node_get_def deref_def s')
  then show "member_ids s' = map (node_id_at s) (remove1 (Some a) (nodes s))"
    using d by (auto simp: member_ids_def s')
qed

subsection \<open>Membership operations as steps\<close>

lemma peers_only_fields:
  assumes "peers_only s s'"
  shows "current_term s' = current_term s" "voted_for s' = voted_for s" "srv_log s' = srv_log s"
    "commit_idx s' = commit_idx s" "last_applied_idx s' = last_applied_idx s"
    "srv_state s' = srv_state s" "current_leader s' = current_leader s"
    "voting_cfg_change_log_idx s' = voting_cfg_change_log_idx s"
proof -
  from assms have s': "s' = s\<lparr>nodes := nodes s', num_nodes := num_nodes s', srv_node := srv_node s',
            node_heap := node_heap s', next_addr := next_addr s'\<rparr>" by (simp add: peers_only_def)
  show "current_term s' = current_term s" "voted_for s' = voted_for s" "srv_log s' = srv_log s"
    "commit_idx s' = commit_idx s" "last_applied_idx s' = last_applied_idx s"
    "srv_state s' = srv_state s" "current_leader s' = current_leader s"
    "voting_cfg_change_log_idx s' = voting_cfg_change_log_idx s"
    by (subst s', simp)+
qed

lemma peers_only_ok: "peers_only s s' \<Longrightarrow> nodes_wf s' \<Longrightarrow> srv_inv s \<Longrightarrow> step_ok s s'"
  by (rule same_core_step) (simp_all add: same_core_def peers_only_fields)

lemma peers_only_trans: "peers_only a b \<Longrightarrow> peers_only b c \<Longrightarrow> peers_only a c"
proof -
  assume ab: "peers_only a b" and bc: "peers_only b c"
  from ab have b: "b = a\<lparr>nodes := nodes b, num_nodes := num_nodes b, srv_node := srv_node b,
            node_heap := node_heap b, next_addr := next_addr b\<rparr>" by (simp add: peers_only_def)
  from bc have "c = b\<lparr>nodes := nodes c, num_nodes := num_nodes c, srv_node := srv_node c,
            node_heap := node_heap c, next_addr := next_addr c\<rparr>" by (simp add: peers_only_def)
  then show "peers_only a c" by (subst (asm) b) (simp add: peers_only_def)
qed

lemma heap_step_peers_only: "heap_step s s' \<Longrightarrow> peers_only s s'"
proof -
  assume h: "heap_step s s'"
  then have s': "s' = s\<lparr>node_heap := node_heap s'\<rparr>" by (simp add: heap_step_def)
  have "s\<lparr>nodes := nodes s', num_nodes := num_nodes s', srv_node := srv_node s',
            node_heap := node_heap s', next_addr := next_addr s'\<rparr> = s\<lparr>node_heap := node_heap s'\<rparr>"
    using heap_step_fields[OF h] by simp
  with s' show ?thesis unfolding peers_only_def by metis
qed

lemma add_non_voting_node_ok:
  assumes wf: "nodes_wf s" and ret: "raft_add_non_voting_node udata nid is_self s = Inr (p, s')"
  shows "nodes_wf s'" "peers_only s s'"
    "\<exists>a n. p = Some a \<and> node_heap s' a = Some n \<and> nd_id n = nid \<and> \<not> raft_node_is_voting n"
proof -
  from ret obtain s1 where 1: "raft_add_node udata nid is_self s = Inr (p, s1)"
    and 2: "node_upd p (raft_node_set_voting False) s1 = Inr s'"
    by (auto simp: raft_add_non_voting_node_def)
  note a = add_node_ok[OF wf 1]
  have h: "heap_step s1 s'" by (rule heap_step_upd[OF 2]) simp
  show "nodes_wf s'" "peers_only s s'"
    using heap_step_nodes_wf[OF h a(1)] peers_only_trans[OF a(2) heap_step_peers_only[OF h]] by auto
  show "\<exists>a n. p = Some a \<and> node_heap s' a = Some n \<and> nd_id n = nid \<and> \<not> raft_node_is_voting n"
  proof -
    have "nd_id (raft_node_set_voting False m) = nd_id m \<and> \<not> raft_node_is_voting (raft_node_set_voting False m)"
      for m by (simp add: node_flag_simps) (simp add: raft_node_set_voting_def)
    then show ?thesis using a(4) node_upd_own[OF 2] by (auto simp: node_get_def)
  qed
qed

lemma remove_node_empty:
  assumes wf: "nodes_wf s" and empty: "nodes s = []" and ret: "raft_remove_node p s = Inr s'"
  shows "nodes_wf s'" "peers_only s s'"
  using assms node_array_wf[OF wf] by (auto simp: raft_remove_node_def Let_def nodes_wf_def peers_only_def split: option.splits if_splits)

lemma remove_node_ok:
  assumes wf: "nodes_wf s" and p: "p \<in> set (nodes s)" and ret: "raft_remove_node p s = Inr s'"
  shows "nodes_wf s'" "peers_only s s'"
proof -
  obtain a where a: "p = Some a" using wf p by (auto simp: nodes_wf_def)
  have s': "s' = s\<lparr>num_nodes := num_nodes s - 1, nodes := remove1 (Some a) (nodes s),
           node_heap := (node_heap s)(a := None)\<rparr>"
    using remove_node_member[OF wf, of a] p ret a by simp
  show "nodes_wf s'" by (rule removed_nodes_wf(1)[OF wf _ s']) (use p a in simp)
  show "peers_only s s'" by (simp add: s' peers_only_def)
qed

end
