(* ===== verification/Raft_Run.thy ===== *)
theory Raft_Run
  imports Raft_Append Raft_Members
begin

section \<open>Runs of a Raft server\<close>

text \<open>
  A step is one call of an operation of the library that returns; \<open>raft_run\<close> is any sequence of
  them, in any order and with any arguments. What every step keeps, every run keeps.
\<close>

inductive raft_step :: "'w raft_cbs \<Rightarrow> 'w st \<Rightarrow> 'w st \<Rightarrow> bool" for cbs :: "'w raft_cbs" where
  periodic: "raft_periodic cbs ms sw = Inr (e, sw') \<Longrightarrow> raft_step cbs sw sw'"
| recv_ae: "raft_recv_appendentries cbs p ae r sw = Inr (e, r', sw') \<Longrightarrow> raft_step cbs sw sw'"
| recv_aer: "raft_recv_appendentries_response cbs p aer sw = Inr (e, sw') \<Longrightarrow> raft_step cbs sw sw'"
| recv_rv: "raft_recv_requestvote cbs vr rv sw = Inr (e, rv', sw') \<Longrightarrow> raft_step cbs sw sw'"
| recv_rvr: "raft_recv_requestvote_response cbs p rvr sw = Inr (e, sw') \<Longrightarrow> raft_step cbs sw sw'"
| recv_entry: "raft_recv_entry cbs ety er sw = Inr (e, er', sw') \<Longrightarrow> raft_step cbs sw sw'"
| apply_entry: "last_applied_idx (fst sw) < commit_idx (fst sw) \<Longrightarrow>
    raft_apply_entry cbs sw = Inr (e, sw') \<Longrightarrow> raft_step cbs sw sw'"
| append_entry: "raft_append_entry cbs ety sw = Inr (e, sw') \<Longrightarrow> raft_step cbs sw sw'"
| become_leader: "raft_become_leader cbs sw = Inr sw' \<Longrightarrow> raft_step cbs sw sw'"
| election_start: "raft_election_start cbs sw = Inr sw' \<Longrightarrow> raft_step cbs sw sw'"
| vote: "raft_vote_for_nodeid cbs nid sw = Inr sw' \<Longrightarrow> raft_step cbs sw sw'"
| set_term: "raft_set_current_term cbs t sw = Inr sw' \<Longrightarrow> raft_step cbs sw sw'"
| set_commit: "raft_set_commit_idx i s = Inr s' \<Longrightarrow> raft_step cbs (s, w) (s', w)"
| add_node: "raft_add_node ud nid slf s = Inr (p, s') \<Longrightarrow> raft_step cbs (s, w) (s', w)"
| add_nv_node: "raft_add_non_voting_node ud nid slf s = Inr (p, s') \<Longrightarrow> raft_step cbs (s, w) (s', w)"
| remove_node: "raft_remove_node p s = Inr s' \<Longrightarrow> raft_step cbs (s, w) (s', w)"

abbreviation raft_run :: "'w raft_cbs \<Rightarrow> 'w st \<Rightarrow> 'w st \<Rightarrow> bool" where
  "raft_run cbs \<equiv> (raft_step cbs)\<^sup>*\<^sup>*"

lemma raft_new_inv: "srv_inv raft_new"
  using log_live_new log_new_wf
  by (simp add: raft_new_def set_state_effect srv_inv_def nodes_wf_def idx_wf_def current_idx_len
      raft_get_current_idx_def rlog.cur)

context raft_env begin

lemma raft_step_ok:
  assumes "raft_step cbs sw sw'" "srv_inv (fst sw)"
  shows "step_ok (fst sw) (fst sw')"
  using assms
proof (cases rule: raft_step.cases)
  case (periodic ms e)
  then show ?thesis using assms(2) periodic_ok[of "fst sw" cbs ms "snd sw" e "fst sw'" "snd sw'"] by simp
next
  case (recv_ae p ae r e r')
  then show ?thesis
    using assms(2) recv_appendentries_ok(1)[of "fst sw" p ae r "snd sw" e r' "fst sw'" "snd sw'"] by simp
next
  case (recv_aer p aer e)
  then show ?thesis
    using assms(2) recv_appendentries_response_ok[of "fst sw" p aer "snd sw" e "fst sw'" "snd sw'"] by simp
next
  case (recv_rv vr rv e rv')
  then show ?thesis
    using assms(2) recv_requestvote_ok[of "fst sw" cbs vr rv "snd sw" e rv' "fst sw'" "snd sw'"] by simp
next
  case (recv_rvr p rvr e)
  then show ?thesis
    using assms(2) recv_requestvote_response_ok[of "fst sw" cbs p rvr "snd sw" e "fst sw'" "snd sw'"] by simp
next
  case (recv_entry ety er e er')
  then show ?thesis
    using assms(2) recv_entry_ok[of "fst sw" ety er "snd sw" e er' "fst sw'" "snd sw'"] by simp
next
  case (apply_entry e)
  then show ?thesis
    using assms(2) apply_entry_cases[of "fst sw" cbs "snd sw" e "fst sw'" "snd sw'"] by simp
next
  case (append_entry ety e)
  then show ?thesis
    using assms(2) append_entry_effect(1)[of "fst sw" ety "snd sw" e "fst sw'" "snd sw'"] by simp
next
  case become_leader
  then show ?thesis
    using assms(2) become_leader_ok[of "fst sw" cbs "snd sw" "fst sw'" "snd sw'"] by simp
next
  case election_start
  then show ?thesis
    using assms(2) become_candidate_ok[of "fst sw" cbs "snd sw" "fst sw'" "snd sw'"]
    by (simp add: raft_election_start_def)
next
  case (vote nid)
  then have "fst sw' = (fst sw)\<lparr>voted_for := nid\<rparr>"
    using vote_for_nodeid_effect[of cbs nid "fst sw" "snd sw" "fst sw'" "snd sw'"] by simp
  then show ?thesis by (intro frame_step) (simp_all add: same_core_def assms(2))
next
  case (set_term t)
  then show ?thesis
    using assms(2) set_current_term_ok[of "fst sw" cbs t "snd sw" "fst sw'" "snd sw'"] by simp
next
  case (set_commit i s s' w)
  then show ?thesis using assms(2) advance_commit_ok by (simp add: set_commit_idx_effect)
next
  case (add_node ud nid slf s p s' w)
  then show ?thesis
    using assms(2) add_node_ok[of s ud nid slf p s'] peers_only_ok by (simp add: srv_inv_def)
next
  case (add_nv_node ud nid slf s p s' w)
  then show ?thesis
    using assms(2) add_non_voting_node_ok[of s ud nid slf p s'] peers_only_ok by (simp add: srv_inv_def)
next
  case (remove_node p s s' w)
  then have wf: "nodes_wf s" using assms(2) by (simp add: srv_inv_def)
  then have "nodes s = [] \<or> p \<in> set (nodes s)" using remove_node_absent[OF wf] remove_node by force
  then have "nodes_wf s'" "peers_only s s'"
    using remove_node remove_node_ok[OF wf] remove_node_empty[OF wf] by blast+
  then show ?thesis using assms(2) remove_node peers_only_ok by simp
qed

lemma raft_run_ok:
  assumes "raft_run cbs sw sw'" "srv_inv (fst sw)"
  shows "step_ok (fst sw) (fst sw')"
  using assms
proof (induction rule: rtranclp_induct)
  case base
  then show ?case by (rule step_ok_refl)
next
  case (step y z)
  then have ok: "step_ok (fst sw) (fst y)" by simp
  then show ?case using raft_step_ok[OF step(2) step_ok_inv[OF ok]] step_ok_trans by blast
qed

end

subsection \<open>A server without callbacks\<close>

text \<open>Callbacks are optional: the record with none of them meets the assumptions, too.\<close>

definition quiet_cbs :: "unit raft_cbs" where
  "quiet_cbs = \<lparr>send_requestvote = None, send_appendentries = None, applylog = None,
     persist_vote = None, persist_term = None, log_offer = None, log_poll_cb = None, log_pop = None,
     node_has_sufficient_logs = None, rand_fn = \<lambda>w. (7, w)\<rparr>"

lemma quiet_env: "raft_env quiet_cbs"
  by unfold_locales (simp_all add: quiet_cbs_def)

end
