(* ===== verification/Raft_Progress.thy ===== *)
theory Raft_Progress
  imports Raft_Append Raft_Leader
begin

section \<open>The handlers return\<close>

text \<open>
  The other theories say what a handler leaves behind when it returns. Here: with callbacks that
  return (\<open>cbs_return\<close>), a request that respects what the server has committed (\<open>ae_ready\<close>) passes
  every \<^verbatim>\<open>assert\<close> of \<^verbatim>\<open>raft_recv_appendentries\<close>, reads and writes within its arrays, and is accepted
  exactly if its term is not older and the entry before the new ones matches. Vote requests and
  client entries return as well.
\<close>

definition cbs_return :: "'w raft_cbs \<Rightarrow> bool" where
  "cbs_return cbs \<longleftrightarrow>
     (\<forall>f s t w. persist_term cbs = Some f \<longrightarrow> \<not> isl (f s t w)) \<and>
     (\<forall>f s v w. persist_vote cbs = Some f \<longrightarrow> \<not> isl (f s v w)) \<and>
     (\<forall>f s e i w. log_pop cbs = Some f \<longrightarrow> \<not> isl (f s e i w)) \<and>
     (\<forall>f s a m w. send_appendentries cbs = Some f \<longrightarrow> \<not> isl (f s a m w)) \<and>
     (\<forall>f e i s w. log_offer cbs = Some f \<longrightarrow> nodes_wf s \<longrightarrow> \<not> isl (f e i (s, w)))"

lemma not_isl_Inr: "\<not> isl x \<longleftrightarrow> (\<exists>y. x = Inr y)"
  by (cases x) auto

lemma cbs_returnD:
  assumes "cbs_return cbs"
  shows "persist_term cbs = Some f \<Longrightarrow> \<exists>w'. f s t w = Inr w'"
    "persist_vote cbs = Some f \<Longrightarrow> \<exists>w'. f s t w = Inr w'"
    "log_pop cbs = Some p \<Longrightarrow> \<exists>w'. p s e i w = Inr w'"
    "send_appendentries cbs = Some g \<Longrightarrow> \<exists>w'. g s a m w = Inr w'"
    "log_offer cbs = Some h \<Longrightarrow> nodes_wf s \<Longrightarrow> \<exists>c s' w'. h e i (s, w) = Inr (c, s', w')"
  using assms by (auto simp: cbs_return_def not_isl_Inr)

text \<open>The previous entry the request names is the one the log has.\<close>

definition prev_matches :: "msg_appendentries \<Rightarrow> raft_entry list \<Rightarrow> bool" where
  "prev_matches ae es \<longleftrightarrow> ae_prev_log_idx ae = 0 \<or>
     ae_prev_log_idx ae \<le> int (length es) \<and>
     ety_term (es ! nat (ae_prev_log_idx ae - 1)) = word_of_int (ae_prev_log_term ae)"

text \<open>A request a correct leader sends: it agrees with the committed entries, as many entries as it
  says, none with the id 0; a heartbeat does not reach back before the commit index, and a commit
  index comes with a log.\<close>

definition ae_ready :: "msg_appendentries \<Rightarrow> raft_server \<Rightarrow> bool" where
  "ae_ready ae s \<longleftrightarrow>
     0 \<le> ae_prev_log_idx ae \<and> ae_n_entries ae = int (length (ae_entries ae)) \<and>
     list_all (\<lambda>e. ety_id e \<noteq> 0) (ae_entries ae) \<and>
     (ae_prev_log_idx ae \<le> commit_idx s \<longrightarrow> prev_matches ae (entries_of s)) \<and>
     (\<forall>i < length (ae_entries ae). ae_prev_log_idx ae + 1 + int i \<le> commit_idx s \<longrightarrow>
        ety_term (entries_of s ! (nat (ae_prev_log_idx ae) + i)) = ety_term (ae_entries ae ! i)) \<and>
     (ae_entries ae = [] \<and> 0 < ae_prev_log_idx ae \<and> ae_prev_log_idx ae + 1 < raft_get_current_idx s \<longrightarrow>
        commit_idx s \<le> ae_prev_log_idx ae) \<and>
     (commit_idx s < ae_leader_commit ae \<longrightarrow>
        0 < ae_prev_log_idx ae \<or> ae_entries ae \<noteq> [] \<or> entries_of s \<noteq> [])"

subsection \<open>The pieces return\<close>

lemma set_current_term_returns:
  assumes "cbs_return cbs"
  shows "\<exists>sw'. raft_set_current_term cbs t sw = Inr sw'"
  using assms
  by (cases sw) (auto simp: raft_set_current_term_def lift_cb_def cbs_return_def not_isl_Inr split: option.splits)

lemma vote_for_nodeid_returns:
  assumes "cbs_return cbs"
  shows "\<exists>sw'. raft_vote_for_nodeid cbs v sw = Inr sw'"
  using assms
  by (cases sw) (auto simp: raft_vote_for_nodeid_def lift_cb_def cbs_return_def not_isl_Inr split: option.splits)

lemma delete_loop_returns:
  assumes "cbs_return cbs" "log_wf me" "int n \<le> l_count me"
  shows "\<exists>y. delete_loop (raft_set_callbacks cbs) n me sw = Inr y"
  using assms(2,3)
proof (induction n arbitrary: me sw)
  case (Suc n)
  have "arr_get (l_entries me) (l_back me - 1) = Inr (l_entries me ! nat (l_back me - 1))"
    by (rule arr_get_nat) (use Suc.prems in \<open>auto simp: log_wf_def\<close>)
  then obtain sw' where p: "call_pop (raft_set_callbacks cbs) me sw = Inr sw'"
    using cbs_returnD(3)[OF assms(1), of _ "fst sw" "l_entries me ! nat (l_back me - 1)" "l_back me" "snd sw"]
    by (cases "log_pop cbs") (auto simp: call_pop_def raft_set_callbacks_def arr_get_nat)
  show ?case
    using Suc.IH[of "me\<lparr>l_back := l_back me - 1, l_count := l_count me - 1\<rparr>" sw'] Suc.prems p
    by (auto simp: log_wf_def)
qed simp

lemma srv_log_delete_returns:
  assumes "cbs_return cbs" "srv_inv s" "1 \<le> idx"
  shows "\<exists>s' w'. srv_log_delete cbs idx (s, w) = Inr (s', w')"
proof -
  have wf: "log_wf (srv_log s)" "l_base (srv_log s) = 0" "0 \<le> l_count (srv_log s)"
    using assms(2) by (auto simp: srv_inv_def log_live_def log_wf_def)
  then have "int (nat (log_count (srv_log s) - (idx - 1))) \<le> l_count (srv_log s)"
    using assms(3) by (auto simp: log_count_def)
  from delete_loop_returns[OF assms(1) wf(1) this, of "(s, w)"] wf(2)
  show ?thesis by (auto simp: srv_log_delete_def log_delete_def Let_def)
qed

context raft_env begin

lemma append_entry_returns:
  assumes "cbs_return cbs" "srv_inv s"
  shows "\<exists>e s' w'. raft_append_entry cbs ety (s, w) = Inr (e, s', w')"
proof (cases "ety_id ety = 0")
  case True
  then show ?thesis by (simp add: raft_append_entry_def log_append_entry_def)
next
  case False
  define s0 where "s0 = (if raft_entry_is_voting_cfg_change ety
    then s\<lparr>voting_cfg_change_log_idx := raft_get_current_idx s\<rparr> else s)"
  have s0: "nodes_wf s0" "log_wf (srv_log s0)" "l_front (srv_log s0) = 0"
    using assms(2) by (simp_all add: s0_def srv_inv_def nodes_wf_def log_live_def)
  obtain c x where "call_offer (raft_set_callbacks cbs) ety (l_back (srv_log s0)) (s0, w) = Inr (c, x)"
    using cbs_returnD(5)[OF assms(1) _ s0(1), of _ ety "l_back (srv_log s0)" w]
    by (cases "log_offer cbs") (auto simp: call_offer_def raft_set_callbacks_def)
  from log_append_entry_spec[OF s0(2) _ False this] s0(3)
  obtain me where "log_append_entry (raft_set_callbacks cbs) (srv_log s0) ety (s0, w) = Inr (0, me, x)" by blast
  then show ?thesis by (cases x) (simp add: raft_append_entry_def s0_def)
qed

end

subsection \<open>Append-entries requests\<close>

lemma ae_term_step_returns:
  assumes "cbs_return cbs"
  shows "\<exists>r' s' w'. ae_term_step cbs ae (r, s, w) =
    Inr (if current_term s \<le> ae_term ae then Next (r', s', w') else Fail_with_current_idx (r, s, w))"
proof -
  obtain s1 w1 where "raft_set_current_term cbs (ae_term ae) (s, w) = Inr (s1, w1)"
    using set_current_term_returns[OF assms, of "ae_term ae" "(s, w)"] by auto
  then show ?thesis by (auto simp: ae_term_step_def)
qed

lemma ae_prev_step_returns:
  assumes "cbs_return cbs" "srv_inv s" "ae_ready ae s"
  shows "prev_matches ae (entries_of s) \<Longrightarrow> ae_prev_step cbs ae (r, s, w) = Inr (Next (r, s, w))"
    "\<not> prev_matches ae (entries_of s) \<Longrightarrow>
       \<exists>f. ae_prev_step cbs ae (r, s, w) = Inr f \<and> (\<forall>y. f \<noteq> Next y)"
proof -
  let ?i = "ae_prev_log_idx ae"
  have i0: "0 \<le> ?i" using assms(3) by (simp add: ae_ready_def)
  note cur = srv_inv_current_idx[OF assms(2)]
  show "ae_prev_step cbs ae (r, s, w) = Inr (Next (r, s, w))" if "prev_matches ae (entries_of s)"
    using that i0 get_entry_eq[OF assms(2), of ?i] cur by (auto simp: ae_prev_step_def prev_matches_def)
  assume no: "\<not> prev_matches ae (entries_of s)"
  then have i: "1 \<le> ?i" "commit_idx s < ?i"
    using i0 assms(3) by (auto simp: prev_matches_def ae_ready_def)
  obtain s1 w1 where "srv_log_delete cbs ?i (s, w) = Inr (s1, w1)"
    using srv_log_delete_returns[OF assms(1,2) i(1)] by blast
  then show "\<exists>f. ae_prev_step cbs ae (r, s, w) = Inr f \<and> (\<forall>y. f \<noteq> Next y)"
    using no i get_entry_eq[OF assms(2) i(1)] cur by (auto simp: ae_prev_step_def prev_matches_def)
qed

lemma ae_heartbeat_step_returns:
  assumes "cbs_return cbs" "srv_inv s" "ae_ready ae s"
  shows "\<exists>s' w'. ae_heartbeat_step cbs ae (s, w) = Inr (s', w')"
proof -
  have "1 \<le> ae_prev_log_idx ae + 1" using assms(3) by (simp add: ae_ready_def)
  from srv_log_delete_returns[OF assms(1,2) this, of w]
  show ?thesis using assms(3) by (auto simp: ae_heartbeat_step_def ae_ready_def)
qed

lemma ae_scan_returns:
  assumes "cbs_return cbs" "srv_inv s" "0 \<le> ae_prev_log_idx ae" "0 \<le> i"
    "nat i + n = length (ae_entries ae)"
    "\<forall>j < length (ae_entries ae). ae_prev_log_idx ae + 1 + int j \<le> commit_idx s \<longrightarrow>
        ety_term (entries_of s ! (nat (ae_prev_log_idx ae) + j)) = ety_term (ae_entries ae ! j)"
  shows "\<exists>i' r' s' w'. ae_scan cbs ae n i (r, s, w) = Inr (i', r', s', w')"
  using assms(4,5)
proof (induction n arbitrary: i r)
  case (Suc n)
  let ?x = "ae_prev_log_idx ae + 1 + i"
  have x: "1 \<le> ?x" "nat (?x - 1) = nat (ae_prev_log_idx ae) + nat i" using assms(3) Suc.prems by auto
  have e: "arr_get (ae_entries ae) i = Inr (ae_entries ae ! nat i)"
    by (rule arr_get_nat) (use Suc.prems in auto)
  note get = get_entry_eq[OF assms(2) x(1)]
  show ?case
  proof (cases "?x \<le> int (length (entries_of s))")
    case False
    then show ?thesis using get by (auto simp: Let_def)
  next
    case in_log: True
    show ?thesis
    proof (cases "ety_term (entries_of s ! nat (?x - 1)) = ety_term (ae_entries ae ! nat i)")
      case True
      have "0 \<le> i + 1" "nat (i + 1) + n = length (ae_entries ae)" using Suc.prems by auto
      from Suc.IH[OF this] True in_log get e show ?thesis by (simp add: Let_def)
    next
      case False
      have "nat i < length (ae_entries ae)" using Suc.prems by simp
      with assms(6) False x Suc.prems have c: "commit_idx s < ?x" by fastforce
      obtain s1 w1 where "srv_log_delete cbs ?x (s, w) = Inr (s1, w1)"
        using srv_log_delete_returns[OF assms(1,2) x(1)] by blast
      with False in_log get e c show ?thesis by (simp add: Let_def)
    qed
  qed
qed simp

lemma ae_commit_step_returns:
  assumes "srv_inv s" "commit_idx s < ae_leader_commit ae \<Longrightarrow> entries_of s \<noteq> []"
  shows "\<exists>s'. ae_commit_step ae s = Inr s'"
proof -
  have c: "commit_idx s \<le> raft_get_current_idx s" using assms(1) by (simp add: srv_inv_def idx_wf_def)
  have "max (raft_get_current_idx s) 1 = raft_get_current_idx s" if "commit_idx s < ae_leader_commit ae"
    using assms(2)[OF that] srv_inv_current_idx[OF assms(1)] by (cases "entries_of s") auto
  with c show ?thesis by (auto simp: ae_commit_step_def raft_set_commit_idx_def Let_def)
qed

lemma ae_ready_cong:
  "srv_log s' = srv_log s \<Longrightarrow> commit_idx s' = commit_idx s \<Longrightarrow> ae_ready ae s' = ae_ready ae s"
  by (simp add: ae_ready_def raft_get_current_idx_def)

context raft_env begin

lemma ae_append_returns:
  assumes "cbs_return cbs" "srv_inv s" "0 \<le> i" "nat i + n = length (ae_entries ae)"
    "list_all (\<lambda>e. ety_id e \<noteq> 0) (ae_entries ae)"
  shows "\<exists>r' s' w'. ae_append cbs ae n i (r, s, w) = Inr (Next (r', s', w'))"
  using assms(2-4)
proof (induction n arbitrary: i r s w)
  case (Suc n)
  let ?e = "ae_entries ae ! nat i"
  have e: "arr_get (ae_entries ae) i = Inr ?e" by (rule arr_get_nat) (use Suc.prems in auto)
  have id: "ety_id ?e \<noteq> 0" using assms(5) Suc.prems by (simp add: list_all_length)
  obtain a s1 w1 where a: "raft_append_entry cbs ?e (s, w) = Inr (a, s1, w1)"
    using append_entry_returns[OF assms(1) Suc.prems(1)] by blast
  have "a = 0" "srv_inv s1" using append_entry_effect(1,8)[OF Suc.prems(1) a] id step_ok_inv by auto
  moreover have "0 \<le> i + 1" "nat (i + 1) + n = length (ae_entries ae)" using Suc.prems by auto
  ultimately show ?case using Suc.IH e a by simp
qed simp

lemma ae_tail_returns:
  assumes "cbs_return cbs" "srv_inv s" "ae_ready ae s" "prev_matches ae (entries_of s)"
  shows "\<exists>s1 w1 i r2 s2 w2 r3 s3 w3 s4. ae_heartbeat_step cbs ae (s, w) = Inr (s1, w1) \<and>
    ae_scan cbs ae (nat (ae_n_entries ae)) 0 (r, s1, w1) = Inr (i, r2, s2, w2) \<and>
    ae_append cbs ae (nat (ae_n_entries ae - i)) i (r2, s2, w2) = Inr (Next (r3, s3, w3)) \<and>
    ae_commit_step ae s3 = Inr s4"
proof -
  let ?p = "nat (ae_prev_log_idx ae)" and ?n = "length (ae_entries ae)"
  have rd: "0 \<le> ae_prev_log_idx ae" "ae_n_entries ae = int ?n" "list_all (\<lambda>e. ety_id e \<noteq> 0) (ae_entries ae)"
    "commit_idx s < ae_leader_commit ae \<Longrightarrow> 0 < ae_prev_log_idx ae \<or> ae_entries ae \<noteq> [] \<or> entries_of s \<noteq> []"
    using assms(3) by (auto simp: ae_ready_def)
  have prev: "?p \<le> length (entries_of s)" using assms(4) by (auto simp: prev_matches_def)
  obtain s1 w1 where hb: "ae_heartbeat_step cbs ae (s, w) = Inr (s1, w1)"
    using ae_heartbeat_step_returns[OF assms(1-3)] by blast
  note h = ae_heartbeat_step_ok[OF assms(2) hb, unfolded ae_match_0, OF prev]
  have inv1: "srv_inv s1" by (rule step_ok_inv[OF h(1)])
  have same: "ae_entries ae \<noteq> [] \<Longrightarrow> s1 = s" "ae_prev_log_idx ae = 0 \<Longrightarrow> s1 = s"
    using hb rd(2) by (auto simp: ae_heartbeat_step_def split: if_splits)
  have "\<forall>j < ?n. ae_prev_log_idx ae + 1 + int j \<le> commit_idx s1 \<longrightarrow>
        ety_term (entries_of s1 ! (?p + j)) = ety_term (ae_entries ae ! j)"
    using assms(3) same(1) by (cases "ae_entries ae = []") (auto simp: ae_ready_def)
  from ae_scan_returns[OF assms(1) inv1 rd(1) order.refl _ this, of ?n r w1]
  obtain i r2 s2 w2 where sc: "ae_scan cbs ae (nat (ae_n_entries ae)) 0 (r, s1, w1) = Inr (i, r2, s2, w2)"
    using rd(2) by auto
  have m1: "ae_match ae (entries_of s1) (nat 0)" using h(4) by (simp add: ae_match_0)
  note s = ae_scan_ok[OF inv1 rd(1) order.refl m1 sc]
  have inv2: "srv_inv s2" using s step_ok_inv by blast
  have i: "0 \<le> i" "nat i + nat (ae_n_entries ae - i) = ?n" using s rd(2) by auto
  obtain r3 s3 w3 where ap: "ae_append cbs ae (nat (ae_n_entries ae - i)) i (r2, s2, w2) = Inr (Next (r3, s3, w3))"
    using ae_append_returns[OF assms(1) inv2 i rd(3)] by blast
  note l = ae_log_steps_ok[OF assms(2) prev hb sc ap, unfolded flow_val.simps, OF refl]
  have inv3: "srv_inv s3" using l step_ok_inv by blast
  have "?p + ?n \<le> length (entries_of s3)" using l rd(2) by (simp add: ae_match_def)
  moreover have "entries_of s3 \<noteq> []" if "?p = 0" "?n = 0" "entries_of s \<noteq> []"
  proof -
    have "s3 = s" using that same(2) rd(1) sc ap rd(2) by auto
    with that show ?thesis by simp
  qed
  ultimately have "entries_of s3 \<noteq> []" if "commit_idx s3 < ae_leader_commit ae"
    using rd(1,4) l that by (cases "entries_of s3") auto
  then obtain s4 where "ae_commit_step ae s3 = Inr s4" using ae_commit_step_returns[OF inv3] by blast
  with hb sc ap show ?thesis by blast
qed

lemma ae_body_returns:
  assumes "cbs_return cbs" "srv_inv s" "ae_ready ae s"
  shows "\<exists>f. ae_body cbs p ae (r, s, w) = Inr f \<and>
    ((\<exists>y. f = Next y) \<longleftrightarrow> current_term s \<le> ae_term ae \<and> prev_matches ae (entries_of s))"
proof (cases "current_term s \<le> ae_term ae")
  case False
  with ae_term_step_returns[OF assms(1), of ae r s w] show ?thesis by (auto simp: ae_body_def bindF_def)
next
  case True
  then obtain r1 s1 w1 where t: "ae_term_step cbs ae (r, s, w) = Inr (Next (r1, s1, w1))"
    using ae_term_step_returns[OF assms(1), of ae r s w] by auto
  note eff = ae_term_step_effect[OF t, unfolded flow_val.simps, OF refl]
  have inv1: "srv_inv s1" using ae_term_step_ok[OF assms(2) t, unfolded flow_val.simps, OF refl] step_ok_inv by blast
  have rd1: "ae_ready ae s1" using assms(3) ae_ready_cong[OF eff(1,2)] by blast
  show ?thesis
  proof (cases "prev_matches ae (entries_of s)")
    case no: False
    then obtain f where f: "ae_prev_step cbs ae (r1, s1, w1) = Inr f" "\<And>y. f \<noteq> Next y"
      using ae_prev_step_returns(2)[OF assms(1) inv1 rd1, of r1 w1] eff(1) by auto
    then show ?thesis using t no by (cases f) (auto simp: ae_body_def bindF_def)
  next
    case yes: True
    then have m: "prev_matches ae (entries_of s1)" using eff(1) by simp
    from ae_tail_returns[OF assms(1) inv1 rd1 m, of w1 "r1\<lparr>aer_current_idx := ae_prev_log_idx ae\<rparr>"]
    show ?thesis using t yes True ae_prev_step_returns(1)[OF assms(1) inv1 rd1 m, of r1 w1]
      by (auto simp: ae_body_def bindF_def)
  qed
qed

lemma recv_appendentries_returns:
  assumes "cbs_return cbs" "srv_inv s" "ae_ready ae s"
  shows "\<exists>e r' s' w'. raft_recv_appendentries cbs p ae r (s, w) = Inr (e, r', s', w') \<and>
    (e = 0 \<longleftrightarrow> current_term s \<le> ae_term ae \<and> prev_matches ae (entries_of s))"
proof -
  let ?s = "s\<lparr>timeout_elapsed := 0\<rparr>"
  have "srv_inv ?s" using assms(2) by (simp add: srv_inv_def nodes_wf_def idx_wf_def raft_get_current_idx_def)
  moreover have "ae_ready ae ?s" using assms(3) ae_ready_cong[of ?s s ae] by simp
  ultimately obtain f where f: "ae_body cbs p ae (r\<lparr>aer_term := current_term s\<rparr>, ?s, w) = Inr f"
    "(\<exists>y. f = Next y) \<longleftrightarrow> current_term s \<le> ae_term ae \<and> prev_matches ae (entries_of s)"
    using ae_body_returns[OF assms(1), of ?s ae p "r\<lparr>aer_term := current_term s\<rparr>" w] by auto
  then show ?thesis by (cases f) (auto simp: raft_recv_appendentries_def Let_def)
qed

end

subsection \<open>Vote requests\<close>

lemma should_grant_vote_returns:
  assumes "srv_inv s"
  shows "\<exists>g. should_grant_vote s vr = Inr g \<and> (g \<longrightarrow> current_term s \<le> rv_term vr \<and> \<not> raft_already_voted s)"
proof -
  have "1 \<le> raft_get_current_idx s \<or> raft_get_current_idx s = 0"
    using srv_inv_current_idx[OF assms] by linarith
  then show ?thesis
    using get_entry_eq[OF assms, of "raft_get_current_idx s"] srv_inv_current_idx[OF assms]
    by (auto simp: should_grant_vote_def Let_def)
qed

text \<open>A server that leads or campaigns without a vote in its own term would fail the assertion.\<close>

lemma recv_requestvote_returns:
  assumes "cbs_return cbs" "srv_inv s"
    "rv_term vr = current_term s \<Longrightarrow> raft_is_leader s \<or> raft_is_candidate s \<Longrightarrow> raft_already_voted s"
  shows "\<exists>r' s' w'. raft_recv_requestvote cbs vr r (s, w) = Inr (0, r', s', w')"
proof -
  obtain s1 w1 where t: "(if current_term s < rv_term vr
      then bindE (raft_set_current_term cbs (rv_term vr) (s, w)) (\<lambda>(s, w). Inr (raft_become_follower s, w))
      else Inr (s, w)) = Inr (s1, w1)"
    using set_current_term_returns[OF assms(1), of "rv_term vr" "(s, w)"]
    by (cases "current_term s < rv_term vr") auto
  have s1: "srv_inv s1" "current_term s1 = max (current_term s) (rv_term vr)"
    "current_term s < rv_term vr \<Longrightarrow> srv_state s1 = RAFT_STATE_FOLLOWER" "\<not> current_term s < rv_term vr \<Longrightarrow> s1 = s"
    using t assms(2)
    by (auto simp: become_follower_effect srv_inv_def nodes_wf_def idx_wf_def raft_get_current_idx_def
        split: if_splits dest!: set_current_term_effect)
  obtain g where g: "should_grant_vote s1 vr = Inr g" "g \<Longrightarrow> current_term s1 \<le> rv_term vr \<and> \<not> raft_already_voted s1"
    using should_grant_vote_returns[OF s1(1)] by blast
  have ok: "\<not> (raft_is_leader s1 \<or> raft_is_candidate s1)" if g
  proof (cases "current_term s < rv_term vr")
    case True
    with s1(3) show ?thesis by (simp add: raft_is_leader_def raft_is_candidate_def)
  next
    case False
    with g(2)[OF that] s1(2,4) have "rv_term vr = current_term s" "\<not> raft_already_voted s" by auto
    with assms(3) s1(4) False show ?thesis by blast
  qed
  obtain s2 w2 where "raft_vote_for_nodeid cbs (rv_candidate_id vr) (s1, w1) = Inr (s2, w2)"
    using vote_for_nodeid_returns[OF assms(1)] by (metis surj_pair)
  then show ?thesis using t g(1) ok by (cases g) (simp_all add: raft_recv_requestvote_def)
qed

subsection \<open>Client entries\<close>

lemma log_get_from_idx_returns:
  assumes "log_live me" "1 \<le> idx"
  shows "\<exists>r. log_get_from_idx me idx = Inr r"
proof (cases "idx \<le> l_count me")
  case True
  then show ?thesis using log_get_from_idx_abs[of me idx] assms by (auto simp: log_live_def)
next
  case False
  then show ?thesis using assms by (auto simp: log_get_from_idx_def log_live_def)
qed

lemma send_appendentries_returns:
  assumes "cbs_return cbs" "srv_inv s" "p \<in> set (nodes s)" "p \<noteq> srv_node s"
  shows "\<exists>e w'. raft_send_appendentries cbs p (s, w) = Inr (e, s, w')"
proof -
  obtain a n where p: "p = Some a" "node_heap s a = Some n" "1 \<le> nd_next_idx n"
    using assms(2,3) by (fastforce simp: srv_inv_def nodes_wf_def)
  obtain es where es: "raft_get_entries_from_idx s (nd_next_idx n) = Inr es"
    using log_get_from_idx_returns[of "srv_log s" "nd_next_idx n"] assms(2) p(3)
    by (auto simp: raft_get_entries_from_idx_def srv_inv_def)
  note prev = get_entry_eq[OF assms(2), of "nd_next_idx n - 1"]
  show ?thesis
  proof (cases "send_appendentries cbs")
    case None
    then show ?thesis using assms(4) p(1) by (auto simp: raft_send_appendentries_def)
  next
    case (Some f)
    from cbs_returnD(4)[OF assms(1) Some, of s a]
    show ?thesis using Some assms(4) p es prev
      by (auto simp: raft_send_appendentries_def node_get_def raft_node_get_next_idx_def Let_def)
  qed
qed

lemma recv_entry_peer_returns:
  assumes "cbs_return cbs" "srv_inv s" "p \<in> set (nodes s)"
  shows "\<exists>w'. recv_entry_peer cbs p (s, w) = Inr (s, w')"
proof -
  obtain n where n: "node_get s p = Inr n" using node_get_wf[of s p] assms(2,3) by (auto simp: srv_inv_def)
  show ?thesis
  proof (cases "srv_node s = p")
    case False
    then obtain e w' where "raft_send_appendentries cbs p (s, w) = Inr (e, s, w')"
      using send_appendentries_returns[OF assms] by metis
    then show ?thesis using n by (simp add: recv_entry_peer_def)
  qed (simp add: recv_entry_peer_def)
qed

context raft_env begin

lemma recv_entry_returns:
  assumes "cbs_return cbs" "srv_inv s"
  shows "\<exists>e r' s' w'. raft_recv_entry cbs ety r (s, w) = Inr (e, r', s', w') \<and>
    (e = 0 \<longleftrightarrow> raft_is_leader s \<and>
       (raft_entry_is_voting_cfg_change ety \<longrightarrow> voting_cfg_change_log_idx s = -1))"
proof -
  let ?e = "\<lparr>ety_term = word_of_int (current_term s), ety_id = ety_id ety,
                  ety_type = ety_type ety, ety_data = ety_data ety\<rparr>"
  obtain a s1 w1 where a: "raft_append_entry cbs ?e (s, w) = Inr (a, s1, w1)"
    using append_entry_returns[OF assms] by blast
  have inv1: "srv_inv s1" using append_entry_effect(1)[OF assms(2) a] step_ok_inv by blast
  have "\<exists>sw'. foldE (recv_entry_peer cbs) (nodes s1) (s1, w1) = Inr sw' \<and> fst sw' = s1"
    by (rule foldE_total) (use recv_entry_peer_returns[OF assms(1) inv1] in fastforce)+
  then obtain w2 where "for_nodes (recv_entry_peer cbs) (s1, w1) = Inr (s1, w2)"
    using node_array_wf[of s1] inv1 by (auto simp: for_nodes_def srv_inv_def)
  with a show ?thesis by (auto simp: raft_recv_entry_def Let_def)
qed

end

end
