(* ===== verification/Raft_Properties.thy ===== *)
theory Raft_Properties
  imports Raft_Run Raft_Progress
begin

section \<open>Properties of the Raft library\<close>

text \<open>
  The theorems on the Raft library, over the library's own operations, each with a concrete
  instance where it has hypotheses. \<open>demo3\<close> is a fresh server with id 1 and the peers 2 and 3.
\<close>

definition demo3 :: raft_server where
  "demo3 = added_server None 3 False (added_server None 2 False (added_server None 1 True raft_new))"

definition demo_entry :: "u32 \<Rightarrow> u32 \<Rightarrow> raft_entry" where
  "demo_entry trm i = \<lparr>ety_term = trm, ety_id = i, ety_type = RAFT_LOGTYPE_NORMAL, ety_data = []\<rparr>"

definition demo_ae :: msg_appendentries where
  "demo_ae = \<lparr>ae_term = 1, ae_prev_log_idx = 0, ae_prev_log_term = 0, ae_leader_commit = 1,
     ae_n_entries = 2, ae_entries = [demo_entry 1 5, demo_entry 1 6]\<rparr>"

lemma added_inv: "srv_inv s \<Longrightarrow> 0 \<le> num_nodes s \<Longrightarrow> srv_inv (added_server u i b s)"
  using peers_only_ok[of s "added_server u i b s"] added_nodes_wf[of s u i b] step_ok_inv
  by (auto simp: peers_only_def srv_inv_def added_server_def)

lemma demo3_inv: "srv_inv demo3"
proof -
  have n: "num_nodes (added_server u i b s) = num_nodes s + 1" for u i b s by (simp add: added_server_def)
  have "num_nodes raft_new = 0" by (simp add: raft_new_def raft_set_state_def)
  then show ?thesis by (simp add: demo3_def added_inv raft_new_inv n)
qed

text \<open>A call that was evaluated to a result, as an equation.\<close>

lemma returned: "\<not> isl x \<Longrightarrow> x = Inr (projr x)"
  by (cases x) auto

lemma returned3:
  fixes x :: "fault + int \<times> 'r \<times> raft_server \<times> unit"
  shows "\<not> isl x \<Longrightarrow> fst (projr x) = e \<Longrightarrow> x = Inr (e, fst (snd (projr x)), fst (snd (snd (projr x))), ())"
  by (cases x) auto

lemma returned2:
  fixes x :: "fault + int \<times> raft_server \<times> unit"
  shows "\<not> isl x \<Longrightarrow> fst (projr x) = e \<Longrightarrow> x = Inr (e, fst (snd (projr x)), ())"
  by (cases x) auto

lemma returned1:
  fixes x :: "fault + raft_server \<times> unit"
  shows "\<not> isl x \<Longrightarrow> x = Inr (fst (projr x), ())"
  by (cases x) auto

subsection \<open>Runs\<close>

text \<open>C1. State machine safety on one server: from a new server, after any sequence of library calls
  the invariant holds, and along any continuation the term, the commit index and the applied
  index do not decrease and every entry that was committed stays in the log at its index.\<close>

theorem raft_run_safe:
  assumes "raft_env cbs" "raft_run cbs (raft_new, w0) (s1, w1)" "raft_run cbs (s1, w1) (s2, w2)"
  shows "srv_inv s1 \<and> srv_inv s2 \<and> evolves s1 s2"
  using raft_env.raft_run_ok[OF assms(1,2)] raft_env.raft_run_ok[OF assms(1,3)] raft_new_inv
  by (simp add: step_ok_def)

lemma demo_run: "raft_run quiet_cbs (raft_new, ()) (added_server None 1 True raft_new, ())"
  using add_node_new[of raft_new 1 None True] raft_new_inv
  by (intro r_into_rtranclp raft_step.add_node)
    (simp add: srv_inv_def member_ids_def raft_new_def raft_set_state_def)

theorem raft_run_safe_witness:
  "srv_inv raft_new \<and> srv_inv (added_server None 1 True raft_new) \<and>
     evolves raft_new (added_server None 1 True raft_new)"
  using raft_run_safe[OF quiet_env rtranclp.rtrancl_refl demo_run] .

subsection \<open>Append-entries\<close>





lemma recv_appendentries_stale:
  assumes "ae_term ae < current_term s"
  shows "raft_recv_appendentries cbs p ae r (s, w) =
    Inr (-1, r\<lparr>aer_term := current_term s, aer_current_idx := raft_get_current_idx s,
         aer_success := 0, aer_first_idx := 0\<rparr>, s\<lparr>timeout_elapsed := 0\<rparr>, w)"
proof -
  have "ae_body cbs p ae (r\<lparr>aer_term := current_term s\<rparr>, s\<lparr>timeout_elapsed := 0\<rparr>, w) =
      Inr (Fail_with_current_idx (r\<lparr>aer_term := current_term s\<rparr>, s\<lparr>timeout_elapsed := 0\<rparr>, w))"
    using assms by (simp add: ae_body_def ae_term_step_def bindF_def)
  then show ?thesis by (simp add: raft_recv_appendentries_def Let_def raft_get_current_idx_def)
qed

text \<open>C3. A refused append-entries request: it returns -1 with success 0, keeps the invariant and
  loses nothing committed; a request of an older term changes nothing but the election timer
  and reports the server's term and last index.\<close>

theorem recv_appendentries_refuses:
  assumes "raft_env cbs" "srv_inv s" "raft_recv_appendentries cbs p ae r (s, w) = Inr (e, r', s', w')"
  shows "(e \<noteq> 0 \<longrightarrow> e = -1 \<and> aer_success r' = 0 \<and> aer_first_idx r' = 0 \<and> srv_inv s' \<and> evolves s s') \<and>
    (ae_term ae < current_term s \<longrightarrow> e = -1 \<and> s' = s\<lparr>timeout_elapsed := 0\<rparr> \<and>
       r' = r\<lparr>aer_term := current_term s, aer_current_idx := raft_get_current_idx s,
         aer_success := 0, aer_first_idx := 0\<rparr>)"
proof (intro conjI impI)
  assume "ae_term ae < current_term s"
  note eq = trans[OF recv_appendentries_stale[OF this, symmetric] assms(3), unfolded sum.inject prod.inject]
  show "e = -1" "s' = s\<lparr>timeout_elapsed := 0\<rparr>"
    "r' = r\<lparr>aer_term := current_term s, aer_current_idx := raft_get_current_idx s,
         aer_success := 0, aer_first_idx := 0\<rparr>"
    using eq by blast+
qed (use raft_env.recv_appendentries_ok(1)[OF assms] raft_env.recv_appendentries_ok(3)[OF assms] in
    \<open>simp_all add: step_ok_def\<close>)

definition demo_late :: raft_server where
  "demo_late = demo3\<lparr>current_term := 4\<rparr>"

lemma demo_late_inv: "srv_inv demo_late"
  using demo3_inv by (simp add: demo_late_def srv_inv_def nodes_wf_def idx_wf_def raft_get_current_idx_def)

definition demo_late_result :: "int \<times> msg_appendentries_response \<times> unit st" where
  "demo_late_result = projr (raft_recv_appendentries quiet_cbs (Some 1) demo_ae zero_aer (demo_late, ()))"

lemma demo_late_runs:
  "raft_recv_appendentries quiet_cbs (Some 1) demo_ae zero_aer (demo_late, ()) =
     Inr (-1, fst (snd demo_late_result), fst (snd (snd demo_late_result)), ())"
  unfolding demo_late_result_def by (rule returned3; code_simp)

theorem recv_appendentries_refuses_witness:
  "fst (snd (snd demo_late_result)) = demo_late\<lparr>timeout_elapsed := 0\<rparr> \<and>
     aer_term (fst (snd demo_late_result)) = 4"
  using recv_appendentries_refuses[OF quiet_env demo_late_inv demo_late_runs]
  by (simp add: demo_late_def demo_ae_def)

subsection \<open>Elections\<close>









text \<open>C6. Two majorities of the same cluster share a node: two sets of nodes whose sizes
  \<^verbatim>\<open>raft_votes_is_majority\<close> accepts for the cluster's size intersect, and so do an election majority and
  a commit majority.\<close>

theorem majorities_intersect:
  assumes "finite N" "A \<subseteq> N" "B \<subseteq> N" "raft_votes_is_majority (int (card N)) (int (card A))"
    "raft_votes_is_majority (int (card N)) (int (card B)) \<or> commit_majority (int (card N)) (int (card B))"
  shows "A \<inter> B \<noteq> {}"
proof -
  have "commit_majority (int (card N)) (int (card C))"
    if "raft_votes_is_majority (int (card N)) (int (card C))" for C
    using that by (auto simp: commit_majority_def votes_is_majority_iff)
  with assms show ?thesis using commit.overlap[OF assms(1-3)] by blast
qed

theorem majorities_intersect_witness: "{1, 2} \<inter> {2, 3 :: nat} \<noteq> {}"
  using majorities_intersect[of "{1, 2, 3 :: nat}" "{1, 2}" "{2, 3}"]
  by (simp add: raft_votes_is_majority_def c_div_def)

text \<open>C7. A server becomes leader on a vote response only as a candidate of the response's term, for a
  granted vote, and when its own vote and the voting peers that voted for it in this election are
  a majority of the cluster; the term and the log stay as they are.\<close>

theorem leader_needs_majority:
  assumes "srv_inv s" "node_get s (srv_node s) = Inr me"
    "raft_recv_requestvote_response cbs p r (s, w) = Inr (e, s', w')"
    "\<not> raft_is_leader s" "raft_is_leader s'"
  shows "raft_is_candidate s \<and> rvr_term r = current_term s \<and> rvr_vote_granted r = 1 \<and>
    current_term s' = current_term s \<and> srv_log s' = srv_log s \<and> current_leader s' = srv_node s \<and>
    (\<exists>s1. (if p = None then s1 = s else node_upd p (raft_node_vote_for_me True) s = Inr s1) \<and>
       raft_votes_is_majority (num_nodes s)
         (int (card (voters s1)) + (if voted_for s = nd_id me then 1 else 0)))"
  using assms(3)
proof (cases rule: recv_requestvote_response_cases)
  case ignored
  with assms(4,5) show ?thesis by simp
next
  case stepped_down
  with assms(5) show ?thesis by (simp add: raft_is_leader_def)
next
  case (counted s1 votes)
  have h: "heap_step s s1" by (rule vote_for_me_heap[OF counted(5)])
  note f = heap_step_fields[OF h]
  have maj: "raft_votes_is_majority (num_nodes s) votes"
    using counted(7) assms(4,5) f(6) by (auto simp: raft_is_leader_def split: if_splits)
  then have h2: "heap_step (raft_set_state RAFT_STATE_LEADER s1) s'"
    using counted(7) become_leader_effect by simp
  obtain me' where me': "node_get s1 (srv_node s) = Inr me'" "nd_id me' = nd_id me"
  proof (cases "p = srv_node s \<and> p \<noteq> None")
    case True
    then have "p \<noteq> None" by blast
    with counted(5) have "node_upd p (raft_node_vote_for_me True) s = Inr s1" by simp
    from node_upd_own[OF this] assms(2) True show thesis
      by (intro that[of "raft_node_vote_for_me True me"]) (auto simp: raft_node_vote_for_me_def)
  next
    case False
    have "node_get s1 (srv_node s) = node_get s (srv_node s)"
      using counted(5) node_upd_other[of p _ s s1 "srv_node s"] False by (auto split: if_splits)
    with assms(2) show thesis by (intro that[of me]) simp_all
  qed
  have "nodes_wf s1" using heap_step_nodes_wf[OF h] assms(1) by (simp add: srv_inv_def)
  from nvotes_for_me_eq[OF this] me' f(2,12) counted(6)
  have "votes = int (card (voters s1)) + (if voted_for s = nd_id me then 1 else 0)" by simp
  with maj counted(5) have "\<exists>s1. (if p = None then s1 = s else node_upd p (raft_node_vote_for_me True) s = Inr s1) \<and>
       raft_votes_is_majority (num_nodes s)
         (int (card (voters s1)) + (if voted_for s = nd_id me then 1 else 0))" by blast
  then show ?thesis
    using counted(1-3) heap_step_fields(1,3,11)[OF h2] f(1,3,12) by (simp add: set_state_effect)
qed

definition demo_cand :: raft_server where
  "demo_cand = fst (projr (raft_become_candidate quiet_cbs (demo3, ())))"

lemma demo_cand_runs: "raft_become_candidate quiet_cbs (demo3, ()) = Inr (demo_cand, ())"
  unfolding demo_cand_def by (rule returned1) code_simp

lemma demo_cand_inv: "srv_inv demo_cand"
  using step_ok_inv[OF become_candidate_ok[OF demo3_inv demo_cand_runs]] .

definition demo_vote :: msg_requestvote_response where
  "demo_vote = \<lparr>rvr_term = 1, rvr_vote_granted = 1\<rparr>"

definition demo_leader :: raft_server where
  "demo_leader = fst (snd (projr (raft_recv_requestvote_response quiet_cbs (Some 1) demo_vote (demo_cand, ()))))"

lemma demo_leader_runs:
  "raft_recv_requestvote_response quiet_cbs (Some 1) demo_vote (demo_cand, ()) = Inr (0, demo_leader, ())"
  unfolding demo_leader_def by (rule returned2; code_simp)

theorem leader_needs_majority_witness:
  "raft_is_leader demo_leader \<and> current_term demo_leader = 1 \<and> srv_log demo_leader = srv_log demo_cand"
proof -
  have self: "node_get demo_cand (srv_node demo_cand) = Inr (projr (node_get demo_cand (srv_node demo_cand)))"
    by code_simp
  have l: "\<not> raft_is_leader demo_cand" "raft_is_leader demo_leader" "current_term demo_cand = 1"
    by code_simp+
  from leader_needs_majority[OF demo_cand_inv self demo_leader_runs l(1,2)] l show ?thesis by simp
qed

text \<open>A new candidate is in the next term, voted for itself, knows no leader, counts exactly one
  vote (its own), kept its log, and restarts its timer at a random point of the election timeout.\<close>

theorem candidate_starts_fresh:
  assumes "raft_env cbs" "srv_inv s" "node_get s (srv_node s) = Inr me" "0 < election_timeout s"
    "raft_become_candidate cbs (s, w) = Inr (s', w')"
  shows "current_term s' = current_term s + 1 \<and> voted_for s' = nd_id me \<and> raft_is_candidate s' \<and>
    current_leader s' = None \<and> srv_log s' = srv_log s \<and> raft_get_nvotes_for_me s' = Inr 1 \<and>
    0 \<le> timeout_elapsed s' \<and> timeout_elapsed s' < election_timeout s \<and> srv_inv s'"
proof -
  have wf: "nodes_wf s" using assms(2) by (simp add: srv_inv_def)
  note eff = become_candidate_effect[OF wf assms(3,5)]
  from eff(9) obtain v where "c_rem (fst (rand_fn cbs v)) (election_timeout s) = Inr (timeout_elapsed s')" ..
  then have "timeout_elapsed s' = fst (rand_fn cbs v) mod election_timeout s"
    using c_rem_nonneg[OF raft_env.rand_nonneg[OF assms(1), of v] assms(4)] by simp
  then have "0 \<le> timeout_elapsed s' \<and> timeout_elapsed s' < election_timeout s" using assms(4) by simp
  with eff(1-5,8) step_ok_inv[OF become_candidate_ok[OF assms(2,5)]] show ?thesis
    by (simp add: raft_is_candidate_def)
qed

theorem candidate_starts_fresh_witness:
  "voted_for demo_cand = 1 \<and> raft_get_nvotes_for_me demo_cand = Inr 1 \<and> timeout_elapsed demo_cand < 1000"
proof -
  have self: "node_get demo3 (srv_node demo3) = Inr (projr (node_get demo3 (srv_node demo3)))"
    "nd_id (projr (node_get demo3 (srv_node demo3))) = 1" "election_timeout demo3 = 1000"
    by code_simp+
  with candidate_starts_fresh[OF quiet_env demo3_inv self(1) _ demo_cand_runs] show ?thesis by simp
qed

text \<open>A new leader has reset every voting peer but itself: next index one past its log, match index 0,
  id and flags unchanged; it names itself the leader and its term, vote and log are unchanged.\<close>

theorem leader_initialises_peers:
  assumes "srv_inv s" "raft_become_leader cbs (s, w) = Inr (s', w')"
  shows "raft_is_leader s' \<and> current_leader s' = srv_node s \<and> current_term s' = current_term s \<and>
    voted_for s' = voted_for s \<and> srv_log s' = srv_log s \<and> srv_inv s' \<and>
    (\<forall>p n. p \<in> set (nodes s) \<and> p \<noteq> srv_node s \<and> node_get s p = Inr n \<and> raft_node_is_voting n \<longrightarrow>
      (\<exists>n'. node_get s' p = Inr n' \<and> nd_next_idx n' = raft_get_current_idx s + 1 \<and>
         nd_match_idx n' = 0 \<and> nd_id n' = nd_id n \<and> nd_flags n' = nd_flags n))"
proof -
  have wf: "nodes_wf s" using assms(1) by (simp add: srv_inv_def)
  have "max 1 (raft_get_current_idx s + 1) = raft_get_current_idx s + 1"
    using srv_inv_current_idx[OF assms(1)] by simp
  with become_leader_initialises[OF wf assms(2)]
  have "\<forall>p n. p \<in> set (nodes s) \<and> p \<noteq> srv_node s \<and> node_get s p = Inr n \<and> raft_node_is_voting n \<longrightarrow>
      (\<exists>n'. node_get s' p = Inr n' \<and> nd_next_idx n' = raft_get_current_idx s + 1 \<and>
         nd_match_idx n' = 0 \<and> nd_id n' = nd_id n \<and> nd_flags n' = nd_flags n)" by metis
  then show ?thesis
    using heap_step_fields[OF become_leader_effect[OF assms(2)]] step_ok_inv[OF become_leader_ok[OF assms]]
    by (simp add: set_state_effect raft_is_leader_def)
qed

definition demo_boss :: raft_server where
  "demo_boss = fst (projr (raft_become_leader quiet_cbs (demo3, ())))"

lemma demo_boss_runs: "raft_become_leader quiet_cbs (demo3, ()) = Inr (demo_boss, ())"
  unfolding demo_boss_def by (rule returned1) code_simp

lemma demo_boss_inv: "srv_inv demo_boss"
  using step_ok_inv[OF become_leader_ok[OF demo3_inv demo_boss_runs]] .

theorem leader_initialises_peers_witness:
  "raft_is_leader demo_boss \<and> current_leader demo_boss = Some 0"
proof -
  have "srv_node demo3 = Some 0" by code_simp
  with leader_initialises_peers[OF demo3_inv demo_boss_runs] show ?thesis by simp
qed

subsection \<open>Replication\<close>

text \<open>C8. The commit rule on an append-entries response up to index \<open>point\<close>: the commit index moves to
  \<open>point\<close> exactly if it was below it and the leader with the voting peers whose match index has
  reached \<open>point\<close>, at an entry of the current term, are a majority; otherwise nothing changes.
  It never moves past the log.\<close>

theorem commit_needs_majority:
  assumes "srv_inv s" "aer_update_commit point s = Inr s'"
  shows "(if commit_idx s < point \<and>
        commit_majority (num_nodes s) (1 + int (card {p \<in> set (nodes s). acked s point p}))
      then point \<le> raft_get_current_idx s \<and> s' = s\<lparr>commit_idx := point\<rparr> else s' = s) \<and> srv_inv s'"
  using aer_update_commit_eq[OF assms] step_ok_inv[OF aer_update_commit_ok[OF assms]] by blast

definition demo_filled :: raft_server where
  "demo_filled = fst (snd (projr (raft_append_entry quiet_cbs (demo_entry 0 9) (demo_boss, ()))))"

lemma demo_filled_inv: "srv_inv demo_filled"
proof -
  have "raft_append_entry quiet_cbs (demo_entry 0 9) (demo_boss, ()) = Inr (0, demo_filled, ())"
    unfolding demo_filled_def by (rule returned2; code_simp)
  from raft_env.append_entry_effect(1)[OF quiet_env demo_boss_inv this] show ?thesis by (rule step_ok_inv)
qed

definition demo_acked :: raft_server where
  "demo_acked = projr (node_upd (Some 1) (raft_node_set_match_idx 1) demo_filled)"

lemma demo_acked_inv: "srv_inv demo_acked"
proof -
  have "node_upd (Some 1) (raft_node_set_match_idx 1) demo_filled = Inr demo_acked"
    unfolding demo_acked_def by (rule returned) code_simp
  from heap_step_ok[OF set_match_idx_heap[OF this] demo_filled_inv] show ?thesis by (rule step_ok_inv)
qed

theorem commit_needs_majority_witness:
  "srv_inv (projr (aer_update_commit 1 demo_acked)) \<and> commit_idx (projr (aer_update_commit 1 demo_acked)) = 1"
proof -
  have "aer_update_commit 1 demo_acked = Inr (projr (aer_update_commit 1 demo_acked))"
    by (rule returned) code_simp
  moreover have "commit_idx (projr (aer_update_commit 1 demo_acked)) = 1" by code_simp
  ultimately show ?thesis using commit_needs_majority[OF demo_acked_inv] by blast
qed

text \<open>C9. A client entry with a non-zero id that is accepted is appended by a leader as the last entry,
  with the leader's term and the entry's id and type; the response names its id, index and
  term, and it is committed at once exactly in a cluster of one.\<close>

theorem recv_entry_accepts:
  assumes "raft_env cbs" "srv_inv s" "raft_recv_entry cbs e r (s, w) = Inr (0, r', s', w')" "ety_id e \<noteq> 0"
  shows "raft_is_leader s \<and> srv_inv s' \<and> evolves s s' \<and>
    (\<exists>c. entries_of s' = entries_of s @ [c] \<and> ety_term c = word_of_int (current_term s) \<and>
       ety_id c = ety_id e \<and> ety_type c = ety_type e) \<and>
    mer_id r' = ety_id e \<and> mer_idx r' = int (length (entries_of s')) \<and> mer_term r' = current_term s \<and>
    commit_idx s' = (if num_nodes s' = 1 then mer_idx r' else commit_idx s)"
  using raft_env.recv_entry_appends[OF assms] raft_env.recv_entry_ok[OF assms(1-3)]
  by (simp add: step_ok_def)

definition demo_entry_result :: "int \<times> msg_entry_response \<times> unit st" where
  "demo_entry_result = projr (raft_recv_entry quiet_cbs (demo_entry 0 8) zero_mer (demo_boss, ()))"

lemma demo_entry_runs:
  "raft_recv_entry quiet_cbs (demo_entry 0 8) zero_mer (demo_boss, ()) =
     Inr (0, fst (snd demo_entry_result), fst (snd (snd demo_entry_result)), ())"
  unfolding demo_entry_result_def by (rule returned3; code_simp)

theorem recv_entry_accepts_witness:
  "mer_id (fst (snd demo_entry_result)) = 8 \<and>
     mer_idx (fst (snd demo_entry_result)) = int (length (entries_of (fst (snd (snd demo_entry_result)))))"
  using recv_entry_accepts[OF quiet_env demo_boss_inv demo_entry_runs] by (simp add: demo_entry_def)



subsection \<open>Applying\<close>

text \<open>C11. \<^verbatim>\<open>raft_apply_all\<close> terminates on a well-formed server whose \<^verbatim>\<open>applylog\<close> returns: it ends with
  every committed entry applied and changes neither the log nor the commit index.\<close>

theorem apply_all_terminates:
  assumes "applies cbs" "srv_inv s"
  shows "\<exists>s' w'. raft_apply_all cbs (s, w) = Some (Inr (s', w')) \<and> last_applied_idx s' = commit_idx s \<and>
    srv_log s' = srv_log s \<and> commit_idx s' = commit_idx s \<and> srv_inv s'"
  using apply_all_ends[OF assms, of w] step_ok_inv by blast

theorem apply_all_terminates_witness:
  "\<exists>s' w'. raft_apply_all quiet_cbs (projr (aer_update_commit 1 demo_acked), ()) = Some (Inr (s', w')) \<and>
     last_applied_idx s' = 1"
proof -
  have r: "aer_update_commit 1 demo_acked = Inr (projr (aer_update_commit 1 demo_acked))"
    by (rule returned) code_simp
  have c: "commit_idx (projr (aer_update_commit 1 demo_acked)) = 1" by code_simp
  have q: "applies quiet_cbs" by (simp add: applies_def quiet_cbs_def)
  show ?thesis
    using apply_all_terminates[OF q step_ok_inv[OF aer_update_commit_ok[OF demo_acked_inv r]], of "()"] c
    by metis
qed

text \<open>C12. \<^verbatim>\<open>raft_apply_all\<close> hands the state machine exactly the committed entries it has not applied, in
  log order and once each: an \<^verbatim>\<open>applylog\<close> that keeps a history ends with the history extended by
  them.\<close>

theorem apply_all_in_order:
  assumes "records_applied cbs" "srv_inv s"
  shows "\<exists>s'. raft_apply_all cbs (s, h) = Some (Inr (s', h @ unapplied s)) \<and> last_applied_idx s' = commit_idx s"
  by (rule apply_all_order[OF assms])

definition history_cbs :: "raft_entry list raft_cbs" where
  "history_cbs = \<lparr>send_requestvote = None, send_appendentries = None,
     applylog = Some (\<lambda>s e h. Inr (h @ [e])), persist_vote = None, persist_term = None,
     log_offer = None, log_poll_cb = None, log_pop = None, node_has_sufficient_logs = None,
     rand_fn = \<lambda>w. (0, w)\<rparr>"

theorem apply_all_in_order_witness:
  "\<exists>s'. raft_apply_all history_cbs (projr (aer_update_commit 1 demo_acked), []) =
     Some (Inr (s', [demo_entry 0 9])) \<and> last_applied_idx s' = 1"
proof -
  have r: "aer_update_commit 1 demo_acked = Inr (projr (aer_update_commit 1 demo_acked))"
    by (rule returned) code_simp
  have c: "commit_idx (projr (aer_update_commit 1 demo_acked)) = 1" by code_simp
  have u: "unapplied (projr (aer_update_commit 1 demo_acked)) = [demo_entry 0 9]" by code_simp
  have q: "records_applied history_cbs" by (simp add: records_applied_def history_cbs_def)
  show ?thesis
    using apply_all_in_order[OF q step_ok_inv[OF aer_update_commit_ok[OF demo_acked_inv r]], of "[]"] c u
    by simp
qed

subsection \<open>The log\<close>


definition no_log_cbs :: "unit log_cbs" where
  "no_log_cbs = \<lparr>cb_offer = None, cb_poll = None, cb_pop = None\<rparr>"


text \<open>\<^verbatim>\<open>log_delete\<close> pops the entries from the given index on, the youngest first: the pop callback
  sees each of them once, in reverse log order, with the array index behind it.\<close>

theorem log_delete_pops_newest_first:
  assumes "log_live l" "1 \<le> idx" "idx \<le> log_get_current_idx l"
  shows "\<exists>l'. log_delete pop_recorder l idx h =
      Inr (l', h @ zip (rev (drop (nat (idx - 1)) (log_abs l)))
                       (map (\<lambda>i. l_back l - int i) [0..<nat (log_get_current_idx l - idx + 1)])) \<and>
    log_live l' \<and> log_abs l' = take (nat (idx - 1)) (log_abs l)"
proof -
  have wf: "log_wf l" and b: "l_base l = 0" "l_front l = 0" using assms(1) by (auto simp: log_live_def)
  have cur: "log_get_current_idx l = l_count l" using b by (simp add: log_get_current_idx_def log_count_def)
  let ?n = "nat (l_count l - (idx - 1))"
  have n: "int ?n \<le> l_count l" "nat (l_count l) - ?n = nat (idx - 1)" using assms cur by auto
  obtain l' where l': "delete_loop pop_recorder ?n l h =
     Inr (l', h @ zip (rev (drop (nat (l_count l) - ?n) (log_abs l))) (map (\<lambda>i. l_back l - int i) [0..<?n]))"
    using delete_loop_pops[OF wf n(1)] by blast
  then have del: "log_delete pop_recorder l idx h =
     Inr (l', h @ zip (rev (drop (nat (idx - 1)) (log_abs l))) (map (\<lambda>i. l_back l - int i) [0..<?n]))"
    using n(2) b by (simp add: log_delete_def log_count_def)
  have "?n = nat (log_get_current_idx l - idx + 1)" using cur by simp
  with del rlog.del[OF assms(1,2) del] show ?thesis by simp
qed

definition demo_log :: log_private where
  "demo_log = foldl (\<lambda>l c. fst (snd (projr (log_append_entry no_log_cbs l c ())))) log_new
     [demo_entry 1 4, demo_entry 1 5, demo_entry 2 6]"

lemma demo_log_live: "log_live demo_log"
proof -
  have step: "log_live (fst (snd (projr (log_append_entry no_log_cbs l c ()))))" if "log_live l" "ety_id c \<noteq> 0" for l c
  proof -
    have wf: "log_wf l" "l_front l = 0 \<or> l_back l < l_size l" using that by (auto simp: log_live_def)
    have "call_offer no_log_cbs c (l_back l) () = Inr (c, ())" by (simp add: call_offer_def no_log_cbs_def)
    from log_append_entry_spec[OF wf that(2) this] obtain l' where
      "log_append_entry no_log_cbs l c () = Inr (0, l', ())" "log_wf l'" "l_base l' = l_base l"
      "l_front l' = l_front l" by blast
    then show ?thesis using that by (simp add: log_live_def)
  qed
  show ?thesis by (simp add: demo_log_def step log_live_new) (simp add: demo_entry_def step log_live_new)
qed

theorem log_delete_pops_newest_first_witness:
  "\<exists>l'. log_delete pop_recorder demo_log 2 [] = Inr (l', [(demo_entry 2 6, 3), (demo_entry 1 5, 2)]) \<and> log_live l'"
proof -
  have "2 \<le> log_get_current_idx demo_log" by code_simp
  moreover have "zip (rev (drop (nat (2 - 1)) (log_abs demo_log)))
       (map (\<lambda>i. l_back demo_log - int i) [0..<nat (log_get_current_idx demo_log - 2 + 1)]) =
     [(demo_entry 2 6, 3), (demo_entry 1 5, 2)]" by code_simp
  ultimately show ?thesis using log_delete_pops_newest_first[OF demo_log_live, of 2 "[]"] by auto
qed

text \<open>After a poll, a log whose entries reach the end of its array has no room at the back although
  its count is below its size: \<^verbatim>\<open>__ensurecapacity\<close> does not grow it and the next append writes
  behind the array.\<close>

theorem append_after_poll_overflows:
  assumes "log_wf l" "l_back l = l_size l" "0 < l_count l" "ety_id c \<noteq> 0"
    "log_poll cbs l x = Inr (r, l1, x1)" "call_offer cbs c (l_back l1) x1 = Inr (c', x2)"
  shows "log_append_entry cbs l1 c x1 = Inl Out_of_bounds"
proof -
  have "log_wf l1" using log_poll_spec[OF assms(1,5)] by blast
  moreover have "0 < l_front l1" "l_back l1 = l_size l1"
    using assms(1-3,5) by (auto simp: log_poll_def log_count_def log_wf_def)
  ultimately show ?thesis by (rule log_append_after_poll_oob[OF _ _ _ assms(4,6)])
qed

definition full_log :: log_private where
  "full_log = log_new\<lparr>l_count := 10, l_back := 10, l_entries := replicate 10 (demo_entry 1 4)\<rparr>"

theorem append_after_poll_overflows_witness:
  "log_append_entry no_log_cbs (fst (snd (projr (log_poll no_log_cbs full_log ())))) (demo_entry 1 4) () =
     Inl Out_of_bounds"
proof (rule append_after_poll_overflows)
  let ?l1 = "fst (snd (projr (log_poll no_log_cbs full_log ())))"
  show "log_poll no_log_cbs full_log () = Inr (Some (demo_entry 1 4), ?l1, ())" by code_simp
  show "call_offer no_log_cbs (demo_entry 1 4) (l_back ?l1) () = Inr (demo_entry 1 4, ())"
    by (simp add: call_offer_def no_log_cbs_def)
qed code_simp+

subsection \<open>Peers\<close>

text \<open>Adding a peer with a new id makes it the last member, a voting peer at a fresh address that
  \<^verbatim>\<open>raft_get_node\<close> then finds; the other ids are found where they were; removing it again gives the
  old peer array and \<^verbatim>\<open>raft_get_node\<close> no longer finds it.\<close>

theorem add_find_remove:
  assumes "srv_inv s" "nid \<notin> set (member_ids s)" "0 \<le> num_nodes s"
  shows "\<exists>a s1 s2. raft_add_node ud nid slf s = Inr (Some a, s1) \<and> srv_inv s1 \<and>
    member_ids s1 = member_ids s @ [nid] \<and> raft_get_node s1 nid = Inr (Some a) \<and>
    (\<forall>j. j \<noteq> nid \<longrightarrow> raft_get_node s1 j = raft_get_node s j) \<and>
    raft_remove_node (Some a) s1 = Inr s2 \<and> srv_inv s2 \<and> nodes s2 = nodes s \<and>
    raft_get_node s2 nid = Inr None"
proof -
  have wf: "nodes_wf s" using assms(1) by (simp add: srv_inv_def)
  let ?a = "next_addr s" and ?s1 = "added_server ud nid slf s"
  have new: "Some ?a \<notin> set (nodes s)" using wf by (force simp: nodes_wf_def)
  have wf1: "nodes_wf ?s1" and ids: "member_ids ?s1 = member_ids s @ [nid]"
    using added_nodes_wf[OF wf assms(3)] added_member_ids[OF wf] by blast+
  have at: "node_id_at ?s1 p = node_id_at s p" if "p \<in> set (nodes s)" for p
  proof -
    have "map (node_id_at ?s1) (nodes s) = map (node_id_at s) (nodes s)"
      using ids by (simp add: member_ids_def added_server_def)
    with that show ?thesis by simp
  qed
  have last: "node_id_at ?s1 (Some ?a) = nid"
    by (simp add: added_server_def node_id_at_def node_get_def raft_node_new_def)
  have find: "find (\<lambda>p. node_id_at ?s1 p = j) (nodes s) = find (\<lambda>p. node_id_at s p = j) (nodes s)" for j
    by (rule find_cong) (simp_all add: at)
  have none: "find (\<lambda>p. node_id_at s p = nid) (nodes s) = None"
    using assms(2) by (auto simp: find_None_iff member_ids_def)
  have app: "find P (xs @ [y]) = (case find P xs of None \<Rightarrow> (if P y then Some y else None) | Some z \<Rightarrow> Some z)"
    for P xs and y :: "addr option" by (induction xs) auto
  have nodes1: "nodes ?s1 = nodes s @ [Some ?a]" by (simp add: added_server_def)
  have "raft_get_node ?s1 nid = Inr (Some ?a)"
    using find none last by (simp add: get_node_spec[OF wf1] nodes1 app)
  moreover have "raft_get_node ?s1 j = raft_get_node s j" if "j \<noteq> nid" for j
    using find[of j] last that by (simp add: get_node_spec[OF wf1] get_node_spec[OF wf] nodes1 app split: option.splits)
  moreover define s2 where "s2 = ?s1\<lparr>num_nodes := num_nodes ?s1 - 1, nodes := remove1 (Some ?a) (nodes ?s1),
           node_heap := (node_heap ?s1)(?a := None)\<rparr>"
  moreover have mem: "Some ?a \<in> set (nodes ?s1)" by (simp add: nodes1)
  moreover have rm: "raft_remove_node (Some ?a) ?s1 = Inr s2"
    using remove_node_member[OF wf1 mem] by (simp add: s2_def)
  moreover have inv1: "srv_inv ?s1" by (rule added_inv[OF assms(1,3)])
  moreover have wf2: "nodes_wf s2" and po: "peers_only ?s1 s2" using remove_node_ok[OF wf1 mem rm] by auto
  moreover have "srv_inv s2" using step_ok_inv[OF peers_only_ok[OF po wf2 inv1]] .
  moreover have n2: "nodes s2 = nodes s" using new by (simp add: s2_def nodes1 remove1_append)
  moreover have "member_ids s2 = map (node_id_at ?s1) (nodes s)"
    using removed_nodes_wf(2)[OF wf1 mem s2_def] new by (simp add: nodes1 remove1_append)
  then have "nid \<notin> set (member_ids s2)" using assms(2) at by (auto simp: member_ids_def)
  then have "raft_get_node s2 nid = Inr None" using get_node_None_iff[OF wf2] by blast
  ultimately show ?thesis using add_node_new[OF wf assms(2,3), of ud slf] ids by blast
qed

theorem add_find_remove_witness:
  "\<exists>a s1. raft_add_node None 9 False demo3 = Inr (Some a, s1) \<and> raft_get_node s1 9 = Inr (Some a)"
proof -
  have "9 \<notin> set (member_ids demo3)" "0 \<le> num_nodes demo3" by code_simp+
  from add_find_remove[OF demo3_inv this, of None False] show ?thesis by blast
qed

text \<open>The flags of a peer: \<^verbatim>\<open>raft_node_set_voting\<close> sets the voting flag to its argument and keeps the
  flag for sufficient logs, but making a peer non-voting also clears its vote, since
  \<^verbatim>\<open>~RAFT_NODE_VOTING\<close> expands to \<^verbatim>\<open>~1 << 1\<close>.\<close>

theorem set_voting_flags:
  "raft_node_is_voting (raft_node_set_voting v n) = v \<and>
   raft_node_has_sufficient_logs (raft_node_set_voting v n) = raft_node_has_sufficient_logs n \<and>
   raft_node_has_vote_for_me (raft_node_set_voting v n) = (v \<and> raft_node_has_vote_for_me n)"
  by (simp add: node_flag_simps)

subsection \<open>Where the code departs from Raft\<close>

text \<open>A server can vote for two candidates in one term. A candidate of term 1 (which voted for itself)
  gets an append-entries request of term 1: it steps down and forgets its vote. A vote request of
  another node for term 1 is then granted.\<close>

definition demo_heartbeat :: msg_appendentries where
  "demo_heartbeat = \<lparr>ae_term = 1, ae_prev_log_idx = 0, ae_prev_log_term = 0, ae_leader_commit = 0,
     ae_n_entries = 0, ae_entries = []\<rparr>"

definition demo_rv3 :: msg_requestvote where
  "demo_rv3 = \<lparr>rv_term = 1, rv_candidate_id = 3, rv_last_log_idx = 0, rv_last_log_term = 0\<rparr>"

theorem two_votes_in_one_term:
  "\<exists>s1 s2 r1 r2. voted_for demo_cand = 1 \<and> current_term demo_cand = 1 \<and>
     raft_recv_appendentries quiet_cbs (Some 1) demo_heartbeat zero_aer (demo_cand, ()) = Inr (0, r1, s1, ()) \<and>
     raft_recv_requestvote quiet_cbs demo_rv3 zero_rvr (s1, ()) = Inr (0, r2, s2, ()) \<and>
     rvr_vote_granted r2 = 1 \<and> voted_for s2 = 3 \<and> current_term s2 = 1"
proof -
  let ?a = "raft_recv_appendentries quiet_cbs (Some 1) demo_heartbeat zero_aer (demo_cand, ())"
  let ?s1 = "fst (snd (snd (projr ?a)))"
  let ?b = "raft_recv_requestvote quiet_cbs demo_rv3 zero_rvr (?s1, ())"
  have a: "?a = Inr (0, fst (snd (projr ?a)), ?s1, ())" by (rule returned3; code_simp)
  have b: "?b = Inr (0, fst (snd (projr ?b)), fst (snd (snd (projr ?b))), ())" by (rule returned3; code_simp)
  have c: "voted_for demo_cand = 1" "current_term demo_cand = 1" by code_simp+
  have d: "rvr_vote_granted (fst (snd (projr ?b))) = 1" "voted_for (fst (snd (snd (projr ?b)))) = 3"
    "current_term (fst (snd (snd (projr ?b)))) = 1" by code_simp+
  from a b c d show ?thesis by blast
qed

text \<open>\<^verbatim>\<open>raft_recv_appendentries_response\<close> reads the match index of the sender before it checks whether
  the sender is known: a response with a non-zero index from an unknown node (\<^verbatim>\<open>NULL\<close>) is a null
  dereference, while one with index 0 is ignored as intended.\<close>

theorem response_from_unknown_node:
  assumes "raft_is_leader s" "aer_term r = current_term s"
  shows "raft_recv_appendentries_response cbs None r (s, w) =
    (if aer_current_idx r \<noteq> 0 then Inl Null_deref else Inr (0, s, w))"
  using assms by (simp add: raft_recv_appendentries_response_def node_get_def)

theorem response_from_unknown_node_witness:
  "raft_recv_appendentries_response quiet_cbs None (zero_aer\<lparr>aer_current_idx := 1\<rparr>) (demo_boss, ()) =
     Inl Null_deref"
proof -
  have "raft_is_leader demo_boss" "aer_term (zero_aer\<lparr>aer_current_idx := 1\<rparr>) = current_term demo_boss"
    by code_simp+
  from response_from_unknown_node[OF this, of quiet_cbs "()"] show ?thesis by simp
qed

text \<open>\<^verbatim>\<open>raft_append_entry\<close> records a voting configuration change at the index before it: the pending
  index is one below the index of the entry, so applying the entry itself never clears it.\<close>

theorem pending_change_index_low:
  assumes "raft_env cbs" "srv_inv s" "raft_entry_is_voting_cfg_change c" "ety_id c \<noteq> 0"
    "raft_append_entry cbs c (s, w) = Inr (e, s', w')"
  shows "e = 0 \<and> voting_cfg_change_log_idx s' = raft_get_current_idx s' - 1 \<and>
    (last_applied_idx s' + 1 = raft_get_current_idx s' \<and> commit_idx s' = raft_get_current_idx s' \<and>
     raft_apply_entry cbs (s', w') = Inr (0, s2, w2) \<longrightarrow>
       last_applied_idx s2 = raft_get_current_idx s' \<and> voting_cfg_change_log_idx s2 = raft_get_current_idx s' - 1)"
proof -
  note eff = raft_env.append_entry_effect[OF assms(1,2,5)]
  have e: "e = 0" "length (entries_of s') = Suc (length (entries_of s))" using eff(8) assms(4) by auto
  have cur: "raft_get_current_idx s' = raft_get_current_idx s + 1"
    using e(2) srv_inv_current_idx[OF assms(2)] srv_inv_current_idx[OF step_ok_inv[OF eff(1)]] by simp
  have v: "voting_cfg_change_log_idx s' = raft_get_current_idx s' - 1" using eff(7) assms(3) cur by simp
  have "last_applied_idx s2 = raft_get_current_idx s' \<and> voting_cfg_change_log_idx s2 = raft_get_current_idx s' - 1"
    if "last_applied_idx s' + 1 = raft_get_current_idx s'" "commit_idx s' = raft_get_current_idx s'"
      "raft_apply_entry cbs (s', w') = Inr (0, s2, w2)"
    using that v
    by (auto simp: raft_apply_entry_def Let_def split: option.splits dest!: lift_cb_server)
  with e v show ?thesis by blast
qed

theorem pending_change_index_low_witness:
  "voting_cfg_change_log_idx (fst (snd (projr (raft_append_entry quiet_cbs
      ((demo_entry 0 9)\<lparr>ety_type := RAFT_LOGTYPE_ADD_NODE\<rparr>) (demo3, ()))))) = 0"
proof -
  let ?c = "(demo_entry 0 9)\<lparr>ety_type := RAFT_LOGTYPE_ADD_NODE\<rparr>"
  let ?r = "raft_append_entry quiet_cbs ?c (demo3, ())"
  have r: "?r = Inr (0, fst (snd (projr ?r)), ())" by (rule returned2; code_simp)
  have c: "raft_entry_is_voting_cfg_change ?c" "ety_id ?c \<noteq> 0" "raft_get_current_idx (fst (snd (projr ?r))) = 1"
    by code_simp+
  from pending_change_index_low[OF quiet_env demo3_inv c(1,2) r] c(3) show ?thesis by simp
qed

end
