(* ===== verification/Hashfn.thy ===== *)
theory Hashfn
  imports Crc_Tables
begin

section \<open>Hash functions (hashfn.c)\<close>

text \<open>
  The hash functions of \<^verbatim>\<open>src/src/hashfn.c\<close> on the bytes of a key. A \<^verbatim>\<open>char\<close> is signed, as on the
  platforms the code is built for: where the code converts it to an unsigned type it is
  sign-extended (\<open>scast\<close>). Multi-byte reads are little endian. \<open>hash_jenkins\<close> reads its key through
  pointers of three widths, chosen by the alignment of the key, and reads whole words past its
  end; its key is therefore the memory from the key on (\<open>nat \<Rightarrow> byte\<close>), with the address and the
  length as arguments. The test program at the end of the file is left out.
\<close>

definition get16bits :: "byte list \<Rightarrow> nat \<Rightarrow> u32" where
  "get16bits d i = push_bit 8 (ucast (d ! (i + 1))) + ucast (d ! i)"

definition rot :: "u32 \<Rightarrow> nat \<Rightarrow> u32" where
  "rot x k = (push_bit k x) OR (drop_bit (32 - k) x)"

definition FNV_64_INIT :: u64 where
  "FNV_64_INIT = 0xcbf29ce484222325"

definition FNV_64_PRIME :: u64 where
  "FNV_64_PRIME = 0x100000001b3"

definition FNV_32_INIT :: u32 where
  "FNV_32_INIT = 2166136261"

definition FNV_32_PRIME :: u32 where
  "FNV_32_PRIME = 16777619"

subsection \<open>CRC\<close>

definition crc16_byte :: "u32 \<Rightarrow> byte \<Rightarrow> u32" where
  "crc16_byte crc b =
     push_bit 8 crc XOR ucast (crc16tab ! unat ((drop_bit 8 crc XOR scast b) AND 0xff))"

definition hash_crc16 :: "byte list \<Rightarrow> u32" where
  "hash_crc16 key = foldl crc16_byte 0 key"

definition crc32_byte :: "u32 \<Rightarrow> byte \<Rightarrow> u32" where
  "crc32_byte crc b =
     drop_bit 8 crc XOR crc32tab ! unat ((ucast crc XOR (scast b :: u64)) AND 0xff)"

definition hash_crc32 :: "byte list \<Rightarrow> u32" where
  "hash_crc32 key = drop_bit 16 (NOT (foldl crc32_byte (- 1) key)) AND 0x7fff"

definition crc32a_byte :: "u32 \<Rightarrow> byte \<Rightarrow> u32" where
  "crc32a_byte crc b = crc32tab ! unat ((crc XOR ucast b) AND 0xFF) XOR drop_bit 8 crc"

definition hash_crc32a :: "byte list \<Rightarrow> u32" where
  "hash_crc32a key = foldl crc32a_byte (NOT 0) key XOR NOT 0"

subsection \<open>FNV\<close>

definition hash_fnv1_64 :: "byte list \<Rightarrow> u32" where
  "hash_fnv1_64 key = ucast (foldl (\<lambda>hash b. (hash * FNV_64_PRIME) XOR scast b) FNV_64_INIT key)"

definition hash_fnv1a_64 :: "byte list \<Rightarrow> u32" where
  "hash_fnv1a_64 key =
     foldl (\<lambda>hash b. (hash XOR scast b) * ucast FNV_64_PRIME) (ucast FNV_64_INIT) key"

definition hash_fnv1_32 :: "byte list \<Rightarrow> u32" where
  "hash_fnv1_32 key = foldl (\<lambda>hash b. (hash * FNV_32_PRIME) XOR scast b) FNV_32_INIT key"

definition hash_fnv1a_32 :: "byte list \<Rightarrow> u32" where
  "hash_fnv1a_32 key = foldl (\<lambda>hash b. (hash XOR scast b) * FNV_32_PRIME) FNV_32_INIT key"

subsection \<open>Hsieh\<close>

text \<open>One iteration of the main loop on the four bytes at \<open>i\<close>, the tail of 0 to 3 bytes, and the final
  mixing.\<close>

definition hsieh_step :: "byte list \<Rightarrow> nat \<Rightarrow> u32 \<Rightarrow> u32" where
  "hsieh_step key i hash =
     (let hash = hash + get16bits key i;
          tmp = push_bit 11 (get16bits key (i + 2)) XOR hash;
          hash = push_bit 16 hash XOR tmp in
      hash + drop_bit 11 hash)"

fun hsieh_loop :: "byte list \<Rightarrow> nat \<Rightarrow> nat \<Rightarrow> u32 \<Rightarrow> nat \<times> u32" where
  "hsieh_loop key 0 i hash = (i, hash)"
| "hsieh_loop key (Suc n) i hash = hsieh_loop key n (i + 4) (hsieh_step key i hash)"

definition hsieh_tail :: "byte list \<Rightarrow> nat \<Rightarrow> nat \<Rightarrow> u32 \<Rightarrow> u32" where
  "hsieh_tail key rem i hash =
     (if rem = 3 then
        (let hash = hash + get16bits key i;
             hash = hash XOR push_bit 16 hash;
             hash = hash XOR push_bit 18 (scast (key ! (i + 2))) in
         hash + drop_bit 11 hash)
      else if rem = 2 then
        (let hash = hash + get16bits key i;
             hash = hash XOR push_bit 11 hash in
         hash + drop_bit 17 hash)
      else if rem = 1 then
        (let hash = hash + ucast (key ! i);
             hash = hash XOR push_bit 10 hash in
         hash + drop_bit 1 hash)
      else hash)"

definition hsieh_avalanche :: "u32 \<Rightarrow> u32" where
  "hsieh_avalanche hash =
     (let hash = hash XOR push_bit 3 hash;
          hash = hash + drop_bit 5 hash;
          hash = hash XOR push_bit 4 hash;
          hash = hash + drop_bit 17 hash;
          hash = hash XOR push_bit 25 hash in
      hash + drop_bit 6 hash)"

definition hash_hsieh :: "byte list option \<Rightarrow> u32" where
  "hash_hsieh k =
     (case k of None \<Rightarrow> 0
      | Some key \<Rightarrow>
          if length key = 0 then 0
          else
            (let (i, hash) = hsieh_loop key (length key div 4) 0 0 in
             hsieh_avalanche (hsieh_tail key (length key mod 4) i hash)))"

text \<open>\<^verbatim>\<open>hash_super_fast\<close> starts from the length, and its tail of one byte adds the signed byte.\<close>

definition super_fast_tail :: "byte list \<Rightarrow> nat \<Rightarrow> nat \<Rightarrow> u32 \<Rightarrow> u32" where
  "super_fast_tail data rem i hash =
     (if rem = 3 then
        (let hash = hash + get16bits data i;
             hash = hash XOR push_bit 16 hash;
             hash = hash XOR push_bit 18 (scast (data ! (i + 2))) in
         hash + drop_bit 11 hash)
      else if rem = 2 then
        (let hash = hash + get16bits data i;
             hash = hash XOR push_bit 11 hash in
         hash + drop_bit 17 hash)
      else if rem = 1 then
        (let hash = hash + scast (data ! i);
             hash = hash XOR push_bit 10 hash in
         hash + drop_bit 1 hash)
      else hash)"

definition hash_super_fast :: "byte list option \<Rightarrow> u32" where
  "hash_super_fast d =
     (case d of None \<Rightarrow> 1
      | Some data \<Rightarrow>
          if length data \<le> 1 then 1
          else
            (let (i, hash) = hsieh_loop data (length data div 4) 0 (of_nat (length data)) in
             hsieh_avalanche (super_fast_tail data (length data mod 4) i hash)))"

subsection \<open>One at a time\<close>

definition one_at_a_time_byte :: "u32 \<Rightarrow> byte \<Rightarrow> u32" where
  "one_at_a_time_byte value b =
     (let value = value + scast b;
          value = value + push_bit 10 value in
      value XOR drop_bit 6 value)"

definition hash_one_at_a_time :: "byte list \<Rightarrow> u32" where
  "hash_one_at_a_time key =
     (let value = foldl one_at_a_time_byte 0 key;
          value = value + push_bit 3 value;
          value = value XOR drop_bit 11 value in
      value + push_bit 15 value)"

subsection \<open>Jenkins\<close>

type_synonym abc = "u32 \<times> u32 \<times> u32"

definition mix :: "abc \<Rightarrow> abc" where
  "mix s = (case s of (a, b, c) \<Rightarrow>
     let a = a - c; a = a XOR rot c 4; c = c + b;
         b = b - a; b = b XOR rot a 6; a = a + c;
         c = c - b; c = c XOR rot b 8; b = b + a;
         a = a - c; a = a XOR rot c 16; c = c + b;
         b = b - a; b = b XOR rot a 19; a = a + c;
         c = c - b; c = c XOR rot b 4; b = b + a in
     (a, b, c))"

definition final :: "abc \<Rightarrow> abc" where
  "final s = (case s of (a, b, c) \<Rightarrow>
     let c = c XOR b; c = c - rot b 14;
         a = a XOR c; a = a - rot c 11;
         b = b XOR a; b = b - rot a 25;
         c = c XOR b; c = c - rot b 16;
         a = a XOR c; a = a - rot c 4;
         b = b XOR a; b = b - rot a 14;
         c = c XOR b; c = c - rot b 24 in
     (a, b, c))"

text \<open>Reads of 8, 16 and 32 bits at an offset of the memory from the key on.\<close>

definition k8 :: "(nat \<Rightarrow> byte) \<Rightarrow> nat \<Rightarrow> u32" where
  "k8 m i = ucast (m i)"

definition k16 :: "(nat \<Rightarrow> byte) \<Rightarrow> nat \<Rightarrow> u32" where
  "k16 m i = ucast (m i) OR push_bit 8 (ucast (m (i + 1)))"

definition k32 :: "(nat \<Rightarrow> byte) \<Rightarrow> nat \<Rightarrow> u32" where
  "k32 m i = ucast (m i) OR push_bit 8 (ucast (m (i + 1))) OR push_bit 16 (ucast (m (i + 2))) OR
     push_bit 24 (ucast (m (i + 3)))"

text \<open>A whole block of twelve bytes, as each of the three loops adds it.\<close>

definition block32 :: "(nat \<Rightarrow> byte) \<Rightarrow> nat \<Rightarrow> abc \<Rightarrow> abc" where
  "block32 m i s = (case s of (a, b, c) \<Rightarrow> (a + k32 m i, b + k32 m (i + 4), c + k32 m (i + 8)))"

definition block16 :: "(nat \<Rightarrow> byte) \<Rightarrow> nat \<Rightarrow> abc \<Rightarrow> abc" where
  "block16 m i s = (case s of (a, b, c) \<Rightarrow>
     (a + (k16 m i + push_bit 16 (k16 m (i + 2))),
      b + (k16 m (i + 4) + push_bit 16 (k16 m (i + 6))),
      c + (k16 m (i + 8) + push_bit 16 (k16 m (i + 10)))))"

definition block8 :: "(nat \<Rightarrow> byte) \<Rightarrow> nat \<Rightarrow> abc \<Rightarrow> abc" where
  "block8 m i s = (case s of (a, b, c) \<Rightarrow>
     (a + k8 m i + push_bit 8 (k8 m (i + 1)) + push_bit 16 (k8 m (i + 2)) + push_bit 24 (k8 m (i + 3)),
      b + k8 m (i + 4) + push_bit 8 (k8 m (i + 5)) + push_bit 16 (k8 m (i + 6)) +
        push_bit 24 (k8 m (i + 7)),
      c + k8 m (i + 8) + push_bit 8 (k8 m (i + 9)) + push_bit 16 (k8 m (i + 10)) +
        push_bit 24 (k8 m (i + 11))))"

fun jenkins_loop :: "(nat \<Rightarrow> abc \<Rightarrow> abc) \<Rightarrow> nat \<Rightarrow> nat \<Rightarrow> abc \<Rightarrow> nat \<times> nat \<times> abc" where
  "jenkins_loop block len i s =
     (if 12 < len then jenkins_loop block (len - 12) (i + 12) (mix (block i s)) else (len, i, s))"

declare jenkins_loop.simps [simp del]

text \<open>The switches over the last block. \<open>None\<close> is the early return for no bytes left.\<close>

definition tail32 :: "(nat \<Rightarrow> byte) \<Rightarrow> nat \<Rightarrow> nat \<Rightarrow> abc \<Rightarrow> abc option" where
  "tail32 m len i s = (case s of (a, b, c) \<Rightarrow>
     if len = 12 then Some (a + k32 m i, b + k32 m (i + 4), c + k32 m (i + 8))
     else if len = 11 then Some (a + k32 m i, b + k32 m (i + 4), c + (k32 m (i + 8) AND 0xffffff))
     else if len = 10 then Some (a + k32 m i, b + k32 m (i + 4), c + (k32 m (i + 8) AND 0xffff))
     else if len = 9 then Some (a + k32 m i, b + k32 m (i + 4), c + (k32 m (i + 8) AND 0xff))
     else if len = 8 then Some (a + k32 m i, b + k32 m (i + 4), c)
     else if len = 7 then Some (a + k32 m i, b + (k32 m (i + 4) AND 0xffffff), c)
     else if len = 6 then Some (a + k32 m i, b + (k32 m (i + 4) AND 0xffff), c)
     else if len = 5 then Some (a + k32 m i, b + (k32 m (i + 4) AND 0xff), c)
     else if len = 4 then Some (a + k32 m i, b, c)
     else if len = 3 then Some (a + (k32 m i AND 0xffffff), b, c)
     else if len = 2 then Some (a + (k32 m i AND 0xffff), b, c)
     else if len = 1 then Some (a + (k32 m i AND 0xff), b, c)
     else None)"

definition tail16 :: "(nat \<Rightarrow> byte) \<Rightarrow> nat \<Rightarrow> nat \<Rightarrow> abc \<Rightarrow> abc option" where
  "tail16 m len i s = (case s of (a, b, c) \<Rightarrow>
     let w = (\<lambda>j. k16 m (i + j) + push_bit 16 (k16 m (i + j + 2))) in
     if len = 12 then Some (a + w 0, b + w 4, c + w 8)
     else if len = 11 then Some (a + w 0, b + w 4, c + push_bit 16 (k8 m (i + 10)) + k16 m (i + 8))
     else if len = 10 then Some (a + w 0, b + w 4, c + k16 m (i + 8))
     else if len = 9 then Some (a + w 0, b + w 4, c + k8 m (i + 8))
     else if len = 8 then Some (a + w 0, b + w 4, c)
     else if len = 7 then Some (a + w 0, b + push_bit 16 (k8 m (i + 6)) + k16 m (i + 4), c)
     else if len = 6 then Some (a + w 0, b + k16 m (i + 4), c)
     else if len = 5 then Some (a + w 0, b + k8 m (i + 4), c)
     else if len = 4 then Some (a + w 0, b, c)
     else if len = 3 then Some (a + push_bit 16 (k8 m (i + 2)) + k16 m i, b, c)
     else if len = 2 then Some (a + k16 m i, b, c)
     else if len = 1 then Some (a + k8 m i, b, c)
     else None)"

text \<open>The byte-wise switch falls through: a case adds its byte and all below it.\<close>

definition tail8 :: "(nat \<Rightarrow> byte) \<Rightarrow> nat \<Rightarrow> nat \<Rightarrow> abc \<Rightarrow> abc option" where
  "tail8 m len i s =
     (if len = 0 \<or> 12 < len then None
      else
        (let (a, b, c) = s;
             c = (if 12 \<le> len then c + push_bit 24 (k8 m (i + 11)) else c);
             c = (if 11 \<le> len then c + push_bit 16 (k8 m (i + 10)) else c);
             c = (if 10 \<le> len then c + push_bit 8 (k8 m (i + 9)) else c);
             c = (if 9 \<le> len then c + k8 m (i + 8) else c);
             b = (if 8 \<le> len then b + push_bit 24 (k8 m (i + 7)) else b);
             b = (if 7 \<le> len then b + push_bit 16 (k8 m (i + 6)) else b);
             b = (if 6 \<le> len then b + push_bit 8 (k8 m (i + 5)) else b);
             b = (if 5 \<le> len then b + k8 m (i + 4) else b);
             a = (if 4 \<le> len then a + push_bit 24 (k8 m (i + 3)) else a);
             a = (if 3 \<le> len then a + push_bit 16 (k8 m (i + 2)) else a);
             a = (if 2 \<le> len then a + push_bit 8 (k8 m (i + 1)) else a);
             a = a + k8 m i in
         Some (a, b, c)))"

definition hash_jenkins :: "nat \<Rightarrow> (nat \<Rightarrow> byte) \<Rightarrow> nat \<Rightarrow> u32" where
  "hash_jenkins ptr m len =
     (let v = 0xdeadbeef + of_nat len + 13;
          (block, tail) = (if ptr mod 4 = 0 then (block32 m, tail32 m)
                           else if ptr mod 2 = 0 then (block16 m, tail16 m)
                           else (block8 m, tail8 m));
          (len, i, a, b, c) = jenkins_loop block len 0 (v, v, v) in
      case tail len i (a, b, c) of
        None \<Rightarrow> c
      | Some s \<Rightarrow> (case final s of (_, _, c) \<Rightarrow> c))"

subsection \<open>Murmur\<close>

definition murmur_word :: "u32 \<Rightarrow> u32 \<Rightarrow> u32" where
  "murmur_word h k =
     (let m = 0x5bd1e995; k = k * m; k = k XOR drop_bit 24 k; k = k * m; h = h * m in h XOR k)"

fun murmur_loop :: "(nat \<Rightarrow> byte) \<Rightarrow> nat \<Rightarrow> nat \<Rightarrow> u32 \<Rightarrow> nat \<times> nat \<times> u32" where
  "murmur_loop d len i h =
     (if 4 \<le> len then murmur_loop d (len - 4) (i + 4) (murmur_word h (k32 d i)) else (len, i, h))"

declare murmur_loop.simps [simp del]

definition hash_murmur :: "(nat \<Rightarrow> byte) \<Rightarrow> nat \<Rightarrow> u32" where
  "hash_murmur d n =
     (let m = 0x5bd1e995;
          h = (0xdeadbeef * of_nat n) XOR of_nat n;
          (len, i, h) = murmur_loop d n 0 h;
          h = (if len = 3 then h XOR push_bit 16 (ucast (d (i + 2))) else h);
          h = (if 2 \<le> len then h XOR push_bit 8 (ucast (d (i + 1))) else h);
          h = (if 1 \<le> len then (h XOR ucast (d i)) * m else h);
          h = h XOR drop_bit 13 h;
          h = h * m in
      h XOR drop_bit 15 h)"

subsection \<open>GFS\<close>

definition DM_DELTA :: u32 where
  "DM_DELTA = 0x9E3779B9"

definition pad_word :: "int \<Rightarrow> u32" where
  "pad_word len =
     (let pad = word_of_int len OR push_bit 8 (word_of_int len) in pad OR push_bit 16 pad)"

definition dm_cycle :: "u32 list \<Rightarrow> u32 \<times> u32 \<times> u32 \<Rightarrow> u32 \<times> u32 \<times> u32" where
  "dm_cycle arr s = (case s of (acc, b0, b1) \<Rightarrow>
     let acc = acc + DM_DELTA;
         b0 = b0 + ((push_bit 4 b1 + arr ! 0) XOR (b1 + acc) XOR (drop_bit 5 b1 + arr ! 1));
         b1 = b1 + ((push_bit 4 b0 + arr ! 2) XOR (b0 + acc) XOR (drop_bit 5 b0 + arr ! 3)) in
     (acc, b0, b1))"

text \<open>The \<^verbatim>\<open>do ... while (--n)\<close> loop runs \<open>rounds\<close> times; it is called with 6 and 10.\<close>

definition dm_round :: "nat \<Rightarrow> u32 list \<Rightarrow> u32 \<times> u32 \<Rightarrow> u32 \<times> u32" where
  "dm_round rounds arr h = (case h of (h0, h1) \<Rightarrow>
     case (dm_cycle arr ^^ rounds) (0, h0, h1) of (acc, b0, b1) \<Rightarrow> (h0 + b0, h1 + b1))"

definition read_word :: "byte list \<Rightarrow> int \<Rightarrow> fault + u32" where
  "read_word msg i =
     bindE (arr_get msg i) (\<lambda>a. bindE (arr_get msg (i + 1)) (\<lambda>b.
     bindE (arr_get msg (i + 2)) (\<lambda>c. bindE (arr_get msg (i + 3)) (\<lambda>d.
     Inr (ucast a OR push_bit 8 (ucast b) OR push_bit 16 (ucast c) OR push_bit 24 (ucast d))))))"

text \<open>The state of the loops: offset of \<^verbatim>\<open>intmsg\<close>, \<^verbatim>\<open>full_words\<close>, \<^verbatim>\<open>full_bytes\<close>.\<close>

type_synonym gfs_st = "int \<times> int \<times> int"

fun gfs_read4 :: "byte list \<Rightarrow> nat \<Rightarrow> gfs_st \<Rightarrow> fault + u32 list \<times> gfs_st" where
  "gfs_read4 msg 0 st = Inr ([], st)"
| "gfs_read4 msg (Suc n) (pos, words, bytes) =
     bindE (read_word msg pos) (\<lambda>w.
     bindE (gfs_read4 msg n (pos + 4, words - 1, bytes - 4)) (\<lambda>(ws, st).
     Inr (w # ws, st)))"

fun gfs_quads :: "byte list \<Rightarrow> nat \<Rightarrow> gfs_st \<Rightarrow> u32 \<times> u32 \<Rightarrow> fault + gfs_st \<times> u32 \<times> u32" where
  "gfs_quads msg 0 st h = Inr (st, h)"
| "gfs_quads msg (Suc n) st h =
     bindE (gfs_read4 msg 4 st) (\<lambda>(arr, st). gfs_quads msg n st (dm_round 6 arr h))"

text \<open>The loop over the bytes left ends at \<open>full_bytes = 0\<close>; a negative count would run on, which is
  the out-of-bounds read of the first step.\<close>

fun gfs_bytes :: "byte list \<Rightarrow> int \<Rightarrow> nat \<Rightarrow> u32 \<Rightarrow> fault + u32" where
  "gfs_bytes msg len 0 w = Inr w"
| "gfs_bytes msg len (Suc n) w =
     bindE (arr_get msg (len - int (Suc n))) (\<lambda>b.
     gfs_bytes msg len n (push_bit 8 w OR scast b))"

fun gfs_last :: "byte list \<Rightarrow> int \<Rightarrow> u32 \<Rightarrow> nat \<Rightarrow> gfs_st \<Rightarrow> fault + u32 list" where
  "gfs_last msg len pad 0 st = Inr []"
| "gfs_last msg len pad (Suc n) (pos, words, bytes) =
     (if words \<noteq> 0
      then bindE (read_word msg pos) (\<lambda>w.
           bindE (gfs_last msg len pad n (pos + 4, words - 1, bytes - 4)) (\<lambda>ws. Inr (w # ws)))
      else if bytes < 0 then Inl Out_of_bounds
      else bindE (gfs_bytes msg len (nat bytes) pad) (\<lambda>w.
           bindE (gfs_last msg len pad n (pos, words, 0)) (\<lambda>ws. Inr (w # ws))))"

definition hash_gfs :: "byte list \<Rightarrow> int \<Rightarrow> fault + u64" where
  "hash_gfs msg len =
     bindE (gfs_quads msg (nat (c_div len 16)) (0, c_div len 4, len) (0x9464a485, 0x542e1a94)) (\<lambda>(st, h).
     bindE (gfs_last msg len (pad_word len) 4 st) (\<lambda>arr.
     case dm_round 10 arr h of (h0, h1) \<Rightarrow> Inr (ucast (h0 XOR h1))))"

end
