(* ===== verification/Hash_Jump.thy ===== *)
theory Hash_Jump
  imports Complex_Main Ticketd_Prelude
begin

section \<open>Jump consistent hash (hashfn.c, dict.c)\<close>

text \<open>
  \<^verbatim>\<open>hash_jump_consistent\<close> of \<^verbatim>\<open>src/src/hashfn.c\<close> and its copy \<^verbatim>\<open>dict_jump_consistent\<close> of
  \<^verbatim>\<open>src/src/dict.c\<close>. The step \<^verbatim>\<open>(b + 1) * ((double)(1LL << 31) / (double)((key >> 33) + 1))\<close> is
  computed in \<^verbatim>\<open>double\<close>: the division and the product are each rounded to 53 significant bits,
  ties to even, and the conversion to \<^verbatim>\<open>int64_t\<close> truncates. \<open>fl\<close> is that rounding on positive
  rationals from 1 to below \<open>2^63\<close>, where all of these values lie.
\<close>

definition rne :: "rat \<Rightarrow> int" where
  "rne y = (let f = \<lfloor>y\<rfloor>; d = y - of_int f in
     if d < 1 / 2 then f else if 1 / 2 < d then f + 1 else if even f then f else f + 1)"

definition fl_exp :: "rat \<Rightarrow> nat" where
  "fl_exp x = (case find (\<lambda>k. x < 2 ^ (k + 1)) [0..<63] of Some k \<Rightarrow> k | None \<Rightarrow> 63)"

text \<open>\<open>fl_exp x\<close> is the binary exponent of \<open>x\<close>: the significand \<open>x * 2 ^ 52 / 2 ^ fl_exp x\<close> has 53 bits
  before the point.\<close>

definition fl :: "rat \<Rightarrow> rat" where
  "fl x = of_int (rne (x * 2 ^ 52 / 2 ^ fl_exp x)) * 2 ^ fl_exp x / 2 ^ 52"

definition jump_next :: "u64 \<Rightarrow> nat \<Rightarrow> nat" where
  "jump_next key b =
     nat \<lfloor>fl (of_nat (b + 1) * fl (2 ^ 31 / of_nat (unat (drop_bit 33 key) + 1)))\<rfloor>"

definition jump_key :: "u64 \<Rightarrow> u64" where
  "jump_key key = key * 2862933555777941757 + 1"

lemma rne_ge:
  assumes "of_int m \<le> y"
  shows "m \<le> rne y"
proof -
  have "m \<le> \<lfloor>y\<rfloor>" using assms by (simp add: le_floor_iff)
  then show ?thesis unfolding rne_def Let_def by (simp del: of_int_floor_le split: if_split)
qed

lemma fl_exp_le: "1 \<le> x \<Longrightarrow> 2 ^ fl_exp x \<le> x \<or> fl_exp x = 63 \<and> 2 ^ 63 \<le> x"
proof -
  assume x: "1 \<le> x"
  show ?thesis
  proof (cases "find (\<lambda>k. x < 2 ^ (k + 1)) [0..<63]")
    case None
    then have "\<forall>k \<in> set [0..<63]. \<not> x < 2 ^ (k + 1)" by (simp add: find_None_iff)
    from bspec[OF this, of 62] have "\<not> x < 2 ^ (62 + 1)" by simp
    with None show ?thesis by (simp add: fl_exp_def)
  next
    case (Some k)
    then obtain i where i: "i < 63" "[0..<63] ! i = k" "\<forall>j<i. \<not> x < 2 ^ ([0..<63] ! j + 1)"
      by (auto simp: find_Some_iff)
    then have k: "k = i" by simp
    have "2 ^ k \<le> x"
    proof (cases k)
      case 0
      with x show ?thesis by simp
    next
      case (Suc j)
      with i(3) k i(1) have "\<not> x < 2 ^ (j + 1)" by auto
      with Suc show ?thesis by simp
    qed
    with Some show ?thesis by (simp add: fl_exp_def)
  qed
qed

text \<open>Rounding does not go below a whole number of at most 52 bits.\<close>

lemma fl_ge:
  assumes n: "1 \<le> n" "n \<le> 2 ^ 52" and x: "of_nat n \<le> x"
  shows "of_nat n \<le> fl x"
proof -
  let ?e = "fl_exp x" and ?y = "x * 2 ^ 52 / 2 ^ fl_exp x"
  have x1: "1 \<le> x" using n(1) x by (metis le_trans of_nat_1 of_nat_mono order_trans)
  have e: "2 ^ ?e \<le> x" using fl_exp_le[OF x1] by auto
  show ?thesis
  proof (cases "?e \<le> 52")
    case True
    let ?m = "int n * 2 ^ (52 - ?e)"
    have p: "(2::rat) ^ 52 = 2 ^ (52 - ?e) * 2 ^ ?e" using True by (simp flip: power_add)
    have "of_int ?m \<le> ?y" using x by (subst p) (simp add: mult_right_mono)
    then have "?m \<le> rne ?y" by (rule rne_ge)
    then have "of_int ?m * 2 ^ ?e / 2 ^ 52 \<le> fl x"
      unfolding fl_def by (intro divide_right_mono mult_right_mono) (simp_all del: of_int_mult)
    moreover have "of_int ?m * 2 ^ ?e / 2 ^ 52 = (of_nat n :: rat)" by (subst p) simp
    ultimately show ?thesis by (simp only:)
  next
    case False
    have "of_int (2 ^ 52) \<le> ?y" using e by (simp add: le_divide_eq)
    then have "2 ^ 52 \<le> rne ?y" by (rule rne_ge)
    then have "of_int (2 ^ 52) * 2 ^ ?e / 2 ^ 52 \<le> fl x"
      unfolding fl_def by (intro divide_right_mono mult_right_mono) (simp_all del: of_int_power)
    then have fl: "2 ^ ?e \<le> fl x" by simp
    have "(of_nat n :: rat) \<le> 2 ^ ?e"
    proof -
      have "n \<le> 2 ^ ?e" using n(2) False power_increasing[of 52 ?e "2::nat"] by linarith
      then show ?thesis by (metis of_nat_le_iff of_nat_numeral of_nat_power)
    qed
    then show ?thesis using fl by (rule order_trans)
  qed
qed

text \<open>The next jump is ahead of the last bucket.\<close>

lemma jump_next_gt:
  assumes "b < 2 ^ 52"
  shows "b < jump_next key b"
proof -
  let ?k = "unat (drop_bit 33 key)"
  have "?k < 2 ^ 31"
  proof -
    have "?k = unat key div 2 ^ 33" by (subst unat_drop_bit_eq) (simp add: drop_bit_eq_div)
    moreover have "unat key < 2 ^ 64" using unsigned_less[of key] by simp
    ultimately show ?thesis by (simp add: less_mult_imp_div_less)
  qed
  then have "(of_nat (?k + 1) :: rat) \<le> of_nat (2 ^ 31)" by (intro of_nat_mono) simp
  moreover have "0 < (of_nat (?k + 1) :: rat)" by (simp only: of_nat_0_less_iff)
  ultimately have "of_nat 1 \<le> (2 ^ 31 / of_nat (?k + 1) :: rat)"
    by (simp only: pos_le_divide_eq) simp
  from fl_ge[OF _ _ this] have q: "(1 :: rat) \<le> fl (2 ^ 31 / of_nat (?k + 1))" by simp
  have "of_nat (b + 1) * 1 \<le> (of_nat (b + 1) * fl (2 ^ 31 / of_nat (?k + 1)) :: rat)"
    using q by (intro mult_left_mono) simp_all
  then have "of_nat (b + 1) \<le> fl (of_nat (b + 1) * fl (2 ^ 31 / of_nat (?k + 1)))"
    by (intro fl_ge) (use assms in simp_all)
  then have "int (b + 1) \<le> \<lfloor>fl (of_nat (b + 1) * fl (2 ^ 31 / of_nat (?k + 1)))\<rfloor>"
    by (simp only: le_floor_iff of_int_of_nat_eq)
  then show ?thesis by (simp add: jump_next_def)
qed

subsection \<open>The loop\<close>

lemma unat_u32: "unat (n :: u32) < 4294967296"
  using unsigned_less[where 'a = nat, of n] by simp

lemma unat_ucast_32_64: "unat (ucast (y :: u32) :: u64) = unat y"
  using unat_u32[of y] by (simp add: unsigned_ucast_eq take_bit_nat_eq_self)

lemma int_less_uint: "j < unat n \<longleftrightarrow> int j < uint n" for n :: u32
  by (metis of_nat_less_iff of_nat_unat)

function jump_loop :: "u32 \<Rightarrow> u64 \<Rightarrow> int \<Rightarrow> nat \<Rightarrow> int" where
  "jump_loop n key b j =
     (if j < unat n
      then (let key = jump_key key in jump_loop n key (int j) (jump_next key j))
      else b)"
  by auto
termination
proof (relation "measure (\<lambda>(n, key, b, j). unat n - j)", goal_cases)
  case (2 n key b j x)
  have "j < 2 ^ 52" using 2(1) unat_u32[of n] by simp
  from jump_next_gt[OF this] 2 show ?case by (simp add: diff_less_mono2)
qed simp

declare jump_loop.simps [simp del]

text \<open>\<^verbatim>\<open>value = (b < 0) ? (~b + 1) : b\<close>, as an unsigned 32-bit number.\<close>

definition jump_value :: "int \<Rightarrow> u32" where
  "jump_value b = word_of_int (if b < 0 then NOT b + 1 else b)"

definition hash_jump_consistent :: "u64 \<Rightarrow> int \<Rightarrow> u32" where
  "hash_jump_consistent key num_buckets =
     jump_value (if 0 < num_buckets then jump_loop (word_of_int num_buckets) key (-1) 0 else -1)"

definition dict_jump_consistent :: "u64 \<Rightarrow> u32 \<Rightarrow> u64" where
  "dict_jump_consistent key num_buckets = ucast (jump_value (jump_loop num_buckets key (-1) 0))"

lemma jump_step:
  assumes "j < unat (n :: u32)"
  shows "j < jump_next key j"
proof -
  have "j < 2 ^ 52" using assms unat_u32[of n] by simp
  then show ?thesis by (rule jump_next_gt)
qed

lemma jump_loop_range: "j < unat n \<Longrightarrow> 0 \<le> jump_loop n key b j \<and> jump_loop n key b j < uint n"
proof (induction n key b j rule: jump_loop.induct)
  case (1 n key b j)
  let ?j = "jump_next (jump_key key) j"
  have eq: "jump_loop n key b j = jump_loop n (jump_key key) (int j) ?j"
    using 1(2) by (subst jump_loop.simps) (simp add: Let_def)
  show ?case
  proof (cases "?j < unat n")
    case True
    then show ?thesis using 1(1)[OF 1(2) refl] eq by simp
  next
    case False
    then have "jump_loop n (jump_key key) (int j) ?j = int j" by (subst jump_loop.simps) simp
    with eq 1(2) show ?thesis by (simp add: int_less_uint)
  qed
qed

lemma jump_loop_grow:
  assumes "unat n' = unat n + 1"
  shows "jump_loop n' key b j = jump_loop n key b j \<or> jump_loop n' key b j = int (unat n)"
  using assms
proof (induction n key b j rule: jump_loop.induct)
  case (1 n key b j)
  note assms = 1(2)
  let ?k = "jump_key key"
  show ?case
  proof (cases "j < unat n")
    case True
    then have "jump_loop n key b j = jump_loop n ?k (int j) (jump_next ?k j)"
      "jump_loop n' key b j = jump_loop n' ?k (int j) (jump_next ?k j)"
      using assms by (subst jump_loop.simps, simp add: Let_def)+
    with 1(1)[OF True refl assms] show ?thesis by simp
  next
    case False
    then have n: "jump_loop n key b j = b" by (subst jump_loop.simps) simp
    show ?thesis
    proof (cases "j = unat n")
      case True
      then have j: "j < unat n'" using assms by simp
      from jump_step[OF j, of ?k] have "\<not> jump_next ?k j < unat n'" using True assms by simp
      then have "jump_loop n' ?k (int j) (jump_next ?k j) = int j" by (subst jump_loop.simps) simp
      moreover have "jump_loop n' key b j = jump_loop n' ?k (int j) (jump_next ?k j)"
        using j by (subst jump_loop.simps) (simp add: Let_def)
      ultimately show ?thesis using True by simp
    next
      case neq: False
      with False assms have "jump_loop n' key b j = b" by (subst jump_loop.simps) simp
      with n show ?thesis by simp
    qed
  qed
qed

lemma jump_value_nat: "0 \<le> b \<Longrightarrow> b < 2 ^ 32 \<Longrightarrow> unat (jump_value b) = nat b"
  by (simp add: jump_value_def unsigned_of_int take_bit_int_eq_self)

lemma unat_dict_jump:
  assumes "0 < n"
  shows "int (unat (dict_jump_consistent key n)) = jump_loop n key (-1) 0" "dict_jump_consistent key n < ucast n"
proof -
  have pos: "0 < unat n" using assms by (simp add: word_less_nat_alt)
  from jump_loop_range[OF pos, of key "-1"] have r: "0 \<le> jump_loop n key (-1) 0"
    "jump_loop n key (-1) 0 < uint n" by auto
  have "uint n < 2 ^ 32" using unsigned_less[where 'a = int, of n] by simp
  with r have b: "jump_loop n key (-1) 0 < 2 ^ 32" by linarith
  have u: "unat (dict_jump_consistent key n) = nat (jump_loop n key (-1) 0)"
    using jump_value_nat[OF r(1) b] b by (simp add: dict_jump_consistent_def unsigned_ucast_eq take_bit_nat_eq_self_iff)
  then show "int (unat (dict_jump_consistent key n)) = jump_loop n key (-1) 0" using r by simp
  show "dict_jump_consistent key n < ucast n"
    using u r unat_u32[of n]
    by (simp add: word_less_nat_alt unsigned_ucast_eq take_bit_nat_eq_self nat_less_iff)
qed

end
