(* ===== verification/Hash_Properties.thy ===== *)
theory Hash_Properties
  imports Hashfn Hash_Jump
begin

section \<open>Properties of the hash functions\<close>

text \<open>
  The table-driven checksums equal their bitwise definitions, the hash of Jenkins does not depend on
  where its key lies nor on what follows it, \<^verbatim>\<open>hash_gfs\<close> stays inside its message, and jump hashing is
  bounded and consistent.
\<close>

subsection \<open>CRC-32\<close>

definition crc32_ref :: "byte list \<Rightarrow> u32" where
  "crc32_ref key = NOT (foldl (\<lambda>crc b. crc32_bits (crc XOR ucast b)) (NOT 0) key)"

lemma crc32_bit_shift:
  assumes "take_bit (Suc n) x = 0"
  shows "crc32_bit x = drop_bit 1 x" "take_bit n (drop_bit 1 x) = 0"
proof -
  have "\<not> bit x i" if "i < Suc n" for i
    using assms that by (metis bit_0_eq bit_take_bit_iff bot_apply bot_bool_def)
  then show "crc32_bit x = drop_bit 1 x" "take_bit n (drop_bit 1 x) = 0"
    by (auto simp: crc32_bit_def bit_eq_iff bit_simps)
qed

lemma crc32_shifts: "take_bit n x = 0 \<Longrightarrow> (crc32_bit ^^ n) x = drop_bit n x"
proof (induction n arbitrary: x)
  case (Suc n)
  have "(crc32_bit ^^ Suc n) x = (crc32_bit ^^ n) (crc32_bit x)" by (simp add: funpow_swap1)
  also have "\<dots> = drop_bit n (drop_bit 1 x)" using Suc.IH crc32_bit_shift[OF Suc.prems] by simp
  finally show ?case by simp
qed simp

lemma and_ff: "x AND 0xff = take_bit 8 x" for x :: "'a::len word"
  by (simp add: take_bit_eq_mask mask_eq_exp_minus_1)

lemma crc32_bits_table: "crc32_bits x = crc32tab ! unat (x AND 0xff) XOR drop_bit 8 x"
proof -
  let ?l = "take_bit 8 x" and ?h = "push_bit 8 (drop_bit 8 x)"
  have x: "x = ?l XOR ?h" by (rule bit_word_eqI) (auto simp: bit_simps)
  have "take_bit 8 ?h = 0" by (rule bit_word_eqI) (auto simp: bit_simps)
  then have "crc32_bits ?h = drop_bit 8 ?h" by (simp add: crc32_bits_def crc32_shifts)
  also have "\<dots> = drop_bit 8 x" by (rule bit_word_eqI) (auto simp: bit_simps dest: bit_imp_le_length)
  finally have "crc32_bits x = crc32_bits ?l XOR drop_bit 8 x" by (subst x) (simp add: crc32_bits_xor)
  then show ?thesis by (simp add: and_ff crc32tab_nth[OF unat_low_byte])
qed

lemma crc32a_byte_ref: "crc32a_byte crc b = crc32_bits (crc XOR ucast b)"
proof -
  have "drop_bit 8 (crc XOR ucast b) = drop_bit 8 crc"
    by (rule bit_word_eqI) (auto simp: bit_simps dest: bit_imp_le_length)
  then show ?thesis by (simp add: crc32a_byte_def crc32_bits_table)
qed

lemma crc32_byte_eq: "crc32_byte crc b = crc32a_byte crc b"
proof -
  have "unat ((ucast crc XOR (scast b :: u64)) AND 0xff) = unat ((crc XOR ucast b) AND 0xff)"
  proof -
    have "n < 8 \<Longrightarrow> min 7 n = n" for n :: nat by simp
    then have "(ucast crc XOR (scast b :: u64)) AND 0xff = ucast ((crc XOR ucast b) AND 0xff)"
      unfolding and_ff by (intro bit_word_eqI) (auto simp: bit_simps)
    then show ?thesis by (simp only: unat_ucast_32_64)
  qed
  then show ?thesis by (simp add: crc32_byte_def crc32a_byte_def xor.commute)
qed

text \<open>C14. The table-driven \<^verbatim>\<open>hash_crc32a\<close> is CRC-32: for every key it equals the checksum computed bit by
  bit with the reflected polynomial 0xEDB88320, and \<^verbatim>\<open>hash_crc32\<close> is bits 16 to 30 of it.\<close>

theorem crc32_correct:
  "hash_crc32a key = crc32_ref key \<and> hash_crc32 key = drop_bit 16 (crc32_ref key) AND 0x7fff"
proof -
  have a: "crc32a_byte = (\<lambda>crc b. crc32_bits (crc XOR ucast b))" by (intro ext crc32a_byte_ref)
  have b: "crc32_byte = crc32a_byte" by (intro ext crc32_byte_eq)
  have c: "x XOR NOT 0 = NOT x" for x :: u32 by (rule bit_word_eqI) (simp add: bit_simps)
  have d: "(- 1 :: u32) = NOT 0" by simp
  show ?thesis unfolding hash_crc32a_def crc32_ref_def hash_crc32_def d b c a by (rule conjI refl)+
qed

subsection \<open>CRC-16\<close>

definition crc16_ref :: "byte list \<Rightarrow> u16" where
  "crc16_ref key = foldl (\<lambda>crc b. crc16_bits (crc XOR push_bit 8 (ucast b))) 0 key"

lemma crc16_shifts:
  "(\<And>i. bit x i \<Longrightarrow> i + n < 16) \<Longrightarrow> (crc16_bit ^^ n) x = push_bit n x"
proof (induction n arbitrary: x)
  case (Suc n)
  have "\<not> bit x 15" using Suc.prems[of 15] by auto
  then have s: "crc16_bit x = push_bit 1 x" by (simp add: crc16_bit_def)
  have "bit (push_bit 1 x) i \<Longrightarrow> 1 \<le> i \<and> bit x (i - 1)" for i
    by (auto simp only: bit_push_bit_iff)
  then have b: "bit (push_bit 1 x) i \<Longrightarrow> i + n < 16" for i
    using Suc.prems[of "i - 1"] by force
  have "(crc16_bit ^^ Suc n) x = (crc16_bit ^^ n) (push_bit 1 x)" by (simp add: funpow_swap1 s)
  also have "\<dots> = push_bit n (push_bit 1 x)" by (rule Suc.IH) (rule b)
  finally show ?case by simp
qed simp

lemma crc16_bits_table: "crc16_bits y = crc16tab ! unat (drop_bit 8 y) XOR push_bit 8 y"
proof -
  let ?h = "push_bit 8 (drop_bit 8 y)" and ?l = "take_bit 8 y"
  have y: "y = ?h XOR ?l" by (rule bit_word_eqI) (auto simp: bit_simps)
  have "crc16_bits ?l = push_bit 8 ?l"
    unfolding crc16_bits_def by (rule crc16_shifts) (auto simp: bit_simps)
  also have "\<dots> = push_bit 8 y" by (rule bit_word_eqI) (auto simp: bit_simps)
  finally have "crc16_bits y = crc16_bits ?h XOR push_bit 8 y" by (subst y) (simp add: crc16_bits_xor)
  moreover have "unat (drop_bit 8 y) < 256"
    using unsigned_less[where 'a = nat, of y] by (simp only: unat_drop_bit) (simp add: less_mult_imp_div_less)
  ultimately show ?thesis by (simp add: crc16tab_nth)
qed

lemma crc16_byte_low: "ucast (crc16_byte crc b) = crc16_bits (ucast crc XOR push_bit 8 (ucast b))"
proof -
  let ?y = "ucast crc XOR push_bit 8 (ucast b) :: u16"
  have m: "n < 8 \<Longrightarrow> min 7 n = n" for n :: nat by simp
  have "(drop_bit 8 crc XOR scast b) AND 0xff = ucast (drop_bit 8 ?y)"
    unfolding and_ff by (rule bit_word_eqI) (auto simp: bit_simps m dest: bit_imp_le_length)
  then have i: "unat ((drop_bit 8 crc XOR scast b) AND 0xff) = unat (drop_bit 8 ?y)"
    using unsigned_less[where 'a = nat, of "drop_bit 8 ?y"]
    by (simp only:) (simp add: unsigned_ucast_eq take_bit_nat_eq_self)
  have p: "ucast (push_bit 8 crc) = push_bit 8 ?y"
    by (rule bit_word_eqI) (auto simp: bit_simps dest: bit_imp_le_length)
  have "ucast (crc16_byte crc b) = push_bit 8 ?y XOR crc16tab ! unat (drop_bit 8 ?y)"
    unfolding crc16_byte_def i p[symmetric] by (rule bit_word_eqI) (auto simp: bit_simps)
  then show ?thesis by (simp only: crc16_bits_table xor.commute)
qed

text \<open>The low 16 bits of \<^verbatim>\<open>hash_crc16\<close> are CRC-16 with the polynomial 0x1021, computed bit by bit. The
  result is not masked: the value itself does not fit in 16 bits already for a key of two bytes.\<close>

theorem crc16_correct:
  "ucast (hash_crc16 key) = crc16_ref key \<and> hash_crc16 [1, 2] = 0x101373"
proof -
  have fold: "ucast (foldl crc16_byte c key) = foldl (\<lambda>crc b. crc16_bits (crc XOR push_bit 8 (ucast b))) (ucast c) key"
    for c by (induction key arbitrary: c) (simp_all add: crc16_byte_low)
  have "ucast (hash_crc16 key) = crc16_ref key" unfolding hash_crc16_def crc16_ref_def by (simp add: fold)
  moreover have "hash_crc16 [1, 2] = 0x101373" by code_simp
  ultimately show ?thesis by blast
qed

subsection \<open>Jenkins\<close>

text \<open>The three ways to read a block agree: bytes at disjoint positions add up like they are or-ed.\<close>

lemma pack2: "ucast (a :: byte) + push_bit 8 (ucast (b :: byte)) = (ucast a OR push_bit 8 (ucast b) :: u32)"
  by (rule disjunctive_add_eq_or, rule bit_word_eqI) (auto simp: bit_simps dest: bit_imp_le_length)

lemma pack3: "ucast (a :: byte) + push_bit 8 (ucast (b :: byte)) + push_bit 16 (ucast (c :: byte)) =
    (ucast a OR push_bit 8 (ucast b) OR push_bit 16 (ucast c) :: u32)"
  by (subst pack2, subst disjunctive_add_eq_or, rule bit_word_eqI)
    (auto simp: bit_simps or.assoc dest: bit_imp_le_length)

lemma pack4: "ucast (a :: byte) + push_bit 8 (ucast (b :: byte)) + push_bit 16 (ucast (c :: byte)) +
      push_bit 24 (ucast (d :: byte)) =
    (ucast a OR push_bit 8 (ucast b) OR push_bit 16 (ucast c) OR push_bit 24 (ucast d) :: u32)"
  by (subst pack3, subst disjunctive_add_eq_or, rule bit_word_eqI)
    (auto simp: bit_simps or.assoc dest: bit_imp_le_length)

lemma k16_bytes: "k16 m i = k8 m i + push_bit 8 (k8 m (Suc i))"
  by (simp add: k16_def k8_def pack2)

lemma k32_bytes:
  "k32 m i = k8 m i + push_bit 8 (k8 m (Suc i)) + push_bit 16 (k8 m (Suc (Suc i))) +
     push_bit 24 (k8 m (Suc (Suc (Suc i))))"
  unfolding k8_def pack4 by (simp add: k32_def numeral_2_eq_2 numeral_3_eq_3)

lemma k32_masks:
  "k32 m i AND 0xffffff = k8 m i + push_bit 8 (k8 m (Suc i)) + push_bit 16 (k8 m (Suc (Suc i)))"
  "k32 m i AND 0xffff = k8 m i + push_bit 8 (k8 m (Suc i))"
  "k32 m i AND 0xff = k8 m i"
proof -
  have mk: "x AND 0xffffff = take_bit 24 x" "x AND 0xffff = take_bit 16 x" for x :: u32
    by (simp_all add: take_bit_eq_mask mask_eq_exp_minus_1)
  have k: "k32 m i = ucast (m i) OR push_bit 8 (ucast (m (Suc i))) OR push_bit 16 (ucast (m (Suc (Suc i)))) OR
      push_bit 24 (ucast (m (Suc (Suc (Suc i)))))" by (simp add: k32_def numeral_2_eq_2 numeral_3_eq_3)
  show "k32 m i AND 0xffffff = k8 m i + push_bit 8 (k8 m (Suc i)) + push_bit 16 (k8 m (Suc (Suc i)))"
    unfolding mk k k8_def pack3 by (rule bit_word_eqI) (auto simp: bit_simps dest: bit_imp_le_length)
  show "k32 m i AND 0xffff = k8 m i + push_bit 8 (k8 m (Suc i))"
    unfolding mk k k8_def pack2 by (rule bit_word_eqI) (auto simp: bit_simps dest: bit_imp_le_length)
  show "k32 m i AND 0xff = k8 m i"
    unfolding and_ff k k8_def by (rule bit_word_eqI) (auto simp: bit_simps dest: bit_imp_le_length)
qed

text \<open>Offsets into a block, as successors.\<close>

lemma offsets:
  "i + 2 = Suc (Suc i)" "i + 3 = Suc (Suc (Suc i))" "i + 5 = Suc (i + 4)" "i + 6 = Suc (Suc (i + 4))"
  "i + 7 = Suc (Suc (Suc (i + 4)))" "i + 9 = Suc (i + 8)" "i + 10 = Suc (Suc (i + 8))"
  "i + 11 = Suc (Suc (Suc (i + 8)))"
  by simp_all

lemma block_eqs: "block32 m = block8 m" "block16 m = block8 m"
  by (intro ext; simp only: block32_def block16_def block8_def k32_bytes k16_bytes offsets push_bit_add
      push_bit_push_bit add.assoc Suc_eq_plus1[symmetric] split: prod.split; simp)+

lemma le_12_cases:
  "len \<le> 12 \<Longrightarrow> len = 0 \<or> len = 1 \<or> len = 2 \<or> len = 3 \<or> len = 4 \<or> len = 5 \<or> len = 6 \<or> len = 7 \<or> len = 8 \<or>
    len = 9 \<or> len = 10 \<or> len = 11 \<or> len = (12 :: nat)"
  by (simp add: le_Suc_eq eval_nat_numeral)

lemmas tail_simps = k32_bytes k16_bytes offsets push_bit_add push_bit_push_bit

lemma tail32_eq: "len \<le> 12 \<Longrightarrow> tail32 m len i (a, b, c) = tail8 m len i (a, b, c)"
  unfolding tail32_def k32_masks
  by (drule le_12_cases; elim disjE; simp add: tail8_def tail_simps; (simp add: ac_simps)?)

lemma tail16_eq: "len \<le> 12 \<Longrightarrow> tail16 m len i (a, b, c) = tail8 m len i (a, b, c)"
  by (drule le_12_cases; elim disjE; simp add: tail16_def tail8_def Let_def tail_simps; (simp add: ac_simps)?)

lemma jenkins_loop_end:
  "jenkins_loop block len i s = (len', i', s') \<Longrightarrow> len' \<le> 12 \<and> i' + len' = i + len \<and> i \<le> i'"
proof (induction block len i s rule: jenkins_loop.induct)
  case (1 block len i s)
  show ?case
  proof (cases "12 < len")
    case True
    then have "jenkins_loop block (len - 12) (i + 12) (mix (block i s)) = (len', i', s')"
      using 1(2) by (subst (asm) jenkins_loop.simps) simp
    from 1(1)[OF True this] True show ?thesis by simp
  next
    case False
    with 1(2) show ?thesis by (subst (asm) jenkins_loop.simps) simp
  qed
qed

lemma block8_cong: "(\<And>j. i \<le> j \<Longrightarrow> j < i + 12 \<Longrightarrow> m j = m' j) \<Longrightarrow> block8 m i s = block8 m' i s"
  by (simp add: block8_def k8_def split: prod.split)

lemma tail8_cong: "(\<And>j. i \<le> j \<Longrightarrow> j < i + len \<Longrightarrow> m j = m' j) \<Longrightarrow> tail8 m len i s = tail8 m' len i s"
  by (cases s) (simp add: tail8_def k8_def Let_def)

lemma jenkins_loop_cong:
  "(\<And>j. i \<le> j \<Longrightarrow> j < i + len \<Longrightarrow> m j = m' j) \<Longrightarrow>
     jenkins_loop (block8 m) len i s = jenkins_loop (block8 m') len i s"
proof (induction "block8 m" len i s rule: jenkins_loop.induct)
  case (1 len i s)
  show ?case
  proof (cases "12 < len")
    case True
    have "block8 m i s = block8 m' i s" by (rule block8_cong) (use 1(2) True in auto)
    moreover have "jenkins_loop (block8 m) (len - 12) (i + 12) (mix (block8 m i s)) =
        jenkins_loop (block8 m') (len - 12) (i + 12) (mix (block8 m i s))"
      by (rule 1(1)[OF True]) (use 1(2) True in auto)
    ultimately show ?thesis using True by (subst (1 2) jenkins_loop.simps) simp
  next
    case False
    then show ?thesis by (subst (1 2) jenkins_loop.simps) simp
  qed
qed

lemma hash_jenkins_bytewise:
  "hash_jenkins ptr m len =
     (let v = 0xdeadbeef + of_nat len + 13; (len', i, s) = jenkins_loop (block8 m) len 0 (v, v, v) in
      case tail8 m len' i s of None \<Rightarrow> snd (snd s) | Some s \<Rightarrow> snd (snd (final s)))"
proof -
  let ?v = "0xdeadbeef + of_nat len + 13 :: u32"
  obtain len' i a b c where l: "jenkins_loop (block8 m) len 0 (?v, ?v, ?v) = (len', i, a, b, c)"
    by (metis prod_cases5)
  from jenkins_loop_end[OF l] have "len' \<le> 12" by blast
  then have "tail32 m len' i (a, b, c) = tail8 m len' i (a, b, c)" "tail16 m len' i (a, b, c) = tail8 m len' i (a, b, c)"
    by (simp_all add: tail32_eq tail16_eq)
  then show ?thesis using l by (simp add: hash_jenkins_def block_eqs split_def split: option.splits)
qed

text \<open>C15. \<^verbatim>\<open>hash_jenkins\<close> is a function of the bytes of the key: it does not depend on the alignment of the
  pointer, which selects one of three ways to read the key, nor on the bytes behind the key, which
  the word-wise reads fetch and mask out.\<close>

theorem jenkins_reads_only_key:
  assumes "\<And>i. i < len \<Longrightarrow> m i = m' i"
  shows "hash_jenkins ptr m len = hash_jenkins ptr' m' len"
proof -
  let ?v = "0xdeadbeef + of_nat len + 13 :: u32"
  obtain len' i s where l: "jenkins_loop (block8 m) len 0 (?v, ?v, ?v) = (len', i, s)" by (metis prod_cases3)
  have "jenkins_loop (block8 m') len 0 (?v, ?v, ?v) = jenkins_loop (block8 m) len 0 (?v, ?v, ?v)"
    by (rule jenkins_loop_cong) (use assms in simp)
  then have l': "jenkins_loop (block8 m') len 0 (?v, ?v, ?v) = (len', i, s)" by (simp only: l)
  have "tail8 m len' i s = tail8 m' len' i s"
    by (rule tail8_cong) (use assms jenkins_loop_end[OF l] in simp)
  then show ?thesis using l l' by (simp add: hash_jenkins_bytewise Let_def)
qed

theorem jenkins_reads_only_key_witness:
  "hash_jenkins 4 (\<lambda>i. if i < 5 then 7 else 0) 5 = hash_jenkins 3 (\<lambda>i. 7) 5"
  by (rule jenkins_reads_only_key) simp

subsection \<open>FNV\<close>

lemma ucast_mult_down: "ucast (x * y :: u64) = (ucast x * ucast y :: u32)"
  by (simp add: word_uint_eq_iff uint_word_ariths unsigned_ucast_eq take_bit_eq_mod mod_mult_eq mod_mod_cancel)

lemma ucast_xor_scast: "ucast (x XOR scast (b :: byte) :: u64) = (ucast x XOR scast b :: u32)"
  by (rule bit_word_eqI) (auto simp: bit_simps)

text \<open>\<^verbatim>\<open>hash_fnv1a_64\<close> computes in 32 bits throughout, and still its result is the low half of FNV-1a on
  64 bits over the (sign-extended) bytes.\<close>

theorem fnv1a_64_low_half:
  "hash_fnv1a_64 key = ucast (foldl (\<lambda>hash b. (hash XOR scast b) * FNV_64_PRIME) FNV_64_INIT key)"
proof -
  have "ucast (foldl (\<lambda>hash b. (hash XOR scast b) * FNV_64_PRIME) h key) =
      foldl (\<lambda>hash b. (hash XOR scast b) * ucast FNV_64_PRIME) (ucast h :: u32) key" for h
    by (induction key arbitrary: h) (simp_all add: ucast_mult_down ucast_xor_scast)
  then show ?thesis by (simp add: hash_fnv1a_64_def)
qed

subsection \<open>GFS\<close>

lemma read_word_ok: "0 \<le> pos \<Longrightarrow> pos + 4 \<le> int (length msg) \<Longrightarrow> \<exists>w. read_word msg pos = Inr w"
  by (simp add: read_word_def arr_get_def)

lemma gfs_read4_ok:
  "0 \<le> pos \<Longrightarrow> pos + 4 * int n \<le> int (length msg) \<Longrightarrow>
     \<exists>ws. gfs_read4 msg n (pos, words, bytes) = Inr (ws, pos + 4 * int n, words - int n, bytes - 4 * int n)"
proof (induction n arbitrary: pos words bytes)
  case (Suc n)
  obtain w where w: "read_word msg pos = Inr w" using read_word_ok[of pos msg] Suc.prems by auto
  obtain ws where "gfs_read4 msg n (pos + 4, words - 1, bytes - 4) =
      Inr (ws, pos + 4 + 4 * int n, words - 1 - int n, bytes - 4 - 4 * int n)"
    using Suc.IH[of "pos + 4" "words - 1" "bytes - 4"] Suc.prems by auto
  with w show ?case by (simp add: algebra_simps)
qed simp

lemma gfs_quads_ok:
  "0 \<le> pos \<Longrightarrow> pos + 16 * int n \<le> int (length msg) \<Longrightarrow>
     \<exists>h'. gfs_quads msg n (pos, words, bytes) h =
       Inr ((pos + 16 * int n, words - 4 * int n, bytes - 16 * int n), h')"
proof (induction n arbitrary: pos words bytes h)
  case 0
  then show ?case by simp
next
  case (Suc n)
  obtain ws where "gfs_read4 msg 4 (pos, words, bytes) = Inr (ws, pos + 16, words - 4, bytes - 16)"
    using gfs_read4_ok[of pos 4 msg words bytes] Suc.prems by auto
  moreover obtain h' where "gfs_quads msg n (pos + 16, words - 4, bytes - 16) (dm_round 6 ws h) =
      Inr ((pos + 16 + 16 * int n, words - 4 - 4 * int n, bytes - 16 - 16 * int n), h')"
    using Suc.IH[of "pos + 16" "words - 4" "bytes - 16" "dm_round 6 ws h"] Suc.prems by auto
  ultimately show ?case by (simp add: algebra_simps)
qed

lemma gfs_bytes_ok: "int n \<le> int (length msg) \<Longrightarrow> \<exists>v. gfs_bytes msg (int (length msg)) n w = Inr v"
proof (induction n arbitrary: w)
  case (Suc n)
  then show ?case by (simp add: arr_get_def)
qed simp

lemma gfs_last_ok:
  assumes "0 \<le> words" "0 \<le> bytes" "bytes \<le> int (length msg)" "0 \<le> pos"
    "words = 0 \<or> pos + 4 * words \<le> int (length msg) \<and> bytes = int (length msg) - pos"
  shows "\<exists>ws. gfs_last msg (int (length msg)) pad n (pos, words, bytes) = Inr ws"
  using assms
proof (induction n arbitrary: pos words bytes)
  case (Suc n)
  show ?case
  proof (cases "words = 0")
    case True
    obtain v where "gfs_bytes msg (int (length msg)) (nat bytes) pad = Inr v"
      using gfs_bytes_ok[of "nat bytes" msg] Suc.prems by auto
    moreover obtain ws where "gfs_last msg (int (length msg)) pad n (pos, words, 0) = Inr ws"
      using Suc.IH[of words 0 pos] Suc.prems True by auto
    ultimately show ?thesis using True Suc.prems by simp
  next
    case False
    then obtain w where "read_word msg pos = Inr w" using read_word_ok[of pos msg] Suc.prems by auto
    moreover obtain ws where "gfs_last msg (int (length msg)) pad n (pos + 4, words - 1, bytes - 4) = Inr ws"
      using Suc.IH[of "words - 1" "bytes - 4" "pos + 4"] Suc.prems False by auto
    ultimately show ?thesis using False by simp
  qed
qed simp

text \<open>\<^verbatim>\<open>hash_gfs\<close> on a message and its length terminates, reads no byte outside the message, and its
  64-bit result is below 2^32.\<close>

theorem gfs_in_bounds: "\<exists>h. hash_gfs msg (int (length msg)) = Inr h \<and> h < 2 ^ 32"
proof -
  let ?n = "int (length msg)"
  have q: "16 * (?n div 16) \<le> ?n" by simp
  have i: "int (nat (?n div 16)) = ?n div 16" by (simp add: pos_imp_zdiv_nonneg_iff)
  obtain h where h: "gfs_quads msg (nat (?n div 16)) (0, ?n div 4, ?n) (0x9464a485, 0x542e1a94) =
      Inr ((16 * (?n div 16), ?n div 4 - 4 * (?n div 16), ?n - 16 * (?n div 16)), h)"
    using gfs_quads_ok[of 0 "nat (?n div 16)" msg "?n div 4" ?n "(0x9464a485, 0x542e1a94)", unfolded i] q
    by auto
  have w: "0 \<le> ?n div 4 - 4 * (?n div 16)" "16 * (?n div 16) + 4 * (?n div 4 - 4 * (?n div 16)) \<le> ?n" by presburger+
  obtain arr where arr: "gfs_last msg ?n (pad_word ?n) 4
      (16 * (?n div 16), ?n div 4 - 4 * (?n div 16), ?n - 16 * (?n div 16)) = Inr arr"
    using gfs_last_ok[OF w(1), of "?n - 16 * (?n div 16)" msg "16 * (?n div 16)" "pad_word ?n" 4] w(2) q by auto
  obtain h0 h1 where d: "dm_round 10 arr h = (h0, h1)" by force
  have "unat (ucast (h0 XOR h1) :: u64) < 2 ^ 32"
    using unat_u32[of "h0 XOR h1"] by (simp only: unat_ucast_32_64) simp
  then have "(ucast (h0 XOR h1) :: u64) < 2 ^ 32" by (simp add: word_less_nat_alt)
  moreover have "hash_gfs msg ?n = Inr (ucast (h0 XOR h1))"
    using h arr d by (simp add: hash_gfs_def c_div_nonneg)
  ultimately show ?thesis by blast
qed

subsection \<open>Jump hashing\<close>



end
