(* ===== verification/Dict.thy ===== *)
theory Dict
  imports Hashfn Hash_Jump
begin

section \<open>The hash table (dict.c)\<close>

text \<open>
  \<^verbatim>\<open>dict_t\<close> of \<^verbatim>\<open>src/src/dict.c\<close>: an array of buckets, each a linked list of pairs with the newest pair
  first (a list here), and the number of pairs of each bucket. A key is a C string: its bytes
  without the terminating 0. \<^verbatim>\<open>dict_find\<close> compares with \<^verbatim>\<open>strncmp\<close> over the length of the key it looks
  for, so it finds every stored key that starts with it. Where no stored or used key is a prefix
  of another, the table is a finite map (\<open>key_table\<close>). Allocation does not fail, and the atomic
  counters are plain additions.
\<close>

type_synonym key = "byte list"

record 'v dict =
  d_max_count :: u64
  d_count :: u32
  d_member_count :: "u32 list"
  d_members :: "(key \<times> 'v) list list"
  d_hash_fn :: "key \<Rightarrow> u32"

definition dict_default_hash_fn :: "key \<Rightarrow> u32" where
  "dict_default_hash_fn key =
     (if length key = 0 then 0
      else
        (let (i, hash) = hsieh_loop key (length key div 4) 0 0 in
         hsieh_avalanche (hsieh_tail key (length key mod 4) i hash)))"

definition dict_init :: "u32 \<Rightarrow> (key \<Rightarrow> u32) option \<Rightarrow> 'v dict" where
  "dict_init max_count hash_fn =
     \<lparr>d_max_count = ucast max_count, d_count = 0, d_member_count = replicate (unat max_count) 0,
      d_members = replicate (unat max_count) [],
      d_hash_fn = (case hash_fn of None \<Rightarrow> dict_default_hash_fn | Some f \<Rightarrow> f)\<rparr>"

definition dict_create :: "u32 \<Rightarrow> (key \<Rightarrow> u32) option \<Rightarrow> 'v dict" where
  "dict_create max_count hash_fn = dict_init max_count hash_fn"

text \<open>\<^verbatim>\<open>strncmp(s, t, n) == 0\<close> on strings that end with an implicit 0.\<close>

fun strncmp_eq :: "key \<Rightarrow> key \<Rightarrow> nat \<Rightarrow> bool" where
  "strncmp_eq s t 0 = True"
| "strncmp_eq [] [] (Suc n) = True"
| "strncmp_eq [] (b # t) (Suc n) = False"
| "strncmp_eq (a # s) [] (Suc n) = False"
| "strncmp_eq (a # s) (b # t) (Suc n) = (a = b \<and> strncmp_eq s t n)"

text \<open>The walk along a bucket: the pairs passed (the last of them is \<^verbatim>\<open>*prev\<close>) and, where found, the
  pair and the rest behind it.\<close>

fun bucket_find :: "(key \<times> 'v) list \<Rightarrow> key \<Rightarrow> (key \<times> 'v) list \<times> ((key \<times> 'v) \<times> (key \<times> 'v) list) option" where
  "bucket_find [] key = ([], None)"
| "bucket_find (p # ps) key =
     (if strncmp_eq (fst p) key (length key) then ([], Some (p, ps))
      else (case bucket_find ps key of (before, r) \<Rightarrow> (p # before, r)))"

definition dict_index :: "'v dict \<Rightarrow> key \<Rightarrow> nat" where
  "dict_index d key =
     unat (ucast (dict_jump_consistent (ucast (d_hash_fn d key)) (ucast (d_max_count d))) :: u32)"

definition dict_find ::
  "'v dict \<Rightarrow> key \<Rightarrow>
   fault + nat \<times> (key \<times> 'v) list \<times> ((key \<times> 'v) \<times> (key \<times> 'v) list) option" where
  "dict_find d key =
     (let index = dict_index d key in
      bindE (arr_get (d_member_count d) (int index)) (\<lambda>n.
      if 0 < n
      then bindE (arr_get (d_members d) (int index)) (\<lambda>chain.
           case bucket_find chain key of (before, r) \<Rightarrow> Inr (index, before, r))
      else Inr (index, [], None)))"

definition dict_put :: "'v dict \<Rightarrow> key \<Rightarrow> 'v \<Rightarrow> fault + bool \<times> 'v dict" where
  "dict_put d key val =
     bindE (dict_find d key) (\<lambda>(index, before, data).
     if data \<noteq> None then Inr (False, d)
     else
       bindE (arr_get (d_members d) (int index)) (\<lambda>chain.
       bindE (arr_get (d_member_count d) (int index)) (\<lambda>n.
       Inr (True, d\<lparr>d_members := (d_members d)[index := (key, val) # chain],
                    d_member_count := (d_member_count d)[index := n + 1],
                    d_count := d_count d + 1\<rparr>))))"

definition dict_get :: "'v dict \<Rightarrow> key \<Rightarrow> fault + 'v option" where
  "dict_get d key =
     bindE (dict_find d key) (\<lambda>(index, before, data).
     Inr (case data of None \<Rightarrow> None | Some (p, _) \<Rightarrow> Some (snd p)))"

text \<open>\<^verbatim>\<open>dict_del\<close> returns 0 and hands the value to \<^verbatim>\<open>fn\<close>, or returns -1.\<close>

definition dict_del :: "'v dict \<Rightarrow> key \<Rightarrow> fault + int \<times> 'v option \<times> 'v dict" where
  "dict_del d key =
     bindE (dict_find d key) (\<lambda>(index, before, data).
     case data of
       None \<Rightarrow> Inr (-1, None, d)
     | Some (p, rest) \<Rightarrow>
         bindE (arr_get (d_member_count d) (int index)) (\<lambda>n.
         Inr (0, Some (snd p),
              d\<lparr>d_members := (d_members d)[index := before @ rest],
                d_member_count := (d_member_count d)[index := n - 1],
                d_count := d_count d - 1\<rparr>)))"

text \<open>The pairs \<^verbatim>\<open>dict_dump\<close> shows to its callback, in order.\<close>

fun dump_buckets :: "u32 list \<Rightarrow> (key \<times> 'v) list list \<Rightarrow> (key \<times> 'v) list" where
  "dump_buckets (n # ns) (c # cs) = (if 0 < n then c else []) @ dump_buckets ns cs"
| "dump_buckets _ _ = []"

definition dict_dump :: "'v dict \<Rightarrow> (key \<times> 'v) list" where
  "dict_dump d = dump_buckets (d_member_count d) (d_members d)"

text \<open>\<^verbatim>\<open>dict_deinit\<close> frees the pairs bucket by bucket, handing the address of each value field to
  \<^verbatim>\<open>free_cb\<close>, and counts them off. It does not reset \<^verbatim>\<open>members\<close>: the chains that stay there are
  freed memory.\<close>

fun deinit_buckets :: "u32 list \<Rightarrow> (key \<times> 'v) list list \<Rightarrow> u32 \<Rightarrow> (key \<times> 'v) list \<times> u32 list \<times> u32" where
  "deinit_buckets (n # ns) (c # cs) count =
     (if 0 < n
      then (case deinit_buckets ns cs (count - of_nat (length c)) of (freed, ms, count) \<Rightarrow>
              (c @ freed, (n - of_nat (length c)) # ms, count))
      else (case deinit_buckets ns cs count of (freed, ms, count) \<Rightarrow> (freed, n # ms, count)))"
| "deinit_buckets ns _ count = ([], ns, count)"

definition dict_deinit :: "'v dict \<Rightarrow> (key \<times> 'v) list \<times> 'v dict" where
  "dict_deinit d =
     (case deinit_buckets (d_member_count d) (d_members d) (d_count d) of (freed, ms, count) \<Rightarrow>
        (freed, d\<lparr>d_member_count := ms, d_count := count\<rparr>))"

text \<open>\<^verbatim>\<open>dict_destroy\<close> also frees the table itself; on \<^verbatim>\<open>NULL\<close> it does nothing.\<close>

definition dict_destroy :: "'v dict option \<Rightarrow> (key \<times> 'v) list" where
  "dict_destroy d = (case d of None \<Rightarrow> [] | Some d \<Rightarrow> fst (dict_deinit d))"

subsection \<open>Well-formed tables\<close>

definition dict_wf :: "'v dict \<Rightarrow> bool" where
  "dict_wf d \<longleftrightarrow> 0 < d_max_count d \<and> d_max_count d < 2 ^ 32 \<and>
     length (d_members d) = unat (d_max_count d) \<and>
     length (d_member_count d) = unat (d_max_count d) \<and>
     (\<forall>i < length (d_members d). d_member_count d ! i = of_nat (length (d_members d ! i)) \<and>
        length (d_members d ! i) < 2 ^ 32 \<and>
        (\<forall>p \<in> set (d_members d ! i). dict_index d (fst p) = i)) \<and>
     d_count d = sum_list (d_member_count d)"

lemma strncmp_eq_prefix: "strncmp_eq s t (length t) \<longleftrightarrow> take (length t) s = t"
proof (induction t arbitrary: s)
  case (Cons b t)
  then show ?case by (cases s) auto
qed simp

lemma dict_index_less:
  assumes "dict_wf d"
  shows "dict_index d key < length (d_members d)"
proof -
  let ?n = "ucast (d_max_count d) :: u32"
  have m: "0 < d_max_count d" "d_max_count d < 2 ^ 32" "length (d_members d) = unat (d_max_count d)"
    using assms by (auto simp: dict_wf_def)
  have n: "unat ?n = unat (d_max_count d)"
    using m(2) by (simp add: unsigned_ucast_eq word_less_nat_alt take_bit_nat_eq_self)
  have pos: "0 < ?n" using m(1) n by (simp add: word_less_nat_alt)
  let ?j = "dict_jump_consistent (ucast (d_hash_fn d key)) ?n"
  have "?j < ucast ?n" by (rule unat_dict_jump(2)[OF pos])
  then have j: "unat ?j < unat ?n" by (simp only: word_less_nat_alt unat_ucast_32_64)
  then have "unat (ucast ?j :: u32) = unat ?j"
    using unat_u32[of ?n] by (simp add: unsigned_ucast_eq take_bit_nat_eq_self)
  then show ?thesis using n m(3) j by (simp only: dict_index_def)
qed

lemma dict_init_wf: "0 < n \<Longrightarrow> dict_wf (dict_init n f)"
  using unat_u32[of n]
  by (auto simp: dict_wf_def dict_init_def word_less_nat_alt unsigned_ucast_eq take_bit_nat_eq_self sum_list_replicate)

text \<open>On a well-formed table a lookup walks the bucket of the key.\<close>

lemma dict_find_wf:
  assumes wf: "dict_wf d"
  shows "dict_find d key = Inr (dict_index d key, bucket_find (d_members d ! dict_index d key) key)"
proof -
  let ?i = "dict_index d key" and ?c = "d_members d ! dict_index d key"
  have i: "?i < length (d_members d)" by (rule dict_index_less[OF wf])
  have l: "length (d_member_count d) = length (d_members d)" using wf by (simp add: dict_wf_def)
  have n: "d_member_count d ! ?i = of_nat (length ?c)" "length ?c < 2 ^ 32"
    using wf i by (auto simp: dict_wf_def)
  have "unat (of_nat (length ?c) :: u32) = length ?c" using n(2) by (simp add: unsigned_of_nat take_bit_nat_eq_self)
  then have "0 < d_member_count d ! ?i \<longleftrightarrow> ?c \<noteq> []" using n(1) by (simp add: word_less_nat_alt)
  then show ?thesis using i l by (cases ?c) (auto simp: dict_find_def arr_get_def split: prod.split)
qed

subsection \<open>The table as a map\<close>

definition prefix_free :: "key set \<Rightarrow> bool" where
  "prefix_free K \<longleftrightarrow> (\<forall>k \<in> K. \<forall>k' \<in> K. take (length k) k' = k \<longrightarrow> k' = k)"

definition dict_abs :: "'v dict \<Rightarrow> key \<Rightarrow> 'v option" where
  "dict_abs d key = map_of (d_members d ! dict_index d key) key"

definition dict_inv :: "key set \<Rightarrow> 'v dict \<Rightarrow> bool" where
  "dict_inv K d \<longleftrightarrow> dict_wf d \<and> prefix_free K \<and>
     (\<forall>c \<in> set (d_members d). distinct (map fst c) \<and> fst ` set c \<subseteq> K)"

definition dict_room :: "'v dict \<Rightarrow> bool" where
  "dict_room d \<longleftrightarrow> (\<forall>c \<in> set (d_members d). length c + 1 < 2 ^ 32)"

lemma bucket_find_map:
  assumes "prefix_free K" "fst ` set c \<subseteq> K" "key \<in> K"
  shows "case bucket_find c key of (before, r) \<Rightarrow>
    (case r of None \<Rightarrow> map_of c key = None \<and> before = c
     | Some (p, rest) \<Rightarrow> c = before @ p # rest \<and> fst p = key \<and> map_of c key = Some (snd p))"
  using assms(2)
proof (induction c)
  case (Cons p ps)
  have eq: "strncmp_eq (fst p) key (length key) \<longleftrightarrow> fst p = key"
    using assms(1,3) Cons.prems by (auto simp: strncmp_eq_prefix prefix_free_def)
  show ?case
  proof (cases "fst p = key")
    case True
    then show ?thesis by (cases p) (simp add: strncmp_eq_prefix)
  next
    case False
    obtain before r where b: "bucket_find ps key = (before, r)" by force
    have m: "map_of (p # ps) key = map_of ps key" using False by (cases p) auto
    have "bucket_find (p # ps) key = (p # before, r)" using eq False b by simp
    moreover have "fst ` set ps \<subseteq> K" using Cons.prems by auto
    ultimately show ?thesis using Cons.IH b m by (auto split: option.splits)
  qed
qed simp

lemma dict_inv_bucket:
  assumes "dict_inv K d"
  shows "fst ` set (d_members d ! dict_index d key) \<subseteq> K" "distinct (map fst (d_members d ! dict_index d key))"
    "dict_wf d" "prefix_free K"
  using assms nth_mem[OF dict_index_less[of d key]] by (auto simp: dict_inv_def)

lemma dict_find_cases:
  assumes inv: "dict_inv K d" and key: "key \<in> K"
  obtains (absent) before where "dict_abs d key = None" "dict_find d key = Inr (dict_index d key, before, None)"
    | (present) before v rest where "dict_abs d key = Some v"
        "dict_find d key = Inr (dict_index d key, before, Some ((key, v), rest))"
        "d_members d ! dict_index d key = before @ (key, v) # rest"
proof -
  note b = dict_inv_bucket(1,2)[OF inv, of key] dict_inv_bucket(3,4)[OF inv]
  obtain before r where f: "bucket_find (d_members d ! dict_index d key) key = (before, r)" by force
  note bf = bucket_find_map[OF b(4,1) key, unfolded f]
  have find: "dict_find d key = Inr (dict_index d key, before, r)" using dict_find_wf[OF b(3)] f by simp
  show thesis
  proof (cases r)
    case None
    with bf find show thesis by (intro absent[of before]) (auto simp: dict_abs_def)
  next
    case (Some pr)
    with bf find show thesis
      by (cases pr; cases "fst pr") (auto simp: dict_abs_def intro!: present)
  qed
qed

text \<open>Replacing one bucket.\<close>

lemma sum_list_list_update:
  "i < length xs \<Longrightarrow> sum_list (xs[i := x]) = sum_list xs - xs ! i + x" for x :: "'a::ab_group_add"
proof (induction xs arbitrary: i)
  case (Cons y ys)
  then show ?case by (cases i) (simp_all add: algebra_simps)
qed simp

lemma replace_bucket_inv:
  assumes inv: "dict_inv K d" and i: "i = dict_index d key"
    and c: "fst ` set c \<subseteq> K" "distinct (map fst c)" "length c < 2 ^ 32" "\<forall>p \<in> set c. dict_index d (fst p) = i"
    and d': "d' = d\<lparr>d_members := (d_members d)[i := c], d_member_count := (d_member_count d)[i := of_nat (length c)],
        d_count := n\<rparr>"
    and n: "n = d_count d - d_member_count d ! i + of_nat (length c)"
  shows "dict_inv K d'"
    "dict_abs d' j = (if dict_index d j = i then map_of c j else dict_abs d j)"
proof -
  have wf: "dict_wf d" using inv by (simp add: dict_inv_def)
  have il: "i < length (d_members d)" using dict_index_less[OF wf] i by simp
  have idx: "dict_index d' k = dict_index d k" for k by (simp add: dict_index_def d')
  have sum: "sum_list ((d_member_count d)[i := x]) = sum_list (d_member_count d) - d_member_count d ! i + x" for x
    using wf il by (intro sum_list_list_update) (simp add: dict_wf_def)
  have "dict_wf d'" using wf c il n sum idx
    unfolding dict_wf_def by (simp add: d' nth_list_update)
  moreover have "\<forall>b \<in> set (d_members d'). distinct (map fst b) \<and> fst ` set b \<subseteq> K"
  proof
    fix b
    assume "b \<in> set (d_members d')"
    then have "b = c \<or> b \<in> set (d_members d)"
      using set_update_subset_insert[of "d_members d" i c] by (auto simp: d')
    then show "distinct (map fst b) \<and> fst ` set b \<subseteq> K" using c inv by (metis dict_inv_def)
  qed
  ultimately show "dict_inv K d'" using inv by (simp add: dict_inv_def)
  show "dict_abs d' j = (if dict_index d j = i then map_of c j else dict_abs d j)"
    using il by (simp add: dict_abs_def idx) (simp add: d')
qed

subsection \<open>The interface of a table\<close>

locale key_table =
  fixes inv :: "'d \<Rightarrow> bool"
    and room :: "'d \<Rightarrow> bool"
    and keys :: "'k set"
    and abs :: "'d \<Rightarrow> 'k \<Rightarrow> 'v option"
    and get :: "'d \<Rightarrow> 'k \<Rightarrow> fault + 'v option"
    and put :: "'d \<Rightarrow> 'k \<Rightarrow> 'v \<Rightarrow> fault + bool \<times> 'd"
    and del :: "'d \<Rightarrow> 'k \<Rightarrow> fault + int \<times> 'v option \<times> 'd"
  assumes get: "inv d \<Longrightarrow> k \<in> keys \<Longrightarrow> get d k = Inr (abs d k)"
    and put: "inv d \<Longrightarrow> room d \<Longrightarrow> k \<in> keys \<Longrightarrow>
      \<exists>d'. put d k v = Inr (abs d k = None, d') \<and> inv d' \<and>
        (\<forall>j \<in> keys. abs d' j = (if j = k \<and> abs d k = None then Some v else abs d j))"
    and del: "inv d \<Longrightarrow> k \<in> keys \<Longrightarrow>
      \<exists>d'. del d k = Inr (if abs d k = None then -1 else 0, abs d k, d') \<and> inv d' \<and>
        (\<forall>j \<in> keys. abs d' j = (if j = k then None else abs d j))"
begin

lemma get_put:
  assumes "inv d" "room d" "k \<in> keys" "abs d k = None"
  shows "\<exists>d'. put d k v = Inr (True, d') \<and> inv d' \<and> get d' k = Inr (Some v) \<and>
    (\<forall>j \<in> keys. j \<noteq> k \<longrightarrow> get d' j = get d j)"
  using put[OF assms(1-3), of v] assms get by fastforce

lemma put_existing:
  assumes "inv d" "room d" "k \<in> keys" "abs d k \<noteq> None"
  shows "\<exists>d'. put d k v = Inr (False, d') \<and> inv d' \<and> (\<forall>j \<in> keys. get d' j = get d j)"
  using put[OF assms(1-3), of v] assms get by fastforce

lemma put_del:
  assumes "inv d" "room d" "k \<in> keys" "abs d k = None"
  shows "\<exists>d1 d2. put d k v = Inr (True, d1) \<and> del d1 k = Inr (0, Some v, d2) \<and> inv d2 \<and>
    (\<forall>j \<in> keys. get d2 j = get d j)"
proof -
  obtain d1 where d1: "put d k v = Inr (True, d1)" "inv d1"
    "\<forall>j \<in> keys. abs d1 j = (if j = k then Some v else abs d j)"
    using put[OF assms(1-3), of v] assms(4) by auto
  obtain d2 where d2: "del d1 k = Inr (0, Some v, d2)" "inv d2" "\<forall>j \<in> keys. abs d2 j = (if j = k then None else abs d1 j)"
    using del[OF d1(2) assms(3)] d1(3) assms(3) by auto
  have "get d2 j = get d j" if "j \<in> keys" for j
    using that d1(3) d2(3) get[OF assms(1) that] get[OF d2(2) that] assms(4) by auto
  with d1(1) d2(1,2) show ?thesis by blast
qed

end

lemma dict_get_map: "dict_inv K d \<Longrightarrow> k \<in> K \<Longrightarrow> dict_get d k = Inr (dict_abs d k)"
  by (erule (1) dict_find_cases) (auto simp: dict_get_def)

lemma bucket_same_index: "dict_wf d \<Longrightarrow> p \<in> set (d_members d ! dict_index d k) \<Longrightarrow> dict_index d (fst p) = dict_index d k"
  using dict_index_less[of d k] by (auto simp: dict_wf_def)

lemma bucket_count:
  "dict_wf d \<Longrightarrow> arr_get (d_member_count d) (int (dict_index d k)) =
     Inr (of_nat (length (d_members d ! dict_index d k)))"
  (is "?wf \<Longrightarrow> _")
proof -
  assume wf: ?wf
  then have l: "length (d_member_count d) = length (d_members d)" by (simp add: dict_wf_def)
  have i: "int (dict_index d k) < int (length (d_member_count d))"
    using dict_index_less[OF wf, of k] unfolding l by (simp only: of_nat_less_iff)
  have "d_member_count d ! dict_index d k = of_nat (length (d_members d ! dict_index d k))"
    using dict_index_less[OF wf, of k] wf by (simp add: dict_wf_def)
  then show ?thesis using arr_get_nat[OF _ i] by simp
qed

lemma dict_put_map:
  assumes inv: "dict_inv K d" and room: "dict_room d" and k: "k \<in> K"
  shows "\<exists>d'. dict_put d k v = Inr (dict_abs d k = None, d') \<and> dict_inv K d' \<and>
    (\<forall>j \<in> K. dict_abs d' j = (if j = k \<and> dict_abs d k = None then Some v else dict_abs d j))"
  using inv k
proof (cases rule: dict_find_cases)
  case (present before v' rest)
  then show ?thesis using inv by (auto simp: dict_put_def)
next
  case (absent before)
  let ?i = "dict_index d k" and ?c = "d_members d ! dict_index d k"
  have wf: "dict_wf d" using inv by (simp add: dict_inv_def)
  have il: "?i < length (d_members d)" by (rule dict_index_less[OF wf])
  note b = dict_inv_bucket(1,2)[OF inv, of k]
  have len: "length ?c + 1 < 2 ^ 32" using room il by (auto simp: dict_room_def)
  have mc: "d_member_count d ! ?i = of_nat (length ?c)" using wf il by (simp add: dict_wf_def)
  let ?d' = "d\<lparr>d_members := (d_members d)[?i := (k, v) # ?c],
      d_member_count := (d_member_count d)[?i := of_nat (length ((k, v) # ?c))], d_count := d_count d + 1\<rparr>"
  have "k \<notin> fst ` set ?c" using absent(1) by (simp add: dict_abs_def map_of_eq_None_iff)
  then have c: "fst ` set ((k, v) # ?c) \<subseteq> K" "distinct (map fst ((k, v) # ?c))" "length ((k, v) # ?c) < 2 ^ 32"
    "\<forall>p \<in> set ((k, v) # ?c). dict_index d (fst p) = ?i"
    using b k len bucket_same_index[OF wf] by auto
  have n: "d_count d + 1 = d_count d - d_member_count d ! ?i + of_nat (length ((k, v) # ?c))" by (simp add: mc)
  note r = replace_bucket_inv[OF inv refl c refl n]
  have "dict_put d k v = Inr (True, ?d')"
    using absent il bucket_count[OF wf, of k] by (simp add: dict_put_def arr_get_nat add.commute)
  moreover have "dict_abs ?d' j = (if j = k then Some v else dict_abs d j)" for j
    unfolding r(2) by (auto simp: dict_abs_def[of d])
  ultimately show ?thesis using r(1) absent(1) by auto
qed

lemma dict_del_map:
  assumes inv: "dict_inv K d" and k: "k \<in> K"
  shows "\<exists>d'. dict_del d k = Inr (if dict_abs d k = None then -1 else 0, dict_abs d k, d') \<and> dict_inv K d' \<and>
    (\<forall>j \<in> K. dict_abs d' j = (if j = k then None else dict_abs d j))"
  using inv k
proof (cases rule: dict_find_cases)
  case (absent before)
  then show ?thesis using inv by (auto simp: dict_del_def)
next
  case (present before v rest)
  let ?i = "dict_index d k" and ?c = "before @ rest"
  have wf: "dict_wf d" using inv by (simp add: dict_inv_def)
  have il: "?i < length (d_members d)" by (rule dict_index_less[OF wf])
  note b = dict_inv_bucket(1,2)[OF inv, of k, unfolded present(3)]
  have len: "length (before @ (k, v) # rest) < 2 ^ 32" using wf il present(3) by (auto simp: dict_wf_def)
  have mc: "d_member_count d ! ?i = of_nat (length ?c) + 1" using wf il present(3) by (simp add: dict_wf_def)
  let ?d' = "d\<lparr>d_members := (d_members d)[?i := ?c],
      d_member_count := (d_member_count d)[?i := of_nat (length ?c)], d_count := d_count d - 1\<rparr>"
  have c: "fst ` set ?c \<subseteq> K" "distinct (map fst ?c)" "length ?c < 2 ^ 32" "\<forall>p \<in> set ?c. dict_index d (fst p) = ?i"
    using b len bucket_same_index[OF wf, of _ k] present(3) by auto
  have n: "d_count d - 1 = d_count d - d_member_count d ! ?i + of_nat (length ?c)" by (simp add: mc)
  note r = replace_bucket_inv[OF inv refl c refl n]
  have "dict_del d k = Inr (0, Some v, ?d')"
    using present bucket_count[OF wf, of k] mc by (simp add: dict_del_def)
  moreover have "dict_abs ?d' j = (if j = k then None else dict_abs d j)" for j
  proof (cases "dict_index d j = ?i")
    case True
    have "k \<notin> set (map fst before)" "k \<notin> set (map fst rest)" using b(2) by simp_all
    then have "map_of (before @ rest) k = None" by (simp add: map_of_eq_None_iff image_Un)
    then show ?thesis using True present(3) unfolding r(2)
      by (cases "j = k") (simp_all add: dict_abs_def[of d] map_add_def split: option.split)
  next
    case False
    then show ?thesis unfolding r(2) by auto
  qed
  ultimately show ?thesis using r(1) present(1) by auto
qed

subsection \<open>Creation, the dump and the release of all pairs\<close>

lemma dict_init_inv: "0 < n \<Longrightarrow> prefix_free K \<Longrightarrow> dict_inv K (dict_init n f)"
  using dict_init_wf[of n f] by (auto simp: dict_inv_def) (auto simp: dict_init_def)

lemma dict_init_abs:
  assumes "0 < n"
  shows "dict_abs (dict_init n f) k = None"
proof -
  let ?d = "dict_init n f :: 'a dict"
  have "dict_index ?d k < length (d_members ?d)" by (rule dict_index_less[OF dict_init_wf[OF assms]])
  moreover have "d_members ?d = replicate (unat n) []" by (simp add: dict_init_def)
  ultimately show ?thesis by (simp add: dict_abs_def)
qed

text \<open>The counters of a well-formed table say which buckets are empty.\<close>

definition counts_match :: "u32 list \<Rightarrow> (key \<times> 'v) list list \<Rightarrow> bool" where
  "counts_match ns cs \<longleftrightarrow> list_all2 (\<lambda>n c. n = of_nat (length c) \<and> length c < 2 ^ 32) ns cs"

lemma dict_wf_counts: "dict_wf d \<Longrightarrow> counts_match (d_member_count d) (d_members d)"
  unfolding counts_match_def list_all2_conv_all_nth by (simp add: dict_wf_def)

lemma of_nat_pos_u32: "n < 2 ^ 32 \<Longrightarrow> 0 < (of_nat n :: u32) \<longleftrightarrow> 0 < n"
  by (simp add: word_less_nat_alt unsigned_of_nat take_bit_nat_eq_self)

lemma dump_buckets_all: "counts_match ns cs \<Longrightarrow> dump_buckets ns cs = concat cs"
  unfolding counts_match_def by (induction rule: list_all2_induct) (auto simp: of_nat_pos_u32)

lemma deinit_buckets_all:
  "counts_match ns cs \<Longrightarrow> deinit_buckets ns cs n =
     (concat cs, replicate (length cs) 0, n - of_nat (length (concat cs)))"
  unfolding counts_match_def
proof (induction arbitrary: n rule: list_all2_induct)
  case (Cons x xs y ys)
  then show ?case by (cases "y = []") (auto simp: of_nat_pos_u32)
qed simp

lemma counts_sum: "counts_match ns cs \<Longrightarrow> sum_list ns = of_nat (length (concat cs))"
  unfolding counts_match_def by (induction rule: list_all2_induct) auto

lemma dict_abs_pairs:
  assumes inv: "dict_inv K d"
  shows "(k, v) \<in> set (concat (d_members d)) \<longleftrightarrow> dict_abs d k = Some v"
proof -
  have wf: "dict_wf d" using inv by (simp add: dict_inv_def)
  let ?c = "d_members d ! dict_index d k"
  have il: "dict_index d k < length (d_members d)" by (rule dict_index_less[OF wf])
  have "(k, v) \<in> set (concat (d_members d)) \<longleftrightarrow> (k, v) \<in> set ?c"
  proof
    assume "(k, v) \<in> set (concat (d_members d))"
    then obtain i where i: "i < length (d_members d)" "(k, v) \<in> set (d_members d ! i)"
      by (auto simp: in_set_conv_nth[of _ "d_members d"])
    then have "dict_index d k = i" using wf by (force simp: dict_wf_def)
    with i show "(k, v) \<in> set ?c" by simp
  qed (use nth_mem[OF il] in auto)
  then show ?thesis using dict_inv_bucket(2)[OF inv, of k] by (simp add: dict_abs_def map_of_eq_Some_iff)
qed

interpretation dtable: key_table "dict_inv K" dict_room K dict_abs dict_get dict_put dict_del for K
  by unfold_locales (rule dict_get_map dict_put_map dict_del_map, assumption+)+

end
