(* ===== verification/Dict_Properties.thy ===== *)
theory Dict_Properties
  imports Dict
begin

section \<open>What the hash table promises\<close>

text \<open>
  The table as a map on keys none of which is a prefix of another, the dump and the release of all
  pairs, and what happens with keys that share a prefix.
\<close>

text \<open>C17. The table refines a finite map: on keys none of which is a prefix of another, and while no
  bucket counter is about to wrap, \<^verbatim>\<open>dict_get\<close> reads the map, \<^verbatim>\<open>dict_put\<close> adds an absent key, leaves
  a present one alone and says so, \<^verbatim>\<open>dict_del\<close> returns the value it removes or -1, and all three
  keep the invariant and every other key.\<close>

theorem dict_refines_map:
  assumes "dict_inv K d" "dict_room d" "k \<in> K"
  shows "dict_get d k = Inr (dict_abs d k) \<and>
    (\<exists>d'. dict_put d k v = Inr (dict_abs d k = None, d') \<and> dict_inv K d' \<and>
      (\<forall>j \<in> K. dict_abs d' j = (if j = k \<and> dict_abs d k = None then Some v else dict_abs d j))) \<and>
    (\<exists>d'. dict_del d k = Inr (if dict_abs d k = None then -1 else 0, dict_abs d k, d') \<and> dict_inv K d' \<and>
      (\<forall>j \<in> K. dict_abs d' j = (if j = k then None else dict_abs d j)))"
  by (intro conjI dtable.get[OF assms(1,3)] dtable.put[OF assms] dtable.del[OF assms(1,3)])

definition demo_keys :: "key set" where
  "demo_keys = {[97], [98, 99]}"

lemma demo_keys_prefix_free: "prefix_free demo_keys"
  by (simp add: prefix_free_def demo_keys_def)

definition demo_dict :: "nat dict" where
  "demo_dict = dict_init 16 None"

lemma demo_dict_inv: "dict_inv demo_keys demo_dict" "dict_room demo_dict" "dict_abs demo_dict k = None"
proof -
  have pos: "0 < (16 :: u32)" by simp
  show "dict_inv demo_keys demo_dict" "dict_abs demo_dict k = None"
    unfolding demo_dict_def by (rule dict_init_inv[OF pos demo_keys_prefix_free] dict_init_abs[OF pos])+
  show "dict_room demo_dict" by (auto simp: demo_dict_def dict_room_def dict_init_def)
qed

theorem dict_refines_map_witness:
  "dict_get demo_dict [97] = Inr None \<and>
   (\<exists>d'. dict_put demo_dict [97] 5 = Inr (True, d') \<and> dict_inv demo_keys d' \<and> dict_abs d' [97] = Some 5)"
proof -
  have k: "[97] \<in> demo_keys" by (simp add: demo_keys_def)
  note r = dict_refines_map[OF demo_dict_inv(1,2) k]
  show ?thesis using r[of 5] k by (auto simp: demo_dict_inv(3))
qed

text \<open>Insert, look up and delete round trip: after \<^verbatim>\<open>dict_put\<close> of an absent key, \<^verbatim>\<open>dict_get\<close>
  returns its value and every other key what it returned before; deleting the key hands back the
  value and makes every lookup what it was before the insertion.\<close>

theorem dict_put_get_del:
  assumes "dict_inv K d" "dict_room d" "k \<in> K" "dict_get d k = Inr None"
  shows "\<exists>d1 d2. dict_put d k v = Inr (True, d1) \<and> dict_get d1 k = Inr (Some v) \<and>
    (\<forall>j \<in> K. j \<noteq> k \<longrightarrow> dict_get d1 j = dict_get d j) \<and>
    dict_del d1 k = Inr (0, Some v, d2) \<and> (\<forall>j \<in> K. dict_get d2 j = dict_get d j)"
proof -
  have none: "dict_abs d k = None" using dict_get_map[OF assms(1,3)] assms(4) by simp
  from dtable.get_put[OF assms(1-3) none, of v] dtable.put_del[OF assms(1-3) none, of v]
  show ?thesis by auto
qed

theorem dict_put_get_del_witness:
  "\<exists>d1. dict_put demo_dict [98, 99] 7 = Inr (True, d1) \<and> dict_get d1 [98, 99] = Inr (Some 7)"
proof -
  have k: "[98, 99] \<in> demo_keys" by (simp add: demo_keys_def)
  have "dict_get demo_dict [98, 99] = Inr None"
    using dict_get_map[OF demo_dict_inv(1) k] by (simp add: demo_dict_inv(3))
  from dict_put_get_del[OF demo_dict_inv(1,2) k this, of 7] show ?thesis by blast
qed

text \<open>\<^verbatim>\<open>dict_dump\<close> shows exactly the pairs of the map, their number is the table's counter, and
  \<^verbatim>\<open>dict_deinit\<close> releases exactly these pairs and leaves all counters at 0.\<close>

theorem dict_dump_complete:
  assumes "dict_inv K d"
  shows "((k, v) \<in> set (dict_dump d) \<longleftrightarrow> dict_abs d k = Some v) \<and>
    of_nat (length (dict_dump d)) = d_count d \<and>
    fst (dict_deinit d) = dict_dump d \<and> d_count (snd (dict_deinit d)) = 0 \<and>
      set (d_member_count (snd (dict_deinit d))) \<subseteq> {0}"
proof -
  have wf: "dict_wf d" using assms by (simp add: dict_inv_def)
  note c = dict_wf_counts[OF wf]
  have dump: "dict_dump d = concat (d_members d)" by (simp add: dict_dump_def dump_buckets_all[OF c])
  have n: "d_count d = of_nat (length (concat (d_members d)))"
    using wf counts_sum[OF c] by (simp add: dict_wf_def)
  have "(k, v) \<in> set (dict_dump d) \<longleftrightarrow> dict_abs d k = Some v"
    unfolding dump by (rule dict_abs_pairs[OF assms])
  moreover have "of_nat (length (dict_dump d)) = d_count d" unfolding dump n ..
  moreover have "fst (dict_deinit d) = dict_dump d \<and> d_count (snd (dict_deinit d)) = 0 \<and>
      set (d_member_count (snd (dict_deinit d))) \<subseteq> {0}"
    unfolding dump by (simp add: dict_deinit_def deinit_buckets_all[OF c] n set_replicate_conv_if)
  ultimately show ?thesis by blast
qed

theorem dict_dump_complete_witness: "dict_dump demo_dict = [] \<and> d_count demo_dict = 0"
proof -
  have "dict_dump demo_dict = []"
    using dict_dump_complete[OF demo_dict_inv(1)] demo_dict_inv(3)
    by (metis list.set_intros(1) neq_Nil_conv option.distinct(1) surj_pair)
  then show ?thesis using dict_dump_complete[OF demo_dict_inv(1)] by simp
qed

text \<open>A lookup compares only as many bytes as the key it looks for has, so in a table with one
  bucket a key that was never inserted is found when a stored key starts with it: after inserting
  \<^verbatim>\<open>"ab"\<close>, \<^verbatim>\<open>dict_get\<close> of \<^verbatim>\<open>"a"\<close> returns the value of \<^verbatim>\<open>"ab"\<close>, \<^verbatim>\<open>dict_put\<close> of \<^verbatim>\<open>"a"\<close> is
  refused, and \<^verbatim>\<open>dict_del\<close> of \<^verbatim>\<open>"a"\<close> removes \<^verbatim>\<open>"ab"\<close>.\<close>

lemma one_bucket_index: "d_max_count d = 1 \<Longrightarrow> dict_index d k = 0"
proof -
  assume m: "d_max_count d = 1"
  have "dict_jump_consistent key (1 :: u32) < 1" for key
    using unat_dict_jump(2)[of "1 :: u32" key] by simp
  then show ?thesis by (simp add: dict_index_def m word_less_nat_alt unsigned_ucast_eq)
qed

theorem dict_prefix_match:
  "\<exists>d1. dict_put (dict_init 1 f) [97, 98] v = Inr (True, d1) \<and>
     dict_get d1 [97] = Inr (Some v) \<and> dict_put d1 [97] u = Inr (False, d1) \<and>
     (\<exists>d2. dict_del d1 [97] = Inr (0, Some v, d2) \<and> dict_get d2 [97, 98] = Inr None)"
proof -
  let ?d1 = "(dict_init 1 f)\<lparr>d_members := [[([97, 98], v)]], d_member_count := [1], d_count := 1\<rparr>"
  let ?d2 = "?d1\<lparr>d_members := [[]], d_member_count := [0], d_count := 0\<rparr>"
  have i: "dict_index (dict_init 1 f) k = 0" "dict_index ?d1 k = 0" "dict_index ?d2 k = 0"
    "dict_index ((dict_init 1 f)\<lparr>d_members := [[]], d_member_count := [0], d_count := 0\<rparr>) k = 0" for k
    by (rule one_bucket_index, simp add: dict_init_def)+
  note defs = dict_put_def dict_get_def dict_del_def dict_find_def i arr_get_def Let_def
  have "dict_put (dict_init 1 f) [97, 98] v = Inr (True, ?d1)"
    by (simp add: defs) (simp add: dict_init_def)
  moreover have "dict_get ?d1 [97] = Inr (Some v)" "dict_put ?d1 [97] u = Inr (False, ?d1)"
    "dict_del ?d1 [97] = Inr (0, Some v, ?d2)" "dict_get ?d2 [97, 98] = Inr None"
    by (simp_all add: defs)
  ultimately show ?thesis by blast
qed

end
