(* ===== verification/Kv_Db.thy ===== *)
theory Kv_Db
  imports Dict
begin

section \<open>The key-value wrapper (kv_db.c)\<close>

text \<open>
  \<^verbatim>\<open>src/src/kv_db.c\<close> wraps WiredTiger tables as schemas and keeps the schemas of a database in a
  hash table by name. WiredTiger is not part of the repository: its sessions and cursors are the
  parameter \<open>wt\<close>, a record of the calls the code makes, over a state \<open>'d\<close> of its own. Every cursor
  is opened with \<^verbatim>\<open>overwrite=false\<close>; \<open>wt_documented\<close> says what WiredTiger's manual promises for
  such a cursor: an insert stores a new key and refuses an existing one, a search returns the
  stored value. \<^verbatim>\<open>kv_db_fetch_top_index\<close> and \<^verbatim>\<open>kv_db_fetch_all\<close> use undeclared names and are
  left out. The directory of a database can be made and \<^verbatim>\<open>wiredtiger_open\<close> succeeds.
\<close>

record 'd wt =
  wt_open_session :: "'d \<Rightarrow> int \<times> 'd"
  wt_drop :: "key \<Rightarrow> 'd \<Rightarrow> int \<times> 'd"
  wt_create :: "key \<Rightarrow> 'd \<Rightarrow> int \<times> 'd"
  wt_open_cursor :: "key \<Rightarrow> 'd \<Rightarrow> int \<times> 'd"
  wt_insert :: "key \<Rightarrow> key \<Rightarrow> byte list \<Rightarrow> 'd \<Rightarrow> int \<times> 'd"
  wt_search :: "key \<Rightarrow> key \<Rightarrow> 'd \<Rightarrow> int \<times> byte list \<times> 'd"
  wt_remove :: "key \<Rightarrow> key \<Rightarrow> 'd \<Rightarrow> int \<times> 'd"
  wt_close :: "key \<Rightarrow> 'd \<Rightarrow> 'd"

text \<open>A schema: its name and the table its cursor is open on.\<close>

record kv_schema =
  ks_name :: key
  ks_table :: key

record kv_db =
  kd_name :: key
  kd_dir :: key
  kd_schema_ctx :: "kv_schema dict"

definition SCHEMA_LIMIT :: u32 where
  "SCHEMA_LIMIT = 1024"

text \<open>\<^verbatim>\<open>"table:"\<close>, and the table name as \<^verbatim>\<open>snprintf\<close> puts it in 256 bytes.\<close>

definition table_prefix :: key where
  "table_prefix = [116, 97, 98, 108, 101, 58]"

definition schema_uri :: "key \<Rightarrow> key" where
  "schema_uri name = take 255 (table_prefix @ name)"

definition wt_step :: "int \<times> 'd \<Rightarrow> fault + 'd" where
  "wt_step r = bindE (assertE (fst r \<noteq> -1)) (\<lambda>_. Inr (snd r))"

definition kv_schema_alloc :: "'d wt \<Rightarrow> key \<Rightarrow> bool \<Rightarrow> 'd \<Rightarrow> fault + kv_schema \<times> 'd" where
  "kv_schema_alloc wt schema_name is_force_drop d =
     (let uri = schema_uri schema_name in
      bindE (wt_step (wt_open_session wt d)) (\<lambda>d.
      bindE (if is_force_drop then wt_step (wt_drop wt uri d) else Inr d) (\<lambda>d.
      bindE (wt_step (wt_create wt uri d)) (\<lambda>d.
      bindE (wt_step (wt_open_cursor wt uri d)) (\<lambda>d.
      Inr (\<lparr>ks_name = schema_name, ks_table = uri\<rparr>, d))))))"

text \<open>\<^verbatim>\<open>kv_schema_destroy\<close> closes the cursor, then drops the table under the schema's bare name.\<close>

definition kv_schema_destroy :: "'d wt \<Rightarrow> kv_schema option \<Rightarrow> 'd \<Rightarrow> 'd" where
  "kv_schema_destroy wt schema d =
     (case schema of None \<Rightarrow> d
      | Some s \<Rightarrow> snd (wt_drop wt (ks_name s) (wt_close wt (ks_table s) d)))"

definition kv_db_alloc :: "key option \<Rightarrow> key option \<Rightarrow> kv_db option" where
  "kv_db_alloc database_name database_dir =
     (case (database_name, database_dir) of
        (Some n, Some p) \<Rightarrow>
          Some \<lparr>kd_name = n, kd_dir = p, kd_schema_ctx = dict_create SCHEMA_LIMIT (Some hash_fnv1_64)\<rparr>
      | _ \<Rightarrow> None)"

definition kv_db_set :: "'d wt \<Rightarrow> kv_schema \<Rightarrow> key \<Rightarrow> byte list \<Rightarrow> 'd \<Rightarrow> int \<times> 'd" where
  "kv_db_set wt schema k v d = wt_insert wt (ks_table schema) k v d"

definition kv_db_get :: "'d wt \<Rightarrow> kv_schema \<Rightarrow> key \<Rightarrow> 'd \<Rightarrow> byte list option \<times> 'd" where
  "kv_db_get wt schema k d =
     (case wt_search wt (ks_table schema) k d of
        (e, v, d) \<Rightarrow> if e \<noteq> 0 then (None, d) else (Some v, d))"

definition kv_db_fetch_schema :: "kv_db \<Rightarrow> key \<Rightarrow> fault + kv_schema option" where
  "kv_db_fetch_schema db schema_name = dict_get (kd_schema_ctx db) schema_name"

definition kv_db_del :: "'d wt \<Rightarrow> kv_db \<Rightarrow> key \<Rightarrow> key \<Rightarrow> 'd \<Rightarrow> fault + int \<times> 'd" where
  "kv_db_del wt db schema_name k d =
     bindE (dict_get (kd_schema_ctx db) schema_name) (\<lambda>schema.
     case schema of
       None \<Rightarrow> Inl Null_deref
     | Some s \<Rightarrow> Inr (wt_remove wt (ks_table s) k d))"

definition kv_db_register_schema :: "kv_db \<Rightarrow> kv_schema \<Rightarrow> fault + int \<times> kv_db" where
  "kv_db_register_schema db schema =
     bindE (dict_put (kd_schema_ctx db) (ks_name schema) schema) (\<lambda>(new, ctx).
     if new then Inr (0, db\<lparr>kd_schema_ctx := ctx\<rparr>) else Inr (-1, db\<lparr>kd_schema_ctx := ctx\<rparr>))"

definition kv_db_unregister_schema :: "kv_db \<Rightarrow> key \<Rightarrow> fault + kv_db" where
  "kv_db_unregister_schema db schema_name =
     bindE (dict_del (kd_schema_ctx db) schema_name) (\<lambda>(_, _, ctx).
     Inr (db\<lparr>kd_schema_ctx := ctx\<rparr>))"

subsection \<open>What WiredTiger documents\<close>

definition WT_DUPLICATE_KEY :: int where
  "WT_DUPLICATE_KEY = -31801"

definition wt_documented :: "'d wt \<Rightarrow> ('d \<Rightarrow> key \<Rightarrow> key \<rightharpoonup> byte list) \<Rightarrow> bool" where
  "wt_documented wt tab \<longleftrightarrow>
     (\<forall>d u k v. tab d u k = None \<longrightarrow> fst (wt_insert wt u k v d) = 0 \<and>
        tab (snd (wt_insert wt u k v d)) = (tab d)(u := (tab d u)(k \<mapsto> v))) \<and>
     (\<forall>d u k v. tab d u k \<noteq> None \<longrightarrow> fst (wt_insert wt u k v d) = WT_DUPLICATE_KEY \<and>
        tab (snd (wt_insert wt u k v d)) = tab d) \<and>
     (\<forall>d u k. (case wt_search wt u k d of (e, v, d') \<Rightarrow>
        tab d' = tab d \<and> (case tab d u k of None \<Rightarrow> e \<noteq> 0 | Some x \<Rightarrow> e = 0 \<and> v = x)))"

lemma kv_db_get_documented:
  assumes "wt_documented wt tab"
  shows "fst (kv_db_get wt s k d) = tab d (ks_table s) k" "tab (snd (kv_db_get wt s k d)) = tab d"
proof -
  obtain e v d' where r: "wt_search wt (ks_table s) k d = (e, v, d')" by (metis prod_cases3)
  have "case wt_search wt (ks_table s) k d of (e, v, d') \<Rightarrow>
        tab d' = tab d \<and> (case tab d (ks_table s) k of None \<Rightarrow> e \<noteq> 0 | Some x \<Rightarrow> e = 0 \<and> v = x)"
    using assms[unfolded wt_documented_def, THEN conjunct2, THEN conjunct2] by simp
  then show "fst (kv_db_get wt s k d) = tab d (ks_table s) k" "tab (snd (kv_db_get wt s k d)) = tab d"
    by (auto simp: kv_db_get_def r split: option.splits)
qed

lemma kv_db_set_documented:
  assumes "wt_documented wt tab"
  shows "tab (snd (kv_db_set wt s k v d)) =
      (if tab d (ks_table s) k = None then (tab d)(ks_table s := (tab d (ks_table s))(k \<mapsto> v)) else tab d)"
    "fst (kv_db_set wt s k v d) = (if tab d (ks_table s) k = None then 0 else WT_DUPLICATE_KEY)"
  using assms unfolding wt_documented_def kv_db_set_def by presburger+

text \<open>The documented behaviour can hold: tables as maps.\<close>

definition map_wt :: "(key \<Rightarrow> key \<rightharpoonup> byte list) wt" where
  "map_wt = \<lparr>wt_open_session = \<lambda>d. (0, d), wt_drop = \<lambda>u d. (0, d(u := Map.empty)), wt_create = \<lambda>u d. (0, d),
     wt_open_cursor = \<lambda>u d. (0, d),
     wt_insert = \<lambda>u k v d. (if d u k = None then (0, d(u := (d u)(k \<mapsto> v))) else (WT_DUPLICATE_KEY, d)),
     wt_search = \<lambda>u k d. (case d u k of None \<Rightarrow> (-31803, [], d) | Some v \<Rightarrow> (0, v, d)),
     wt_remove = \<lambda>u k d. (0, d(u := (d u)(k := None))), wt_close = \<lambda>u d. d\<rparr>"

lemma map_wt_documented: "wt_documented map_wt (\<lambda>d. d)"
  by (auto simp: wt_documented_def map_wt_def split: option.split)

end
