(* ===== verification/Lmdb_Store.thy ===== *)
theory Lmdb_Store
  imports Ticketd_Prelude "HOL-Library.List_Lexorder"
begin

section \<open>The LMDB store and its helpers (lmdb_helpers.c)\<close>

text \<open>
  The functions of \<^verbatim>\<open>src/src/lmdb_helpers.c\<close> over the part of the LMDB interface they use, as
  \<^verbatim>\<open>src/src/lmdb.h\<close> documents it: an environment is a list of databases, numbered by their \<^verbatim>\<open>MDB_dbi\<close>,
  and a database is a list of keys and values in the order of the keys' bytes (the databases are
  opened without \<^verbatim>\<open>MDB_INTEGERKEY\<close>, so this is the order of \<^verbatim>\<open>memcmp\<close>). A transaction works on a
  copy that a commit writes back; one begun with \<^verbatim>\<open>MDB_RDONLY\<close> refuses to write with \<^verbatim>\<open>EACCES\<close>.
  Whether a write finds the memory map full is a parameter \<open>full\<close> of the model. Beginning and
  committing a transaction succeed. \<^verbatim>\<open>mdb_fatal\<close> ends the process: the fault \<open>Fatal\<close>.

  Integers are stored as the four bytes of a little-endian \<^verbatim>\<open>int\<close>.
\<close>

subsection \<open>Integers as bytes\<close>

definition int_bytes :: "int \<Rightarrow> byte list" where
  "int_bytes i =
     (let w = word_of_int i :: u32 in
      [ucast w, ucast (drop_bit 8 w), ucast (drop_bit 16 w), ucast (drop_bit 24 w)])"

definition bytes_int :: "byte list \<Rightarrow> fault + int" where
  "bytes_int bs = (case bs of
     b0 # b1 # b2 # b3 # _ \<Rightarrow>
       Inr (sint (ucast b0 OR push_bit 8 (ucast b1) OR push_bit 16 (ucast b2) OR push_bit 24 (ucast b3) :: u32))
   | _ \<Rightarrow> Inl Out_of_bounds)"

definition c_int :: "int \<Rightarrow> bool" where
  "c_int i \<longleftrightarrow> - (2 ^ 31) \<le> i \<and> i < 2 ^ 31"

lemma length_int_bytes [simp]: "length (int_bytes i) = 4"
  by (simp add: int_bytes_def Let_def)

lemma word_from_bytes:
  "ucast (ucast w :: byte) OR push_bit 8 (ucast (ucast (drop_bit 8 w) :: byte)) OR
     push_bit 16 (ucast (ucast (drop_bit 16 w) :: byte)) OR
     push_bit 24 (ucast (ucast (drop_bit 24 w) :: byte)) = w" for w :: u32
proof (rule bit_word_eqI)
  fix n
  assume "n < LENGTH(32)"
  then have n: "n < 32" by simp
  consider "n < 8" | "8 \<le> n \<and> n < 16" | "16 \<le> n \<and> n < 24" | "24 \<le> n" by linarith
  then show "bit (ucast (ucast w :: byte) OR push_bit 8 (ucast (ucast (drop_bit 8 w) :: byte)) OR
     push_bit 16 (ucast (ucast (drop_bit 16 w) :: byte)) OR
     push_bit 24 (ucast (ucast (drop_bit 24 w) :: byte)) :: u32) n = bit w n"
    using n by cases (auto simp: bit_simps)
qed

lemma bytes_int_roundtrip: "c_int i \<Longrightarrow> bytes_int (int_bytes i @ bs) = Inr i"
  by (simp add: int_bytes_def bytes_int_def Let_def word_from_bytes c_int_def signed_of_int
      signed_take_bit_int_eq_self)

subsection \<open>Databases\<close>

type_synonym mdb_val = "byte list"
type_synonym mdb_db = "(mdb_val \<times> mdb_val) list"
type_synonym mdb_env = "mdb_db list"

record mdb_txn =
  txn_rdonly :: bool
  txn_dbs :: mdb_env

definition EACCES :: int where "EACCES = 13"
definition MDB_NOTFOUND :: int where "MDB_NOTFOUND = -30798"
definition MDB_MAP_FULL :: int where "MDB_MAP_FULL = -30792"
definition MDB_BAD_VALSIZE :: int where "MDB_BAD_VALSIZE = -30781"

fun db_put :: "mdb_val \<Rightarrow> mdb_val \<Rightarrow> mdb_db \<Rightarrow> mdb_db" where
  "db_put k v [] = [(k, v)]"
| "db_put k v ((k', v') # r) =
     (if k < k' then (k, v) # (k', v') # r
      else if k = k' then (k, v) # r
      else (k', v') # db_put k v r)"

definition db_del :: "mdb_val \<Rightarrow> mdb_db \<Rightarrow> mdb_db" where
  "db_del k db = filter (\<lambda>p. fst p \<noteq> k) db"

definition mdb_txn_begin :: "bool \<Rightarrow> mdb_env \<Rightarrow> mdb_txn" where
  "mdb_txn_begin rdonly env = \<lparr>txn_rdonly = rdonly, txn_dbs = env\<rparr>"

definition mdb_txn_commit :: "mdb_env \<Rightarrow> mdb_txn \<Rightarrow> mdb_env" where
  "mdb_txn_commit env txn = (if txn_rdonly txn then env else txn_dbs txn)"

definition mdb_get :: "mdb_txn \<Rightarrow> nat \<Rightarrow> mdb_val \<Rightarrow> mdb_val option" where
  "mdb_get txn dbi k = map_of (txn_dbs txn ! dbi) k"

definition mdb_put :: "(mdb_env \<Rightarrow> bool) \<Rightarrow> mdb_txn \<Rightarrow> nat \<Rightarrow> mdb_val \<Rightarrow> mdb_val \<Rightarrow> int \<times> mdb_txn" where
  "mdb_put full txn dbi k v =
     (if txn_rdonly txn then (EACCES, txn)
      else if k = [] \<or> 511 < length k then (MDB_BAD_VALSIZE, txn)
      else if full (txn_dbs txn) then (MDB_MAP_FULL, txn)
      else (0, txn\<lparr>txn_dbs := (txn_dbs txn)[dbi := db_put k v (txn_dbs txn ! dbi)]\<rparr>))"

definition mdb_del :: "mdb_txn \<Rightarrow> nat \<Rightarrow> mdb_val \<Rightarrow> int \<times> mdb_txn" where
  "mdb_del txn dbi k =
     (if txn_rdonly txn then (EACCES, txn)
      else if map_of (txn_dbs txn ! dbi) k = None then (MDB_NOTFOUND, txn)
      else (0, txn\<lparr>txn_dbs := (txn_dbs txn)[dbi := db_del k (txn_dbs txn ! dbi)]\<rparr>))"

text \<open>A database in key order is a map with distinct keys.\<close>

definition db_sorted :: "mdb_db \<Rightarrow> bool" where
  "db_sorted db \<longleftrightarrow> sorted_wrt (<) (map fst db)"

lemma db_put_keys: "fst ` set (db_put k v db) = insert k (fst ` set db)"
  by (induction k v db rule: db_put.induct) auto

lemma db_put_sorted: "db_sorted db \<Longrightarrow> db_sorted (db_put k v db)"
proof (induction k v db rule: db_put.induct)
  case (2 k v k' v' r)
  have keys: "x \<in> insert k (fst ` set r)" if "x \<in> fst ` set (db_put k v r)" for x
    using that by (simp add: db_put_keys)
  show ?case
  proof (cases "k' < k")
    case True
    then have "db_sorted (db_put k v r)" using 2 by (auto simp: db_sorted_def)
    moreover have "k' < x" if "x \<in> fst ` set (db_put k v r)" for x
      using keys[OF that] True 2(2) by (auto simp: db_sorted_def)
    ultimately show ?thesis using not_less_iff_gr_or_eq[of k k'] True
      by (simp add: db_sorted_def less_imp_neq[symmetric])
  next
    case False
    then show ?thesis using 2(2) by (auto simp: db_sorted_def dest: less_trans)
  qed
qed (simp add: db_sorted_def)

lemma db_put_map: "map_of (db_put k v db) j = (if j = k then Some v else map_of db j)"
  by (induction k v db rule: db_put.induct) auto

lemma db_del_map: "map_of (db_del k db) j = (if j = k then None else map_of db j)"
  unfolding db_del_def by (induction db) auto

lemma db_del_sorted: "db_sorted db \<Longrightarrow> db_sorted (db_del k db)"
  unfolding db_del_def db_sorted_def by (induction db) auto

subsection \<open>The helpers\<close>

definition mdb_gets :: "mdb_env \<Rightarrow> nat \<Rightarrow> byte list \<Rightarrow> mdb_val option" where
  "mdb_gets env dbi keystr = mdb_get (mdb_txn_begin False env) dbi keystr"

definition mdb_gets_int :: "mdb_env \<Rightarrow> nat \<Rightarrow> byte list \<Rightarrow> int \<Rightarrow> fault + int \<times> int" where
  "mdb_gets_int env dbi keystr out =
     (case mdb_gets env dbi keystr of
        Some v \<Rightarrow> bindE (bytes_int v) (\<lambda>i. Inr (0, i))
      | None \<Rightarrow> Inr (-1, out))"

definition mdb_puts_int ::
  "(mdb_env \<Rightarrow> bool) \<Rightarrow> mdb_txn \<Rightarrow> nat \<Rightarrow> byte list \<Rightarrow> int \<Rightarrow> fault + int \<times> mdb_txn" where
  "mdb_puts_int full txn dbi keystr inp =
     (case mdb_put full txn dbi keystr (int_bytes inp) of
        (e, txn) \<Rightarrow> if e = 0 then Inr (0, txn) else Inl (Fatal e))"

definition mdb_puts_int_commit ::
  "(mdb_env \<Rightarrow> bool) \<Rightarrow> mdb_env \<Rightarrow> nat \<Rightarrow> byte list \<Rightarrow> int \<Rightarrow> fault + int \<times> mdb_env" where
  "mdb_puts_int_commit full env dbi keystr inp =
     bindE (mdb_puts_int full (mdb_txn_begin False env) dbi keystr inp) (\<lambda>(_, txn).
     Inr (0, mdb_txn_commit env txn))"

text \<open>\<^verbatim>\<open>mdb_poll\<close> and \<^verbatim>\<open>mdb_pop\<close>: both begin their transaction with \<^verbatim>\<open>MDB_RDONLY\<close>.\<close>

definition mdb_poll :: "mdb_env \<Rightarrow> nat \<Rightarrow> fault + int \<times> mdb_env" where
  "mdb_poll env dbi =
     (let txn = mdb_txn_begin True env in
      case txn_dbs txn ! dbi of
        [] \<Rightarrow> Inr (0, env)
      | (k, v) # _ \<Rightarrow>
          (case mdb_del txn dbi k of (e, txn) \<Rightarrow>
             if e = 0 then Inr (0, mdb_txn_commit env txn) else Inl (Fatal e)))"

definition mdb_pop :: "mdb_env \<Rightarrow> nat \<Rightarrow> fault + int \<times> mdb_env" where
  "mdb_pop env dbi =
     (let txn = mdb_txn_begin True env in
      if txn_dbs txn ! dbi = [] then Inr (0, env)
      else
        (case mdb_del txn dbi (fst (last (txn_dbs txn ! dbi))) of (e, txn) \<Rightarrow>
           if e = 0 then Inr (0, mdb_txn_commit env txn) else Inl (Fatal e)))"

fun drop_loop :: "nat list \<Rightarrow> mdb_txn \<Rightarrow> mdb_txn" where
  "drop_loop [] txn = txn"
| "drop_loop (dbi # dbis) txn = drop_loop dbis (txn\<lparr>txn_dbs := (txn_dbs txn)[dbi := []]\<rparr>)"

definition mdb_drop_dbs :: "mdb_env \<Rightarrow> nat list \<Rightarrow> mdb_env" where
  "mdb_drop_dbs env dbis = mdb_txn_commit env (drop_loop dbis (mdb_txn_begin False env))"

subsection \<open>What the helpers do\<close>

lemma mdb_puts_gets_int:
  assumes "dbi < length env" "k \<noteq> []" "length k \<le> 511" "\<not> full env" "c_int i"
  shows "\<exists>env'. mdb_puts_int_commit full env dbi k i = Inr (0, env') \<and>
    mdb_gets_int env' dbi k d = Inr (0, i)"
  using assms bytes_int_roundtrip[of i "[]"]
  by (simp add: mdb_puts_int_commit_def mdb_puts_int_def mdb_put_def mdb_txn_begin_def mdb_txn_commit_def
      mdb_gets_int_def mdb_gets_def mdb_get_def db_put_map)

lemma mdb_pop_fatal: "env ! dbi \<noteq> [] \<Longrightarrow> mdb_pop env dbi = Inl (Fatal EACCES)"
  by (simp add: mdb_pop_def mdb_del_def mdb_txn_begin_def EACCES_def)

lemma mdb_poll_fatal: "env ! dbi \<noteq> [] \<Longrightarrow> mdb_poll env dbi = Inl (Fatal EACCES)"
  by (simp add: mdb_poll_def mdb_del_def mdb_txn_begin_def EACCES_def split: list.splits)

end
