(* ===== verification/Tpl.thy ===== *)
theory Tpl
  imports Lmdb_Store
begin

section \<open>The TPL serialiser (tpl.c): maps, packing, images\<close>

text \<open>
  The functions of \<^verbatim>\<open>src/src/tpl.c\<close> that the server calls: \<^verbatim>\<open>tpl_map\<close>, \<^verbatim>\<open>tpl_pack\<close> and \<^verbatim>\<open>tpl_unpack\<close> of the root,
  \<^verbatim>\<open>tpl_dump\<close> and \<^verbatim>\<open>tpl_load\<close> on memory, \<^verbatim>\<open>tpl_peek\<close> for the format. The application's memory is a list of
  objects with their addresses; an access outside every object is a fault, and \<^verbatim>\<open>malloc\<close> adds an object.
  The processor is little-endian. An image is the list of its bytes, and a pointer into it an
  offset; reading behind it is a fault.

  The variable arguments are pointers: no call of the program passes an \<^verbatim>\<open>int\<close> for a \<^verbatim>\<open>#\<close>. A format that
  makes \<^verbatim>\<open>tpl_map\<close> fetch an argument that was not passed is undefined behaviour, the fault
  \<open>Out_of_bounds\<close>. So no map has a \<^verbatim>\<open>#\<close>: \<^verbatim>\<open>num\<close> is 1, there are no \<^verbatim>\<open>fxlens\<close> and no node \<^verbatim>\<open>TPL_TYPE_POUND\<close>, and
  what \<^verbatim>\<open>tpl_map_va\<close> computes only for \<^verbatim>\<open>S(...)#\<close> (\<^verbatim>\<open>iter_start_node\<close>, \<^verbatim>\<open>struct_widest_node\<close>, \<^verbatim>\<open>inter_elt_len\<close>) is
  left out. Elements of an \<^verbatim>\<open>A(...)\<close> are never packed, so its backbone stays empty and its \<^verbatim>\<open>ser_osz\<close> 0.
\<close>

subsection \<open>Memory\<close>

type_synonym memory = "(nat \<times> byte list) list"

fun mem_read :: "memory \<Rightarrow> nat \<Rightarrow> nat \<Rightarrow> fault + byte list" where
  "mem_read [] a n = Inl Out_of_bounds"
| "mem_read ((b, bs) # m) a n =
     (if b \<le> a \<and> a + n \<le> b + length bs then Inr (take n (drop (a - b) bs)) else mem_read m a n)"

fun mem_write :: "nat \<Rightarrow> byte list \<Rightarrow> memory \<Rightarrow> fault + memory" where
  "mem_write a xs [] = Inl Out_of_bounds"
| "mem_write a xs ((b, bs) # m) =
     (if b \<le> a \<and> a + length xs \<le> b + length bs
      then Inr ((b, take (a - b) bs @ xs @ drop (a - b + length xs) bs) # m)
      else bindE (mem_write a xs m) (\<lambda>m. Inr ((b, bs) # m)))"

fun mem_str :: "memory \<Rightarrow> nat \<Rightarrow> fault + byte list" where
  "mem_str [] a = Inl Out_of_bounds"
| "mem_str ((b, bs) # m) a =
     (if b \<le> a \<and> a < b + length bs
      then
        (if 0 \<in> set (drop (a - b) bs) then Inr (takeWhile (\<lambda>c. c \<noteq> 0) (drop (a - b) bs)) else Inl Out_of_bounds)
      else mem_str m a)"

text \<open>\<^verbatim>\<open>malloc\<close> and the \<^verbatim>\<open>memcpy\<close> that fills the new object.\<close>

definition mem_alloc :: "byte list \<Rightarrow> memory \<Rightarrow> nat \<times> memory" where
  "mem_alloc bs m = (let a = foldr (\<lambda>(b, xs). max (b + length xs)) m 8 in (a, m @ [(a, bs)]))"

text \<open>Words and pointers, lowest byte first.\<close>

definition u32_bytes :: "u32 \<Rightarrow> byte list" where
  "u32_bytes w = int_bytes (uint w)"

definition bytes_u32 :: "byte list \<Rightarrow> fault + u32" where
  "bytes_u32 bs = bindE (bytes_int bs) (\<lambda>i. Inr (word_of_int i))"

definition ptr_bytes :: "nat \<Rightarrow> byte list" where
  "ptr_bytes a = (let w = of_nat a :: u64 in map (\<lambda>i. ucast (drop_bit (8 * i) w)) [0..<8])"

definition bytes_ptr :: "byte list \<Rightarrow> nat" where
  "bytes_ptr bs = unat (foldr (\<lambda>b w. ucast b OR push_bit 8 w) bs (0 :: u64))"

subsection \<open>Types, nodes and roots\<close>

definition fmt_char :: "char \<Rightarrow> byte" where
  "fmt_char c = of_char c"

datatype tpl_type =
    TPL_TYPE_INT32
  | TPL_TYPE_UINT32
  | TPL_TYPE_BYTE
  | TPL_TYPE_STR
  | TPL_TYPE_ARY
  | TPL_TYPE_BIN
  | TPL_TYPE_DOUBLE
  | TPL_TYPE_INT64
  | TPL_TYPE_UINT64
  | TPL_TYPE_INT16
  | TPL_TYPE_UINT16

fun tpl_sz :: "tpl_type \<Rightarrow> nat" where
  "tpl_sz TPL_TYPE_INT32 = 4"
| "tpl_sz TPL_TYPE_UINT32 = 4"
| "tpl_sz TPL_TYPE_BYTE = 1"
| "tpl_sz TPL_TYPE_STR = 8"
| "tpl_sz TPL_TYPE_ARY = 0"
| "tpl_sz TPL_TYPE_BIN = 0"
| "tpl_sz TPL_TYPE_DOUBLE = 8"
| "tpl_sz TPL_TYPE_INT64 = 8"
| "tpl_sz TPL_TYPE_UINT64 = 8"
| "tpl_sz TPL_TYPE_INT16 = 2"
| "tpl_sz TPL_TYPE_UINT16 = 2"

text \<open>What \<^verbatim>\<open>data\<close> of a node points at: a copy of the field, the packed string, the packed buffer (\<open>None\<close> is
  \<^verbatim>\<open>NULL\<close>), or the \<^verbatim>\<open>tpl_atyp\<close> of an array with its \<^verbatim>\<open>num\<close>, \<^verbatim>\<open>sz\<close> and \<^verbatim>\<open>cur\<close>. \<open>D_undef\<close> is fresh memory.\<close>

datatype tpl_data =
    D_undef
  | D_num "byte list"
  | D_str "byte list option"
  | D_bin "byte list option"
  | D_ary u32 nat "nat option"

datatype tpl_node = Tpl_Node (tn_type: tpl_type) (tn_addr: nat) (tn_data: tpl_data) (tn_children: "tpl_node list")

record tpl_root =
  tr_fmt :: "byte list"
  tr_children :: "tpl_node list"
  tr_ser_osz :: nat
  tr_wronly :: bool
  tr_rdonly :: bool
  tr_xendian :: bool
  tr_old_string :: bool
  tr_text :: "byte list"

subsection \<open>tpl_map\<close>

text \<open>The local variables of \<^verbatim>\<open>tpl_map_va\<close>. \<open>ms_open\<close> are the nodes from \<^verbatim>\<open>parent\<close> up to the root, each with the
  \<^verbatim>\<open>sz\<close> of its \<^verbatim>\<open>tpl_atyp\<close> (the root has none) and its children so far.\<close>

record map_state =
  ms_lparen_level :: int
  ms_expect_lparen :: bool
  ms_in_structure :: int
  ms_in_nested :: int
  ms_ordinal :: int
  ms_struct_addr :: nat
  ms_args :: "nat list"
  ms_open :: "(nat \<times> tpl_node list) list"

fun atom_type :: "byte \<Rightarrow> tpl_type option" where
  "atom_type c =
     (if c = fmt_char CHR ''c'' then Some TPL_TYPE_BYTE
      else if c = fmt_char CHR ''i'' then Some TPL_TYPE_INT32
      else if c = fmt_char CHR ''u'' then Some TPL_TYPE_UINT32
      else if c = fmt_char CHR ''j'' then Some TPL_TYPE_INT16
      else if c = fmt_char CHR ''v'' then Some TPL_TYPE_UINT16
      else if c = fmt_char CHR ''I'' then Some TPL_TYPE_INT64
      else if c = fmt_char CHR ''U'' then Some TPL_TYPE_UINT64
      else if c = fmt_char CHR ''f'' then Some TPL_TYPE_DOUBLE
      else if c = fmt_char CHR ''s'' then Some TPL_TYPE_STR
      else None)"

text \<open>The next field of the structure, behind the last child of \<^verbatim>\<open>parent\<close>, at a multiple of its size.\<close>

definition calc_field_addr :: "tpl_node list \<Rightarrow> tpl_type \<Rightarrow> nat \<Rightarrow> int \<Rightarrow> fault + nat" where
  "calc_field_addr children t struct_addr ordinal =
     (if ordinal = 1 then Inr struct_addr
      else if children = [] then Inl Null_deref
      else
        (let prev = last children; align_sz = tpl_sz t;
             offset = tn_addr prev - struct_addr + tpl_sz (tn_type prev);
             offset = (offset + align_sz - 1) div align_sz * align_sz
         in Inr (struct_addr + offset)))"

definition va_arg :: "map_state \<Rightarrow> fault + nat \<times> map_state" where
  "va_arg st = (case ms_args st of [] \<Rightarrow> Inl Out_of_bounds | a # as \<Rightarrow> Inr (a, st\<lparr>ms_args := as\<rparr>))"

fun add_child :: "nat \<Rightarrow> tpl_node \<Rightarrow> (nat \<times> tpl_node list) list \<Rightarrow> (nat \<times> tpl_node list) list" where
  "add_child sz n [] = []"
| "add_child sz n ((s, ns) # rest) = (s + sz, ns @ [n]) # rest"

definition parent_children :: "map_state \<Rightarrow> tpl_node list" where
  "parent_children st = (case ms_open st of [] \<Rightarrow> [] | (s, ns) # _ \<Rightarrow> ns)"

definition map_atom :: "tpl_type \<Rightarrow> map_state \<Rightarrow> fault + map_state option" where
  "map_atom t st =
     (if ms_expect_lparen st then Inr None
      else
        bindE (if ms_in_structure st \<noteq> 0
               then bindE (calc_field_addr (parent_children st) t (ms_struct_addr st) (ms_ordinal st)) (\<lambda>a.
                    Inr (a, st\<lparr>ms_ordinal := ms_ordinal st + 1\<rparr>))
               else va_arg st) (\<lambda>(a, st).
        Inr (Some (st\<lparr>ms_open := add_child (tpl_sz t)
          (Tpl_Node t a (if t = TPL_TYPE_STR then D_str None else D_undef) []) (ms_open st)\<rparr>))))"

text \<open>The parenthesis that ends an \<^verbatim>\<open>A(...)\<close>: \<^verbatim>\<open>parent\<close> becomes its parent.\<close>

fun close_array :: "(nat \<times> tpl_node list) list \<Rightarrow> (nat \<times> tpl_node list) list" where
  "close_array ((s, ns) # (s', ns') # rest) = (s', ns' @ [Tpl_Node TPL_TYPE_ARY 0 (D_ary 0 s None) ns]) # rest"
| "close_array st = st"

definition map_rparen :: "byte \<Rightarrow> map_state \<Rightarrow> fault + map_state option" where
  "map_rparen prev st =
     (let level = ms_lparen_level st - 1; st = st\<lparr>ms_lparen_level := level\<rparr> in
      if level < 0 then Inr None
      else if prev = fmt_char CHR ''('' then Inr None
      else if ms_in_nested st \<noteq> 0 then Inr (Some (st\<lparr>ms_in_nested := ms_in_nested st - 1\<rparr>))
      else if ms_in_structure st \<noteq> 0 \<and> ms_in_structure st - 1 = level
      then Inr (Some (st\<lparr>ms_in_structure := 0, ms_ordinal := ms_ordinal st + 1\<rparr>))
      else if length (ms_open st) \<le> 1 then Inl Null_deref
      else Inr (Some (st\<lparr>ms_open := close_array (ms_open st)\<rparr>)))"

text \<open>A \<^verbatim>\<open>#\<close> is refused at the start and behind an \<^verbatim>\<open>A(...)\<close> or a \<^verbatim>\<open>B\<close>; else its length is fetched, which no call passes.\<close>

definition map_pound :: "byte \<Rightarrow> map_state \<Rightarrow> fault + map_state option" where
  "map_pound prev st =
     (if parent_children st = [] then Inr None
      else if prev \<noteq> fmt_char CHR '')'' \<and> tn_type (last (parent_children st)) \<in> {TPL_TYPE_ARY, TPL_TYPE_BIN} then Inr None
      else Inl Out_of_bounds)"

definition map_char :: "byte \<Rightarrow> byte \<Rightarrow> map_state \<Rightarrow> fault + map_state option" where
  "map_char prev c st =
     (case atom_type c of
        Some t \<Rightarrow> map_atom t st
      | None \<Rightarrow>
          if c = fmt_char CHR ''#''
          then map_pound prev st
          else if c = fmt_char CHR ''B''
          then
            (if ms_expect_lparen st then Inr None
             else if ms_in_structure st \<noteq> 0 then Inr None
             else
               bindE (va_arg st) (\<lambda>(a, st).
               Inr (Some (st\<lparr>ms_open := add_child 16 (Tpl_Node TPL_TYPE_BIN a (D_bin None) []) (ms_open st)\<rparr>))))
          else if c = fmt_char CHR ''A''
          then
            (if ms_in_structure st \<noteq> 0 then Inr None
             else
               Inr (Some (st\<lparr>ms_expect_lparen := True,
                 ms_open := (0, []) # (case ms_open st of [] \<Rightarrow> [] | (s, ns) # rest \<Rightarrow> (s + 8, ns) # rest)\<rparr>)))
          else if c = fmt_char CHR ''S''
          then
            (if ms_in_structure st \<noteq> 0 then Inr None
             else
               bindE (va_arg (st\<lparr>ms_expect_lparen := True, ms_ordinal := 1, ms_in_structure := 1 + ms_lparen_level st\<rparr>)) (\<lambda>(a, st).
               Inr (Some (st\<lparr>ms_struct_addr := a\<rparr>))))
          else if c = fmt_char CHR ''$''
          then
            (if ms_in_structure st = 0 then Inr None
             else Inr (Some (st\<lparr>ms_expect_lparen := True, ms_in_nested := ms_in_nested st + 1\<rparr>)))
          else if c = fmt_char CHR '')'' then map_rparen prev st
          else if c = fmt_char CHR ''(''
          then
            (if \<not> ms_expect_lparen st then Inr None
             else Inr (Some (st\<lparr>ms_expect_lparen := False, ms_lparen_level := ms_lparen_level st + 1\<rparr>)))
          else Inr None)"

fun map_loop :: "byte \<Rightarrow> byte list \<Rightarrow> map_state \<Rightarrow> fault + map_state option" where
  "map_loop prev [] st = Inr (Some st)"
| "map_loop prev (c # cs) st =
     bindE (map_char prev c st) (\<lambda>r. case r of None \<Rightarrow> Inr None | Some st \<Rightarrow> map_loop c cs st)"

text \<open>At the end of the format nodes may still be open (\<^verbatim>\<open>"A"\<close> is accepted); they are children of their
  parents already.\<close>

fun close_all :: "(nat \<times> tpl_node list) list \<Rightarrow> tpl_node list" where
  "close_all [] = []"
| "close_all [(s, ns)] = ns"
| "close_all ((s, ns) # (s', ns') # rest) = close_all ((s', ns' @ [Tpl_Node TPL_TYPE_ARY 0 (D_ary 0 s None) ns]) # rest)"

definition map_start :: "nat list \<Rightarrow> map_state" where
  "map_start args =
     \<lparr>ms_lparen_level = 0, ms_expect_lparen = False, ms_in_structure = 0, ms_in_nested = 0, ms_ordinal = 0,
      ms_struct_addr = 0, ms_args = args, ms_open = [(0, [])]\<rparr>"

definition tpl_map_va :: "byte list \<Rightarrow> nat list \<Rightarrow> fault + tpl_root option" where
  "tpl_map_va fmt args =
     bindE (map_loop 0 fmt (map_start args)) (\<lambda>r.
     case r of
       None \<Rightarrow> Inr None
     | Some st \<Rightarrow>
         if ms_lparen_level st \<noteq> 0 then Inr None
         else Inr (Some \<lparr>tr_fmt = fmt, tr_children = close_all (ms_open st), tr_ser_osz = 4 + (length fmt + 1) + 4,
           tr_wronly = False, tr_rdonly = False, tr_xendian = False, tr_old_string = False, tr_text = []\<rparr>))"

text \<open>\<open>None\<close> is a null pointer.\<close>

definition tpl_map :: "byte list option \<Rightarrow> nat list \<Rightarrow> fault + tpl_root option" where
  "tpl_map fmt args = (case fmt of None \<Rightarrow> Inl Null_deref | Some fmt \<Rightarrow> tpl_map_va fmt args)"

end
