(* ===== verification/Tpl_Image.thy ===== *)
theory Tpl_Image
  imports Tpl
begin

section \<open>The TPL serialiser (tpl.c): packing, dumping, loading\<close>

text \<open>
  From the fields of the application to an image and back. An image starts with \<^verbatim>\<open>"tpl"\<close>, a flags byte,
  its length in four bytes, and the format with its 0; then the fields follow in the order of the
  format, strings and buffers behind a length. Error results of the code are the integers it returns.
\<close>

subsection \<open>tpl_pack\<close>

text \<open>\<^verbatim>\<open>tpl_free_keep_map\<close>: packed strings and buffers are dropped, arrays emptied, the flags reset. The walk goes
  to the children of an array without asking whether it has any (the format \<^verbatim>\<open>"A"\<close> has none).\<close>

fun free_node :: "tpl_node \<Rightarrow> fault + tpl_node"
and free_nodes :: "tpl_node list \<Rightarrow> fault + tpl_node list" where
  "free_node (Tpl_Node t a d ns) =
     (if t = TPL_TYPE_ARY
      then
        (if ns = [] then Inl Null_deref
         else
           bindE (free_nodes ns) (\<lambda>ns.
           Inr (Tpl_Node t a (case d of D_ary num sz cur \<Rightarrow> D_ary 0 sz None | _ \<Rightarrow> d) ns)))
      else Inr (Tpl_Node t a (case d of D_str _ \<Rightarrow> D_str None | D_bin _ \<Rightarrow> D_bin None | _ \<Rightarrow> d) ns))"
| "free_nodes [] = Inr []"
| "free_nodes (n # ns) = bindE (free_node n) (\<lambda>n. bindE (free_nodes ns) (\<lambda>ns. Inr (n # ns)))"

definition tpl_free_keep_map :: "tpl_root \<Rightarrow> fault + tpl_root" where
  "tpl_free_keep_map r =
     bindE (free_nodes (tr_children r)) (\<lambda>ns.
     Inr (r\<lparr>tr_children := ns, tr_wronly := False, tr_rdonly := False, tr_xendian := False, tr_old_string := False\<rparr>))"

text \<open>A \<^verbatim>\<open>tpl_bin\<close> is a pointer and a \<^verbatim>\<open>uint32_t\<close>.\<close>

definition pack_node :: "memory \<Rightarrow> tpl_node \<Rightarrow> fault + tpl_node" where
  "pack_node m n =
     (case n of Tpl_Node t a d ns \<Rightarrow>
      if t = TPL_TYPE_BIN
      then
        bindE (mem_read m (a + 8) 4) (\<lambda>s.
        bindE (bytes_u32 s) (\<lambda>slen.
        if 0 < slen
        then
          bindE (mem_read m a 8) (\<lambda>p.
          bindE (mem_read m (bytes_ptr p) (unat slen)) (\<lambda>bs.
          Inr (Tpl_Node t a (D_bin (Some bs)) ns)))
        else Inr (Tpl_Node t a (D_bin (Some [])) ns)))
      else if t = TPL_TYPE_STR
      then
        bindE (mem_read m a 8) (\<lambda>p.
        if bytes_ptr p = 0 then Inr (Tpl_Node t a (D_str None) ns)
        else bindE (mem_str m (bytes_ptr p)) (\<lambda>s. Inr (Tpl_Node t a (D_str (Some s)) ns)))
      else if t = TPL_TYPE_ARY then Inr n
      else bindE (mem_read m a (tpl_sz t)) (\<lambda>bs. Inr (Tpl_Node t a (D_num bs) ns)))"

text \<open>A loop over the nodes that rebuilds them.\<close>

fun mapE :: "('a \<Rightarrow> fault + 'b) \<Rightarrow> 'a list \<Rightarrow> fault + 'b list" where
  "mapE f [] = Inr []"
| "mapE f (x # xs) = bindE (f x) (\<lambda>y. bindE (mapE f xs) (\<lambda>ys. Inr (y # ys)))"

definition tpl_pack :: "memory \<Rightarrow> tpl_root \<Rightarrow> fault + tpl_root" where
  "tpl_pack m r =
     bindE (if tr_rdonly r then tpl_free_keep_map r else Inr r) (\<lambda>r.
     bindE (mapE (pack_node m) (tr_children r)) (\<lambda>ns. Inr (r\<lparr>tr_wronly := True, tr_children := ns\<rparr>)))"

subsection \<open>tpl_dump\<close>

definition node_osz :: "tpl_node \<Rightarrow> fault + nat" where
  "node_osz n =
     (if tn_type n = TPL_TYPE_BIN
      then (case tn_data n of D_bin (Some bs) \<Rightarrow> Inr (4 + length bs) | _ \<Rightarrow> Inl Null_deref)
      else if tn_type n = TPL_TYPE_STR
      then (case tn_data n of D_str (Some s) \<Rightarrow> Inr (4 + length s) | _ \<Rightarrow> Inr 4)
      else if tn_type n = TPL_TYPE_ARY then Inr 4
      else Inr (tpl_sz (tn_type n)))"

definition tpl_ser_osz :: "tpl_root \<Rightarrow> fault + nat" where
  "tpl_ser_osz r = foldE (\<lambda>n sz. bindE (node_osz n) (\<lambda>k. Inr (sz + k))) (tr_children r) (tr_ser_osz r)"

text \<open>The bytes of one node; a field that was never packed is uninitialised.\<close>

definition dump_node :: "tpl_node \<Rightarrow> fault + byte list" where
  "dump_node n =
     (case tn_data n of
        D_undef \<Rightarrow> Inl Dangling_deref
      | D_num bs \<Rightarrow> Inr bs
      | D_bin None \<Rightarrow> Inl Null_deref
      | D_bin (Some bs) \<Rightarrow> Inr (u32_bytes (of_nat (length bs)) @ bs)
      | D_str None \<Rightarrow> Inr (u32_bytes 0)
      | D_str (Some s) \<Rightarrow> Inr (u32_bytes (of_nat (length s + 1)) @ s)
      | D_ary num sz cur \<Rightarrow> Inr (u32_bytes num))"

definition TPL_MAGIC :: "byte list" where
  "TPL_MAGIC = map fmt_char ''tpl''"

definition TPL_FL_BIGENDIAN :: byte where "TPL_FL_BIGENDIAN = 1"

definition TPL_FL_NULLSTRINGS :: byte where "TPL_FL_NULLSTRINGS = 2"

definition tpl_dump_to_mem :: "tpl_root \<Rightarrow> nat \<Rightarrow> fault + byte list" where
  "tpl_dump_to_mem r sz =
     bindE (mapE dump_node (tr_children r)) (\<lambda>fields.
     Inr (TPL_MAGIC @ [if fmt_char CHR ''s'' \<in> set (tr_fmt r) then TPL_FL_NULLSTRINGS else 0] @
       u32_bytes (of_nat sz) @ tr_fmt r @ [0] @ concat fields))"

text \<open>The modes \<^verbatim>\<open>TPL_GETSIZE\<close>, and \<^verbatim>\<open>TPL_MEM | TPL_PREALLOCD\<close> with a buffer of \<open>pa_sz\<close> bytes: the result and what
  is written.\<close>

definition tpl_dump_getsize :: "tpl_root \<Rightarrow> fault + int \<times> nat option" where
  "tpl_dump_getsize r =
     (if tr_rdonly r then Inr (-1, None) else bindE (tpl_ser_osz r) (\<lambda>sz. Inr (0, Some sz)))"

definition tpl_dump_prealloc :: "nat \<Rightarrow> tpl_root \<Rightarrow> fault + int \<times> byte list" where
  "tpl_dump_prealloc pa_sz r =
     (if tr_rdonly r then Inr (-1, [])
      else
        bindE (tpl_ser_osz r) (\<lambda>sz.
        if pa_sz < sz then Inr (-1, [])
        else bindE (tpl_dump_to_mem r sz) (\<lambda>bs. Inr (0, bs))))"

subsection \<open>Looking at an image\<close>

definition img_get :: "byte list \<Rightarrow> nat \<Rightarrow> nat \<Rightarrow> fault + byte list" where
  "img_get img p n = (if p + n \<le> length img then Inr (take n (drop p img)) else Inl Out_of_bounds)"

definition tpl_needs_endian_swap :: "byte list \<Rightarrow> fault + bool" where
  "tpl_needs_endian_swap img = bindE (img_get img 3 1) (\<lambda>b. Inr (hd b AND TPL_FL_BIGENDIAN \<noteq> 0))"

definition tpl_byteswap :: "bool \<Rightarrow> byte list \<Rightarrow> byte list" where
  "tpl_byteswap xendian bs = (if xendian then rev bs else bs)"

definition img_u32 :: "bool \<Rightarrow> byte list \<Rightarrow> nat \<Rightarrow> fault + u32" where
  "img_u32 xendian img p = bindE (img_get img p 4) (\<lambda>bs. bytes_u32 (tpl_byteswap xendian bs))"

text \<open>\<^verbatim>\<open>tpl_peek\<close> in the mode \<^verbatim>\<open>TPL_MEM\<close>: the format, or \<open>None\<close> for \<^verbatim>\<open>NULL\<close>. Its check that the lengths of the \<^verbatim>\<open>#\<close> fit
  jumps to the end with the format already copied, so it has no effect.\<close>

definition tpl_peek :: "byte list \<Rightarrow> fault + byte list option" where
  "tpl_peek img =
     (if length img < 9 then Inr None
      else if take 3 img \<noteq> TPL_MAGIC then Inr None
      else
        bindE (tpl_needs_endian_swap img) (\<lambda>xendian.
        bindE (img_u32 xendian img 4) (\<lambda>intlsz.
        if unat intlsz \<noteq> length img then Inr None
        else if 0 \<notin> set (drop 8 img) then Inr None
        else Inr (Some (takeWhile (\<lambda>b. b \<noteq> 0) (drop 8 img))))))"

definition tpl_find_data_start :: "byte list \<Rightarrow> fault + nat" where
  "tpl_find_data_start img =
     (if 0 \<notin> set (drop 8 img) then Inl Out_of_bounds
      else
        (let fmt = takeWhile (\<lambda>b. b \<noteq> 0) (drop 8 img) in
         Inr (8 + length fmt + 1 + 4 * length (filter (\<lambda>c. c = fmt_char CHR ''#'') fmt))))"

subsection \<open>tpl_load\<close>

text \<open>\<^verbatim>\<open>tpl_serlen\<close>: the length of the data of a node at \<open>dv\<close>, \<open>None\<close> for -1. The number of elements of an array is
  read as an \<^verbatim>\<open>int\<close>, and a negative one is none.\<close>

definition bindO :: "'a option \<Rightarrow> ('a \<Rightarrow> 'b option) \<Rightarrow> 'b option" where
  "bindO x f = (case x of None \<Rightarrow> None | Some y \<Rightarrow> f y)"

definition word_at :: "bool \<Rightarrow> byte list \<Rightarrow> nat \<Rightarrow> u32 option" where
  "word_at xendian img dv = (case img_u32 xendian img dv of Inl _ \<Rightarrow> None | Inr w \<Rightarrow> Some w)"

fun serlen_num :: "(nat \<Rightarrow> nat option) \<Rightarrow> nat \<Rightarrow> nat \<Rightarrow> nat option" where
  "serlen_num f 0 dv = Some 0"
| "serlen_num f (Suc num) dv =
     bindO (f dv) (\<lambda>len. bindO (serlen_num f num (dv + len)) (\<lambda>rest. Some (len + rest)))"

fun serlen_node :: "bool \<Rightarrow> bool \<Rightarrow> byte list \<Rightarrow> tpl_node \<Rightarrow> nat \<Rightarrow> nat option"
and serlen_nodes :: "bool \<Rightarrow> bool \<Rightarrow> byte list \<Rightarrow> tpl_node list \<Rightarrow> nat \<Rightarrow> nat option" where
  "serlen_node xendian old img (Tpl_Node t a d ns) dv =
     (if t = TPL_TYPE_BIN
      then
        bindO (word_at xendian img dv) (\<lambda>slen.
        if dv + 4 + unat slen \<le> length img then Some (4 + unat slen) else None)
      else if t = TPL_TYPE_STR
      then
        bindO (word_at xendian img dv) (\<lambda>slen.
        let slen = (if old then unat slen else if 1 < slen then unat slen - 1 else 0) in
        if dv + 4 + slen \<le> length img then Some (4 + slen) else None)
      else if t = TPL_TYPE_ARY
      then
        bindO (word_at xendian img dv) (\<lambda>num.
        bindO (serlen_num (\<lambda>dv. serlen_nodes xendian old img ns dv) (nat (sint num)) (dv + 4)) (\<lambda>len. Some (4 + len)))
      else if dv + tpl_sz t \<le> length img then Some (tpl_sz t) else None)"
| "serlen_nodes xendian old img [] dv = Some 0"
| "serlen_nodes xendian old img (n # ns) dv =
     bindO (serlen_node xendian old img n dv) (\<lambda>len.
     bindO (serlen_nodes xendian old img ns (dv + len)) (\<lambda>rest. Some (len + rest)))"

definition ERR_NOT_MINSIZE :: int where "ERR_NOT_MINSIZE = -1"
definition ERR_MAGIC_MISMATCH :: int where "ERR_MAGIC_MISMATCH = -2"
definition ERR_INCONSISTENT_SZ :: int where "ERR_INCONSISTENT_SZ = -3"
definition ERR_FMT_INVALID :: int where "ERR_FMT_INVALID = -4"
definition ERR_FMT_MISSING_NUL :: int where "ERR_FMT_MISSING_NUL = -5"
definition ERR_FMT_MISMATCH :: int where "ERR_FMT_MISMATCH = -6"
definition ERR_INCONSISTENT_SZ2 :: int where "ERR_INCONSISTENT_SZ2 = -8"
definition ERR_INCONSISTENT_SZ3 :: int where "ERR_INCONSISTENT_SZ3 = -9"
definition ERR_INCONSISTENT_SZ4 :: int where "ERR_INCONSISTENT_SZ4 = -10"
definition ERR_UNSUPPORTED_FLAGS :: int where "ERR_UNSUPPORTED_FLAGS = -11"

definition tpl_fmt_chars :: "byte list" where
  "tpl_fmt_chars = map fmt_char ''AS($)BiucsfIUjv#''"

text \<open>The second half of \<^verbatim>\<open>tpl_sanity\<close>, from the format on.\<close>

definition sanity_data :: "tpl_root \<Rightarrow> int" where
  "sanity_data r =
     (let d = tr_text r; bufsz = length d; fmt = takeWhile (\<lambda>b. b \<noteq> 0) (drop 8 d);
          octothorpes = length (filter (\<lambda>c. c = fmt_char CHR ''#'') fmt); dv = 8 + length fmt + 1 in
      if \<not> set fmt \<subseteq> set tpl_fmt_chars then ERR_FMT_INVALID
      else if 8 + length fmt = bufsz then ERR_FMT_MISSING_NUL
      else if tr_fmt r \<noteq> fmt then ERR_FMT_MISMATCH
      else if bufsz < dv + 4 * octothorpes then ERR_INCONSISTENT_SZ4
      else
        (case serlen_nodes (tr_xendian r) (tr_old_string r) d (tr_children r) dv of
           None \<Rightarrow> ERR_INCONSISTENT_SZ2
         | Some serlen \<Rightarrow> if serlen + dv \<noteq> bufsz then ERR_INCONSISTENT_SZ3 else 0))"

definition tpl_sanity :: "tpl_root \<Rightarrow> fault + int \<times> tpl_root" where
  "tpl_sanity r =
     (let d = tr_text r in
      if length d < 9 then Inr (ERR_NOT_MINSIZE, r)
      else if take 3 d \<noteq> TPL_MAGIC then Inr (ERR_MAGIC_MISMATCH, r)
      else
        bindE (tpl_needs_endian_swap d) (\<lambda>swap.
        let r = (if swap then r\<lparr>tr_xendian := True\<rparr> else r) in
        bindE (img_get d 3 1) (\<lambda>fl.
        if hd fl AND NOT 3 \<noteq> 0 then Inr (ERR_UNSUPPORTED_FLAGS, r)
        else
          (let r = (if hd fl AND TPL_FL_NULLSTRINGS = 0 then r\<lparr>tr_old_string := True\<rparr> else r) in
           bindE (img_u32 (tr_xendian r) d 4) (\<lambda>intlsz.
           if unat intlsz \<noteq> length d then Inr (ERR_INCONSISTENT_SZ, r) else Inr (sanity_data r, r))))))"

text \<open>\<^verbatim>\<open>tpl_unpackA0\<close>: the arrays of the root are given their lengths and positions.\<close>

definition unpack_array :: "tpl_root \<Rightarrow> tpl_node \<Rightarrow> nat \<Rightarrow> fault + nat \<times> tpl_node" where
  "unpack_array r n dv =
     (case serlen_node (tr_xendian r) (tr_old_string r) (tr_text r) n dv of
        None \<Rightarrow> Inl (Exit (-1))
      | Some A_bytes \<Rightarrow>
          bindE (img_u32 (tr_xendian r) (tr_text r) dv) (\<lambda>num.
          case n of Tpl_Node t a d ns \<Rightarrow>
            Inr (dv + A_bytes,
              Tpl_Node t a (case d of D_ary _ sz _ \<Rightarrow> D_ary num sz (Some (dv + 4)) | _ \<Rightarrow> d) ns)))"

definition skip_node :: "tpl_root \<Rightarrow> tpl_node \<Rightarrow> nat \<Rightarrow> fault + nat \<times> tpl_node" where
  "skip_node r n dv =
     (if tn_type n = TPL_TYPE_BIN
      then bindE (img_u32 (tr_xendian r) (tr_text r) dv) (\<lambda>slen. Inr (dv + 4 + unat slen, n))
      else if tn_type n = TPL_TYPE_STR
      then
        bindE (img_u32 (tr_xendian r) (tr_text r) dv) (\<lambda>slen.
        let slen = (if tr_old_string r then slen + 1 else slen) in
        Inr (dv + 4 + (if 1 < slen then unat slen - 1 else 0), n))
      else if tn_type n = TPL_TYPE_ARY then unpack_array r n dv
      else Inr (dv + tpl_sz (tn_type n), n))"

fun skip_nodes :: "tpl_root \<Rightarrow> tpl_node list \<Rightarrow> nat \<Rightarrow> fault + tpl_node list" where
  "skip_nodes r [] dv = Inr []"
| "skip_nodes r (n # ns) dv =
     bindE (skip_node r n dv) (\<lambda>(dv, n). bindE (skip_nodes r ns dv) (\<lambda>ns. Inr (n # ns)))"

definition tpl_unpackA0 :: "tpl_root \<Rightarrow> fault + tpl_root" where
  "tpl_unpackA0 r =
     bindE (tpl_find_data_start (tr_text r)) (\<lambda>dv.
     bindE (skip_nodes r (tr_children r) dv) (\<lambda>ns. Inr (r\<lparr>tr_children := ns\<rparr>)))"

text \<open>\<^verbatim>\<open>tpl_load\<close> in the mode \<^verbatim>\<open>TPL_MEM\<close>. Assigning the flags drops \<^verbatim>\<open>TPL_OLD_STRING_FMT\<close> again.\<close>

definition tpl_load :: "byte list \<Rightarrow> tpl_root \<Rightarrow> fault + int \<times> tpl_root" where
  "tpl_load img r =
     bindE (if tr_wronly r \<or> tr_rdonly r then tpl_free_keep_map r else Inr r) (\<lambda>r.
     bindE (tpl_sanity (r\<lparr>tr_text := img\<rparr>)) (\<lambda>(rc, r).
     if rc \<noteq> 0 then Inr (-1, r)
     else
       bindE (tpl_needs_endian_swap img) (\<lambda>swap.
       bindE (tpl_unpackA0 (r\<lparr>tr_wronly := False, tr_rdonly := True, tr_xendian := swap, tr_old_string := False\<rparr>)) (\<lambda>r.
       Inr (0, r)))))"

subsection \<open>tpl_unpack\<close>

definition unpack_node :: "tpl_root \<Rightarrow> tpl_node \<Rightarrow> nat \<times> memory \<Rightarrow> fault + (nat \<times> memory) \<times> tpl_node" where
  "unpack_node r n st =
     (case st of (dv, m) \<Rightarrow>
      if tn_type n = TPL_TYPE_BIN
      then
        bindE (img_u32 (tr_xendian r) (tr_text r) dv) (\<lambda>slen.
        bindE (img_get (tr_text r) (dv + 4) (unat slen)) (\<lambda>bs.
        case (if 0 < slen then mem_alloc bs m else (0, m)) of
          (str, m) \<Rightarrow>
            bindE (mem_write (tn_addr n) (ptr_bytes str) m) (\<lambda>m.
            bindE (mem_write (tn_addr n + 8) (u32_bytes slen) m) (\<lambda>m.
            Inr ((dv + 4 + unat slen, m), n)))))
      else if tn_type n = TPL_TYPE_STR
      then
        bindE (img_u32 (tr_xendian r) (tr_text r) dv) (\<lambda>slen.
        let slen = (if tr_old_string r then slen + 1 else slen) in
        if 0 < slen
        then
          bindE (img_get (tr_text r) (dv + 4) (unat slen - 1)) (\<lambda>bs.
          case mem_alloc (bs @ [0]) m of
            (str, m) \<Rightarrow>
              bindE (mem_write (tn_addr n) (ptr_bytes str) m) (\<lambda>m.
              Inr ((dv + 4 + (unat slen - 1), m), n)))
        else bindE (mem_write (tn_addr n) (ptr_bytes 0) m) (\<lambda>m. Inr ((dv + 4, m), n)))
      else if tn_type n = TPL_TYPE_ARY
      then bindE (unpack_array r n dv) (\<lambda>(dv, n). Inr ((dv, m), n))
      else
        bindE (img_get (tr_text r) dv (tpl_sz (tn_type n))) (\<lambda>bs.
        bindE (mem_write (tn_addr n) (tpl_byteswap (tr_xendian r) bs) m) (\<lambda>m.
        Inr ((dv + tpl_sz (tn_type n), m), n))))"

fun unpack_nodes :: "tpl_root \<Rightarrow> tpl_node list \<Rightarrow> nat \<times> memory \<Rightarrow> fault + tpl_node list \<times> memory" where
  "unpack_nodes r [] st = Inr ([], snd st)"
| "unpack_nodes r (n # ns) st =
     bindE (unpack_node r n st) (\<lambda>(st, n). bindE (unpack_nodes r ns st) (\<lambda>(ns, m). Inr (n # ns, m)))"

text \<open>Unpacking what was just packed goes through an image.\<close>

definition unpack_packed :: "tpl_root \<Rightarrow> fault + int \<times> tpl_root" where
  "unpack_packed r =
     (if tr_wronly r
      then bindE (tpl_ser_osz r) (\<lambda>sz. bindE (tpl_dump_to_mem r sz) (\<lambda>img. tpl_load img r))
      else Inr (0, r))"

definition tpl_unpack :: "tpl_root \<Rightarrow> memory \<Rightarrow> fault + int \<times> tpl_root \<times> memory" where
  "tpl_unpack r m =
     bindE (unpack_packed r) (\<lambda>(e, r).
     if e \<noteq> 0 then Inr (-1, r, m)
     else
       bindE (tpl_find_data_start (tr_text r)) (\<lambda>dv.
       bindE (unpack_nodes r (tr_children r) (dv, m)) (\<lambda>(ns, m).
       Inr (1, r\<lparr>tr_children := ns\<rparr>, m))))"

end
