(* ===== verification/Tpl_Gather.thy ===== *)
theory Tpl_Gather
  imports Tpl_Image
begin

section \<open>Cutting a byte stream into images (tpl_gather)\<close>

text \<open>
  \<^verbatim>\<open>tpl_gather_mem\<close> of \<^verbatim>\<open>src/src/tpl.c\<close>: the bytes of a read are put behind what the last read left over,
  every complete image is passed to a callback, and the rest is kept. \<open>gs\<close> is \<^verbatim>\<open>*gs\<close> with its bytes; \<^verbatim>\<open>gather_max\<close>
  is 0, no limit. The callback takes and returns a state, and may fault. The loop need not end (an
  image of length 0 makes no progress), so it is a partial function.
\<close>

type_synonym 's tpl_gather_cb = "byte list \<Rightarrow> 's \<Rightarrow> fault + int \<times> 's"

definition image_len :: "byte list \<Rightarrow> fault + nat" where
  "image_len tpl =
     bindE (tpl_needs_endian_swap tpl) (\<lambda>swap. bindE (img_u32 swap tpl 4) (\<lambda>tpllen. Inr (unat tpllen)))"

partial_function (option) gather_loop ::
  "'s tpl_gather_cb \<Rightarrow> byte list \<Rightarrow> 's \<Rightarrow> (fault + int \<times> byte list \<times> 's) option" where
  "gather_loop cb tpl s =
     (if 8 < length tpl
      then
        (if take 3 tpl \<noteq> TPL_MAGIC then Some (Inr (-3, tpl, s))
         else
           (case image_len tpl of
              Inl f \<Rightarrow> Some (Inl f)
            | Inr tpllen \<Rightarrow>
                if tpllen \<le> length tpl
                then
                  (case cb (take tpllen tpl) s of
                     Inl f \<Rightarrow> Some (Inl f)
                   | Inr (cbrc, s) \<Rightarrow>
                       if cbrc < 0 then Some (Inr (-4, drop tpllen tpl, s))
                       else gather_loop cb (drop tpllen tpl) s)
                else Some (Inr (1, tpl, s))))
      else Some (Inr (1, tpl, s)))"

definition tpl_gather_mem ::
  "byte list \<Rightarrow> byte list option \<Rightarrow> 's tpl_gather_cb \<Rightarrow> 's \<Rightarrow> (fault + int \<times> byte list option \<times> 's) option" where
  "tpl_gather_mem buf gs cb s =
     (let img = (case gs of None \<Rightarrow> buf | Some g \<Rightarrow> g @ buf) in
      case gather_loop cb img s of
        None \<Rightarrow> None
      | Some (Inl f) \<Rightarrow> Some (Inl f)
      | Some (Inr (rc, tpl, s)) \<Rightarrow>
          Some (Inr (rc,
            if rc < 0 then None
            else if length tpl = length img \<and> gs \<noteq> None then Some img
            else if tpl \<noteq> [] then Some tpl
            else None, s)))"

subsection \<open>Only complete images are delivered, in order\<close>

lemma gather_delivers_result:
  fixes cb :: "'s tpl_gather_cb"
  assumes "gather_loop cb tpl s = Some r" "r = Inr (rc, tpl', s')"
  shows "\<exists>imgs. foldE (\<lambda>img s. bindE (cb img s) (\<lambda>(_, s). Inr s)) imgs s = Inr s'"
proof -
  let ?P = "\<lambda>cb s (r :: fault + int \<times> byte list \<times> 's). r = Inr (rc, tpl', s') \<longrightarrow> (\<exists>imgs. foldE (\<lambda>img s. bindE (cb img s) (\<lambda>(_, s). Inr s)) imgs s = Inr s')"
  have "?P cb s r"
  proof (rule gather_loop.raw_induct[OF _ assms(1), where P = "\<lambda>cb tpl s r. ?P cb s r"], intro impI)
    fix loop :: "'s tpl_gather_cb \<Rightarrow> byte list \<Rightarrow> 's \<Rightarrow> (fault + int \<times> byte list \<times> 's) option"
      and cb tpl s and r :: "fault + int \<times> byte list \<times> 's"
    assume IH: "\<And>cb tpl s r. loop cb tpl s = Some r \<Longrightarrow> ?P cb s r" and r: "r = Inr (rc, tpl', s')"
    assume body: "(if 8 < length tpl
      then
        (if take 3 tpl \<noteq> TPL_MAGIC then Some (Inr (-3, tpl, s))
         else
           (case image_len tpl of
              Inl f \<Rightarrow> Some (Inl f)
            | Inr tpllen \<Rightarrow>
                if tpllen \<le> length tpl
                then
                  (case cb (take tpllen tpl) s of
                     Inl f \<Rightarrow> Some (Inl f)
                   | Inr (cbrc, s) \<Rightarrow>
                       if cbrc < 0 then Some (Inr (-4, drop tpllen tpl, s))
                       else loop cb (drop tpllen tpl) s)
                else Some (Inr (1, tpl, s))))
      else Some (Inr (1, tpl, s))) = Some r"
    then consider "s' = s" | k rc1 s1 where "cb (take k tpl) s = Inr (rc1, s1)" "s' = s1 \<or> loop cb (drop k tpl) s1 = Some r"
      using r by (fastforce split: if_splits sum.splits prod.splits)
    then show "\<exists>imgs. foldE (\<lambda>img s. bindE (cb img s) (\<lambda>(_, s). Inr s)) imgs s = Inr s'"
    proof cases
      case 1
      then show ?thesis by (intro exI[of _ "[]"]) simp
    next
      case (2 k rc1 s1)
      from 2(2) obtain imgs where "foldE (\<lambda>img s. bindE (cb img s) (\<lambda>(_, s). Inr s)) imgs s1 = Inr s'"
        using IH[of cb "drop k tpl" s1 r] r by (metis foldE.simps(1))
      then show ?thesis using 2(1) by (intro exI[of _ "take k tpl # imgs"]) simp
    qed
  qed
  then show ?thesis using assms(2) by blast
qed

lemma gather_mem_delivers:
  assumes "tpl_gather_mem buf gs cb s = Some (Inr (rc, gs', s'))"
  shows "\<exists>imgs. foldE (\<lambda>img s. bindE (cb img s) (\<lambda>(_, s). Inr s)) imgs s = Inr s'"
  using assms by (auto simp: tpl_gather_mem_def Let_def split: option.splits sum.splits prod.splits
      dest: gather_delivers_result)

subsection \<open>How a stream is cut does not matter\<close>

definition tpl_image :: "byte list \<Rightarrow> bool" where
  "tpl_image img \<longleftrightarrow> 8 < length img \<and> take 3 img = TPL_MAGIC \<and> image_len img = Inr (length img)"

text \<open>What should be delivered: image after image, as long as the callback does not refuse one.\<close>

fun deliver :: "'s tpl_gather_cb \<Rightarrow> byte list list \<Rightarrow> 's \<Rightarrow> fault + bool \<times> 's" where
  "deliver cb [] s = Inr (True, s)"
| "deliver cb (img # imgs) s =
     bindE (cb img s) (\<lambda>(rc, s). if rc < 0 then Inr (False, s) else deliver cb imgs s)"

text \<open>The reads of a stream, one after another.\<close>

fun gather_reads ::
  "'s tpl_gather_cb \<Rightarrow> byte list list \<Rightarrow> byte list option \<Rightarrow> 's \<Rightarrow> (fault + byte list option \<times> 's) option" where
  "gather_reads cb [] gs s = Some (Inr (gs, s))"
| "gather_reads cb (buf # bufs) gs s =
     (case tpl_gather_mem buf gs cb s of
        None \<Rightarrow> None
      | Some (Inl f) \<Rightarrow> Some (Inl f)
      | Some (Inr (rc, gs, s)) \<Rightarrow> gather_reads cb bufs gs s)"

lemma image_len_prefix: "8 \<le> length p \<Longrightarrow> image_len (p @ q) = image_len p"
  by (simp add: image_len_def tpl_needs_endian_swap_def img_u32_def img_get_def)

lemma gather_loop_images:
  assumes "\<And>img. img \<in> set imgs \<Longrightarrow> tpl_image img"
    and "p = [] \<or> (\<exists>img q. tpl_image img \<and> img = p @ q \<and> q \<noteq> [])"
  shows "case deliver cb imgs s of
      Inl f \<Rightarrow> gather_loop cb (concat imgs @ p) s = Some (Inl f)
    | Inr (ok, s') \<Rightarrow> ok \<longrightarrow> gather_loop cb (concat imgs @ p) s = Some (Inr (1, p, s'))"
  using assms(1)
proof (induction imgs arbitrary: s)
  case Nil
  show ?case
  proof (cases "8 < length p")
    case True
    with assms(2) obtain img q where i: "tpl_image img" "img = p @ q" "q \<noteq> []" by auto
    then have "take 3 p = TPL_MAGIC" "image_len p = Inr (length p + length q)"
      using True image_len_prefix[of p q] by (auto simp: tpl_image_def)
    then show ?thesis using True i(3) by (subst gather_loop.simps) simp
  qed (subst gather_loop.simps, simp)
next
  case (Cons img imgs)
  have i: "8 < length img" "take 3 img = TPL_MAGIC" "image_len img = Inr (length img)"
    using Cons.prems by (simp_all add: tpl_image_def)
  then have "image_len (img @ concat imgs @ p) = Inr (length img)" by (simp add: image_len_prefix)
  then have loop: "gather_loop cb (concat (img # imgs) @ p) s =
      (case cb img s of Inl f \<Rightarrow> Some (Inl f)
       | Inr (cbrc, s) \<Rightarrow> if cbrc < 0 then Some (Inr (-4, concat imgs @ p, s)) else gather_loop cb (concat imgs @ p) s)"
    using i by (subst gather_loop.simps) (simp split: sum.splits)
  show ?case
  proof (cases "cb img s")
    case (Inr r)
    have "case deliver cb imgs (snd r) of
        Inl f \<Rightarrow> gather_loop cb (concat imgs @ p) (snd r) = Some (Inl f)
      | Inr (ok, s') \<Rightarrow> ok \<longrightarrow> gather_loop cb (concat imgs @ p) (snd r) = Some (Inr (1, p, s'))"
      by (rule Cons.IH) (use Cons.prems in simp)
    then show ?thesis unfolding loop using Inr by (cases r) (auto split: sum.splits)
  qed (use loop in simp)
qed

text \<open>A prefix of a stream of images is some of the images and a piece of the next.\<close>

lemma stream_prefix:
  assumes "bs @ rest = concat imgs"
  shows "\<exists>done todo p. imgs = done @ todo \<and> bs = concat done @ p \<and> p @ rest = concat todo \<and>
    (p = [] \<or> (\<exists>img todo' q. todo = img # todo' \<and> img = p @ q \<and> q \<noteq> []))"
  using assms
proof (induction imgs arbitrary: bs)
  case Nil
  then show ?case by simp
next
  case (Cons img imgs)
  show ?case
  proof (cases "length img \<le> length bs")
    case True
    then obtain bs' where b: "bs = img @ bs'"
      using Cons.prems by (auto simp: append_eq_append_conv2)
    with Cons.prems have "bs' @ rest = concat imgs" by simp
    from Cons.IH[OF this] obtain d t p where "imgs = d @ t" "bs' = concat d @ p" "p @ rest = concat t"
      "p = [] \<or> (\<exists>img todo' q. t = img # todo' \<and> img = p @ q \<and> q \<noteq> [])" by blast
    then show ?thesis using b by (intro exI[of _ "img # d"] exI[of _ t] exI[of _ p]) simp
  next
    case False
    then obtain q where "img = bs @ q" "q \<noteq> []" using Cons.prems by (auto simp: append_eq_append_conv2)
    then show ?thesis using Cons.prems by (intro exI[of _ "[]"] exI[of _ "img # imgs"] exI[of _ bs]) auto
  qed
qed

lemma deliver_append:
  "deliver cb (xs @ ys) s =
     (case deliver cb xs s of Inl f \<Rightarrow> Inl f | Inr (ok, s) \<Rightarrow> if ok then deliver cb ys s else Inr (False, s))"
  by (induction xs arbitrary: s) (auto simp: bindE_def split: sum.splits)

lemma gather_reads_stream:
  assumes "\<And>img. img \<in> set imgs \<Longrightarrow> tpl_image img"
    and "p @ concat bufs = concat imgs" "p = [] \<or> length p < length (hd imgs)"
    and "gs = (if p = [] then None else Some p)" "\<And>s'. deliver cb imgs s \<noteq> Inr (False, s')"
  shows "gather_reads cb bufs gs s =
    (case deliver cb imgs s of Inl f \<Rightarrow> Some (Inl f) | Inr (ok, s') \<Rightarrow> Some (Inr (None, s')))"
  using assms
proof (induction bufs arbitrary: imgs p gs s)
  case Nil
  have p: "p = concat imgs" using Nil.prems(2) by simp
  have "imgs = []"
  proof (cases imgs)
    case (Cons img r)
    then have "img \<noteq> []" using Nil.prems(1)[of img] by (auto simp: tpl_image_def)
    then show ?thesis using Nil.prems(3) p Cons by auto
  qed simp
  then show ?case using Nil.prems p by simp
next
  case (Cons buf bufs)
  have "(p @ buf) @ concat bufs = concat imgs" using Cons.prems(2) by simp
  from stream_prefix[OF this] obtain d t p' where s: "imgs = d @ t" "p @ buf = concat d @ p'" "p' @ concat bufs = concat t"
    "p' = [] \<or> (\<exists>img todo' q. t = img # todo' \<and> img = p' @ q \<and> q \<noteq> [])" by blast
  have d: "\<And>img. img \<in> set d \<Longrightarrow> tpl_image img" and t: "\<And>img. img \<in> set t \<Longrightarrow> tpl_image img"
    using Cons.prems(1) s(1) by auto
  have p': "p' = [] \<or> (\<exists>img q. tpl_image img \<and> img = p' @ q \<and> q \<noteq> [])" using s(4) t by fastforce
  have img: "(case gs of None \<Rightarrow> buf | Some g \<Rightarrow> g @ buf) = concat d @ p'" using Cons.prems(4) s(2) by auto
  have ok: "deliver cb imgs s = (case deliver cb d s of Inl f \<Rightarrow> Inl f | Inr (ok, s) \<Rightarrow> if ok then deliver cb t s else Inr (False, s))"
    unfolding s(1) by (rule deliver_append)
  show ?case
  proof (cases "deliver cb d s")
    case (Inl f)
    then have "gather_loop cb (concat d @ p') s = Some (Inl f)" using gather_loop_images[where imgs = d and cb = cb and s = s, OF d p'] by simp
    then show ?thesis using ok Inl by (simp add: tpl_gather_mem_def img)
  next
    case (Inr r)
    then obtain s1 where r: "deliver cb d s = Inr (True, s1)" using ok Cons.prems(5) by (cases r; cases "fst r") auto
    then have loop: "gather_loop cb (concat d @ p') s = Some (Inr (1, p', s1))"
      using gather_loop_images[where imgs = d and cb = cb and s = s, OF d p'] by simp
    have keep: "(if length p' = length (concat d @ p') \<and> gs \<noteq> None then Some (concat d @ p') else if p' \<noteq> [] then Some p' else None) =
        (if p' = [] then None else Some p')"
    proof (cases "length p' = length (concat d @ p') \<and> gs \<noteq> None")
      case True
      then have "concat d = []" "p \<noteq> []" using Cons.prems(4) by (auto split: if_splits)
      moreover from this s(2) have "p' \<noteq> []" by (metis append_Nil2 append_is_Nil_conv)
      ultimately show ?thesis by simp
    qed auto
    have "gather_reads cb (buf # bufs) gs s = gather_reads cb bufs (if p' = [] then None else Some p') s1"
      by (simp only: gather_reads.simps tpl_gather_mem_def img Let_def loop option.case sum.case prod.case keep) simp
    also have "\<dots> = (case deliver cb t s1 of Inl f \<Rightarrow> Some (Inl f) | Inr (ok, s') \<Rightarrow> Some (Inr (None, s')))"
      by (rule Cons.IH[OF t s(3)]) (use s(4) ok r Cons.prems(5) in auto)
    finally show ?thesis using ok r by simp
  qed
qed

end
