(* ===== verification/Tpl_Roundtrip.thy ===== *)
theory Tpl_Roundtrip
  imports Tpl_Gather
begin

section \<open>What is packed is what is unpacked\<close>

text \<open>
  Packing a map, dumping it to an image, loading the image into a second map of the same format and
  unpacking that copies the values of the fields from the memory of the one to the memory of the
  other. The values are \<open>field_val\<close>; \<open>store_val\<close> is what unpacking should do with one.
\<close>

subsection \<open>Values of fields\<close>

datatype field_val = V_num "byte list" | V_str "byte list option" | V_bin "byte list"

fun val_type :: "field_val \<Rightarrow> tpl_type \<Rightarrow> bool" where
  "val_type (V_num bs) t \<longleftrightarrow> t \<notin> {TPL_TYPE_STR, TPL_TYPE_BIN, TPL_TYPE_ARY} \<and> length bs = tpl_sz t"
| "val_type (V_str so) t \<longleftrightarrow> t = TPL_TYPE_STR \<and> (case so of None \<Rightarrow> True | Some s \<Rightarrow> length s + 1 < 2 ^ 32)"
| "val_type (V_bin bs) t \<longleftrightarrow> t = TPL_TYPE_BIN \<and> length bs < 2 ^ 32"

fun val_bytes :: "field_val \<Rightarrow> byte list" where
  "val_bytes (V_num bs) = bs"
| "val_bytes (V_str None) = u32_bytes 0"
| "val_bytes (V_str (Some s)) = u32_bytes (of_nat (length s + 1)) @ s"
| "val_bytes (V_bin bs) = u32_bytes (of_nat (length bs)) @ bs"

fun store_val :: "nat \<times> field_val \<Rightarrow> memory \<Rightarrow> fault + memory" where
  "store_val (a, V_num bs) m = mem_write a bs m"
| "store_val (a, V_str None) m = mem_write a (ptr_bytes 0) m"
| "store_val (a, V_str (Some s)) m = (case mem_alloc (s @ [0]) m of (p, m) \<Rightarrow> mem_write a (ptr_bytes p) m)"
| "store_val (a, V_bin bs) m =
     (case (if bs = [] then (0, m) else mem_alloc bs m) of
        (p, m) \<Rightarrow> bindE (mem_write a (ptr_bytes p) m) (mem_write (a + 8) (u32_bytes (of_nat (length bs)))))"

text \<open>The value a packed node holds.\<close>

fun data_val :: "tpl_data \<Rightarrow> field_val \<Rightarrow> bool" where
  "data_val (D_num bs) v \<longleftrightarrow> v = V_num bs"
| "data_val (D_str so) v \<longleftrightarrow> v = V_str so"
| "data_val (D_bin (Some bs)) v \<longleftrightarrow> v = V_bin bs"
| "data_val d v \<longleftrightarrow> False"

definition packed :: "tpl_node \<Rightarrow> field_val \<Rightarrow> bool" where
  "packed n v \<longleftrightarrow> data_val (tn_data n) v \<and> val_type v (tn_type n)"

subsection \<open>Words in an image\<close>

lemma length_u32_bytes [simp]: "length (u32_bytes w) = 4"
  by (simp add: u32_bytes_def)

lemma bytes_u32_u32 [simp]: "bytes_u32 (u32_bytes w) = Inr w"
  by (simp add: bytes_u32_def u32_bytes_def bytes_int_def int_bytes_def Let_def word_from_bytes)

lemma img_get_at: "dv = length pre \<Longrightarrow> n = length x \<Longrightarrow> img_get (pre @ x @ post) dv n = Inr x"
  by (simp add: img_get_def)

lemma img_u32_at: "dv = length pre \<Longrightarrow> img_u32 False (pre @ u32_bytes w @ post) dv = Inr w"
  by (simp add: img_u32_def img_get_at tpl_byteswap_def)

lemma u32_len: "n < 2 ^ 32 \<Longrightarrow> unat (of_nat n :: u32) = n"
  by (simp add: unat_of_nat take_bit_nat_eq_self)

subsection \<open>Dumping and reading one value\<close>

lemma dump_packed:
  assumes "packed n v"
  shows "dump_node n = Inr (val_bytes v)" "node_osz n = Inr (length (val_bytes v))"
  using assms
  by (cases v rule: val_bytes.cases; cases "tn_data n";
      auto simp: packed_def dump_node_def node_osz_def split: option.splits elim: data_val.elims)+

lemma serlen_at:
  assumes "val_type v t" "t = TPL_TYPE_STR \<longrightarrow> \<not> old" "dv = length pre"
  shows "serlen_node False old (pre @ val_bytes v @ post) (Tpl_Node t a d ns) dv = Some (length (val_bytes v))"
proof (cases v)
  case (V_num bs)
  then show ?thesis using assms by auto
next
  case (V_str so)
  then have t: "t = TPL_TYPE_STR" using assms(1) by simp
  show ?thesis
  proof (cases so)
    case None
    then show ?thesis using V_str t assms by (simp add: word_at_def img_u32_at bindO_def)
  next
    case (Some s)
    then have "unat (of_nat (length s + 1) :: u32) = length s + 1" using assms(1) V_str by (intro u32_len) simp
    then show ?thesis using V_str t assms Some
      by (simp add: word_at_def img_u32_at bindO_def word_less_nat_alt del: of_nat_add of_nat_Suc)
  qed
next
  case (V_bin bs)
  then have "unat (of_nat (length bs) :: u32) = length bs" using assms(1) by (intro u32_len) simp
  then show ?thesis using V_bin assms by (simp add: word_at_def img_u32_at bindO_def)
qed


lemma unpack_at:
  assumes "val_type v (tn_type n)" "dv = length pre" "tr_text r = pre @ val_bytes v @ post"
    "\<not> tr_xendian r" "\<not> tr_old_string r"
  shows "unpack_node r n (dv, m) = bindE (store_val (tn_addr n, v) m) (\<lambda>m. Inr ((dv + length (val_bytes v), m), n))"
proof (cases v)
  case (V_num bs)
  then show ?thesis using assms by (auto simp: unpack_node_def img_get_at tpl_byteswap_def)
next
  case (V_str so)
  then have t: "tn_type n = TPL_TYPE_STR" using assms(1) by simp
  show ?thesis
  proof (cases so)
    case None
    then show ?thesis using V_str t assms by (simp add: unpack_node_def img_u32_at)
  next
    case (Some s)
    let ?l = "of_nat (length s + 1) :: u32"
    have l: "unat ?l = length s + 1" using assms(1) V_str Some by (intro u32_len) simp
    then have pos: "0 < ?l" by (simp add: word_less_nat_alt del: of_nat_add of_nat_Suc)
    have image: "tr_text r = pre @ u32_bytes ?l @ s @ post" using assms(3) V_str Some by simp
    have "img_u32 False (tr_text r) dv = Inr ?l" unfolding image by (rule img_u32_at) (rule assms(2))
    moreover have "img_get (tr_text r) (dv + 4) (length s) = Inr s"
      using img_get_at[of "dv + 4" "pre @ u32_bytes ?l" "length s" s post] image assms(2) by simp
    ultimately show ?thesis using V_str t assms(4,5) Some l pos
      by (simp add: unpack_node_def bindE_assoc add.assoc del: of_nat_add of_nat_Suc split: prod.splits)
  qed
next
  case (V_bin bs)
  let ?l = "of_nat (length bs) :: u32"
  have t: "tn_type n = TPL_TYPE_BIN" using V_bin assms(1) by simp
  have l: "unat ?l = length bs" using assms(1) V_bin by (intro u32_len) simp
  then have pos: "0 < ?l \<longleftrightarrow> bs \<noteq> []" by (auto simp: word_less_nat_alt)
  have image: "tr_text r = pre @ u32_bytes ?l @ bs @ post" using assms(3) V_bin by simp
  have "img_u32 False (tr_text r) dv = Inr ?l" unfolding image by (rule img_u32_at) (rule assms(2))
  moreover have "img_get (tr_text r) (dv + 4) (length bs) = Inr bs"
    using img_get_at[of "dv + 4" "pre @ u32_bytes ?l" "length bs" bs post] image assms(2) by simp
  ultimately show ?thesis using V_bin t assms(4,5) l pos
    by (simp add: unpack_node_def bindE_assoc add.assoc split: prod.splits)
qed

lemma skip_at:
  assumes "val_type v (tn_type n)" "dv = length pre" "tr_text r = pre @ val_bytes v @ post"
    "\<not> tr_xendian r" "\<not> tr_old_string r"
  shows "skip_node r n dv = Inr (dv + length (val_bytes v), n)"
proof (cases v)
  case (V_num bs)
  then show ?thesis using assms by (auto simp: skip_node_def)
next
  case (V_str so)
  then have t: "tn_type n = TPL_TYPE_STR" using assms(1) by simp
  show ?thesis
  proof (cases so)
    case None
    then show ?thesis using V_str t assms by (simp add: skip_node_def img_u32_at)
  next
    case (Some s)
    then have l: "unat (of_nat (length s + 1) :: u32) = length s + 1" using assms(1) V_str by (intro u32_len) simp
    then show ?thesis using V_str t assms Some
      by (simp add: skip_node_def img_u32_at word_less_nat_alt del: of_nat_add of_nat_Suc)
  qed
next
  case (V_bin bs)
  then have "unat (of_nat (length bs) :: u32) = length bs" using assms(1) by (intro u32_len) simp
  then show ?thesis using V_bin assms by (simp add: skip_node_def img_u32_at)
qed

subsection \<open>Lists of nodes\<close>

definition fields_match :: "tpl_node list \<Rightarrow> field_val list \<Rightarrow> bool" where
  "fields_match ns vs \<longleftrightarrow> list_all2 (\<lambda>n v. val_type v (tn_type n)) ns vs"

abbreviation vals_bytes :: "field_val list \<Rightarrow> byte list" where
  "vals_bytes vs \<equiv> concat (map val_bytes vs)"

lemma dump_nodes: "list_all2 packed ns vs \<Longrightarrow> mapE dump_node ns = Inr (map val_bytes vs)"
  by (induction rule: list_all2_induct) (simp_all add: dump_packed)

lemma osz_nodes:
  "list_all2 packed ns vs \<Longrightarrow>
   foldE (\<lambda>n sz. bindE (node_osz n) (\<lambda>k. Inr (sz + k))) ns sz = Inr (sz + length (vals_bytes vs))"
  by (induction arbitrary: sz rule: list_all2_induct) (simp_all add: dump_packed)

lemma serlen_list:
  assumes "fields_match ns vs" "TPL_TYPE_STR \<in> tn_type ` set ns \<longrightarrow> \<not> old"
  shows "serlen_nodes False old (pre @ vals_bytes vs @ post) ns (length pre) = Some (length (vals_bytes vs))"
  using assms unfolding fields_match_def
proof (induction arbitrary: pre rule: list_all2_induct)
  case (Cons n ns v vs)
  obtain t a d cs where n: "n = Tpl_Node t a d cs" by (cases n)
  have "serlen_node False old (pre @ val_bytes v @ vals_bytes vs @ post) n (length pre) = Some (length (val_bytes v))"
    unfolding n by (rule serlen_at) (use Cons n in auto)
  then show ?case using Cons.IH[of "pre @ val_bytes v"] Cons.prems by (simp add: bindO_def)
qed simp

lemma skip_list:
  assumes "fields_match ns vs" "tr_text r = pre @ vals_bytes vs @ post" "\<not> tr_xendian r" "\<not> tr_old_string r"
  shows "skip_nodes r ns (length pre) = Inr ns"
  using assms unfolding fields_match_def
proof (induction arbitrary: pre rule: list_all2_induct)
  case (Cons n ns v vs)
  have "skip_node r n (length pre) = Inr (length pre + length (val_bytes v), n)"
    by (rule skip_at[where post = "vals_bytes vs @ post"]) (use Cons in simp_all)
  then show ?case using Cons.IH[of "pre @ val_bytes v"] Cons.prems by simp
qed simp

lemma unpack_list:
  assumes "fields_match ns vs" "tr_text r = pre @ vals_bytes vs @ post" "\<not> tr_xendian r" "\<not> tr_old_string r"
  shows "unpack_nodes r ns (length pre, m) = bindE (foldE store_val (zip (map tn_addr ns) vs) m) (\<lambda>m. Inr (ns, m))"
  using assms unfolding fields_match_def
proof (induction arbitrary: pre m rule: list_all2_induct)
  case (Cons n ns v vs)
  have "unpack_node r n (length pre, m) =
      bindE (store_val (tn_addr n, v) m) (\<lambda>m. Inr ((length pre + length (val_bytes v), m), n))"
    by (rule unpack_at[where post = "vals_bytes vs @ post"]) (use Cons in simp_all)
  moreover have "unpack_nodes r ns (length pre + length (val_bytes v), m) =
      bindE (foldE store_val (zip (map tn_addr ns) vs) m) (\<lambda>m. Inr (ns, m))" for m
    using Cons.IH[of "pre @ val_bytes v" m] Cons.prems by simp
  ultimately show ?case by (simp add: bindE_assoc)
qed simp

subsection \<open>Images\<close>

definition image_of :: "byte list \<Rightarrow> field_val list \<Rightarrow> byte list" where
  "image_of fmt vs =
     TPL_MAGIC @ [if fmt_char CHR ''s'' \<in> set fmt then TPL_FL_NULLSTRINGS else 0] @
     u32_bytes (of_nat (9 + length fmt + length (vals_bytes vs))) @ fmt @ [0] @ vals_bytes vs"

definition fmt_ok :: "byte list \<Rightarrow> bool" where
  "fmt_ok fmt \<longleftrightarrow> 0 \<notin> set fmt \<and> set fmt \<subseteq> set tpl_fmt_chars \<and> fmt_char CHR ''#'' \<notin> set fmt"

lemma length_magic [simp]: "length TPL_MAGIC = 3"
  by (simp add: TPL_MAGIC_def)

lemma length_image_of: "length (image_of fmt vs) = 9 + length fmt + length (vals_bytes vs)"
  by (simp add: image_of_def)

lemma image_body:
  obtains pre where "image_of fmt vs = pre @ vals_bytes vs @ []" "length pre = 9 + length fmt"
  by (rule that[of "TPL_MAGIC @ [if fmt_char CHR ''s'' \<in> set fmt then TPL_FL_NULLSTRINGS else 0] @
    u32_bytes (of_nat (9 + length fmt + length (vals_bytes vs))) @ fmt @ [0]"]) (simp_all add: image_of_def)

lemma image_head:
  "take 3 (image_of fmt vs) = TPL_MAGIC"
  "img_get (image_of fmt vs) 3 1 = Inr [if fmt_char CHR ''s'' \<in> set fmt then TPL_FL_NULLSTRINGS else 0]"
  "tpl_needs_endian_swap (image_of fmt vs) = Inr False"
  "img_u32 False (image_of fmt vs) 4 = Inr (of_nat (length (image_of fmt vs)))"
  "drop 8 (image_of fmt vs) = fmt @ 0 # vals_bytes vs"
proof -
  let ?f = "[if fmt_char CHR ''s'' \<in> set fmt then TPL_FL_NULLSTRINGS else 0]"
  let ?l = "u32_bytes (of_nat (9 + length fmt + length (vals_bytes vs)))"
  show "take 3 (image_of fmt vs) = TPL_MAGIC" by (simp add: image_of_def)
  show g: "img_get (image_of fmt vs) 3 1 = Inr ?f"
    unfolding image_of_def by (rule img_get_at) simp_all
  show "tpl_needs_endian_swap (image_of fmt vs) = Inr False"
    using g by (simp add: tpl_needs_endian_swap_def TPL_FL_NULLSTRINGS_def TPL_FL_BIGENDIAN_def)
  show "img_u32 False (image_of fmt vs) 4 = Inr (of_nat (length (image_of fmt vs)))"
    using img_u32_at[of 4 "TPL_MAGIC @ ?f" "of_nat (9 + length fmt + length (vals_bytes vs))" "fmt @ [0] @ vals_bytes vs"]
    by (simp only: length_image_of image_of_def append_assoc) simp
  show "drop 8 (image_of fmt vs) = fmt @ 0 # vals_bytes vs"
    by (simp add: image_of_def)
qed

lemma fmt_of_image:
  assumes "fmt_ok fmt"
  shows "takeWhile (\<lambda>b. b \<noteq> 0) (drop 8 (image_of fmt vs)) = fmt" "0 \<in> set (drop 8 (image_of fmt vs))"
proof -
  have "takeWhile (\<lambda>b. b \<noteq> 0) (fmt @ 0 # r) = fmt" if "0 \<notin> set fmt" for r
    using that by (induction fmt) auto
  then show "takeWhile (\<lambda>b. b \<noteq> 0) (drop 8 (image_of fmt vs)) = fmt" "0 \<in> set (drop 8 (image_of fmt vs))"
    using assms by (simp_all add: image_head fmt_ok_def)
qed

lemma fmt_no_pound: "fmt_ok fmt \<Longrightarrow> filter (\<lambda>c. c = fmt_char CHR ''#'') fmt = []"
  by (auto simp: fmt_ok_def filter_empty_conv)

lemma tpl_image_of:
  assumes "length (image_of fmt vs) < 2 ^ 32"
  shows "tpl_image (image_of fmt vs)"
  using assms u32_len[OF assms]
  by (simp add: tpl_image_def image_len_def image_head) (simp add: length_image_of)

lemma peek_image:
  assumes "length (image_of fmt vs) < 2 ^ 32" "fmt_ok fmt"
  shows "tpl_peek (image_of fmt vs) = Inr (Some fmt)"
  using u32_len[OF assms(1)] fmt_of_image[OF assms(2), of vs]
  by (simp add: tpl_peek_def image_head length_image_of)

lemma dump_image:
  assumes "list_all2 packed (tr_children r) vs" "tr_ser_osz r = 9 + length (tr_fmt r)" "\<not> tr_rdonly r"
  shows "tpl_dump_getsize r = Inr (0, Some (length (image_of (tr_fmt r) vs)))"
    "tpl_dump_prealloc pa_sz r =
       (if pa_sz < length (image_of (tr_fmt r) vs) then Inr (-1, []) else Inr (0, image_of (tr_fmt r) vs))"
proof -
  have sz: "tpl_ser_osz r = Inr (length (image_of (tr_fmt r) vs))"
    using assms(2) by (simp add: tpl_ser_osz_def osz_nodes[OF assms(1)] length_image_of)
  then show "tpl_dump_getsize r = Inr (0, Some (length (image_of (tr_fmt r) vs)))"
    using assms(3) by (simp add: tpl_dump_getsize_def)
  have "tpl_dump_to_mem r (length (image_of (tr_fmt r) vs)) = Inr (image_of (tr_fmt r) vs)"
    by (simp add: tpl_dump_to_mem_def dump_nodes[OF assms(1)] image_of_def add.assoc)
  then show "tpl_dump_prealloc pa_sz r =
       (if pa_sz < length (image_of (tr_fmt r) vs) then Inr (-1, []) else Inr (0, image_of (tr_fmt r) vs))"
    using assms(3) sz by (simp add: tpl_dump_prealloc_def)
qed


text \<open>A map as \<^verbatim>\<open>tpl_map\<close> makes it.\<close>

definition fresh_map :: "byte list \<Rightarrow> tpl_node list \<Rightarrow> tpl_root" where
  "fresh_map fmt ns =
     \<lparr>tr_fmt = fmt, tr_children = ns, tr_ser_osz = 4 + (length fmt + 1) + 4, tr_wronly = False, tr_rdonly = False,
      tr_xendian = False, tr_old_string = False, tr_text = []\<rparr>"

definition loaded_map :: "byte list \<Rightarrow> tpl_node list \<Rightarrow> byte list \<Rightarrow> tpl_root" where
  "loaded_map fmt ns img = (fresh_map fmt ns)\<lparr>tr_rdonly := True, tr_text := img\<rparr>"

lemma load_image:
  assumes "fmt_ok fmt" "fields_match ns vs" "TPL_TYPE_STR \<in> tn_type ` set ns \<longrightarrow> fmt_char CHR ''s'' \<in> set fmt"
    "length (image_of fmt vs) < 2 ^ 32"
  shows "tpl_load (image_of fmt vs) (fresh_map fmt ns) = Inr (0, loaded_map fmt ns (image_of fmt vs))"
proof -
  let ?img = "image_of fmt vs"
  let ?old = "fmt_char CHR ''s'' \<notin> set fmt"
  obtain pre where img: "?img = pre @ vals_bytes vs @ []" "length pre = 9 + length fmt" by (rule image_body)
  have "serlen_nodes False ?old (pre @ vals_bytes vs @ []) ns (length pre) = Some (length (vals_bytes vs))"
    by (rule serlen_list) (use assms in auto)
  then have ser: "serlen_nodes False ?old ?img ns (Suc (8 + length fmt)) = Some (length (vals_bytes vs))"
    by (simp only: img(1)[symmetric] img(2)) simp
  let ?r = "(fresh_map fmt ns)\<lparr>tr_text := ?img, tr_old_string := ?old\<rparr>"
  have "sanity_data ?r = 0"
    using ser fmt_of_image[OF assms(1), of vs] fmt_no_pound[OF assms(1)] assms(1)
    by (simp add: sanity_data_def fresh_map_def length_image_of fmt_ok_def)
  then have "tpl_sanity ((fresh_map fmt ns)\<lparr>tr_text := ?img\<rparr>) = Inr (0, ?r)"
    using u32_len[OF assms(4)] image_head[of fmt vs]
    by (cases ?old) (simp_all add: tpl_sanity_def Let_def length_image_of fresh_map_def TPL_FL_NULLSTRINGS_def)
  moreover have "tpl_unpackA0 (loaded_map fmt ns ?img) = Inr (loaded_map fmt ns ?img)"
  proof -
    have "skip_nodes (loaded_map fmt ns ?img) ns (length pre) = Inr ns"
      by (rule skip_list[OF assms(2), where post = "[]"]) (use img in \<open>simp_all add: loaded_map_def fresh_map_def\<close>)
    then show ?thesis using fmt_of_image[OF assms(1), of vs] fmt_no_pound[OF assms(1)] img(2)
      by (simp add: tpl_unpackA0_def tpl_find_data_start_def loaded_map_def fresh_map_def)
  qed
  ultimately show ?thesis using image_head(3)[of fmt vs]
    by (simp add: tpl_load_def loaded_map_def fresh_map_def)
qed

lemma unpack_image:
  assumes "fmt_ok fmt" "fields_match ns vs"
  shows "tpl_unpack (loaded_map fmt ns (image_of fmt vs)) m =
    bindE (foldE store_val (zip (map tn_addr ns) vs) m) (\<lambda>m. Inr (1, loaded_map fmt ns (image_of fmt vs), m))"
proof -
  let ?img = "image_of fmt vs"
  let ?r = "loaded_map fmt ns ?img"
  obtain pre where img: "?img = pre @ vals_bytes vs @ []" "length pre = 9 + length fmt" by (rule image_body)
  have "unpack_nodes ?r ns (length pre, m) = bindE (foldE store_val (zip (map tn_addr ns) vs) m) (\<lambda>m. Inr (ns, m))"
    by (rule unpack_list[OF assms(2), where post = "[]"]) (use img in \<open>simp_all add: loaded_map_def fresh_map_def\<close>)
  moreover have "tpl_find_data_start ?img = Inr (length pre)"
    using fmt_of_image[OF assms(1), of vs] fmt_no_pound[OF assms(1)] img(2) by (simp add: tpl_find_data_start_def)
  ultimately show ?thesis
    by (simp add: tpl_unpack_def unpack_packed_def loaded_map_def fresh_map_def bindE_assoc)
qed

subsection \<open>Packing reads the values\<close>

definition read_val :: "memory \<Rightarrow> tpl_node \<Rightarrow> field_val \<Rightarrow> bool" where
  "read_val m n v \<longleftrightarrow> val_type v (tn_type n) \<and>
     (case v of
        V_num bs \<Rightarrow> mem_read m (tn_addr n) (tpl_sz (tn_type n)) = Inr bs
      | V_str None \<Rightarrow> \<exists>p. mem_read m (tn_addr n) 8 = Inr p \<and> bytes_ptr p = 0
      | V_str (Some s) \<Rightarrow> \<exists>p. mem_read m (tn_addr n) 8 = Inr p \<and> bytes_ptr p \<noteq> 0 \<and> mem_str m (bytes_ptr p) = Inr s
      | V_bin bs \<Rightarrow> mem_read m (tn_addr n + 8) 4 = Inr (u32_bytes (of_nat (length bs))) \<and>
          (bs \<noteq> [] \<longrightarrow> (\<exists>p. mem_read m (tn_addr n) 8 = Inr p \<and> mem_read m (bytes_ptr p) (length bs) = Inr bs)))"

lemma pack_read:
  assumes "read_val m n v"
  shows "\<exists>n'. pack_node m n = Inr n' \<and> packed n' v"
proof -
  obtain t a d cs where n: "n = Tpl_Node t a d cs" by (cases n)
  show ?thesis
  proof (cases v)
    case (V_num bs)
    then show ?thesis using assms n by (auto simp: read_val_def pack_node_def packed_def)
  next
    case (V_str so)
    then have "pack_node m n = Inr (Tpl_Node t a (D_str so) cs)"
      using assms n by (auto simp: read_val_def pack_node_def split: option.splits)
    then show ?thesis using assms n V_str by (simp add: read_val_def packed_def)
  next
    case (V_bin bs)
    have t: "t = TPL_TYPE_BIN" and l: "unat (of_nat (length bs) :: u32) = length bs"
      using assms n V_bin by (auto simp: read_val_def intro: u32_len)
    then have "0 < (of_nat (length bs) :: u32) \<longleftrightarrow> bs \<noteq> []" by (auto simp: word_less_nat_alt)
    then show ?thesis using assms n V_bin l t
      by (cases "bs = []") (auto simp: read_val_def pack_node_def packed_def)
  qed
qed

lemma pack_list:
  "list_all2 (read_val m) ns vs \<Longrightarrow> \<exists>ns'. mapE (pack_node m) ns = Inr ns' \<and> list_all2 packed ns' vs"
proof (induction rule: list_all2_induct)
  case (Cons n ns v vs)
  then show ?case using pack_read[of m n v] by auto
qed simp

lemma pack_fields: "list_all2 (read_val m) ns vs \<Longrightarrow> fields_match ns vs"
  unfolding fields_match_def by (erule list_all2_mono) (simp add: read_val_def)

lemma pack_dump:
  assumes "list_all2 (read_val m) ns vs"
  shows "\<exists>r. tpl_pack m (fresh_map fmt ns) = Inr r \<and> tpl_dump_getsize r = Inr (0, Some (length (image_of fmt vs))) \<and>
    tpl_dump_prealloc pa_sz r = (if pa_sz < length (image_of fmt vs) then Inr (-1, []) else Inr (0, image_of fmt vs))"
proof -
  from pack_list[OF assms] obtain ns' where ns: "mapE (pack_node m) ns = Inr ns'" "list_all2 packed ns' vs" by blast
  let ?r = "(fresh_map fmt ns)\<lparr>tr_wronly := True, tr_children := ns'\<rparr>"
  have "tpl_pack m (fresh_map fmt ns) = Inr ?r" using ns(1) by (simp add: tpl_pack_def fresh_map_def)
  then show ?thesis using dump_image[of ?r vs] ns(2) by (simp add: fresh_map_def)
qed

end
