(* ===== verification/Peer_Wire.thy ===== *)
theory Peer_Wire
  imports Raft_Types Tpl_Roundtrip
begin

section \<open>The peer protocol on the wire (main.c)\<close>

text \<open>
  The messages of \<^verbatim>\<open>src/src/main.c\<close> as the structures they are in memory, and what TPL makes of them. The
  formats name 64-bit fields (\<^verbatim>\<open>I\<close>), while the structures hold \<^verbatim>\<open>int\<close>s: a message is sent as its first
  bytes, two fields at a time, padding and pointers included. \<^verbatim>\<open>msg_t\<close> is 440 bytes: \<^verbatim>\<open>type\<close> at 0, the union
  at 8 (it holds a pointer), \<^verbatim>\<open>padding\<close> at 40. A \<^verbatim>\<open>raft_entry_t\<close> is 32 bytes: \<^verbatim>\<open>term\<close>, \<^verbatim>\<open>id\<close>, \<^verbatim>\<open>type\<close>, 4 bytes of
  padding, \<^verbatim>\<open>data.buf\<close>, \<^verbatim>\<open>data.len\<close>. Local variables get fixed addresses.
\<close>

type_synonym host = "byte list"

subsection \<open>Messages\<close>

record msg_handshake =
  hs_raft_port :: int
  hs_http_port :: int
  hs_node_id :: int

record msg_handshake_response =
  hsr_success :: int
  hsr_leader_port :: int
  hsr_http_port :: int
  hsr_node_id :: int
  hsr_leader_host :: host

text \<open>A message with its union member. \<open>ENTRY_PAYLOAD\<close> is the second image an append-entries message
  with entries consists of.\<close>

datatype peer_msg =
    MSG_HANDSHAKE msg_handshake
  | MSG_HANDSHAKE_RESPONSE msg_handshake_response
  | MSG_LEAVE
  | MSG_LEAVE_RESPONSE
  | MSG_REQUESTVOTE msg_requestvote
  | MSG_REQUESTVOTE_RESPONSE msg_requestvote_response
  | MSG_APPENDENTRIES msg_appendentries
  | MSG_APPENDENTRIES_RESPONSE msg_appendentries_response
  | ENTRY_PAYLOAD raft_entry
  | MSG_UNKNOWN

subsection \<open>Structures in memory\<close>

definition RAFT_BUFLEN :: nat where "RAFT_BUFLEN = 512"

definition msg_addr :: nat where "msg_addr = 8"
definition bin_addr :: nat where "bin_addr = 456"
definition data_addr :: nat where "data_addr = 480"

fun msg_type :: "peer_msg \<Rightarrow> int" where
  "msg_type (MSG_HANDSHAKE _) = 0"
| "msg_type (MSG_HANDSHAKE_RESPONSE _) = 1"
| "msg_type MSG_LEAVE = 2"
| "msg_type MSG_LEAVE_RESPONSE = 3"
| "msg_type (MSG_REQUESTVOTE _) = 4"
| "msg_type (MSG_REQUESTVOTE_RESPONSE _) = 5"
| "msg_type (MSG_APPENDENTRIES _) = 6"
| "msg_type (MSG_APPENDENTRIES_RESPONSE _) = 7"
| "msg_type _ = 8"

fun msg_union :: "peer_msg \<Rightarrow> byte list" where
  "msg_union (MSG_HANDSHAKE hs) = int_bytes (hs_raft_port hs) @ int_bytes (hs_http_port hs) @ int_bytes (hs_node_id hs)"
| "msg_union (MSG_HANDSHAKE_RESPONSE hsr) =
     int_bytes (hsr_success hsr) @ int_bytes (hsr_leader_port hsr) @ int_bytes (hsr_http_port hsr) @
     int_bytes (hsr_node_id hsr) @ hsr_leader_host hsr"
| "msg_union (MSG_REQUESTVOTE rv) =
     int_bytes (rv_term rv) @ int_bytes (rv_candidate_id rv) @ int_bytes (rv_last_log_idx rv) @
     int_bytes (rv_last_log_term rv)"
| "msg_union (MSG_REQUESTVOTE_RESPONSE rvr) = int_bytes (rvr_term rvr) @ int_bytes (rvr_vote_granted rvr)"
| "msg_union (MSG_APPENDENTRIES ae) =
     int_bytes (ae_term ae) @ int_bytes (ae_prev_log_idx ae) @ int_bytes (ae_prev_log_term ae) @
     int_bytes (ae_leader_commit ae) @ int_bytes (ae_n_entries ae)"
| "msg_union (MSG_APPENDENTRIES_RESPONSE aer) =
     int_bytes (aer_term aer) @ int_bytes (aer_success aer) @ int_bytes (aer_current_idx aer) @
     int_bytes (aer_first_idx aer)"
| "msg_union _ = []"

text \<open>\<^verbatim>\<open>msg_t msg = {}\<close> with its fields assigned; \<^verbatim>\<open>ae.entries\<close> stays \<^verbatim>\<open>NULL\<close>.\<close>

definition msg_bytes :: "peer_msg \<Rightarrow> byte list" where
  "msg_bytes m = int_bytes (msg_type m) @ replicate 4 0 @ msg_union m @ replicate (432 - length (msg_union m)) 0"

definition entry_bytes :: "byte list \<Rightarrow> nat \<Rightarrow> raft_entry \<Rightarrow> byte list" where
  "entry_bytes pad buf e =
     u32_bytes (ety_term e) @ u32_bytes (ety_id e) @ int_bytes (ety_type e) @ pad @ ptr_bytes buf @
     u32_bytes (of_nat (length (ety_data e))) @ pad"

text \<open>Reading them: the member the type selects. The host of a handshake response is only read when the
  peer is redirected.\<close>

definition msg_int :: "byte list \<Rightarrow> nat \<Rightarrow> fault + int" where
  "msg_int bs i = bytes_int (drop (8 + 4 * i) bs)"

definition msg_host :: "byte list \<Rightarrow> int \<Rightarrow> int \<Rightarrow> fault + host" where
  "msg_host bs success leader_port =
     (if success \<noteq> 0 \<or> leader_port = 0 then Inr (takeWhile (\<lambda>b. b \<noteq> 0) (drop 24 bs))
      else if 0 \<in> set (drop 24 bs) then Inr (takeWhile (\<lambda>b. b \<noteq> 0) (drop 24 bs))
      else Inl Out_of_bounds)"

definition msg_of_bytes :: "byte list \<Rightarrow> fault + peer_msg" where
  "msg_of_bytes bs =
     bindE (bytes_int bs) (\<lambda>t.
     bindE (msg_int bs 0) (\<lambda>a.
     bindE (msg_int bs 1) (\<lambda>b.
     bindE (msg_int bs 2) (\<lambda>c.
     bindE (msg_int bs 3) (\<lambda>d.
     bindE (msg_int bs 4) (\<lambda>e.
     if t = 0 then Inr (MSG_HANDSHAKE \<lparr>hs_raft_port = a, hs_http_port = b, hs_node_id = c\<rparr>)
     else if t = 1
     then
       bindE (msg_host bs a b) (\<lambda>h.
       Inr (MSG_HANDSHAKE_RESPONSE \<lparr>hsr_success = a, hsr_leader_port = b, hsr_http_port = c, hsr_node_id = d, hsr_leader_host = h\<rparr>))
     else if t = 2 then Inr MSG_LEAVE
     else if t = 3 then Inr MSG_LEAVE_RESPONSE
     else if t = 4
     then Inr (MSG_REQUESTVOTE \<lparr>rv_term = a, rv_candidate_id = b, rv_last_log_idx = c, rv_last_log_term = d\<rparr>)
     else if t = 5 then Inr (MSG_REQUESTVOTE_RESPONSE \<lparr>rvr_term = a, rvr_vote_granted = b\<rparr>)
     else if t = 6
     then Inr (MSG_APPENDENTRIES \<lparr>ae_term = a, ae_prev_log_idx = b, ae_prev_log_term = c, ae_leader_commit = d,
                ae_n_entries = e, ae_entries = []\<rparr>)
     else if t = 7
     then Inr (MSG_APPENDENTRIES_RESPONSE \<lparr>aer_term = a, aer_success = b, aer_current_idx = c, aer_first_idx = d\<rparr>)
     else Inr MSG_UNKNOWN))))))"

subsection \<open>Sending\<close>

text \<open>The formats of the calls of \<^verbatim>\<open>tpl_map\<close>.\<close>

fun msg_fmt :: "peer_msg \<Rightarrow> byte list" where
  "msg_fmt (MSG_HANDSHAKE_RESPONSE _) = map fmt_char ''S(I$(IIIIs))''"
| "msg_fmt (MSG_REQUESTVOTE_RESPONSE _) = map fmt_char ''S(I$(II))''"
| "msg_fmt (MSG_APPENDENTRIES _) = map fmt_char ''S(I$(IIIII))''"
| "msg_fmt MSG_LEAVE = map fmt_char ''S(I)''"
| "msg_fmt MSG_LEAVE_RESPONSE = map fmt_char ''S(I)''"
| "msg_fmt _ = map fmt_char ''S(I$(IIII))''"

definition peer_msg_serialize :: "memory \<Rightarrow> tpl_root option \<Rightarrow> fault + byte list" where
  "peer_msg_serialize m tn =
     (case tn of
        None \<Rightarrow> Inl Null_deref
      | Some tn \<Rightarrow>
          bindE (tpl_pack m tn) (\<lambda>tn.
          bindE (tpl_dump_getsize tn) (\<lambda>_.
          bindE (tpl_dump_prealloc RAFT_BUFLEN tn) (\<lambda>(e, data).
          if e \<noteq> 0 then Inl Out_of_bounds else Inr data))))"

definition msg_wire :: "peer_msg \<Rightarrow> fault + byte list" where
  "msg_wire m = bindE (tpl_map (Some (msg_fmt m)) [msg_addr]) (peer_msg_serialize [(msg_addr, msg_bytes m)])"

text \<open>The payload of \<^verbatim>\<open>raft_send_appendentries_cb\<close>, dumped behind the \<open>used\<close> bytes of the message, but with the
  size of the whole buffer.\<close>

definition payload_map :: "fault + tpl_root option" where
  "payload_map = tpl_map (Some (map fmt_char ''IIIB'')) [msg_addr + 4, msg_addr, msg_addr + 8, bin_addr]"

definition payload_wire :: "byte list \<Rightarrow> nat \<Rightarrow> raft_entry \<Rightarrow> fault + byte list" where
  "payload_wire pad used e =
     (let m = [(msg_addr, entry_bytes pad data_addr e),
               (bin_addr, ptr_bytes data_addr @ u32_bytes (of_nat (length (ety_data e))) @ pad),
               (data_addr, ety_data e)] in
      bindE payload_map (\<lambda>tn.
      case tn of
        None \<Rightarrow> Inl Null_deref
      | Some tn \<Rightarrow>
          bindE (tpl_pack m tn) (\<lambda>tn.
          bindE (tpl_dump_getsize tn) (\<lambda>_.
          bindE (tpl_dump_prealloc RAFT_BUFLEN tn) (\<lambda>(e, data).
          bindE (assertE (0 = e)) (\<lambda>_.
          if RAFT_BUFLEN < used + length data then Inl Out_of_bounds else Inr data))))))"

text \<open>The metadata of an entry for the log on disk.\<close>

definition entry_meta :: "byte list \<Rightarrow> nat \<Rightarrow> raft_entry \<Rightarrow> fault + byte list" where
  "entry_meta pad buf e =
     bindE (tpl_map (Some (map fmt_char ''S(III)'')) [msg_addr]) (peer_msg_serialize [(msg_addr, entry_bytes pad buf e)])"

subsection \<open>Receiving\<close>

text \<open>\<^verbatim>\<open>tpl_map(tpl_peek(...), ...)\<close>, \<^verbatim>\<open>tpl_load\<close>, \<^verbatim>\<open>tpl_unpack\<close>, their results ignored.\<close>

definition tpl_receive :: "byte list \<Rightarrow> nat list \<Rightarrow> memory \<Rightarrow> fault + memory" where
  "tpl_receive img args m =
     bindE (tpl_peek img) (\<lambda>fmt.
     bindE (tpl_map fmt args) (\<lambda>tn.
     case tn of
       None \<Rightarrow> Inl Null_deref
     | Some tn \<Rightarrow>
         bindE (tpl_load img tn) (\<lambda>(_, tn).
         bindE (tpl_unpack tn m) (\<lambda>(_, _, m).
         Inr m))))"

text \<open>\<open>junk\<close> is what the uninitialised local variable held.\<close>

definition deserialize_msg :: "byte list \<Rightarrow> byte list \<Rightarrow> fault + peer_msg" where
  "deserialize_msg junk img =
     bindE (tpl_receive img [msg_addr] [(msg_addr, junk)]) (\<lambda>m.
     bindE (mem_read m msg_addr 440) msg_of_bytes)"

definition entry_of_bytes :: "byte list \<Rightarrow> byte list \<Rightarrow> fault + raft_entry" where
  "entry_of_bytes bs data =
     bindE (bytes_u32 bs) (\<lambda>trm.
     bindE (bytes_u32 (drop 4 bs)) (\<lambda>eid.
     bindE (bytes_int (drop 8 bs)) (\<lambda>ty.
     Inr \<lparr>ety_term = trm, ety_id = eid, ety_type = ty, ety_data = data\<rparr>)))"

definition deserialize_appendentries_payload :: "byte list \<Rightarrow> byte list \<Rightarrow> fault + raft_entry" where
  "deserialize_appendentries_payload junk img =
     bindE (tpl_receive img [msg_addr + 4, msg_addr, msg_addr + 8, bin_addr]
              [(msg_addr, take 32 junk), (bin_addr, take 16 junk)]) (\<lambda>m.
     bindE (mem_read m msg_addr 32) (\<lambda>out.
     bindE (mem_read m bin_addr 8) (\<lambda>p.
     bindE (mem_read m (bin_addr + 8) 4) (\<lambda>l.
     bindE (bytes_u32 l) (\<lambda>len.
     bindE (if len = 0 then Inr [] else mem_read m (bytes_ptr p) (unat len)) (entry_of_bytes out))))))"

definition load_meta :: "byte list \<Rightarrow> byte list \<Rightarrow> raft_entry \<Rightarrow> fault + raft_entry" where
  "load_meta junk img ety =
     bindE (tpl_receive img [msg_addr] [(msg_addr, entry_bytes (take 4 junk) 0 ety)]) (\<lambda>m.
     bindE (mem_read m msg_addr 32) (\<lambda>bs. entry_of_bytes bs (ety_data ety)))"

end
