(* ===== verification/C_Strings.thy ===== *)
theory C_Strings
  imports Ticketd_Prelude
begin

section \<open>Strings of the C library\<close>

text \<open>
  What the command line code uses of the C library: reading a string up to its 0, \<^verbatim>\<open>atoi\<close>, and \<^verbatim>\<open>%d\<close>. A
  string argument is the list of its characters without the 0. The value of \<^verbatim>\<open>atoi\<close> is only defined
  where it fits an \<^verbatim>\<open>int\<close>.
\<close>

definition digit :: "byte \<Rightarrow> bool" where
  "digit b \<longleftrightarrow> 48 \<le> sint b \<and> sint b \<le> 57"

definition isspace :: "byte \<Rightarrow> bool" where
  "isspace b \<longleftrightarrow> b = 32 \<or> 9 \<le> sint b \<and> sint b \<le> 13"

definition digits_val :: "byte list \<Rightarrow> int" where
  "digits_val ds = foldl (\<lambda>n d. 10 * n + (sint d - 48)) 0 ds"

definition atoi :: "byte list \<Rightarrow> int" where
  "atoi s =
     (case dropWhile isspace s of
        [] \<Rightarrow> 0
      | b # t \<Rightarrow>
          if b = 45 then - digits_val (takeWhile digit t)
          else if b = 43 then digits_val (takeWhile digit t)
          else digits_val (takeWhile digit (b # t)))"

fun dec_digits :: "nat \<Rightarrow> byte list" where
  "dec_digits n = (if n < 10 then [of_nat (48 + n)] else dec_digits (n div 10) @ [of_nat (48 + n mod 10)])"

declare dec_digits.simps [simp del]

text \<open>\<^verbatim>\<open>snprintf(buf, size, "%d", n)\<close>\<close>

definition dec_str :: "nat \<Rightarrow> int \<Rightarrow> byte list" where
  "dec_str sz n = take (sz - 1) ((if n < 0 then [45] else []) @ dec_digits (nat \<bar>n\<bar>))"

text \<open>The string at offset \<open>p\<close> of some memory.\<close>

definition c_str :: "byte list \<Rightarrow> int \<Rightarrow> fault + byte list" where
  "c_str mem p =
     (if 0 \<le> p \<and> 0 \<in> set (drop (nat p) mem) then Inr (takeWhile (\<lambda>b. b \<noteq> 0) (drop (nat p) mem))
      else Inl Out_of_bounds)"

lemma takeWhile_zero: "0 \<notin> set s \<Longrightarrow> takeWhile (\<lambda>b. b \<noteq> 0) (s @ 0 # r) = s" for s :: "byte list"
  by (induction s) auto

lemma c_str_at:
  "nat p = length pre \<Longrightarrow> 0 \<le> p \<Longrightarrow> 0 \<notin> set s \<Longrightarrow> c_str (pre @ s @ 0 # r) p = Inr s"
  by (simp add: c_str_def takeWhile_zero)

subsection \<open>Reading back what was printed\<close>

lemma sint_byte_small: "n < 128 \<Longrightarrow> sint (of_nat n :: byte) = int n"
  by (simp add: signed_of_nat signed_take_bit_int_eq_self_iff take_bit_int_eq_self)

lemma dec_digits_digit: "list_all digit (dec_digits n)"
proof (induction n rule: dec_digits.induct)
  case (1 n)
  have "digit (of_nat (48 + k))" if "k < 10" for k
    using that by (simp only: digit_def sint_byte_small) simp
  with 1 show ?case by (subst dec_digits.simps) (simp del: of_nat_add)
qed

lemma dec_digits_val: "digits_val (dec_digits n) = int n"
proof (induction n rule: dec_digits.induct)
  case (1 n)
  have d: "sint (of_nat (48 + k) :: byte) = 48 + int k" if "k < 10" for k
    using sint_byte_small[of "48 + k"] that by simp
  show ?case
  proof (cases "n < 10")
    case True
    then show ?thesis using d[of n] by (subst dec_digits.simps) (simp add: digits_val_def del: of_nat_add)
  next
    case False
    have "int n = 10 * int (n div 10) + int (n mod 10)" by presburger
    then show ?thesis using 1 False d[of "n mod 10"]
      by (subst dec_digits.simps) (simp add: digits_val_def del: of_nat_add)
  qed
qed

lemma digit_plain: "digit b \<Longrightarrow> \<not> isspace b \<and> b \<noteq> 45 \<and> b \<noteq> 43 \<and> b \<noteq> 0"
  by (auto simp: digit_def isspace_def)

lemma atoi_digits: "list_all digit ds \<Longrightarrow> atoi (ds @ rest) = digits_val (ds @ takeWhile digit rest)" if "ds \<noteq> []"
  using that by (cases ds) (auto simp: atoi_def digit_plain list_all_iff takeWhile_append2)

lemma dec_digits_nonempty: "dec_digits n \<noteq> []"
  by (subst dec_digits.simps) simp

lemma atoi_dec_digits: "atoi (dec_digits n) = int n"
  using atoi_digits[OF dec_digits_nonempty dec_digits_digit, of n "[]"] by (simp add: dec_digits_val)

end
