(* ===== verification/Wire_Roundtrip.thy ===== *)
theory Wire_Roundtrip
  imports Peer_Wire C_Strings
begin

section \<open>Messages survive the wire\<close>

text \<open>
  Sending a message and reading its image gives the message back, for every message the server
  sends, whatever the uninitialised variable it is read into held before. The 64-bit fields of a
  format copy the structure 8 bytes at a time (\<open>i64_nodes\<close>, \<open>i64_vals\<close>).
\<close>

subsection \<open>Consecutive 64-bit fields\<close>

definition i64_nodes :: "nat \<Rightarrow> nat \<Rightarrow> tpl_node list" where
  "i64_nodes a k = map (\<lambda>i. Tpl_Node TPL_TYPE_INT64 (a + 8 * i) D_undef []) [0..<k]"

definition i64_vals :: "byte list \<Rightarrow> nat \<Rightarrow> field_val list" where
  "i64_vals bs k = map (\<lambda>i. V_num (take 8 (drop (8 * i) bs))) [0..<k]"

lemma i64_read:
  assumes "8 * k \<le> length bs"
  shows "list_all2 (read_val ((a, bs) # m)) (i64_nodes a k) (i64_vals bs k)"
  using assms by (auto simp: list_all2_conv_all_nth i64_nodes_def i64_vals_def read_val_def)

lemma i64_bytes:
  assumes "8 * k \<le> length bs"
  shows "vals_bytes (i64_vals bs k) = take (8 * k) bs"
  using assms
proof (induction k)
  case (Suc k)
  have "take (8 * Suc k) bs = take (8 * k) bs @ take 8 (drop (8 * k) bs)"
    using take_add[of "8 * k" 8 bs] by (simp add: add.commute)
  then show ?case using Suc by (simp add: i64_vals_def)
qed (simp add: i64_vals_def)

lemma i64_store:
  assumes "8 * k \<le> length bs" "8 * k \<le> length old"
  shows "foldE store_val (zip (map tn_addr (i64_nodes a k)) (i64_vals bs k)) ((a, old) # m) =
    Inr ((a, take (8 * k) bs @ drop (8 * k) old) # m)"
  using assms
proof (induction k)
  case (Suc k)
  have z: "zip (map tn_addr (i64_nodes a (Suc k))) (i64_vals bs (Suc k)) =
      zip (map tn_addr (i64_nodes a k)) (i64_vals bs k) @ [(a + 8 * k, V_num (take 8 (drop (8 * k) bs)))]"
    by (simp add: i64_nodes_def i64_vals_def)
  obtain c where c: "c = take 8 (drop (8 * k) bs)" "length c = 8" using Suc.prems by simp
  have "take (8 * Suc k) bs = take (8 * k) bs @ c"
    using take_add[of "8 * k" 8 bs] c(1) by (simp add: add.commute)
  then show ?case using Suc c(2) unfolding z foldE_append c(1)[symmetric] by (simp add: drop_drop)
qed (simp add: i64_nodes_def i64_vals_def)

lemma i64_fields: "8 * k \<le> length bs \<Longrightarrow> fields_match (i64_nodes a k) (i64_vals bs k)"
  using pack_fields[OF i64_read[of k bs a "[]"]] .

lemma i64_types: "tn_type ` set (i64_nodes a k) \<subseteq> {TPL_TYPE_INT64}"
  by (auto simp: i64_nodes_def)

subsection \<open>Sending and receiving through maps of one format\<close>

lemma serialize_image:
  assumes "list_all2 (read_val m) ns vs" "length (image_of fmt vs) \<le> RAFT_BUFLEN"
  shows "peer_msg_serialize m (Some (fresh_map fmt ns)) = Inr (image_of fmt vs)"
proof -
  obtain r where "tpl_pack m (fresh_map fmt ns) = Inr r" "tpl_dump_getsize r = Inr (0, Some (length (image_of fmt vs)))"
    "tpl_dump_prealloc RAFT_BUFLEN r = Inr (0, image_of fmt vs)"
    using pack_dump[OF assms(1), of fmt RAFT_BUFLEN] assms(2) by auto
  then show ?thesis by (simp add: peer_msg_serialize_def)
qed

lemma receive_image:
  assumes "fmt_ok fmt" "fields_match ns vs" "TPL_TYPE_STR \<in> tn_type ` set ns \<longrightarrow> fmt_char CHR ''s'' \<in> set fmt"
    "length (image_of fmt vs) < 2 ^ 32" "tpl_map (Some fmt) args = Inr (Some (fresh_map fmt ns))"
  shows "tpl_receive (image_of fmt vs) args m = foldE store_val (zip (map tn_addr ns) vs) m"
proof -
  have "tpl_peek (image_of fmt vs) = Inr (Some fmt)" by (rule peek_image[OF assms(4,1)])
  moreover have "tpl_load (image_of fmt vs) (fresh_map fmt ns) = Inr (0, loaded_map fmt ns (image_of fmt vs))"
    by (rule load_image[OF assms(1-4)])
  moreover have "tpl_unpack (loaded_map fmt ns (image_of fmt vs)) m =
      bindE (foldE store_val (zip (map tn_addr ns) vs) m) (\<lambda>m. Inr (1, loaded_map fmt ns (image_of fmt vs), m))"
    by (rule unpack_image[OF assms(1,2)])
  ultimately show ?thesis using assms(5)
    by (cases "foldE store_val (zip (map tn_addr ns) vs) m") (simp_all add: tpl_receive_def)
qed

subsection \<open>The formats of the server\<close>

definition i64_fmts :: "(byte list \<times> nat) list" where
  "i64_fmts = [(map fmt_char ''S(I)'', 1), (map fmt_char ''S(III)'', 3), (map fmt_char ''S(I$(II))'', 3), (map fmt_char ''S(I$(IIII))'', 5),
     (map fmt_char ''S(I$(IIIII))'', 6)]"

lemma i64_maps:
  "(fmt, k) \<in> set i64_fmts \<Longrightarrow> tpl_map (Some fmt) [msg_addr] = Inr (Some (fresh_map fmt (i64_nodes msg_addr k)))"
  "(fmt, k) \<in> set i64_fmts \<Longrightarrow> fmt_ok fmt \<and> length fmt < 20 \<and> k \<le> 6 \<and> fmt_char CHR ''s'' \<notin> set fmt"
proof -
  have "list_all (\<lambda>(fmt, k). tpl_map (Some fmt) [msg_addr] = Inr (Some (fresh_map fmt (i64_nodes msg_addr k)))) i64_fmts"
    by code_simp
  then show "(fmt, k) \<in> set i64_fmts \<Longrightarrow> tpl_map (Some fmt) [msg_addr] = Inr (Some (fresh_map fmt (i64_nodes msg_addr k)))"
    by (auto simp: list_all_iff)
  have "list_all (\<lambda>(fmt, k). fmt_ok fmt \<and> length fmt < 20 \<and> k \<le> 6 \<and> fmt_char CHR ''s'' \<notin> set fmt) i64_fmts" by code_simp
  then show "(fmt, k) \<in> set i64_fmts \<Longrightarrow> fmt_ok fmt \<and> length fmt < 20 \<and> k \<le> 6 \<and> fmt_char CHR ''s'' \<notin> set fmt"
    by (auto simp: list_all_iff)
qed

text \<open>A structure sent with one of these formats arrives with its first \<open>8 k\<close> bytes.\<close>

lemma i64_transfer:
  assumes "(fmt, k) \<in> set i64_fmts" "8 * k \<le> length bs" "8 * k \<le> length old"
  shows "bindE (tpl_map (Some fmt) [msg_addr]) (peer_msg_serialize ((msg_addr, bs) # m)) = Inr (image_of fmt (i64_vals bs k))"
    "tpl_receive (image_of fmt (i64_vals bs k)) [msg_addr] [(msg_addr, old)] =
      Inr [(msg_addr, take (8 * k) bs @ drop (8 * k) old)]"
    "length (image_of fmt (i64_vals bs k)) = 9 + length fmt + 8 * k"
proof -
  note f = i64_maps[OF assms(1)]
  show len: "length (image_of fmt (i64_vals bs k)) = 9 + length fmt + 8 * k"
    using assms(2) by (simp only: length_image_of i64_bytes[OF assms(2)]) simp
  have "length (image_of fmt (i64_vals bs k)) \<le> RAFT_BUFLEN" using f(2) unfolding len RAFT_BUFLEN_def by linarith
  from serialize_image[OF i64_read[OF assms(2)] this]
  show "bindE (tpl_map (Some fmt) [msg_addr]) (peer_msg_serialize ((msg_addr, bs) # m)) = Inr (image_of fmt (i64_vals bs k))"
    by (simp add: f(1))
  have small: "length (image_of fmt (i64_vals bs k)) < 2 ^ 32" using f(2) unfolding len by simp
  have "TPL_TYPE_STR \<notin> tn_type ` set (i64_nodes msg_addr k)" using i64_types[of msg_addr k] by auto
  then have "tpl_receive (image_of fmt (i64_vals bs k)) [msg_addr] [(msg_addr, old)] =
      foldE store_val (zip (map tn_addr (i64_nodes msg_addr k)) (i64_vals bs k)) [(msg_addr, old)]"
    using f small by (intro receive_image i64_fields assms(2)) auto
  also have "\<dots> = Inr [(msg_addr, take (8 * k) bs @ drop (8 * k) old)]" by (rule i64_store[OF assms(2,3)])
  finally show "tpl_receive (image_of fmt (i64_vals bs k)) [msg_addr] [(msg_addr, old)] =
      Inr [(msg_addr, take (8 * k) bs @ drop (8 * k) old)]" .
qed


subsection \<open>Messages\<close>

text \<open>What the server sends: every field an \<^verbatim>\<open>int\<close>, the host a string that fits its field.\<close>

fun msg_ok :: "peer_msg \<Rightarrow> bool" where
  "msg_ok (MSG_HANDSHAKE hs) \<longleftrightarrow> c_int (hs_raft_port hs) \<and> c_int (hs_http_port hs) \<and> c_int (hs_node_id hs)"
| "msg_ok (MSG_HANDSHAKE_RESPONSE hsr) \<longleftrightarrow>
     c_int (hsr_success hsr) \<and> c_int (hsr_leader_port hsr) \<and> c_int (hsr_http_port hsr) \<and> c_int (hsr_node_id hsr) \<and>
     0 \<notin> set (hsr_leader_host hsr) \<and> length (hsr_leader_host hsr) \<le> 14"
| "msg_ok (MSG_REQUESTVOTE rv) \<longleftrightarrow>
     c_int (rv_term rv) \<and> c_int (rv_candidate_id rv) \<and> c_int (rv_last_log_idx rv) \<and> c_int (rv_last_log_term rv)"
| "msg_ok (MSG_REQUESTVOTE_RESPONSE rvr) \<longleftrightarrow> c_int (rvr_term rvr) \<and> c_int (rvr_vote_granted rvr)"
| "msg_ok (MSG_APPENDENTRIES ae) \<longleftrightarrow>
     c_int (ae_term ae) \<and> c_int (ae_prev_log_idx ae) \<and> c_int (ae_prev_log_term ae) \<and> c_int (ae_leader_commit ae) \<and>
     c_int (ae_n_entries ae) \<and> ae_entries ae = []"
| "msg_ok (MSG_APPENDENTRIES_RESPONSE aer) \<longleftrightarrow>
     c_int (aer_term aer) \<and> c_int (aer_success aer) \<and> c_int (aer_current_idx aer) \<and> c_int (aer_first_idx aer)"
| "msg_ok MSG_LEAVE \<longleftrightarrow> True"
| "msg_ok MSG_LEAVE_RESPONSE \<longleftrightarrow> True"
| "msg_ok _ \<longleftrightarrow> False"

lemma bytes_int_ex: "4 \<le> length bs \<Longrightarrow> \<exists>i. bytes_int bs = Inr i"
  by (auto simp: bytes_int_def numeral_eq_Suc Suc_le_length_iff split: list.splits)

lemma msg_ints:
  assumes "length bs = 440"
  obtains a b c d e where "msg_int bs 0 = Inr a" "msg_int bs 1 = Inr b" "msg_int bs 2 = Inr c"
    "msg_int bs 3 = Inr d" "msg_int bs 4 = Inr e"
proof -
  have "\<exists>i. msg_int bs k = Inr i" if "k \<le> 4" for k
    unfolding msg_int_def by (rule bytes_int_ex) (use assms that in simp)
  from this[of 0] this[of 1] this[of 2] this[of 3] this[of 4] show thesis using that by auto
qed

lemma msg_of_bytes_fields:
  assumes "msg_ok m" "length bs = 440" "bs = int_bytes (msg_type m) @ replicate 4 0 @ msg_union m @ z"
    "\<And>hsr. m = MSG_HANDSHAKE_RESPONSE hsr \<Longrightarrow> \<exists>z'. z = 0 # z'"
  shows "msg_of_bytes bs = Inr m"
proof -
  obtain a b c d e where i: "msg_int bs 0 = Inr a" "msg_int bs 1 = Inr b" "msg_int bs 2 = Inr c"
    "msg_int bs 3 = Inr d" "msg_int bs 4 = Inr e" by (rule msg_ints[OF assms(2)])
  have t: "bytes_int bs = Inr (msg_type m)"
    unfolding assms(3) by (rule bytes_int_roundtrip) (cases m; simp add: c_int_def)
  have u: "msg_int bs k = bytes_int (drop (4 * k) (msg_union m @ z))" for k
    unfolding assms(3) msg_int_def by simp
  show ?thesis
  proof (cases m)
    case (MSG_HANDSHAKE_RESPONSE hsr)
    then obtain z' where z': "z = 0 # z'" using assms(4) by blast
    have "drop 24 bs = hsr_leader_host hsr @ 0 # z'" using assms(3) MSG_HANDSHAKE_RESPONSE z' by simp
    then have "msg_host bs a b = Inr (hsr_leader_host hsr)"
      using assms(1) MSG_HANDSHAKE_RESPONSE by (simp add: msg_host_def takeWhile_zero)
    then show ?thesis using t i assms(1) MSG_HANDSHAKE_RESPONSE
      by (simp add: msg_of_bytes_def u bytes_int_roundtrip)
  qed (use t i assms(1) in \<open>simp_all add: msg_of_bytes_def u bytes_int_roundtrip\<close>)
qed


text \<open>How many of the 64-bit fields a message is sent as.\<close>

fun msg_i64s :: "peer_msg \<Rightarrow> nat" where
  "msg_i64s (MSG_HANDSHAKE_RESPONSE _) = 5"
| "msg_i64s (MSG_REQUESTVOTE_RESPONSE _) = 3"
| "msg_i64s (MSG_APPENDENTRIES _) = 6"
| "msg_i64s MSG_LEAVE = 1"
| "msg_i64s MSG_LEAVE_RESPONSE = 1"
| "msg_i64s _ = 5"

lemma msg_union_fits: "msg_ok m \<Longrightarrow> 8 + length (msg_union m) \<le> 8 * msg_i64s m"
  by (cases m) auto

lemma length_msg_bytes: "msg_ok m \<Longrightarrow> length (msg_bytes m) = 440"
  using msg_union_fits[of m] by (cases m) (auto simp: msg_bytes_def)

text \<open>The copied part of the structure holds the whole message.\<close>

lemma msg_of_copy:
  assumes "msg_ok m" "length old = 440"
    "bs = take (8 * msg_i64s m) (msg_bytes m) @ drop (8 * msg_i64s m) old"
  shows "msg_of_bytes bs = Inr m"
proof (rule msg_of_bytes_fields[OF assms(1)])
  let ?n = "8 * msg_i64s m" and ?u = "msg_union m"
  let ?z = "replicate (?n - 8 - length ?u) 0 @ drop ?n old"
  have n: "8 + length ?u \<le> ?n" "?n \<le> 440" using msg_union_fits[OF assms(1)] by (auto intro: msg_i64s.cases[of m])
  have "min (?n - (8 + length ?u)) (432 - length ?u) = ?n - 8 - length ?u" using n by simp
  then have "take ?n (msg_bytes m) = int_bytes (msg_type m) @ replicate 4 0 @ ?u @ replicate (?n - 8 - length ?u) 0"
    using n by (simp add: msg_bytes_def)
  then show "bs = int_bytes (msg_type m) @ replicate 4 0 @ ?u @ ?z" using assms(3) by simp
  show "length bs = 440" using assms n length_msg_bytes[OF assms(1)] by simp
  show "\<exists>z'. ?z = 0 # z'" if "m = MSG_HANDSHAKE_RESPONSE hsr" for hsr
    using assms(1) that by (cases "40 - 8 - length ?u") auto
qed

definition hsr_nodes :: "tpl_node list" where
  "hsr_nodes = i64_nodes msg_addr 5 @ [Tpl_Node TPL_TYPE_STR (msg_addr + 40) (D_str None) []]"

definition hsr_vals :: "byte list \<Rightarrow> field_val list" where
  "hsr_vals bs = i64_vals bs 5 @ [V_str None]"

lemma hsr_map:
  "tpl_map (Some (map fmt_char ''S(I$(IIIIs))'')) [msg_addr] = Inr (Some (fresh_map (map fmt_char ''S(I$(IIIIs))'') hsr_nodes))"
  "fmt_ok (map fmt_char ''S(I$(IIIIs))'')" "fmt_char CHR ''s'' \<in> set (map fmt_char ''S(I$(IIIIs))'')"
  by code_simp+

definition msg_image :: "peer_msg \<Rightarrow> byte list" where
  "msg_image m =
     image_of (msg_fmt m)
       (case m of MSG_HANDSHAKE_RESPONSE _ \<Rightarrow> hsr_vals (msg_bytes m) | _ \<Rightarrow> i64_vals (msg_bytes m) (msg_i64s m))"

lemma hsr_transfer:
  assumes "m = MSG_HANDSHAKE_RESPONSE hsr" "msg_ok m" "length old = 440"
  shows "msg_wire m = Inr (msg_image m)" "length (msg_image m) = 65"
    "tpl_receive (msg_image m) [msg_addr] [(msg_addr, old)] =
      Inr [(msg_addr, take 40 (msg_bytes m) @ ptr_bytes 0 @ drop 48 old)]"
proof -
  let ?bs = "msg_bytes m" and ?fmt = "map fmt_char ''S(I$(IIIIs))''"
  have bs: "length ?bs = 440" by (rule length_msg_bytes[OF assms(2)])
  have img: "msg_image m = image_of ?fmt (hsr_vals ?bs)" using assms(1) by (simp add: msg_image_def)
  have "vals_bytes (hsr_vals ?bs) = take 40 ?bs @ u32_bytes 0" using i64_bytes[of 5 ?bs] bs by (simp add: hsr_vals_def)
  then show len: "length (msg_image m) = 65" using bs by (simp only: img length_image_of) simp
  have p: "take 8 (drop 40 ?bs) = ptr_bytes 0"
  proof -
    have u: "length (msg_union m) \<le> 32" using assms(1,2) by simp
    have "drop 40 ?bs = replicate 400 0" using u by (simp add: msg_bytes_def)
    then show ?thesis by (simp add: ptr_bytes_def Let_def upt_rec numeral_eq_Suc)
  qed
  have "bytes_ptr (ptr_bytes 0) = 0" by code_simp
  then have "read_val [(msg_addr, ?bs)] (Tpl_Node TPL_TYPE_STR (msg_addr + 40) (D_str None) []) (V_str None)"
    using p bs by (simp add: read_val_def)
  then have rd: "list_all2 (read_val [(msg_addr, ?bs)]) hsr_nodes (hsr_vals ?bs)"
    unfolding hsr_nodes_def hsr_vals_def using i64_read[of 5 ?bs msg_addr "[]"] bs by (intro list_all2_appendI) simp_all
  have "peer_msg_serialize [(msg_addr, ?bs)] (Some (fresh_map ?fmt hsr_nodes)) = Inr (image_of ?fmt (hsr_vals ?bs))"
    by (rule serialize_image[OF rd]) (use len img in \<open>simp add: RAFT_BUFLEN_def\<close>)
  then show "msg_wire m = Inr (msg_image m)"
    using hsr_map(1) assms(1) by (simp add: msg_wire_def msg_image_def del: list.map)
  have "tpl_receive (msg_image m) [msg_addr] [(msg_addr, old)] =
      foldE store_val (zip (map tn_addr hsr_nodes) (hsr_vals ?bs)) [(msg_addr, old)]"
    unfolding img by (rule receive_image[OF hsr_map(2) pack_fields[OF rd] _ _ hsr_map(1)])
      (use len img hsr_map(3) in auto)
  also have "\<dots> = Inr [(msg_addr, take 40 ?bs @ ptr_bytes 0 @ drop 48 old)]"
    unfolding hsr_nodes_def hsr_vals_def
    using i64_store[of 5 ?bs old msg_addr "[]"] assms(3) bs
    by (simp add: zip_append foldE_append ptr_bytes_def Let_def i64_nodes_def i64_vals_def del: upt_Suc)
  finally show "tpl_receive (msg_image m) [msg_addr] [(msg_addr, old)] =
      Inr [(msg_addr, take 40 (msg_bytes m) @ ptr_bytes 0 @ drop 48 old)]" .
qed


lemma msg_fmt_i64: "msg_ok m \<Longrightarrow> (\<And>hsr. m \<noteq> MSG_HANDSHAKE_RESPONSE hsr) \<Longrightarrow> (msg_fmt m, msg_i64s m) \<in> set i64_fmts"
  by (cases m) (auto simp: i64_fmts_def)

lemma msg_wire_image:
  assumes "msg_ok m"
  shows "msg_wire m = Inr (msg_image m)" "tpl_image (msg_image m)" "length (msg_image m) \<le> 69"
proof -
  have bs: "length (msg_bytes m) = 440" by (rule length_msg_bytes[OF assms])
  have "msg_wire m = Inr (msg_image m) \<and> length (msg_image m) \<le> 69 \<and> (\<exists>vs. msg_image m = image_of (msg_fmt m) vs)"
  proof (cases "\<exists>hsr. m = MSG_HANDSHAKE_RESPONSE hsr")
    case True
    then obtain hsr where m: "m = MSG_HANDSHAKE_RESPONSE hsr" by blast
    have "\<exists>vs. msg_image m = image_of (msg_fmt m) vs" unfolding msg_image_def by blast
    then show ?thesis using hsr_transfer(1,2)[OF m assms bs] by simp
  next
    case False
    then have f: "(msg_fmt m, msg_i64s m) \<in> set i64_fmts" by (intro msg_fmt_i64[OF assms]) auto
    have img: "msg_image m = image_of (msg_fmt m) (i64_vals (msg_bytes m) (msg_i64s m))"
      using False by (auto simp: msg_image_def split: peer_msg.splits)
    have k: "8 * msg_i64s m \<le> length (msg_bytes m)" using i64_maps(2)[OF f] bs by simp
    have "length (msg_fmt m) + 8 * msg_i64s m \<le> 60" using f by (auto simp: i64_fmts_def)
    then show ?thesis using i64_transfer(1,3)[OF f k k] unfolding img msg_wire_def by auto
  qed
  then show "msg_wire m = Inr (msg_image m)" "length (msg_image m) \<le> 69" "tpl_image (msg_image m)"
    using tpl_image_of by fastforce+
qed

lemma msg_roundtrip:
  assumes "msg_ok m" "length junk = 440"
  shows "deserialize_msg junk (msg_image m) = Inr m"
proof -
  have bs: "length (msg_bytes m) = 440" by (rule length_msg_bytes[OF assms(1)])
  show ?thesis
  proof (cases "\<exists>hsr. m = MSG_HANDSHAKE_RESPONSE hsr")
    case True
    then obtain hsr where m: "m = MSG_HANDSHAKE_RESPONSE hsr" by blast
    let ?bs = "take 40 (msg_bytes m) @ ptr_bytes 0 @ drop 48 junk"
    have p: "length (ptr_bytes 0) = 8" by (simp add: ptr_bytes_def Let_def)
    have "msg_of_bytes ?bs = Inr m"
      by (rule msg_of_copy[OF assms(1), of "replicate 40 0 @ ptr_bytes 0 @ drop 48 junk"]) (use m p assms(2) in simp_all)
    then show ?thesis using hsr_transfer(3)[OF m assms] p bs assms(2) by (simp add: deserialize_msg_def)
  next
    case False
    then have f: "(msg_fmt m, msg_i64s m) \<in> set i64_fmts" by (intro msg_fmt_i64[OF assms(1)]) auto
    have img: "msg_image m = image_of (msg_fmt m) (i64_vals (msg_bytes m) (msg_i64s m))"
      using False by (auto simp: msg_image_def split: peer_msg.splits)
    have k: "8 * msg_i64s m \<le> length (msg_bytes m)" "8 * msg_i64s m \<le> length junk"
      using i64_maps(2)[OF f] bs assms(2) by simp_all
    show ?thesis using i64_transfer(2)[OF f k] msg_of_copy[OF assms refl] bs assms(2) k
      unfolding img deserialize_msg_def by simp
  qed
qed

subsection \<open>Entries\<close>

lemma length_ptr_bytes [simp]: "length (ptr_bytes a) = 8"
  by (simp add: ptr_bytes_def Let_def)

lemma length_entry_bytes: "length pad = 4 \<Longrightarrow> length (entry_bytes pad buf e) = 32"
  by (simp add: entry_bytes_def)

lemma entry_of_prefix:
  assumes "c_int (ety_type e)"
  shows "entry_of_bytes (u32_bytes (ety_term e) @ u32_bytes (ety_id e) @ int_bytes (ety_type e) @ z) data = Inr (e\<lparr>ety_data := data\<rparr>)"
proof -
  have w: "bytes_u32 (u32_bytes w @ x) = Inr w" for w x
    by (simp add: bytes_u32_def u32_bytes_def bytes_int_def int_bytes_def Let_def word_from_bytes)
  show ?thesis using bytes_int_roundtrip[OF assms] by (simp add: entry_of_bytes_def w)
qed

lemma meta_image:
  assumes "length pad = 4"
  shows "entry_meta pad buf e = Inr (image_of (map fmt_char ''S(III)'') (i64_vals (entry_bytes pad buf e) 3))"
  unfolding entry_meta_def
  by (rule i64_transfer(1)[where old = "entry_bytes pad buf e"]) (simp_all add: i64_fmts_def length_entry_bytes assms)

lemma meta_roundtrip:
  assumes "length pad = 4" "length junk = 440" "c_int (ety_type e)"
  shows "\<exists>img. entry_meta pad buf e = Inr img \<and>
    load_meta junk img ety = Inr (ety\<lparr>ety_term := ety_term e, ety_id := ety_id e, ety_type := ety_type e\<rparr>)"
proof -
  let ?bs = "entry_bytes pad buf e" and ?old = "entry_bytes (take 4 junk) 0 ety" and ?fmt = "map fmt_char ''S(III)''"
  let ?img = "image_of ?fmt (i64_vals ?bs 3)"
  have len: "length ?bs = 32" "length ?old = 32" using assms by (simp_all add: length_entry_bytes)
  have f: "(?fmt, 3) \<in> set i64_fmts" by (simp add: i64_fmts_def)
  have "tpl_receive ?img [msg_addr] [(msg_addr, ?old)] = Inr [(msg_addr, take 24 ?bs @ drop 24 ?old)]"
    using i64_transfer(2)[OF f, of ?bs ?old] len by simp
  moreover have "take 24 ?bs @ drop 24 ?old = u32_bytes (ety_term e) @ u32_bytes (ety_id e) @ int_bytes (ety_type e) @
      pad @ ptr_bytes buf @ drop 24 ?old" using assms(1) by (simp add: entry_bytes_def)
  then have "entry_of_bytes (take 24 ?bs @ drop 24 ?old) (ety_data ety) = Inr (e\<lparr>ety_data := ety_data ety\<rparr>)"
    using entry_of_prefix[OF assms(3)] by simp
  moreover have "e\<lparr>ety_data := ety_data ety\<rparr> = ety\<lparr>ety_term := ety_term e, ety_id := ety_id e, ety_type := ety_type e\<rparr>"
    by simp
  ultimately show ?thesis using len meta_image[OF assms(1), of buf e] by (simp add: load_meta_def)
qed

definition payload_nodes :: "tpl_node list" where
  "payload_nodes = [Tpl_Node TPL_TYPE_INT64 (msg_addr + 4) D_undef [], Tpl_Node TPL_TYPE_INT64 msg_addr D_undef [],
     Tpl_Node TPL_TYPE_INT64 (msg_addr + 8) D_undef [], Tpl_Node TPL_TYPE_BIN bin_addr (D_bin None) []]"

definition payload_vals :: "byte list \<Rightarrow> raft_entry \<Rightarrow> field_val list" where
  "payload_vals pad e =
     [V_num (u32_bytes (ety_id e) @ int_bytes (ety_type e)), V_num (u32_bytes (ety_term e) @ u32_bytes (ety_id e)),
      V_num (int_bytes (ety_type e) @ pad), V_bin (ety_data e)]"

definition payload_image :: "byte list \<Rightarrow> raft_entry \<Rightarrow> byte list" where
  "payload_image pad e = image_of (map fmt_char ''IIIB'') (payload_vals pad e)"

lemma payload_map_nodes:
  "payload_map = Inr (Some (fresh_map (map fmt_char ''IIIB'') payload_nodes))"
  "fmt_ok (map fmt_char ''IIIB'')"
  by code_simp+

lemma ptr_roundtrip: "bytes_ptr (ptr_bytes data_addr) = 480" "bytes_ptr (ptr_bytes 472) = 472"
  by code_simp+

lemma length_payload_image: "length pad = 4 \<Longrightarrow> length (payload_image pad e) = 41 + length (ety_data e)"
  by (simp add: payload_image_def payload_vals_def length_image_of)

lemma payload_read:
  assumes "length pad = 4" "length (ety_data e) < 2 ^ 32"
  shows "list_all2 (read_val [(msg_addr, entry_bytes pad data_addr e),
      (bin_addr, ptr_bytes data_addr @ u32_bytes (of_nat (length (ety_data e))) @ pad), (data_addr, ety_data e)])
    payload_nodes (payload_vals pad e)"
  using assms ptr_roundtrip(1)
  by (simp add: payload_nodes_def payload_vals_def read_val_def entry_bytes_def msg_addr_def bin_addr_def data_addr_def)

lemma payload_wire_cases:
  assumes "length pad = 4" "length (ety_data e) < 2 ^ 32"
  shows "payload_wire pad used e =
    (if RAFT_BUFLEN < 41 + length (ety_data e) then Inl Assert_failed
     else if RAFT_BUFLEN < used + 41 + length (ety_data e) then Inl Out_of_bounds
     else Inr (payload_image pad e))"
proof -
  obtain r where r: "tpl_pack [(msg_addr, entry_bytes pad data_addr e),
      (bin_addr, ptr_bytes data_addr @ u32_bytes (of_nat (length (ety_data e))) @ pad), (data_addr, ety_data e)]
      (fresh_map (map fmt_char ''IIIB'') payload_nodes) = Inr r"
    "tpl_dump_getsize r = Inr (0, Some (length (payload_image pad e)))"
    "tpl_dump_prealloc RAFT_BUFLEN r =
      (if RAFT_BUFLEN < length (payload_image pad e) then Inr (-1, []) else Inr (0, payload_image pad e))"
    using pack_dump[OF payload_read[OF assms], of "map fmt_char ''IIIB''" RAFT_BUFLEN] unfolding payload_image_def by blast
  show ?thesis using r length_payload_image[OF assms(1), of e]
    by (simp add: payload_wire_def payload_map_nodes(1) add.assoc)
qed

lemma payload_roundtrip:
  assumes "length pad = 4" "length (ety_data e) < 2 ^ 31" "c_int (ety_type e)" "length junk = 440"
  shows "deserialize_appendentries_payload junk (payload_image pad e) = Inr e"
proof -
  let ?d = "ety_data e" and ?out = "u32_bytes (ety_term e) @ u32_bytes (ety_id e) @ int_bytes (ety_type e) @ pad @ drop 16 (take 32 junk)"
  let ?l = "u32_bytes (of_nat (length ?d))"
  have len: "length (payload_image pad e) < 2 ^ 32" using length_payload_image[OF assms(1), of e] assms(2) by simp
  have fm: "fields_match payload_nodes (payload_vals pad e)"
    by (rule pack_fields, rule payload_read) (use assms in auto)
  have "tpl_map (Some (map fmt_char ''IIIB'')) [msg_addr + 4, msg_addr, msg_addr + 8, bin_addr] =
      Inr (Some (fresh_map (map fmt_char ''IIIB'') payload_nodes))"
    using payload_map_nodes(1) by (simp only: payload_map_def)
  from receive_image[OF payload_map_nodes(2) fm _ len[unfolded payload_image_def] this]
  have rc: "tpl_receive (payload_image pad e) [msg_addr + 4, msg_addr, msg_addr + 8, bin_addr] m =
      foldE store_val (zip (map tn_addr payload_nodes) (payload_vals pad e)) m" for m
    by (simp add: payload_image_def payload_nodes_def)
  obtain p m' where m': "foldE store_val (zip (map tn_addr payload_nodes) (payload_vals pad e))
      [(msg_addr, take 32 junk), (bin_addr, take 16 junk)] =
      Inr ([(msg_addr, ?out), (bin_addr, ptr_bytes p @ ?l @ drop 12 (take 16 junk))] @ m')"
    "?d \<noteq> [] \<longrightarrow> p = 472 \<and> m' = [(472, ?d)]"
  proof (cases "?d = []")
    case True
    then show thesis using that[of 0 "[]"] assms(1,4)
      by (simp add: payload_nodes_def payload_vals_def msg_addr_def bin_addr_def drop_drop)
  next
    case False
    then show thesis using that[of 472 "[(472, ?d)]"] assms(1,4)
      by (simp add: payload_nodes_def payload_vals_def msg_addr_def bin_addr_def drop_drop mem_alloc_def)
  qed
  have w: "bytes_u32 ?l = Inr (of_nat (length ?d))" by simp
  have n: "unat (of_nat (length ?d) :: u32) = length ?d" using assms(2) by (intro u32_len) simp
  then have z: "(of_nat (length ?d) :: u32) = 0 \<longleftrightarrow> ?d = []" by (metis length_0_conv unat_0 unat_eq_zero)
  have e: "entry_of_bytes ?out ?d = Inr e" using entry_of_prefix[OF assms(3), of "pad @ drop 16 (take 32 junk)" ?d] by simp
  have "mem_read ([(msg_addr, ?out), (bin_addr, ptr_bytes p @ ?l @ drop 12 (take 16 junk))] @ m') msg_addr 32 = Inr ?out"
    "mem_read ([(msg_addr, ?out), (bin_addr, ptr_bytes p @ ?l @ drop 12 (take 16 junk))] @ m') bin_addr 8 = Inr (ptr_bytes p)"
    "mem_read ([(msg_addr, ?out), (bin_addr, ptr_bytes p @ ?l @ drop 12 (take 16 junk))] @ m') (bin_addr + 8) 4 = Inr ?l"
    using assms(1,4) by (simp_all add: msg_addr_def bin_addr_def)
  moreover have "mem_read ([(msg_addr, ?out), (bin_addr, ptr_bytes p @ ?l @ drop 12 (take 16 junk))] @ m') (bytes_ptr (ptr_bytes p)) (length ?d) =
      Inr ?d" if "?d \<noteq> []"
    using m'(2) that assms(1,4) ptr_roundtrip(2) by (simp add: msg_addr_def bin_addr_def)
  ultimately show ?thesis
    unfolding deserialize_appendentries_payload_def rc m'(1) bindE_Inr w
    using z n e by (cases "?d = []") simp_all
qed

end
