(* ===== verification/Ticketd_Types.thy ===== *)
theory Ticketd_Types
  imports Raft_Run Kv_Db Wire_Roundtrip
begin

section \<open>The ticket server: data and connections (main.c)\<close>

text \<open>
  The data of \<^verbatim>\<open>src/src/main.c\<close> and its list of peer connections. \<open>world\<close> is \<^verbatim>\<open>server_t\<close> without
  the raft server, which the operations carry beside it: the connections (a store indexed by
  address, and the linked list as a list of addresses, newest first), the LMDB databases, the
  state schema, and what was written to which stream and dialled.

  Code outside the repository is the parameter \<open>ext\<close> over an external state \<open>'x\<close>: WiredTiger,
  the return codes of libuv, the addresses libuv parses and reports, what uninitialised bytes (\<open>x_junk\<close>)
  and the pointer to the data of an entry (\<open>x_buf\<close>) hold, whether LMDB is full. \<^verbatim>\<open>rand\<close> returns a natural number. Hosts are byte strings in
  dotted form, as \<^verbatim>\<open>inet_ntoa\<close> prints them.

  \<^verbatim>\<open>uv_fatal\<close> and \<^verbatim>\<open>mdb_fatal\<close> end the process: the fault \<open>Fatal\<close>. Messages to standard output
  are left out.
\<close>

subsection \<open>Handshakes\<close>

definition HANDSHAKE_FAILURE :: int where
  "HANDSHAKE_FAILURE = 0"

definition HANDSHAKE_SUCCESS :: int where
  "HANDSHAKE_SUCCESS = 1"

subsection \<open>Configuration changes in log entries\<close>

definition IP_STR_LEN :: nat where
  "IP_STR_LEN = 15"

record entry_cfg_change =
  cc_raft_port :: int
  cc_http_port :: int
  cc_node_id :: int
  cc_host :: host

text \<open>The 28 bytes of an \<^verbatim>\<open>entry_cfg_change_t\<close>: three integers, the host in \<^verbatim>\<open>char[IP_STR_LEN]\<close>
  and one byte of padding. \<^verbatim>\<open>append_cfg_change\<close> copies the host with \<^verbatim>\<open>strcpy\<close> and then writes 0 to
  its last byte; a host of 16 characters or more leaves the allocation.\<close>

definition cfg_bytes :: "int \<Rightarrow> int \<Rightarrow> int \<Rightarrow> host \<Rightarrow> fault + byte list" where
  "cfg_bytes raft_port http_port node_id h =
     (if 16 < length h + 1 then Inl Out_of_bounds
      else Inr (int_bytes raft_port @ int_bytes http_port @ int_bytes node_id @
                (h @ replicate (16 - length h) 0)[IP_STR_LEN - 1 := 0]))"

text \<open>Reading one: the host ends at its first 0; a buffer without one is read past its end.\<close>

definition bytes_cfg :: "byte list \<Rightarrow> fault + entry_cfg_change" where
  "bytes_cfg bs =
     bindE (bytes_int bs) (\<lambda>raft_port.
     bindE (bytes_int (drop 4 bs)) (\<lambda>http_port.
     bindE (bytes_int (drop 8 bs)) (\<lambda>node_id.
     if 0 \<in> set (drop 12 bs)
     then Inr \<lparr>cc_raft_port = raft_port, cc_http_port = http_port, cc_node_id = node_id,
               cc_host = takeWhile (\<lambda>b. b \<noteq> 0) (drop 12 bs)\<rparr>
     else Inl Out_of_bounds)))"

subsection \<open>Connections and the server\<close>

datatype conn_status_e = DISCONNECTED | CONNECTING | CONNECTED

record peer_connection =
  pc_host :: host
  pc_port :: int
  pc_http_port :: int
  pc_raft_port :: int
  pc_status :: conn_status_e
  pc_node :: "addr option"
  pc_n_expected_entries :: int
  pc_ae :: msg_appendentries
  pc_stream :: "addr option"

record 'x ext =
  x_wt :: "'x wt"
  x_rand :: "'x \<Rightarrow> nat \<times> 'x"
  x_uv :: "'x \<Rightarrow> int \<times> 'x"
  x_full :: "mdb_env \<Rightarrow> bool"
  x_ip4_addr :: "host \<Rightarrow> host option"
  x_getpeername :: "addr \<Rightarrow> 'x \<Rightarrow> host"
  x_junk :: "nat \<Rightarrow> byte"
  x_buf :: "raft_entry \<Rightarrow> nat"

record 'x world =
  w_node_id :: int
  w_raft_port :: int
  w_http_port :: int
  w_leave :: bool
  w_conns :: "addr list"
  w_conn_heap :: "addr \<rightharpoonup> peer_connection"
  w_next_conn :: addr
  w_next_stream :: addr
  w_env :: mdb_env
  w_state_schema :: kv_schema
  w_out :: "(addr \<times> peer_msg list) list"
  w_dials :: "(addr \<times> host \<times> int) list"
  w_ext :: 'x

text \<open>The databases of \<^verbatim>\<open>server_t\<close>.\<close>

definition db_entries :: nat where "db_entries = 0"
definition db_tickets :: nat where "db_tickets = 1"
definition db_state :: nat where "db_state = 2"

lemmas db_defs = db_entries_def db_tickets_def db_state_def

text \<open>\<open>n\<close> bytes of an uninitialised variable.\<close>

definition junk :: "'x ext \<Rightarrow> nat \<Rightarrow> byte list" where
  "junk ext n = map (x_junk ext) [0..<n]"

lemma length_junk [simp]: "length (junk ext n) = n"
  by (simp add: junk_def)

definition rand_int :: "'x ext \<Rightarrow> 'x world \<Rightarrow> int \<times> 'x world" where
  "rand_int ext w = (case x_rand ext (w_ext w) of (r, x) \<Rightarrow> (int r, w\<lparr>w_ext := x\<rparr>))"

text \<open>A libuv call whose result other than 0 is fatal.\<close>

definition uv_call :: "'x ext \<Rightarrow> 'x world \<Rightarrow> fault + 'x world" where
  "uv_call ext w = (case x_uv ext (w_ext w) of (e, x) \<Rightarrow>
     if e \<noteq> 0 then Inl (Fatal e) else Inr (w\<lparr>w_ext := x\<rparr>))"

definition conn_get :: "'x world \<Rightarrow> addr option \<Rightarrow> fault + peer_connection" where
  "conn_get w p = deref (w_conn_heap w) p"

definition conn_upd ::
  "addr option \<Rightarrow> (peer_connection \<Rightarrow> peer_connection) \<Rightarrow> 'x world \<Rightarrow> fault + 'x world" where
  "conn_upd p f w =
     bindE (conn_get w p) (\<lambda>c. Inr (w\<lparr>w_conn_heap := (w_conn_heap w)(the p \<mapsto> f c)\<rparr>))"

text \<open>\<^verbatim>\<open>calloc\<close> leaves the address 0.0.0.0 and a message of zeros.\<close>

definition zero_ae :: msg_appendentries where
  "zero_ae = \<lparr>ae_term = 0, ae_prev_log_idx = 0, ae_prev_log_term = 0, ae_leader_commit = 0,
     ae_n_entries = 0, ae_entries = []\<rparr>"

definition zero_conn :: peer_connection where
  "zero_conn = \<lparr>pc_host = [48, 46, 48, 46, 48, 46, 48], pc_port = 0, pc_http_port = 0, pc_raft_port = 0,
     pc_status = DISCONNECTED, pc_node = None, pc_n_expected_entries = 0, pc_ae = zero_ae,
     pc_stream = None\<rparr>"

definition new_connection :: "'x world \<Rightarrow> addr \<times> 'x world" where
  "new_connection w =
     (w_next_conn w,
      w\<lparr>w_conn_heap := (w_conn_heap w)(w_next_conn w \<mapsto> zero_conn), w_next_conn := Suc (w_next_conn w),
        w_conns := w_next_conn w # w_conns w\<rparr>)"

fun find_conn :: "'x world \<Rightarrow> host \<Rightarrow> int \<Rightarrow> addr list \<Rightarrow> fault + addr option" where
  "find_conn w h raft_port [] = Inr None"
| "find_conn w h raft_port (c # cs) =
     bindE (conn_get w (Some c)) (\<lambda>conn.
     if h \<noteq> pc_host conn \<or> pc_raft_port conn \<noteq> raft_port then find_conn w h raft_port cs
     else Inr (Some c))"

definition find_connection :: "'x world \<Rightarrow> host \<Rightarrow> int \<Rightarrow> fault + addr option" where
  "find_connection w h raft_port = find_conn w h raft_port (w_conns w)"

definition delete_connection ::
  "addr \<Rightarrow> raft_server \<times> 'x world \<Rightarrow> fault + raft_server \<times> 'x world" where
  "delete_connection c sw =
     (case sw of (s, w) \<Rightarrow>
      if c \<notin> set (w_conns w) then Inl Null_deref
      else
        bindE (conn_get w (Some c)) (\<lambda>conn.
        bindE (if pc_node conn \<noteq> None then node_upd (pc_node conn) (raft_node_set_udata None) s
               else Inr s) (\<lambda>s.
        Inr (s, w\<lparr>w_conns := remove1 c (w_conns w), w_conn_heap := (w_conn_heap w)(c := None)\<rparr>))))"

definition connection_set_peer :: "'x ext \<Rightarrow> addr \<Rightarrow> host \<Rightarrow> int \<Rightarrow> 'x world \<Rightarrow> fault + 'x world" where
  "connection_set_peer ext c h port w =
     (case x_ip4_addr ext h of
        None \<Rightarrow> Inl (Fatal (-22))
      | Some ip \<Rightarrow> conn_upd (Some c)
          (\<lambda>conn. conn\<lparr>pc_raft_port := port, pc_host := ip, pc_port := port\<rparr>) w)"

definition connect_to_peer :: "'x ext \<Rightarrow> addr option \<Rightarrow> 'x world \<Rightarrow> fault + 'x world" where
  "connect_to_peer ext p w =
     bindE (conn_get w p) (\<lambda>conn.
     bindE (uv_call ext w) (\<lambda>w.
     let st = w_next_stream w; w = w\<lparr>w_next_stream := Suc st\<rparr> in
     bindE (conn_upd p (\<lambda>conn. conn\<lparr>pc_stream := Some st, pc_status := CONNECTING\<rparr>) w) (\<lambda>w.
     bindE (uv_call ext w) (\<lambda>w.
     Inr (w\<lparr>w_dials := w_dials w @ [(st, pc_host conn, pc_port conn)]\<rparr>)))))"

definition connect_to_peer_at_host :: "'x ext \<Rightarrow> addr \<Rightarrow> host \<Rightarrow> int \<Rightarrow> 'x world \<Rightarrow> fault + 'x world" where
  "connect_to_peer_at_host ext c h port w =
     bindE (connection_set_peer ext c h port w) (connect_to_peer ext (Some c))"

definition connect_if_needed :: "'x ext \<Rightarrow> addr option \<Rightarrow> 'x world \<Rightarrow> fault + int \<times> 'x world" where
  "connect_if_needed ext p w =
     bindE (conn_get w p) (\<lambda>conn.
     if CONNECTED \<noteq> pc_status conn
     then
       bindE (if DISCONNECTED = pc_status conn then connect_to_peer ext p w else Inr w) (\<lambda>w.
       Inr (-1, w))
     else Inr (0, w))"

text \<open>\<^verbatim>\<open>uv_try_write\<close> of the images of some messages to a stream.\<close>

definition try_write :: "'x ext \<Rightarrow> addr option \<Rightarrow> peer_msg list \<Rightarrow> 'x world \<Rightarrow> fault + 'x world" where
  "try_write ext stream ms w =
     (case stream of None \<Rightarrow> Inl Null_deref
      | Some st \<Rightarrow> (case x_uv ext (w_ext w) of (e, x) \<Rightarrow>
          if e < 0 then Inl (Fatal e)
          else Inr (w\<lparr>w_ext := x, w_out := w_out w @ [(st, ms)]\<rparr>)))"

definition peer_msg_send :: "'x ext \<Rightarrow> addr option \<Rightarrow> peer_msg \<Rightarrow> 'x world \<Rightarrow> fault + 'x world" where
  "peer_msg_send ext stream m w = try_write ext stream [m] w"

subsection \<open>The configuration change survives its encoding up to 14 characters\<close>

lemma takeWhile_nonzero_append: "0 \<notin> set h \<Longrightarrow> takeWhile (\<lambda>b. b \<noteq> 0) (h @ 0 # bs) = h" for h :: "byte list"
  by (induction h) auto

lemma host_field:
  assumes "0 \<notin> set h" "length h \<le> 15"
  shows "\<exists>bs. (h @ replicate (16 - length h) 0)[14 := 0] = take 14 h @ 0 # (bs :: byte list)"
proof -
  let ?l = "h @ replicate (16 - length h) 0"
  have len: "length ?l = 16" using assms(2) by simp
  have "?l[14 := 0] = take 14 ?l @ 0 # drop 15 ?l" using len by (simp add: upd_conv_take_nth_drop)
  also have "take 14 ?l @ 0 # drop 15 ?l = take 14 h @ replicate (14 - length h) 0 @ 0 # drop 15 ?l"
    using assms(2) by (simp add: min_def)
  also have "\<exists>bs. replicate (14 - length h) 0 @ 0 # drop 15 ?l = 0 # bs"
    by (cases "14 - length h") simp_all
  then have "\<exists>bs. take 14 h @ replicate (14 - length h) 0 @ 0 # drop 15 ?l = take 14 h @ 0 # bs" by auto
  finally show ?thesis by blast
qed

lemma cfg_roundtrip:
  assumes "c_int rp" "c_int hp" "c_int nid" "0 \<notin> set h" "length h \<le> 15"
  shows "\<exists>bs. cfg_bytes rp hp nid h = Inr bs \<and> length bs = 28 \<and>
    bytes_cfg bs = Inr \<lparr>cc_raft_port = rp, cc_http_port = hp, cc_node_id = nid, cc_host = take 14 h\<rparr>"
proof -
  obtain bs where bs: "(h @ replicate (16 - length h) 0)[14 := 0] = take 14 h @ 0 # bs"
    using host_field[OF assms(4,5)] by blast
  have z: "0 \<notin> set (take 14 h)" using assms(4) by (meson in_set_takeD)
  have "length (take 14 h @ 0 # bs) = 16" using assms(5) bs[symmetric] by simp
  moreover have "bytes_int (int_bytes rp @ int_bytes hp @ int_bytes nid @ take 14 h @ 0 # bs) = Inr rp"
    "bytes_int (int_bytes hp @ int_bytes nid @ take 14 h @ 0 # bs) = Inr hp"
    "bytes_int (int_bytes nid @ take 14 h @ 0 # bs) = Inr nid"
    by (simp_all add: bytes_int_roundtrip assms(1-3))
  ultimately show ?thesis using assms(5) takeWhile_nonzero_append[OF z, of bs]
    by (simp add: cfg_bytes_def IP_STR_LEN_def bs bytes_cfg_def)
qed

end
