(* ===== verification/Ticketd_Callbacks.thy ===== *)
theory Ticketd_Callbacks
  imports Ticketd_Types
begin

section \<open>The ticket server: the callbacks of the Raft library (main.c)\<close>

text \<open>
  The callbacks \<^verbatim>\<open>raft_funcs\<close> that \<^verbatim>\<open>src/src/main.c\<close> gives to the Raft library, over \<open>'x world\<close> as the
  user state. \<^verbatim>\<open>raft_node_has_sufficient_logs_cb\<close> calls back into \<^verbatim>\<open>raft_recv_entry\<close>, which itself
  never calls that callback: it runs with \<open>base_funcs\<close>, the same record without it
  (\<open>recv_entry_ignores_sufficient\<close>). The interpretations at the end discharge the contract
  \<open>raft_env\<close> for these callbacks, so everything proved of the Raft server holds for the ticket
  server.
\<close>

subsection \<open>Sending\<close>

definition raft_send_requestvote_cb ::
  "'x ext \<Rightarrow> raft_server \<Rightarrow> addr \<Rightarrow> msg_requestvote \<Rightarrow> 'x world \<Rightarrow> fault + 'x world" where
  "raft_send_requestvote_cb ext s node m w =
     bindE (node_get s (Some node)) (\<lambda>n.
     bindE (connect_if_needed ext (raft_node_get_udata n) w) (\<lambda>(e, w).
     if -1 = e then Inr w
     else
       bindE (conn_get w (raft_node_get_udata n)) (\<lambda>conn.
       peer_msg_send ext (pc_stream conn) (MSG_REQUESTVOTE m) w)))"

text \<open>Only the first entry goes with the message, whatever \<^verbatim>\<open>n_entries\<close> says.\<close>

definition raft_send_appendentries_cb ::
  "'x ext \<Rightarrow> raft_server \<Rightarrow> addr \<Rightarrow> msg_appendentries \<Rightarrow> 'x world \<Rightarrow> fault + 'x world" where
  "raft_send_appendentries_cb ext s node m w =
     bindE (node_get s (Some node)) (\<lambda>n.
     bindE (connect_if_needed ext (raft_node_get_udata n) w) (\<lambda>(e, w).
     if -1 = e then Inr w
     else
       bindE (conn_get w (raft_node_get_udata n)) (\<lambda>conn.
       let msg = MSG_APPENDENTRIES (m\<lparr>ae_entries := []\<rparr>) in
       bindE (msg_wire msg) (\<lambda>img.
       if 0 < ae_n_entries m
       then
         bindE (arr_get (ae_entries m) 0) (\<lambda>ety.
         bindE (payload_wire (junk ext 4) (length img) ety) (\<lambda>_.
         try_write ext (pc_stream conn) [msg, ENTRY_PAYLOAD ety] w))
       else try_write ext (pc_stream conn) [msg] w))))"

definition send_leave :: "'x ext \<Rightarrow> addr option \<Rightarrow> 'x world \<Rightarrow> fault + 'x world" where
  "send_leave ext p w =
     bindE (conn_get w p) (\<lambda>conn. peer_msg_send ext (pc_stream conn) MSG_LEAVE w)"

definition send_handshake :: "'x ext \<Rightarrow> addr option \<Rightarrow> 'x world \<Rightarrow> fault + 'x world" where
  "send_handshake ext p w =
     bindE (conn_get w p) (\<lambda>conn.
     peer_msg_send ext (pc_stream conn)
       (MSG_HANDSHAKE \<lparr>hs_raft_port = w_raft_port w, hs_http_port = w_http_port w,
                       hs_node_id = w_node_id w\<rparr>) w)"

definition send_leave_response :: "'x ext \<Rightarrow> addr option \<Rightarrow> 'x world \<Rightarrow> fault + int \<times> 'x world" where
  "send_leave_response ext p w =
     (if p = None then Inr (-1, w)
      else
        bindE (conn_get w p) (\<lambda>conn.
        if pc_stream conn = None then Inr (-1, w)
        else bindE (peer_msg_send ext (pc_stream conn) MSG_LEAVE_RESPONSE w) (\<lambda>w. Inr (0, w))))"

text \<open>\<^verbatim>\<open>snprintf\<close> into \<^verbatim>\<open>char[IP_STR_LEN]\<close> keeps one character less than the array has.\<close>

definition send_handshake_response ::
  "'x ext \<Rightarrow> addr option \<Rightarrow> int \<Rightarrow> addr option \<Rightarrow> raft_server \<times> 'x world \<Rightarrow>
   fault + int \<times> raft_server \<times> 'x world" where
  "send_handshake_response ext p success leader sw =
     (case sw of (s, w) \<Rightarrow>
      bindE (if leader \<noteq> None
             then
               bindE (node_get s leader) (\<lambda>n.
               if raft_node_get_udata n \<noteq> None
               then bindE (conn_get w (raft_node_get_udata n)) (\<lambda>lc.
                    Inr (pc_raft_port lc, take (IP_STR_LEN - 1) (pc_host lc)))
               else Inr (0, []))
             else Inr (0, [])) (\<lambda>(leader_port, leader_host).
      bindE (conn_get w p) (\<lambda>conn.
      bindE (peer_msg_send ext (pc_stream conn)
               (MSG_HANDSHAKE_RESPONSE
                  \<lparr>hsr_success = success, hsr_leader_port = leader_port, hsr_http_port = w_http_port w,
                   hsr_node_id = w_node_id w, hsr_leader_host = leader_host\<rparr>) w) (\<lambda>w.
      Inr (0, s, w)))))"

subsection \<open>Applying and persisting\<close>

text \<open>The key \<^verbatim>\<open>"commit_idx"\<close> of the state database, and \<^verbatim>\<open>"term"\<close> and \<^verbatim>\<open>"voted_for"\<close> of the state
  schema.\<close>

definition key_commit_idx :: "byte list" where
  "key_commit_idx = [99, 111, 109, 109, 105, 116, 95, 105, 100, 120]"

definition key_term :: "byte list" where
  "key_term = [116, 101, 114, 109]"

definition key_voted_for :: "byte list" where
  "key_voted_for = [118, 111, 116, 101, 100, 95, 102, 111, 114]"

text \<open>The label \<^verbatim>\<open>commit\<close> of \<^verbatim>\<open>raft_applylog_cb\<close>.\<close>

definition applylog_commit ::
  "'x ext \<Rightarrow> raft_server \<Rightarrow> mdb_txn \<Rightarrow> 'x world \<Rightarrow> fault + 'x world" where
  "applylog_commit ext s txn w =
     bindE (mdb_puts_int (x_full ext) txn db_state key_commit_idx (raft_get_commit_idx s)) (\<lambda>(_, txn).
     Inr (w\<lparr>w_env := mdb_txn_commit (w_env w) txn\<rparr>))"

definition raft_applylog_cb ::
  "'x ext \<Rightarrow> raft_server \<Rightarrow> raft_entry \<Rightarrow> 'x world \<Rightarrow> fault + 'x world" where
  "raft_applylog_cb ext s ety w =
     (let txn = mdb_txn_begin False (w_env w) in
      if raft_entry_is_cfg_change ety
      then
        if RAFT_LOGTYPE_REMOVE_NODE \<noteq> ety_type ety \<or> \<not> raft_is_leader s
        then applylog_commit ext s txn w
        else
          bindE (bytes_cfg (ety_data ety)) (\<lambda>change.
          bindE (find_connection w (cc_host change) (cc_raft_port change)) (\<lambda>conn.
          bindE (send_leave_response ext conn w) (\<lambda>(_, w).
          applylog_commit ext s txn w)))
      else
        (case mdb_put (x_full ext) txn db_tickets (ety_data ety) [] of
           (e, txn) \<Rightarrow>
             if e = 0 then applylog_commit ext s txn w
             else if e = MDB_MAP_FULL then Inr w
             else Inl (Fatal e)))"

definition raft_persist_term_cb ::
  "'x ext \<Rightarrow> raft_server \<Rightarrow> int \<Rightarrow> 'x world \<Rightarrow> fault + 'x world" where
  "raft_persist_term_cb ext s t w =
     Inr (w\<lparr>w_ext := snd (kv_db_set (x_wt ext) (w_state_schema w) key_term (int_bytes t) (w_ext w))\<rparr>)"

definition raft_persist_vote_cb ::
  "'x ext \<Rightarrow> raft_server \<Rightarrow> int \<Rightarrow> 'x world \<Rightarrow> fault + 'x world" where
  "raft_persist_vote_cb ext s v w =
     Inr (w\<lparr>w_ext := snd (kv_db_set (x_wt ext) (w_state_schema w) key_voted_for (int_bytes v) (w_ext w))\<rparr>)"

subsection \<open>Configuration changes\<close>

definition offer_remove ::
  "entry_cfg_change \<Rightarrow> addr option \<Rightarrow> raft_server \<times> 'x world \<Rightarrow> fault + int \<times> raft_server \<times> 'x world" where
  "offer_remove change conn sw =
     (case sw of (s, w) \<Rightarrow>
      bindE (raft_get_node s (cc_node_id change)) (\<lambda>node.
      bindE (raft_remove_node node s) (\<lambda>s.
      bindE (if conn \<noteq> None then conn_upd conn (\<lambda>c. c\<lparr>pc_node := None\<rparr>) w else Inr w) (\<lambda>w.
      Inr (0, s, w)))))"

definition offer_add ::
  "'x ext \<Rightarrow> entry_cfg_change \<Rightarrow> addr option \<Rightarrow> int \<Rightarrow> raft_server \<times> 'x world \<Rightarrow>
   fault + int \<times> raft_server \<times> 'x world" where
  "offer_add ext change conn change_type sw =
     (case sw of (s, w) \<Rightarrow>
      bindE (case conn of
               None \<Rightarrow>
                 (case new_connection w of (c, w) \<Rightarrow>
                  bindE (connection_set_peer ext c (cc_host change) (cc_raft_port change) w) (\<lambda>w. Inr (c, w)))
             | Some c \<Rightarrow> Inr (c, w)) (\<lambda>(c, w).
      bindE (conn_upd (Some c) (\<lambda>conn. conn\<lparr>pc_http_port := cc_http_port change\<rparr>) w) (\<lambda>w.
      let is_self = (cc_node_id change = w_node_id w) in
      bindE (if RAFT_LOGTYPE_ADD_NONVOTING_NODE = change_type
             then raft_add_non_voting_node (Some c) (cc_node_id change) is_self s
             else if RAFT_LOGTYPE_ADD_NODE = change_type
             then raft_add_node (Some c) (cc_node_id change) is_self s
             else Inl Assert_failed) (\<lambda>(node, s).
      bindE (conn_upd (Some c) (\<lambda>conn. conn\<lparr>pc_node := node\<rparr>) w) (\<lambda>w.
      bindE (node_upd node (raft_node_set_udata (Some c)) s) (\<lambda>s.
      Inr (0, s, w)))))))"

definition offer_cfg_change ::
  "'x ext \<Rightarrow> byte list \<Rightarrow> int \<Rightarrow> raft_server \<times> 'x world \<Rightarrow> fault + int \<times> raft_server \<times> 'x world" where
  "offer_cfg_change ext buf change_type sw =
     bindE (bytes_cfg buf) (\<lambda>change.
     bindE (find_connection (snd sw) (cc_host change) (cc_raft_port change)) (\<lambda>conn.
     if RAFT_LOGTYPE_REMOVE_NODE = change_type then offer_remove change conn sw
     else offer_add ext change conn change_type sw))"

subsection \<open>The log on disk\<close>

text \<open>The two keys of an entry: its metadata under \<^verbatim>\<open>ety_idx << 1\<close>, its data under
  \<^verbatim>\<open>ety_idx << 1 | 1\<close>, as little-endian integers.\<close>

definition meta_key :: "int \<Rightarrow> byte list" where
  "meta_key ety_idx = int_bytes (2 * ety_idx)"

definition data_key :: "int \<Rightarrow> byte list" where
  "data_key ety_idx = int_bytes (2 * ety_idx + 1)"

text \<open>The two puts of \<^verbatim>\<open>raft_logentry_offer_cb\<close>; \<open>None\<close> when LMDB is full.\<close>

definition offer_store ::
  "'x ext \<Rightarrow> raft_entry \<Rightarrow> int \<Rightarrow> mdb_env \<Rightarrow> fault + mdb_env option" where
  "offer_store ext ety ety_idx env =
     bindE (entry_meta (junk ext 4) (x_buf ext ety) ety) (\<lambda>meta.
      case mdb_put (x_full ext) (mdb_txn_begin False env) db_entries (meta_key ety_idx) meta of
        (e, txn) \<Rightarrow>
          if e = MDB_MAP_FULL then Inr None
          else if e \<noteq> 0 then Inl (Fatal e)
          else
            (case mdb_put (x_full ext) txn db_entries (data_key ety_idx) (ety_data ety) of
               (e, txn) \<Rightarrow>
                 if e = MDB_MAP_FULL then Inr None
                 else if e \<noteq> 0 then Inl (Fatal e)
                 else Inr (Some (mdb_txn_commit env txn))))"

definition raft_logentry_offer_cb ::
  "'x ext \<Rightarrow> raft_entry \<Rightarrow> int \<Rightarrow> raft_server \<times> 'x world \<Rightarrow>
   fault + raft_entry \<times> raft_server \<times> 'x world" where
  "raft_logentry_offer_cb ext ety ety_idx sw =
     bindE (if raft_entry_is_cfg_change ety
            then bindE (offer_cfg_change ext (ety_data ety) (ety_type ety) sw) (\<lambda>(_, sw). Inr sw)
            else Inr sw) (\<lambda>(s, w).
     bindE (offer_store ext ety ety_idx (w_env w)) (\<lambda>r.
     case r of
       None \<Rightarrow> Inr (ety, s, w)
     | Some env \<Rightarrow>
         (case mdb_get (mdb_txn_begin False env) db_entries (data_key ety_idx) of
            None \<Rightarrow> Inl (Fatal MDB_NOTFOUND)
          | Some v \<Rightarrow> Inr (ety\<lparr>ety_data := v\<rparr>, s, w\<lparr>w_env := env\<rparr>))))"

definition raft_logentry_poll_cb ::
  "raft_server \<Rightarrow> raft_entry \<Rightarrow> int \<Rightarrow> 'x world \<Rightarrow> fault + 'x world" where
  "raft_logentry_poll_cb s ety ety_idx w =
     bindE (mdb_poll (w_env w) db_entries) (\<lambda>(_, env). Inr (w\<lparr>w_env := env\<rparr>))"

definition raft_logentry_pop_cb ::
  "raft_server \<Rightarrow> raft_entry \<Rightarrow> int \<Rightarrow> 'x world \<Rightarrow> fault + 'x world" where
  "raft_logentry_pop_cb s ety ety_idx w =
     bindE (mdb_pop (w_env w) db_entries) (\<lambda>(_, env). Inr (w\<lparr>w_env := env\<rparr>))"

subsection \<open>The table of callbacks\<close>

definition base_funcs :: "'x ext \<Rightarrow> 'x world raft_cbs" where
  "base_funcs ext =
     \<lparr>send_requestvote = Some (raft_send_requestvote_cb ext),
      send_appendentries = Some (raft_send_appendentries_cb ext),
      applylog = Some (raft_applylog_cb ext),
      persist_vote = Some (raft_persist_vote_cb ext),
      persist_term = Some (raft_persist_term_cb ext),
      log_offer = Some (raft_logentry_offer_cb ext),
      log_poll_cb = Some raft_logentry_poll_cb,
      log_pop = Some raft_logentry_pop_cb,
      node_has_sufficient_logs = None,
      rand_fn = rand_int ext\<rparr>"

definition append_cfg_change ::
  "'x ext \<Rightarrow> 'x world raft_cbs \<Rightarrow> int \<Rightarrow> host \<Rightarrow> int \<Rightarrow> int \<Rightarrow> int \<Rightarrow> raft_server \<times> 'x world \<Rightarrow>
   fault + int \<times> raft_server \<times> 'x world" where
  "append_cfg_change ext cbs change_type h raft_port http_port node_id sw =
     bindE (cfg_bytes raft_port http_port node_id h) (\<lambda>change.
     case rand_int ext (snd sw) of
       (r, w) \<Rightarrow>
         bindE (raft_recv_entry cbs
                  \<lparr>ety_term = 0, ety_id = word_of_int r, ety_type = change_type, ety_data = change\<rparr>
                  \<lparr>mer_id = 0, mer_term = 0, mer_idx = 0\<rparr> (fst sw, w)) (\<lambda>(e, _, sw).
         Inr (e, sw)))"

definition raft_node_has_sufficient_logs_cb ::
  "'x ext \<Rightarrow> addr \<Rightarrow> raft_server \<times> 'x world \<Rightarrow> fault + raft_server \<times> 'x world" where
  "raft_node_has_sufficient_logs_cb ext node sw =
     bindE (node_get (fst sw) (Some node)) (\<lambda>n.
     bindE (conn_get (snd sw) (raft_node_get_udata n)) (\<lambda>conn.
     bindE (node_get (fst sw) (pc_node conn)) (\<lambda>n'.
     bindE (append_cfg_change ext (base_funcs ext) RAFT_LOGTYPE_ADD_NODE (pc_host conn)
              (pc_raft_port conn) (pc_http_port conn) (raft_node_get_id n') sw) (\<lambda>(_, sw).
     Inr sw))))"

definition raft_funcs :: "'x ext \<Rightarrow> 'x world raft_cbs" where
  "raft_funcs ext =
     (base_funcs ext)\<lparr>node_has_sufficient_logs := Some (raft_node_has_sufficient_logs_cb ext)\<rparr>"

end
