(* ===== verification/Ticketd_Env.thy ===== *)
theory Ticketd_Env
  imports Ticketd_Callbacks
begin

section \<open>The ticket server's callbacks keep the contract of the Raft library\<close>

text \<open>
  What \<^verbatim>\<open>log_offer\<close> does to the raft server: an ordinary entry leaves it alone, a configuration
  change adds, changes or removes a peer and nothing else. With that the callbacks of
  \<^verbatim>\<open>main.c\<close> meet \<open>raft_env\<close>.
\<close>

lemma offer_remove_ok:
  assumes wf: "nodes_wf s" and ret: "offer_remove change conn (s, w) = Inr (e, s', w')"
  shows "peers_only s s' \<and> nodes_wf s'"
proof -
  obtain node where n: "raft_get_node s (cc_node_id change) = Inr node" "raft_remove_node node s = Inr s'"
    using ret by (auto simp: offer_remove_def)
  have "nodes s = [] \<or> node \<in> set (nodes s)" using remove_node_absent[OF wf, of node] n(2) by force
  then show ?thesis using remove_node_ok[OF wf _ n(2)] remove_node_empty[OF wf _ n(2)] by blast
qed

lemma offer_add_ok:
  assumes wf: "nodes_wf s" and ret: "offer_add ext change conn t (s, w) = Inr (e, s', w')"
  shows "peers_only s s' \<and> nodes_wf s'"
proof -
  obtain c b node s1 where
    a: "(if RAFT_LOGTYPE_ADD_NONVOTING_NODE = t then raft_add_non_voting_node (Some c) (cc_node_id change) b s
         else if RAFT_LOGTYPE_ADD_NODE = t then raft_add_node (Some c) (cc_node_id change) b s
         else Inl Assert_failed) = Inr (node, s1)"
    and u: "node_upd node (raft_node_set_udata (Some c)) s1 = Inr s'"
    using ret by (auto simp: offer_add_def Let_def)
  have 1: "peers_only s s1" "nodes_wf s1"
    using a add_non_voting_node_ok[OF wf] add_node_ok[OF wf] by (auto split: if_splits)
  have h: "heap_step s1 s'" by (rule heap_step_upd[OF u]) simp
  show ?thesis
    using heap_step_nodes_wf[OF h 1(2)] peers_only_trans[OF 1(1) heap_step_peers_only[OF h]] by blast
qed

lemma offer_cfg_change_ok:
  assumes "nodes_wf s" "offer_cfg_change ext buf t (s, w) = Inr (e, s', w')"
  shows "peers_only s s' \<and> nodes_wf s'"
  using assms offer_remove_ok offer_add_ok by (auto simp: offer_cfg_change_def split: if_splits) blast+

lemma peers_only_refl: "peers_only s s"
  by (simp add: peers_only_def)

lemma logentry_offer_ok:
  assumes wf: "nodes_wf s" and ret: "raft_logentry_offer_cb ext ety i (s, w) = Inr (ety', s', w')"
  shows "peers_only s s' \<and> nodes_wf s' \<and> ety_term ety' = ety_term ety \<and> ety_id ety' = ety_id ety \<and>
    ety_type ety' = ety_type ety"
proof -
  obtain s1 w1 r where
    1: "(if raft_entry_is_cfg_change ety
         then bindE (offer_cfg_change ext (ety_data ety) (ety_type ety) (s, w)) (\<lambda>(_, sw). Inr sw)
         else Inr (s, w)) = Inr (s1, w1)"
    and r: "offer_store ext ety i (w_env w1) = Inr r"
      "(case r of None \<Rightarrow> Inr (ety, s1, w1)
        | Some env \<Rightarrow> (case mdb_get (mdb_txn_begin False env) db_entries (data_key i) of
            None \<Rightarrow> Inl (Fatal MDB_NOTFOUND)
          | Some v \<Rightarrow> Inr (ety\<lparr>ety_data := v\<rparr>, s1, w1\<lparr>w_env := env\<rparr>))) = Inr (ety', s', w')"
    using ret unfolding raft_logentry_offer_cb_def by (simp only: bindE_eq_Inr) auto
  from r(2) have 2: "s' = s1 \<and> ((\<exists>d. ety' = ety\<lparr>ety_data := d\<rparr>) \<or> ety' = ety)"
    by (auto split: option.splits)
  have "peers_only s s1 \<and> nodes_wf s1"
    using 1 wf by (auto simp: peers_only_refl dest: offer_cfg_change_ok[OF wf] split: if_splits)
  with 2 show ?thesis by auto
qed

interpretation base: raft_env "base_funcs ext" for ext
proof
  show "peers_only s s' \<and> nodes_wf s' \<and> ety_term e' = ety_term e \<and> ety_id e' = ety_id e \<and> ety_type e' = ety_type e"
    if "log_offer (base_funcs ext) = Some f" "nodes_wf s" "f e i (s, w) = Inr (e', s', w')" for f s e i w e' s' w'
    by (rule logentry_offer_ok[OF that(2), of ext e i w e' s' w']) (use that(1,3) in \<open>auto simp: base_funcs_def\<close>)
  show "0 \<le> fst (rand_fn (base_funcs ext) w)" for w
    by (simp add: base_funcs_def rand_int_def split: prod.split)
qed (simp add: base_funcs_def)

lemma append_cfg_change_ok:
  assumes inv: "srv_inv s" and env: "raft_env cbs"
    and ret: "append_cfg_change ext cbs t h rp hp nid (s, w) = Inr (e, s', w')"
  shows "step_ok s s' \<and> current_term s' = current_term s"
proof -
  obtain x w1 where x: "rand_int ext w = (x, w1)" by force
  obtain ety r r' where "raft_recv_entry cbs ety r (s, w1) = Inr (e, r', s', w')"
    using ret by (auto simp: append_cfg_change_def x)
  then show ?thesis by (rule raft_env.recv_entry_ok[OF env inv])
qed

lemma sufficient_logs_ok:
  assumes inv: "srv_inv s" and ret: "raft_node_has_sufficient_logs_cb ext a (s, w) = Inr (s', w')"
  shows "step_ok s s' \<and> current_term s' = current_term s"
  using ret append_cfg_change_ok[OF inv base.raft_env_axioms]
  by (auto simp: raft_node_has_sufficient_logs_cb_def) blast+

interpretation tick: raft_env "raft_funcs ext" for ext
proof
  show "peers_only s s' \<and> nodes_wf s' \<and> ety_term e' = ety_term e \<and> ety_id e' = ety_id e \<and> ety_type e' = ety_type e"
    if "log_offer (raft_funcs ext) = Some f" "nodes_wf s" "f e i (s, w) = Inr (e', s', w')" for f s e i w e' s' w'
    using base.offer[of ext f s e i w e' s' w'] that by (simp add: raft_funcs_def)
  show "step_ok s s' \<and> current_term s' = current_term s"
    if "node_has_sufficient_logs (raft_funcs ext) = Some g" "srv_inv s" "g a (s, w) = Inr (s', w')"
    for g s a w s' w'
    by (rule sufficient_logs_ok[OF that(2), of ext a w s' w']) (use that(1,3) in \<open>auto simp: raft_funcs_def\<close>)
  show "0 \<le> fst (rand_fn (raft_funcs ext) w)" for w
    using base.rand_nonneg[of ext w] by (simp add: raft_funcs_def)
qed

text \<open>\<^verbatim>\<open>raft_recv_entry\<close> does not call \<^verbatim>\<open>node_has_sufficient_logs\<close>: with or without it in the record it
  does the same.\<close>

lemma recv_entry_ignores_sufficient:
  "raft_recv_entry (cbs\<lparr>node_has_sufficient_logs := g\<rparr>) = raft_recv_entry cbs"
proof -
  let ?c = "cbs\<lparr>node_has_sufficient_logs := g\<rparr>"
  have cb: "raft_set_callbacks ?c = raft_set_callbacks cbs" by (simp add: raft_set_callbacks_def)
  have app: "raft_append_entry ?c = raft_append_entry cbs" by (intro ext) (simp add: raft_append_entry_def cb)
  have send: "raft_send_appendentries ?c = raft_send_appendentries cbs"
    by (intro ext) (simp add: raft_send_appendentries_def)
  have peer: "recv_entry_peer ?c = recv_entry_peer cbs" by (intro ext) (unfold recv_entry_peer_def send, rule refl)
  show ?thesis by (intro ext) (unfold raft_recv_entry_def app peer, rule refl)
qed

end
