(* ===== verification/Ragel.thy ===== *)
theory Ragel
  imports Ticketd_Prelude
begin

section \<open>Table-driven automata\<close>

text \<open>
  The execution loop that Ragel generates into \<^verbatim>\<open>src/src/parse_addr.c\<close> and \<^verbatim>\<open>src/src/usage.c\<close>: a
  binary search of the character among the single keys of the state, then among its key ranges,
  the transition found, its actions, the next state. The loops of the two files differ in their
  tables, in the extra table \<^verbatim>\<open>_indicies\<close> of the first, and in what the actions do, which are
  parameters here. Table accesses are checked against the size of the table. A character is a
  signed \<^verbatim>\<open>char\<close>.
\<close>

record ragel =
  rg_actions :: "int list"
  rg_key_offsets :: "int list"
  rg_trans_keys :: "int list"
  rg_single_lengths :: "int list"
  rg_range_lengths :: "int list"
  rg_index_offsets :: "int list"
  rg_indicies :: "int list option"
  rg_trans_targs :: "int list"
  rg_trans_actions :: "int list"

subsection \<open>Finding the transition\<close>

text \<open>The two searches; \<open>lower\<close> and \<open>upper\<close> are indices into \<^verbatim>\<open>_trans_keys\<close>.\<close>

function single_search :: "int list \<Rightarrow> int \<Rightarrow> int \<Rightarrow> int \<Rightarrow> fault + int option" where
  "single_search ks c lower upper =
     (if upper < lower then Inr None
      else
        (let mid = lower + (upper - lower) div 2 in
         bindE (arr_get ks mid) (\<lambda>k.
         if c < k then single_search ks c lower (mid - 1)
         else if k < c then single_search ks c (mid + 1) upper
         else Inr (Some mid))))"
  by pat_completeness auto
termination
  by (relation "measure (\<lambda>(ks, c, lower, upper). nat (upper + 1 - lower))") auto

text \<open>A range is a pair of keys: the middle is rounded down to an even distance.\<close>

function range_search :: "int list \<Rightarrow> int \<Rightarrow> int \<Rightarrow> int \<Rightarrow> fault + int option" where
  "range_search ks c lower upper =
     (if upper < lower then Inr None
      else
        (let mid = lower + 2 * ((upper - lower) div 2 div 2) in
         bindE (arr_get ks mid) (\<lambda>k0.
         if c < k0 then range_search ks c lower (mid - 2)
         else
           bindE (arr_get ks (mid + 1)) (\<lambda>k1.
           if k1 < c then range_search ks c (mid + 2) upper
           else Inr (Some mid)))))"
  by pat_completeness auto
termination
  by (relation "measure (\<lambda>(ks, c, lower, upper). nat (upper + 1 - lower))") auto

text \<open>The code from \<^verbatim>\<open>_resume\<close> to \<^verbatim>\<open>_match\<close>.\<close>

definition ragel_trans :: "ragel \<Rightarrow> int \<Rightarrow> int \<Rightarrow> fault + int" where
  "ragel_trans m cs c =
     bindE (arr_get (rg_key_offsets m) cs) (\<lambda>keys.
     bindE (arr_get (rg_index_offsets m) cs) (\<lambda>trans.
     bindE (arr_get (rg_single_lengths m) cs) (\<lambda>klen.
     bindE (if 0 < klen then single_search (rg_trans_keys m) c keys (keys + klen - 1) else Inr None) (\<lambda>hit.
     case hit of
       Some mid \<Rightarrow> Inr (trans + (mid - keys))
     | None \<Rightarrow>
         (let keys = (if 0 < klen then keys + klen else keys);
              trans = (if 0 < klen then trans + klen else trans) in
          bindE (arr_get (rg_range_lengths m) cs) (\<lambda>klen.
          bindE (if 0 < klen then range_search (rg_trans_keys m) c keys (keys + 2 * klen - 2) else Inr None) (\<lambda>hit.
          Inr (case hit of
                 Some mid \<Rightarrow> trans + (mid - keys) div 2
               | None \<Rightarrow> if 0 < klen then trans + klen else trans))))))))"

subsection \<open>Running\<close>

text \<open>\<^verbatim>\<open>acts\<close> indexes \<^verbatim>\<open>_actions\<close>: the number of actions, then the actions.\<close>

definition ragel_acts ::
  "ragel \<Rightarrow> (int \<Rightarrow> 'u \<Rightarrow> fault + 'u) \<Rightarrow> int \<Rightarrow> 'u \<Rightarrow> fault + 'u" where
  "ragel_acts m act acts u =
     bindE (arr_get (rg_actions m) acts) (\<lambda>nacts.
     foldE (\<lambda>k u. bindE (arr_get (rg_actions m) (acts + 1 + int k)) (\<lambda>a. act a u)) [0..<nat nacts] u)"

definition ragel_step ::
  "ragel \<Rightarrow> (int \<Rightarrow> 'u \<Rightarrow> fault + 'u) \<Rightarrow> int \<Rightarrow> int \<times> 'u \<Rightarrow> fault + int \<times> 'u" where
  "ragel_step m act c st =
     (case st of (cs, u) \<Rightarrow>
      bindE (ragel_trans m cs c) (\<lambda>trans.
      bindE (case rg_indicies m of None \<Rightarrow> Inr trans | Some is \<Rightarrow> arr_get is trans) (\<lambda>trans.
      bindE (arr_get (rg_trans_targs m) trans) (\<lambda>cs.
      bindE (arr_get (rg_trans_actions m) trans) (\<lambda>acts.
      if acts = 0 then Inr (cs, u)
      else bindE (ragel_acts m act acts u) (\<lambda>u. Inr (cs, u)))))))"

text \<open>The loop over the characters; \<open>i\<close> is the position of the next one, which the actions can read
  together with the character. State 0 leaves the loop early; the result tells whether the end of
  the data was reached.\<close>

fun ragel_loop ::
  "ragel \<Rightarrow> (int \<Rightarrow> byte \<Rightarrow> int \<Rightarrow> 'u \<Rightarrow> fault + 'u) \<Rightarrow> int \<Rightarrow> byte list \<Rightarrow> int \<times> 'u \<Rightarrow>
   fault + bool \<times> int \<times> 'u" where
  "ragel_loop m act i [] st = Inr (True, st)"
| "ragel_loop m act i (b # bs) st =
     bindE (ragel_step m (act i b) (sint b) st) (\<lambda>st.
     if fst st = 0 then Inr (False, st) else ragel_loop m act (i + 1) bs st)"

definition ragel_execute ::
  "ragel \<Rightarrow> (int \<Rightarrow> byte \<Rightarrow> int \<Rightarrow> 'u \<Rightarrow> fault + 'u) \<Rightarrow> byte list \<Rightarrow> int \<times> 'u \<Rightarrow>
   fault + bool \<times> int \<times> 'u" where
  "ragel_execute m act bs st =
     (if bs = [] then Inr (True, st)
      else if fst st = 0 then Inr (False, st)
      else ragel_loop m act 0 bs st)"

subsection \<open>The searches\<close>

declare single_search.simps [simp del] range_search.simps [simp del]

lemma single_search_total:
  "0 \<le> lower \<Longrightarrow> upper < int (length ks) \<Longrightarrow>
     \<exists>r. single_search ks c lower upper = Inr r \<and> (\<forall>mid. r = Some mid \<longrightarrow> lower \<le> mid \<and> mid \<le> upper)"
proof (induction ks c lower upper rule: single_search.induct)
  case (1 ks c lower upper)
  show ?case
  proof (cases "upper < lower")
    case True
    then show ?thesis by (simp add: single_search.simps)
  next
    case False
    let ?mid = "lower + (upper - lower) div 2"
    have mid: "lower \<le> ?mid" "?mid \<le> upper" using False by auto
    have k: "arr_get ks ?mid = Inr (ks ! nat ?mid)" by (rule arr_get_nat) (use mid 1(3,4) in auto)
    note unf = single_search.simps[of ks c lower upper]
    consider "c < ks ! nat ?mid" | "ks ! nat ?mid < c" | "ks ! nat ?mid = c" by linarith
    then show ?thesis
    proof cases
      case 1
      with "1.IH"(1)[OF False refl 1] "1.prems" mid k False show ?thesis by (force simp: unf Let_def)
    next
      case 2
      with "1.IH"(2)[OF False refl _ 2] "1.prems" mid k False show ?thesis by (force simp: unf Let_def)
    next
      case 3
      with mid k False show ?thesis by (simp add: unf Let_def)
    qed
  qed
qed

lemma upt_two: "[0..<2] = [0, Suc 0]"
  by (simp add: upt_rec)

lemma ragel_loop_append:
  "ragel_loop m act i (xs @ ys) st =
     bindE (ragel_loop m act i xs st) (\<lambda>(eof, st).
       if eof then ragel_loop m act (i + int (length xs)) ys st else Inr (eof, st))"
proof (induction xs arbitrary: i st)
  case (Cons b xs)
  have len: "i + int (length (b # xs)) = i + 1 + int (length xs)" by simp
  show ?case unfolding len
    by (cases "ragel_step m (act i b) (sint b) st") (simp_all add: Cons.IH)
qed simp

end
