(* ===== verification/Addr_Parser.thy ===== *)
theory Addr_Parser
  imports Ragel C_Strings
begin

section \<open>The address parser (parse_addr.c)\<close>

text \<open>
  \<^verbatim>\<open>parse_addr\<close> of \<^verbatim>\<open>src/src/parse_addr.c\<close> takes \<^verbatim>\<open>host\<close> or \<^verbatim>\<open>host:port\<close> apart. The pointers it stores into
  the text are offsets here; a field that no action sets keeps what the caller's structure held.
\<close>

record addr_parse_result =
  ar_is_ip_address :: int
  ar_ip :: int
  ar_ip_len :: int
  ar_host :: int
  ar_host_len :: int
  ar_port :: int
  ar_port_len :: int

definition addr_machine :: ragel where
  "addr_machine =
     \<lparr>rg_actions = [0, 1, 0, 1, 2, 1, 3, 1, 4, 1, 5, 2, 3, 1],
      rg_key_offsets = [0, 0, 11, 13, 25, 27, 39, 51, 63],
      rg_trans_keys =
        [61, 95, 126, 45, 46, 48, 57, 65, 90, 97, 122, 48, 57, 58, 61, 95, 126, 45, 46, 48, 57, 65, 90, 97,
         122, 48, 57, 58, 61, 95, 126, 45, 46, 48, 57, 65, 90, 97, 122, 58, 61, 95, 126, 45, 46, 48, 57, 65,
         90, 97, 122, 58, 61, 95, 126, 45, 46, 48, 57, 65, 90, 97, 122, 58, 61, 95, 126, 45, 46, 48, 57, 65,
         90, 97, 122, 0],
      rg_single_lengths = [0, 3, 0, 4, 0, 4, 4, 4, 4],
      rg_range_lengths = [0, 4, 1, 4, 1, 4, 4, 4, 4],
      rg_index_offsets = [0, 0, 8, 10, 19, 21, 30, 39, 48],
      rg_indicies = Some
        [0, 0, 0, 0, 2, 0, 0, 1, 3, 1, 5, 4, 4, 4, 4, 4, 4, 4, 1, 6, 1, 5, 4, 4, 4, 4, 7, 4, 4, 1, 5, 4,
         4, 4, 4, 8, 4, 4, 1, 5, 4, 4, 4, 4, 9, 4, 4, 1, 10, 4, 4, 4, 4, 9, 4, 4, 1, 0],
      rg_trans_targs = [3, 0, 5, 4, 3, 2, 4, 6, 7, 8, 2],
      rg_trans_actions = [3, 0, 3, 7, 0, 5, 0, 0, 0, 1, 11]\<rparr>"

definition addr_eof_actions :: "int list" where
  "addr_eof_actions = [0, 0, 0, 5, 9, 5, 5, 5, 11]"

definition addr_parse_start :: int where "addr_parse_start = 1"
definition addr_parse_first_final :: int where "addr_parse_first_final = 3"
definition addr_parse_error :: int where "addr_parse_error = 0"

text \<open>The actions, at position \<open>p\<close>; 5 occurs at the end of the text only, 0, 2 and 4 never do there.\<close>

definition addr_act :: "int \<Rightarrow> int \<Rightarrow> addr_parse_result \<Rightarrow> addr_parse_result" where
  "addr_act p a r =
     (if a = 0 then r\<lparr>ar_ip := p\<rparr>
      else if a = 1 then r\<lparr>ar_ip_len := p - ar_ip r\<rparr>
      else if a = 2 then r\<lparr>ar_host := p\<rparr>
      else if a = 3 then r\<lparr>ar_host_len := p - ar_host r\<rparr>
      else if a = 4 then r\<lparr>ar_port := p\<rparr>
      else r)"

definition addr_eof_act :: "int \<Rightarrow> int \<Rightarrow> addr_parse_result \<Rightarrow> addr_parse_result" where
  "addr_eof_act p a r =
     (if a = 1 then r\<lparr>ar_ip_len := p - ar_ip r\<rparr>
      else if a = 3 then r\<lparr>ar_host_len := p - ar_host r\<rparr>
      else if a = 5 then r\<lparr>ar_port_len := p - ar_port r\<rparr>
      else r)"

definition pp_execute :: "byte list \<Rightarrow> int \<times> addr_parse_result \<Rightarrow> fault + int \<times> addr_parse_result" where
  "pp_execute path st =
     bindE (ragel_execute addr_machine (\<lambda>p b a r. Inr (addr_act p a r)) path st) (\<lambda>(eof, cs, r).
     if eof
     then
       bindE (arr_get addr_eof_actions cs) (\<lambda>acts.
       bindE (ragel_acts addr_machine (\<lambda>a r. Inr (addr_eof_act (int (length path)) a r)) acts r) (\<lambda>r.
       Inr (cs, r)))
     else Inr (cs, r))"

definition pp_finish :: "int \<Rightarrow> int" where
  "pp_finish cs =
     (if cs = addr_parse_error then -1 else if addr_parse_first_final \<le> cs then 1 else 0)"

definition parse_addr :: "byte list \<Rightarrow> addr_parse_result \<Rightarrow> fault + int \<times> addr_parse_result" where
  "parse_addr path result =
     bindE (pp_execute path (addr_parse_start, result)) (\<lambda>(cs, r).
     if pp_finish cs \<noteq> 1 then Inr (-1, r) else Inr (0, r))"

subsection \<open>The tables as a transition function\<close>

definition unreserved :: "byte \<Rightarrow> bool" where
  "unreserved b \<longleftrightarrow> digit b \<or> 65 \<le> sint b \<and> sint b \<le> 90 \<or> 97 \<le> sint b \<and> sint b \<le> 122 \<or>
     sint b \<in> {45, 46, 61, 95, 126}"

definition colon :: byte where "colon = 58"

text \<open>What the tables say, without the tables: next state and actions.\<close>

definition addr_delta :: "int \<Rightarrow> byte \<Rightarrow> int \<times> int list" where
  "addr_delta cs b =
     (if cs = 1 then (if digit b then (5, [2]) else if unreserved b then (3, [2]) else (0, []))
      else if cs = 2 then (if digit b then (4, [4]) else (0, []))
      else if cs = 4 then (if digit b then (4, []) else (0, []))
      else if b = colon then (2, if cs = 8 then [3, 1] else [3])
      else if digit b then
        (if cs = 3 then (3, []) else if cs = 5 then (6, []) else if cs = 6 then (7, []) else (8, [0]))
      else if unreserved b then (3, []) else (0, []))"

lemma sint_byte_range: "-128 \<le> sint (b :: byte)" "sint (b :: byte) \<le> 127"
  using sint_range_size[of b] by (simp_all add: size_word.rep_eq)

lemma eq_colon: "b = colon \<longleftrightarrow> sint b = 58"
proof -
  have "sint colon = 58" by (simp add: colon_def)
  then show ?thesis by (metis word_eq_iff_signed)
qed

lemmas addr_step_defs = ragel_step_def ragel_trans_def addr_machine_def arr_get_def ragel_acts_def
  single_search.simps range_search.simps Let_def addr_delta_def digit_def unreserved_def eq_colon

text \<open>One step of the table-driven loop, from every state it can be in.\<close>

lemma addr_step:
  assumes "cs \<in> {1, 2, 3, 4, 5, 6, 7, 8}"
  shows "ragel_step addr_machine (\<lambda>a u. Inr (f a u)) (sint b) (cs, u) =
     Inr (fst (addr_delta cs b), foldl (\<lambda>u a. f a u) u (snd (addr_delta cs b)))"
  using assms by (elim insertE emptyE) (auto simp: addr_step_defs upt_two)

subsection \<open>The grammar\<close>

text \<open>The same loop over the transition function.\<close>

fun addr_run :: "int \<Rightarrow> byte list \<Rightarrow> int \<Rightarrow> addr_parse_result \<Rightarrow> bool \<times> int \<times> addr_parse_result" where
  "addr_run p [] cs r = (True, cs, r)"
| "addr_run p (b # bs) cs r =
     (let r = foldl (\<lambda>r a. addr_act p a r) r (snd (addr_delta cs b)) in
      if fst (addr_delta cs b) = 0 then (False, 0, r) else addr_run (p + 1) bs (fst (addr_delta cs b)) r)"

lemma addr_delta_range: "fst (addr_delta cs b) \<in> {0, 2, 3, 4, 5, 6, 7, 8}"
  by (simp add: addr_delta_def)

lemma addr_loop_run:
  "cs \<in> {1, 2, 3, 4, 5, 6, 7, 8} \<Longrightarrow>
     ragel_loop addr_machine (\<lambda>p b a r. Inr (addr_act p a r)) p bs (cs, r) = Inr (addr_run p bs cs r)"
proof (induction bs arbitrary: p cs r)
  case (Cons b bs)
  then show ?case using addr_delta_range[of cs b] by (auto simp: addr_step Let_def simp del: insert_iff)
qed simp

abbreviation host_part :: "byte list \<Rightarrow> byte list" where
  "host_part bs \<equiv> takeWhile (\<lambda>b. b \<noteq> colon) bs"

abbreviation port_part :: "byte list \<Rightarrow> byte list" where
  "port_part bs \<equiv> tl (dropWhile (\<lambda>b. b \<noteq> colon) bs)"

definition addr_wf :: "byte list \<Rightarrow> bool" where
  "addr_wf bs \<longleftrightarrow> host_part bs \<noteq> [] \<and> list_all unreserved (host_part bs) \<and>
     (colon \<in> set bs \<longrightarrow> port_part bs \<noteq> [] \<and> list_all digit (port_part bs))"

lemma colon_class: "\<not> digit colon" "\<not> unreserved colon"
  by (simp_all add: digit_def unreserved_def colon_def)

lemma digit_unreserved: "digit b \<Longrightarrow> unreserved b"
  by (simp add: unreserved_def)

lemma port_run: "addr_run p t 4 r = (if list_all digit t then (True, 4, r) else (False, 0, r))"
  by (induction t arbitrary: p) (simp_all add: addr_delta_def Let_def)

lemma keep_ip: "\<exists>ip. r = r\<lparr>ar_ip := ip\<rparr>" for r :: addr_parse_result
  by (rule exI[of _ "ar_ip r"]) simp

text \<open>From a state inside the host: up to the colon, or into the error state.\<close>

lemma host_run:
  assumes "cs \<in> {3, 5, 6, 7, 8}"
  shows "if list_all unreserved (host_part bs)
    then \<exists>cs' \<in> {3, 5, 6, 7, 8}. \<exists>ip. addr_run p bs cs r =
      addr_run (p + int (length (host_part bs))) (dropWhile (\<lambda>b. b \<noteq> colon) bs) cs' (r\<lparr>ar_ip := ip\<rparr>)
    else \<exists>r'. addr_run p bs cs r = (False, 0, r')"
  using assms
proof (induction bs arbitrary: p cs r)
  case Nil
  then show ?case using keep_ip[of r] by auto
next
  case (Cons b bs)
  show ?case
  proof (cases "b = colon")
    case True
    have "r = r\<lparr>ar_ip := ar_ip r\<rparr>" by simp
    with True Cons.prems show ?thesis by (auto intro: exI[of _ "ar_ip r"])
  next
    case no_colon: False
    show ?thesis
    proof (cases "unreserved b")
      case False
      then have "fst (addr_delta cs b) = 0"
        using Cons.prems no_colon digit_unreserved[of b] by (auto simp: addr_delta_def)
      with False no_colon show ?thesis by (simp add: Let_def)
    next
      case True
      then have st: "fst (addr_delta cs b) \<in> {3, 5, 6, 7, 8}" "fst (addr_delta cs b) \<noteq> 0"
        using Cons.prems no_colon by (auto simp: addr_delta_def)
      have "\<exists>ip. foldl (\<lambda>r a. addr_act p a r) r (snd (addr_delta cs b)) = r\<lparr>ar_ip := ip\<rparr>"
        using Cons.prems no_colon by (auto simp: addr_delta_def addr_act_def keep_ip)
      then obtain ip where ip: "foldl (\<lambda>r a. addr_act p a r) r (snd (addr_delta cs b)) = r\<lparr>ar_ip := ip\<rparr>" by blast
      have run: "addr_run p (b # bs) cs r = addr_run (p + 1) bs (fst (addr_delta cs b)) (r\<lparr>ar_ip := ip\<rparr>)"
        using st(2) by (simp add: ip)
      show ?thesis
        using Cons.IH[OF st(1), of "p + 1" "r\<lparr>ar_ip := ip\<rparr>"] True no_colon unfolding run
        by (simp add: algebra_simps split: if_splits)
    qed
  qed
qed

text \<open>The actions at the end of the text.\<close>

lemma addr_eof:
  "cs \<in> {3, 5, 6, 7} \<Longrightarrow> bindE (arr_get addr_eof_actions cs) (\<lambda>acts.
     ragel_acts addr_machine (\<lambda>a r. Inr (addr_eof_act p a r)) acts r) = Inr (r\<lparr>ar_host_len := p - ar_host r\<rparr>)"
  "bindE (arr_get addr_eof_actions 8) (\<lambda>acts.
     ragel_acts addr_machine (\<lambda>a r. Inr (addr_eof_act p a r)) acts r) =
     Inr (r\<lparr>ar_host_len := p - ar_host r, ar_ip_len := p - ar_ip r\<rparr>)"
  "bindE (arr_get addr_eof_actions 4) (\<lambda>acts.
     ragel_acts addr_machine (\<lambda>a r. Inr (addr_eof_act p a r)) acts r) = Inr (r\<lparr>ar_port_len := p - ar_port r\<rparr>)"
  "cs \<in> {1, 2} \<Longrightarrow> bindE (arr_get addr_eof_actions cs) (\<lambda>acts.
     ragel_acts addr_machine (\<lambda>a r. Inr (addr_eof_act p a r)) acts r) = Inr r"
  by (auto simp: addr_eof_actions_def ragel_acts_def addr_machine_def addr_eof_act_def arr_get_def upt_two)

definition addr_finish :: "int \<Rightarrow> bool \<times> int \<times> addr_parse_result \<Rightarrow> fault + int \<times> addr_parse_result" where
  "addr_finish n x =
     (case x of (eof, cs, r) \<Rightarrow>
      bindE (if eof then bindE (arr_get addr_eof_actions cs) (\<lambda>acts.
               ragel_acts addr_machine (\<lambda>a r. Inr (addr_eof_act n a r)) acts r) else Inr r) (\<lambda>r.
      Inr (if pp_finish cs \<noteq> 1 then -1 else 0, r)))"

lemma parse_addr_run:
  "parse_addr path r = addr_finish (int (length path)) (addr_run 0 path 1 r)"
proof -
  obtain eof cs r' where run: "addr_run 0 path 1 r = (eof, cs, r')" by (cases "addr_run 0 path 1 r")
  then have "ragel_execute addr_machine (\<lambda>p b a r. Inr (addr_act p a r)) path (1, r) = Inr (eof, cs, r')"
    using addr_loop_run[of 1 0 path r] by (auto simp: ragel_execute_def simp del: ragel_loop.simps)
  then show ?thesis
    by (auto simp: parse_addr_def pp_execute_def addr_parse_start_def addr_finish_def run bindE_assoc intro!: arg_cong2[of _ _ _ _ bindE])
qed

text \<open>What is found when the text is accepted.\<close>

definition addr_found :: "byte list \<Rightarrow> addr_parse_result \<Rightarrow> bool" where
  "addr_found bs r \<longleftrightarrow> ar_host r = 0 \<and> ar_host_len r = int (length (host_part bs)) \<and>
     (colon \<in> set bs \<longrightarrow> ar_port r = int (length (host_part bs)) + 1 \<and>
        ar_port_len r = int (length (port_part bs)))"

lemma addr_finish_error: "addr_finish n (False, 0, r) = Inr (-1, r)"
  by (simp add: addr_finish_def pp_finish_def addr_parse_error_def)

lemma addr_finish_host:
  "cs \<in> {3, 5, 6, 7, 8} \<Longrightarrow> \<exists>r'. addr_finish n (True, cs, r) = Inr (0, r') \<and>
     ar_host r' = ar_host r \<and> ar_host_len r' = n - ar_host r"
  using addr_eof(1)[of cs n r] addr_eof(2)[of n r]
  by (auto simp: addr_finish_def pp_finish_def addr_parse_error_def addr_parse_first_final_def)

text \<open>From the colon on.\<close>

lemma colon_run:
  assumes "cs \<in> {3, 5, 6, 7, 8}"
  shows "\<exists>e r'. addr_finish (p + 1 + int (length t)) (addr_run p (colon # t) cs r) = Inr (e, r') \<and>
    (e = 0 \<longleftrightarrow> t \<noteq> [] \<and> list_all digit t) \<and> (e = 0 \<or> e = -1) \<and>
    (e = 0 \<longrightarrow> ar_host r' = ar_host r \<and> ar_host_len r' = p - ar_host r \<and> ar_port r' = p + 1 \<and>
       ar_port_len r' = int (length t))"
proof -
  define r1 where "r1 = foldl (\<lambda>r a. addr_act p a r) r (snd (addr_delta cs colon))"
  have r1: "ar_host r1 = ar_host r" "ar_host_len r1 = p - ar_host r" "fst (addr_delta cs colon) = 2"
    using assms colon_class by (auto simp: r1_def addr_delta_def addr_act_def)
  have run: "addr_run p (colon # t) cs r = addr_run (p + 1) t 2 r1" using r1(3) by (simp add: r1_def)
  show ?thesis
  proof (cases t)
    case Nil
    then show ?thesis unfolding run
      by (simp add: addr_finish_def addr_eof(4) pp_finish_def addr_parse_error_def addr_parse_first_final_def)
  next
    case (Cons d ds)
    show ?thesis
    proof (cases "digit d \<and> list_all digit ds")
      case True
      then have "addr_run (p + 1) t 2 r1 = (True, 4, r1\<lparr>ar_port := p + 1\<rparr>)"
        using Cons by (simp add: addr_delta_def addr_act_def port_run)
      with True Cons r1 show ?thesis unfolding run
        by (simp add: addr_finish_def addr_eof(3) pp_finish_def addr_parse_error_def addr_parse_first_final_def)
    next
      case False
      then have "\<exists>r2. addr_run (p + 1) t 2 r1 = (False, 0, r2)"
        using Cons by (cases "digit d") (auto simp: addr_delta_def port_run)
      with False Cons show ?thesis unfolding run by (auto simp: addr_finish_error)
    qed
  qed
qed

lemma colon_in_set: "colon \<in> set bs \<longleftrightarrow> dropWhile (\<lambda>b. b \<noteq> colon) bs \<noteq> []"
  by (induction bs) auto

lemma parse_addr_spec:
  "\<exists>e r'. parse_addr bs r = Inr (e, r') \<and> (e = 0 \<longleftrightarrow> addr_wf bs) \<and> (e = 0 \<or> e = -1) \<and>
     (e = 0 \<longrightarrow> addr_found bs r')"
proof (cases "bs \<noteq> [] \<and> unreserved (hd bs)")
  case False
  then have "\<not> addr_wf bs" by (cases bs) (auto simp: addr_wf_def)
  moreover have "\<exists>r'. parse_addr bs r = Inr (-1, r')"
  proof (cases bs)
    case Nil
    then show ?thesis
      by (simp add: parse_addr_run addr_finish_def addr_eof(4) pp_finish_def addr_parse_error_def addr_parse_first_final_def)
  next
    case (Cons b ds)
    with False digit_unreserved[of b] have "fst (addr_delta 1 b) = 0" by (auto simp: addr_delta_def)
    with Cons show ?thesis by (simp add: parse_addr_run Let_def addr_finish_error)
  qed
  ultimately show ?thesis by auto
next
  case True
  then obtain b ds where bs: "bs = b # ds" and u: "unreserved b" by (cases bs) auto
  have nc: "b \<noteq> colon" using u colon_class by auto
  let ?h = "host_part ds" and ?t = "dropWhile (\<lambda>b. b \<noteq> colon) ds" and ?r = "r\<lparr>ar_host := 0\<rparr>"
  obtain cs where cs: "cs \<in> {3, 5, 6, 7, 8}" "addr_run 0 bs 1 r = addr_run 1 ds cs ?r"
    using u bs by (cases "digit b") (auto simp: addr_delta_def addr_act_def)
  have len: "length ds = length ?h + length ?t" by (metis length_append takeWhile_dropWhile_id)
  show ?thesis
  proof (cases "list_all unreserved ?h")
    case False
    then obtain r' where "addr_run 1 ds cs ?r = (False, 0, r')" using host_run[OF cs(1), of ds 1 ?r] by auto
    moreover have "\<not> addr_wf bs" using False nc bs by (simp add: addr_wf_def)
    ultimately show ?thesis by (simp add: parse_addr_run cs(2) addr_finish_error)
  next
    case ok: True
    obtain cs' ip where cs': "cs' \<in> {3, 5, 6, 7, 8}"
      "addr_run 1 ds cs ?r = addr_run (1 + int (length ?h)) ?t cs' (?r\<lparr>ar_ip := ip\<rparr>)"
      using host_run[OF cs(1), of ds 1 ?r] ok by auto
    show ?thesis
    proof (cases ?t)
      case Nil
      then have "addr_wf bs" "colon \<notin> set bs" using ok nc u bs colon_in_set[of ds] by (auto simp: addr_wf_def)
      moreover have "length bs = length (host_part bs)" using len Nil nc bs by simp
      moreover have "addr_run 0 bs 1 r = (True, cs', ?r\<lparr>ar_ip := ip\<rparr>)"
        using cs(2) cs'(2) by (simp only: Nil addr_run.simps)
      ultimately show ?thesis
        using addr_finish_host[OF cs'(1), of "int (length bs)" "?r\<lparr>ar_ip := ip\<rparr>"]
        by (auto simp: parse_addr_run addr_found_def)
    next
      case (Cons c t)
      have "c = colon" using hd_dropWhile[of "\<lambda>b. b \<noteq> colon" ds] Cons by simp
      moreover have "addr_wf bs \<longleftrightarrow> t \<noteq> [] \<and> list_all digit t" "colon \<in> set bs" "port_part bs = t"
        "length (host_part bs) = Suc (length ?h)" "int (length bs) = 1 + int (length ?h) + 1 + int (length t)"
        using Cons ok nc u bs colon_in_set[of ds] len by (auto simp: addr_wf_def)
      ultimately show ?thesis
        using colon_run[OF cs'(1), of "1 + int (length ?h)" t "?r\<lparr>ar_ip := ip\<rparr>"] Cons cs(2) cs'(2)
        by (auto simp: parse_addr_run addr_found_def)
    qed
  qed
qed

subsection \<open>The peer to join\<close>

text \<open>
  What \<^verbatim>\<open>main\<close> does with the argument \<^verbatim>\<open>PEER\<close>: it parses it, ignoring the result, cuts the host off in
  place, and reads the port. The structure \<^verbatim>\<open>res\<close> is not initialised.
\<close>

definition peer_of_arg :: "byte list \<Rightarrow> addr_parse_result \<Rightarrow> fault + byte list \<times> int" where
  "peer_of_arg peer res =
     bindE (parse_addr peer res) (\<lambda>(_, res).
     bindE (arr_set (peer @ [0]) (ar_host res + ar_host_len res) 0) (\<lambda>mem.
     bindE (c_str mem (ar_host res)) (\<lambda>h.
     bindE (c_str mem (ar_port res)) (\<lambda>port.
     Inr (h, atoi port)))))"

lemma unreserved_plain: "unreserved b \<Longrightarrow> b \<noteq> 0 \<and> b \<noteq> colon"
  using colon_class by (auto simp: unreserved_def digit_def)

lemma peer_of_arg_parts:
  assumes "h \<noteq> []" "list_all unreserved h" "ds \<noteq> []" "list_all digit ds"
  shows "peer_of_arg (h @ colon # ds) res = Inr (h, digits_val ds)"
proof -
  let ?bs = "h @ colon # ds"
  have nz: "0 \<notin> set h" "colon \<notin> set h" "0 \<notin> set ds"
    using assms(2,4) unreserved_plain digit_plain by (auto simp: list_all_iff)
  have "dropWhile (\<lambda>b. b \<noteq> colon) h = []" using nz(2) by (auto simp: dropWhile_eq_Nil_conv)
  then have parts: "host_part ?bs = h" "port_part ?bs = ds"
    using nz(2) by (auto simp: takeWhile_tail dropWhile_append)
  have "addr_wf ?bs" using assms by (simp add: addr_wf_def parts)
  then obtain r where r: "parse_addr ?bs res = Inr (0, r)" "addr_found ?bs r"
    using parse_addr_spec[of ?bs res] by auto
  then have f: "ar_host r = 0" "ar_host_len r = int (length h)" "ar_port r = int (length h) + 1"
    using parts by (simp_all add: addr_found_def)
  let ?mem = "h @ 0 # ds @ [0]"
  have "arr_set (?bs @ [0]) (ar_host r + ar_host_len r) 0 = Inr ?mem" by (simp add: f arr_set_def)
  moreover have "c_str ?mem (ar_host r) = Inr h" using c_str_at[of 0 "[]" h] nz(1) by (simp add: f)
  moreover have "c_str ?mem (ar_port r) = Inr ds"
    using c_str_at[of "ar_port r" "h @ [0]" ds "[]"] nz(3) by (simp add: f)
  moreover have "atoi ds = digits_val ds" using atoi_digits[OF assms(3,4), of "[]"] by simp
  ultimately show ?thesis using r(1) by (simp add: peer_of_arg_def)
qed

end
