(* ===== verification/Ticketd_Node.thy ===== *)
theory Ticketd_Node
  imports Ticketd_Env Addr_Parser
begin

section \<open>The ticket server: messages, clients, timer and start-up (main.c)\<close>

text \<open>
  The handlers of \<^verbatim>\<open>src/src/main.c\<close>. Messages arrive as bytes and are read by TPL
  (\<open>Peer_Wire\<close>). The handlers run under \<^verbatim>\<open>raft_lock\<close>; where
  a handler waits on the condition variable, other threads run, and what they do is an argument of
  the model (\<open>wakes\<close>). Loops that need not end return an option. A leave response makes the server
  drop its databases (\<open>drop_db\<close>) and exit: the fault \<open>Exit 0\<close>, as for an unknown message. A fault
  carries no state, so what the exiting process leaves on disk is seen in \<open>drop_db\<close> only.
\<close>

subsection \<open>Messages from peers\<close>

definition handle_entry ::
  "'x ext \<Rightarrow> addr \<Rightarrow> raft_entry \<Rightarrow> raft_server \<times> 'x world \<Rightarrow> fault + int \<times> raft_server \<times> 'x world" where
  "handle_entry ext c entry sw =
     (case sw of (s, w) \<Rightarrow>
      bindE (conn_get w (Some c)) (\<lambda>conn.
      let ae = (pc_ae conn)\<lparr>ae_entries := [entry]\<rparr> in
      bindE (conn_upd (Some c) (\<lambda>conn. conn\<lparr>pc_ae := ae\<rparr>) w) (\<lambda>w.
      bindE (raft_recv_appendentries (raft_funcs ext) (pc_node conn) ae zero_aer (s, w)) (\<lambda>(_, aer, s, w).
      bindE (conn_get w (Some c)) (\<lambda>conn.
      bindE (peer_msg_send ext (pc_stream conn) (MSG_APPENDENTRIES_RESPONSE aer) w) (\<lambda>w.
      bindE (conn_upd (Some c) (\<lambda>conn. conn\<lparr>pc_n_expected_entries := 0\<rparr>) w) (\<lambda>w.
      Inr (0, s, w))))))))"

definition handle_payload ::
  "'x ext \<Rightarrow> addr \<Rightarrow> byte list \<Rightarrow> raft_server \<times> 'x world \<Rightarrow> fault + int \<times> raft_server \<times> 'x world" where
  "handle_payload ext c img sw =
     bindE (deserialize_appendentries_payload (junk ext 440) img) (\<lambda>entry. handle_entry ext c entry sw)"

text \<open>The first part of the handshake: another connection from the same peer is dropped, this one
  becomes the peer's.\<close>

definition handshake_connect ::
  "addr \<Rightarrow> msg_handshake \<Rightarrow> raft_server \<times> 'x world \<Rightarrow> fault + addr option \<times> raft_server \<times> 'x world" where
  "handshake_connect c hs sw =
     bindE (conn_get (snd sw) (Some c)) (\<lambda>conn.
     bindE (find_connection (snd sw) (pc_host conn) (hs_raft_port hs)) (\<lambda>nconn.
     bindE (if nconn \<noteq> None \<and> Some c \<noteq> nconn then delete_connection (the nconn) sw else Inr sw) (\<lambda>(s, w).
     bindE (conn_upd (Some c) (\<lambda>conn. conn\<lparr>pc_status := CONNECTED, pc_http_port := hs_http_port hs,
              pc_raft_port := hs_raft_port hs\<rparr>) w) (\<lambda>w.
     bindE (raft_get_node s (hs_node_id hs)) (\<lambda>node.
     if node \<noteq> None
     then
       bindE (node_upd node (raft_node_set_udata (Some c)) s) (\<lambda>s.
       bindE (conn_upd (Some c) (\<lambda>conn. conn\<lparr>pc_node := node\<rparr>) w) (\<lambda>w.
       Inr (node, s, w)))
     else Inr (node, s, w))))))"

definition handle_handshake ::
  "'x ext \<Rightarrow> addr \<Rightarrow> msg_handshake \<Rightarrow> raft_server \<times> 'x world \<Rightarrow> fault + int \<times> raft_server \<times> 'x world" where
  "handle_handshake ext c hs sw =
     bindE (handshake_connect c hs sw) (\<lambda>(node, s, w).
     let leader = raft_get_current_leader_node s in
     if leader = None
     then send_handshake_response ext (Some c) HANDSHAKE_FAILURE None (s, w)
     else
       bindE (node_get s leader) (\<lambda>lnode.
       if raft_node_get_id lnode \<noteq> w_node_id w
       then send_handshake_response ext (Some c) HANDSHAKE_FAILURE leader (s, w)
       else if node \<noteq> None
       then send_handshake_response ext (Some c) HANDSHAKE_SUCCESS None (s, w)
       else
         bindE (conn_get w (Some c)) (\<lambda>conn.
         bindE (append_cfg_change ext (raft_funcs ext) RAFT_LOGTYPE_ADD_NONVOTING_NODE (pc_host conn)
                  (hs_raft_port hs) (hs_http_port hs) (hs_node_id hs) (s, w)) (\<lambda>(e, s, w).
         if 0 \<noteq> e
         then send_handshake_response ext (Some c) HANDSHAKE_FAILURE None (s, w)
         else send_handshake_response ext (Some c) HANDSHAKE_SUCCESS None (s, w)))))"

definition handle_handshake_response ::
  "'x ext \<Rightarrow> addr \<Rightarrow> msg_handshake_response \<Rightarrow> raft_server \<times> 'x world \<Rightarrow>
   fault + int \<times> raft_server \<times> 'x world" where
  "handle_handshake_response ext c hsr sw =
     (case sw of (s, w) \<Rightarrow>
      if 0 = hsr_success hsr
      then
        bindE (conn_upd (Some c) (\<lambda>conn. conn\<lparr>pc_http_port := hsr_http_port hsr\<rparr>) w) (\<lambda>w.
        if hsr_leader_port hsr \<noteq> 0
        then
          bindE (find_connection w (hsr_leader_host hsr) (hsr_leader_port hsr)) (\<lambda>nconn.
          if nconn = None
          then
            (case new_connection w of
               (nc, w) \<Rightarrow>
                 bindE (connect_to_peer_at_host ext nc (hsr_leader_host hsr) (hsr_leader_port hsr) w) (\<lambda>w.
                 Inr (0, s, w)))
          else Inr (0, s, w))
        else Inr (0, s, w))
      else
        bindE (conn_get w (Some c)) (\<lambda>conn.
        if pc_node conn = None
        then
          bindE (raft_get_node s (hsr_node_id hsr)) (\<lambda>node.
          bindE (conn_upd (Some c) (\<lambda>conn. conn\<lparr>pc_node := node\<rparr>) w) (\<lambda>w. Inr (0, s, w)))
        else Inr (0, s, w)))"

definition handle_leave ::
  "'x ext \<Rightarrow> addr \<Rightarrow> raft_server \<times> 'x world \<Rightarrow> fault + int \<times> raft_server \<times> 'x world" where
  "handle_leave ext c sw =
     bindE (conn_get (snd sw) (Some c)) (\<lambda>conn.
     if pc_node conn = None then Inr (0, sw)
     else
       bindE (node_get (fst sw) (pc_node conn)) (\<lambda>n.
       bindE (append_cfg_change ext (raft_funcs ext) RAFT_LOGTYPE_REMOVE_NODE (pc_host conn)
                (pc_raft_port conn) (pc_http_port conn) (raft_node_get_id n) sw) (\<lambda>(_, sw).
       Inr (0, sw))))"

definition handle_requestvote ::
  "'x ext \<Rightarrow> addr \<Rightarrow> msg_requestvote \<Rightarrow> raft_server \<times> 'x world \<Rightarrow> fault + int \<times> raft_server \<times> 'x world" where
  "handle_requestvote ext c rv sw =
     bindE (raft_recv_requestvote (raft_funcs ext) rv zero_rvr sw) (\<lambda>(_, rvr, s, w).
     bindE (conn_get w (Some c)) (\<lambda>conn.
     bindE (peer_msg_send ext (pc_stream conn) (MSG_REQUESTVOTE_RESPONSE rvr) w) (\<lambda>w.
     Inr (0, s, w))))"

definition handle_appendentries ::
  "'x ext \<Rightarrow> addr \<Rightarrow> msg_appendentries \<Rightarrow> raft_server \<times> 'x world \<Rightarrow> fault + int \<times> raft_server \<times> 'x world" where
  "handle_appendentries ext c ae sw =
     (case sw of (s, w) \<Rightarrow>
      if 0 < ae_n_entries ae
      then
        bindE (conn_upd (Some c) (\<lambda>conn. conn\<lparr>pc_n_expected_entries := ae_n_entries ae, pc_ae := ae\<rparr>) w) (\<lambda>w.
        Inr (0, s, w))
      else
        bindE (conn_get w (Some c)) (\<lambda>conn.
        bindE (raft_recv_appendentries (raft_funcs ext) (pc_node conn) ae zero_aer (s, w)) (\<lambda>(_, aer, s, w).
        bindE (conn_get w (Some c)) (\<lambda>conn.
        bindE (peer_msg_send ext (pc_stream conn) (MSG_APPENDENTRIES_RESPONSE aer) w) (\<lambda>w.
        Inr (0, s, w))))))"

definition drop_db :: "'x world \<Rightarrow> 'x world" where
  "drop_db w = w\<lparr>w_env := mdb_drop_dbs (w_env w) [db_entries, db_tickets, db_state]\<rparr>"

definition handle_msg ::
  "'x ext \<Rightarrow> addr \<Rightarrow> peer_msg \<Rightarrow> raft_server \<times> 'x world \<Rightarrow> fault + int \<times> raft_server \<times> 'x world" where
  "handle_msg ext c m sw =
     (case sw of (s, w) \<Rightarrow>
      bindE (conn_get w (Some c)) (\<lambda>conn.
      case m of
        MSG_HANDSHAKE hs \<Rightarrow> handle_handshake ext c hs (s, w)
      | MSG_HANDSHAKE_RESPONSE hsr \<Rightarrow> handle_handshake_response ext c hsr (s, w)
      | MSG_LEAVE \<Rightarrow> handle_leave ext c (s, w)
      | MSG_LEAVE_RESPONSE \<Rightarrow> Inl (Exit 0)
      | MSG_REQUESTVOTE rv \<Rightarrow> handle_requestvote ext c rv (s, w)
      | MSG_REQUESTVOTE_RESPONSE rvr \<Rightarrow>
          bindE (raft_recv_requestvote_response (raft_funcs ext) (pc_node conn) rvr (s, w)) (\<lambda>(_, sw). Inr (0, sw))
      | MSG_APPENDENTRIES ae \<Rightarrow> handle_appendentries ext c ae (s, w)
      | MSG_APPENDENTRIES_RESPONSE aer \<Rightarrow>
          bindE (raft_recv_appendentries_response (raft_funcs ext) (pc_node conn) aer (s, w)) (\<lambda>(_, sw). Inr (0, sw))
      | _ \<Rightarrow> Inl (Exit 0)))"

definition deserialize_and_handle_msg ::
  "'x ext \<Rightarrow> addr \<Rightarrow> byte list \<Rightarrow> raft_server \<times> 'x world \<Rightarrow> fault + int \<times> raft_server \<times> 'x world" where
  "deserialize_and_handle_msg ext c img sw =
     bindE (conn_get (snd sw) (Some c)) (\<lambda>conn.
     if 0 < pc_n_expected_entries conn then handle_payload ext c img sw
     else bindE (deserialize_msg (junk ext 440) img) (\<lambda>m. handle_msg ext c m sw))"

text \<open>\<^verbatim>\<open>__peer_read_cb\<close>: \<open>buf\<close> are the bytes read. \<^verbatim>\<open>tpl_gather\<close> cuts them into images, behind what the last read
  left in \<^verbatim>\<open>conn->gt\<close>, and calls the handler on each; its result is ignored. \<^verbatim>\<open>conn->gt\<close> is touched nowhere
  else, so it is passed beside the state: \<open>gt\<close>.\<close>

definition UV_ECONNRESET :: int where "UV_ECONNRESET = -104"
definition UV_EOF :: int where "UV_EOF = -4095"

definition peer_read_cb ::
  "'x ext \<Rightarrow> addr \<Rightarrow> int \<Rightarrow> byte list \<Rightarrow> byte list option \<Rightarrow> raft_server \<times> 'x world \<Rightarrow>
   (fault + byte list option \<times> raft_server \<times> 'x world) option" where
  "peer_read_cb ext c nread buf gt sw =
     (if nread < 0
      then
        if nread = UV_ECONNRESET \<or> nread = UV_EOF
        then Some (bindE (conn_upd (Some c) (\<lambda>conn. conn\<lparr>pc_status := DISCONNECTED\<rparr>) (snd sw)) (\<lambda>w.
             Inr (gt, fst sw, w)))
        else Some (Inl (Fatal nread))
      else
        (case tpl_gather_mem buf gt (deserialize_and_handle_msg ext c) sw of
           None \<Rightarrow> None
         | Some (Inl f) \<Rightarrow> Some (Inl f)
         | Some (Inr (_, gt, sw)) \<Rightarrow> Some (Inr (gt, sw))))"

subsection \<open>Connections\<close>

definition on_peer_connection :: "'x ext \<Rightarrow> int \<Rightarrow> 'x world \<Rightarrow> fault + 'x world" where
  "on_peer_connection ext status w =
     (if 0 \<noteq> status then Inl (Fatal status)
      else
        bindE (uv_call ext w) (\<lambda>w.
        bindE (uv_call ext w) (\<lambda>w.
        let st = w_next_stream w in
        case new_connection (w\<lparr>w_next_stream := Suc st\<rparr>) of
          (c, w) \<Rightarrow>
            bindE (uv_call ext w) (\<lambda>w.
            bindE (conn_upd (Some c) (\<lambda>conn. conn\<lparr>pc_node := None, pc_stream := Some st,
                     pc_host := x_getpeername ext st (w_ext w)\<rparr>) w) (\<lambda>w.
            uv_call ext w)))))"

definition UV_ECONNREFUSED :: int where "UV_ECONNREFUSED = -111"

definition on_connection_accepted_by_peer ::
  "'x ext \<Rightarrow> addr \<Rightarrow> int \<Rightarrow> 'x world \<Rightarrow> fault + 'x world" where
  "on_connection_accepted_by_peer ext c status w =
     (if status = UV_ECONNREFUSED then Inr w
      else if status \<noteq> 0 then Inl (Fatal status)
      else
        bindE (send_handshake ext (Some c) w) (\<lambda>w.
        bindE (conn_get w (Some c)) (\<lambda>conn.
        bindE (uv_call ext w) (\<lambda>w.
        bindE (case pc_stream conn of None \<Rightarrow> Inl Null_deref
               | Some st \<Rightarrow> conn_upd (Some c) (\<lambda>conn. conn\<lparr>pc_host := x_getpeername ext st (w_ext w),
                   pc_status := CONNECTED\<rparr>) w) (\<lambda>w.
        uv_call ext w)))))"

subsection \<open>Clients\<close>

definition ticket_bytes :: "u32 \<Rightarrow> byte list" where
  "ticket_bytes t = int_bytes (uint t)"

definition check_if_ticket_exists :: "u32 \<Rightarrow> 'x world \<Rightarrow> bool" where
  "check_if_ticket_exists ticket w \<longleftrightarrow>
     mdb_get (mdb_txn_begin True (w_env w)) db_tickets (ticket_bytes ticket) \<noteq> None"

partial_function (option) generate_ticket :: "'x ext \<Rightarrow> 'x world \<Rightarrow> (u32 \<times> 'x world) option" where
  "generate_ticket ext w =
     (case rand_int ext w of (r, w) \<Rightarrow>
        if check_if_ticket_exists (word_of_int r) w then generate_ticket ext w
        else Some (word_of_int r, w))"

text \<open>What the client gets: no answer from this handler, an error status, a redirect or the id.\<close>

datatype http_result =
    Http_declined
  | Http_error int
  | Http_moved host int
  | Http_ok int

text \<open>The wait for the commit; the first argument is the number of waits left (\<^verbatim>\<open>4 - tries\<close>).\<close>

fun http_wait ::
  "nat \<Rightarrow> (nat \<Rightarrow> raft_server \<times> 'x world \<Rightarrow> raft_server \<times> 'x world) \<Rightarrow> msg_entry_response \<Rightarrow>
   raft_server \<times> 'x world \<Rightarrow> fault + bool \<times> raft_server \<times> 'x world" where
  "http_wait 0 wakes r sw = Inr (False, sw)"
| "http_wait (Suc n) wakes r sw =
     (let sw = wakes n sw in
      bindE (raft_msg_entry_response_committed (fst sw) r) (\<lambda>e.
      if e = 0 then http_wait n wakes r sw
      else if e = 1 then Inr (True, sw)
      else Inr (False, sw)))"

text \<open>The part behind the ticket; the flag says whether \<^verbatim>\<open>raft_lock\<close> is still held on return.\<close>

definition http_commit ::
  "'x ext \<Rightarrow> (nat \<Rightarrow> raft_server \<times> 'x world \<Rightarrow> raft_server \<times> 'x world) \<Rightarrow> u32 \<Rightarrow> raft_server \<times> 'x world \<Rightarrow>
   fault + http_result \<times> bool \<times> raft_server \<times> 'x world" where
  "http_commit ext wakes ticket sw =
     (case rand_int ext (snd sw) of
        (r, w) \<Rightarrow>
          let entry = \<lparr>ety_term = 0, ety_id = word_of_int r, ety_type = 0, ety_data = ticket_bytes ticket\<rparr> in
          bindE (raft_recv_entry (raft_funcs ext) entry zero_mer (fst sw, w)) (\<lambda>(e, r, sw).
          if 0 \<noteq> e then Inr (Http_error 500, True, sw)
          else
            bindE (http_wait 4 wakes r sw) (\<lambda>(ok, sw).
            if ok then Inr (Http_ok (sint (ety_id entry)), False, sw)
            else Inr (Http_error 400, False, sw))))"

definition http_get_id ::
  "'x ext \<Rightarrow> bool \<Rightarrow> (nat \<Rightarrow> raft_server \<times> 'x world \<Rightarrow> raft_server \<times> 'x world) \<Rightarrow> raft_server \<times> 'x world \<Rightarrow>
   (fault + http_result \<times> bool \<times> raft_server \<times> 'x world) option" where
  "http_get_id ext is_post wakes sw =
     (case sw of (s, w) \<Rightarrow>
      if \<not> is_post then Some (Inr (Http_declined, False, sw))
      else
        let leader = raft_get_current_leader_node s in
        if leader = None then Some (Inr (Http_error 503, False, sw))
        else
          (case node_get s leader of
             Inl f \<Rightarrow> Some (Inl f)
           | Inr lnode \<Rightarrow>
               if raft_node_get_id lnode \<noteq> w_node_id w
               then Some (bindE (conn_get w (raft_node_get_udata lnode)) (\<lambda>lc.
                          Inr (Http_moved (pc_host lc) (pc_http_port lc), False, sw)))
               else
                 (case generate_ticket ext w of
                    None \<Rightarrow> None
                  | Some (ticket, w) \<Rightarrow> Some (http_commit ext wakes ticket (s, w)))))"

subsection \<open>The timer\<close>

definition PERIOD_MSEC :: int where
  "PERIOD_MSEC = 1000"

definition periodic_leave :: "'x ext \<Rightarrow> raft_server \<times> 'x world \<Rightarrow> fault + raft_server \<times> 'x world" where
  "periodic_leave ext sw =
     (case sw of (s, w) \<Rightarrow>
      if w_leave w \<and> raft_get_current_leader_node s \<noteq> None
      then
        bindE (node_get s (raft_get_current_leader_node s)) (\<lambda>lnode.
        bindE (assertE (raft_node_get_id lnode \<noteq> w_node_id w)) (\<lambda>_.
        bindE (send_leave ext (raft_node_get_udata lnode) w) (\<lambda>w.
        Inr (s, w))))
      else Inr (s, w))"

definition periodic ::
  "'x ext \<Rightarrow> raft_server \<times> 'x world \<Rightarrow> (fault + raft_server \<times> 'x world) option" where
  "periodic ext sw =
     (case bindE (raft_periodic (raft_funcs ext) PERIOD_MSEC sw) (\<lambda>(_, sw). periodic_leave ext sw) of
        Inl f \<Rightarrow> Some (Inl f)
      | Inr sw \<Rightarrow> raft_apply_all (raft_funcs ext) sw)"

definition start_raft_periodic_timer :: "raft_server \<Rightarrow> raft_server" where
  "start_raft_periodic_timer s = raft_set_election_timeout 2000 s"

text \<open>\<^verbatim>\<open>SIGINT\<close>: ask the leader to let us go, unless we are the leader.\<close>

definition int_handler :: "'x ext \<Rightarrow> raft_server \<times> 'x world \<Rightarrow> fault + raft_server \<times> 'x world" where
  "int_handler ext sw =
     (case sw of (s, w) \<Rightarrow>
      if raft_get_current_leader_node s \<noteq> None
      then
        bindE (node_get s (raft_get_current_leader_node s)) (\<lambda>lnode.
        if raft_node_get_id lnode = w_node_id w then Inr (s, w)
        else if raft_node_get_udata lnode \<noteq> None
        then bindE (send_leave ext (raft_node_get_udata lnode) w) (\<lambda>w. Inr (s, w))
        else Inr (s, w))
      else Inr (s, w))"

subsection \<open>Start-up\<close>

text \<open>One record of the entries database: an even key carries the metadata, an odd one the data, with
  which the entry is appended.\<close>

definition load_record ::
  "'x ext \<Rightarrow> mdb_val \<times> mdb_val \<Rightarrow> raft_entry \<times> raft_server \<times> 'x world \<Rightarrow>
   fault + raft_entry \<times> raft_server \<times> 'x world" where
  "load_record ext kv st =
     (case st of (ety, sw) \<Rightarrow>
      bindE (bytes_int (fst kv)) (\<lambda>k.
      if even k
      then bindE (load_meta (junk ext 440) (snd kv) ety) (\<lambda>ety. Inr (ety, sw))
      else
        (let ety = ety\<lparr>ety_data := snd kv\<rparr> in
         bindE (raft_append_entry (raft_funcs ext) ety sw) (\<lambda>(_, sw). Inr (ety, sw)))))"

definition load_entries ::
  "'x ext \<Rightarrow> mdb_db \<Rightarrow> raft_server \<times> 'x world \<Rightarrow> fault + raft_server \<times> 'x world" where
  "load_entries ext db sw = bindE (foldE (load_record ext) db (zero_entry, sw)) (\<lambda>(_, sw). Inr sw)"

definition load_commit_log ::
  "'x ext \<Rightarrow> raft_server \<times> 'x world \<Rightarrow> (fault + raft_server \<times> 'x world) option" where
  "load_commit_log ext sw =
     (let db = w_env (snd sw) ! db_entries in
      if db = [] then Some (Inr sw)
      else
        (case bindE (load_entries ext db sw) (\<lambda>(s, w).
                case mdb_gets (w_env w) db_state key_commit_idx of
                  None \<Rightarrow> Inr (s, w)
                | Some v \<Rightarrow> bindE (bytes_int v) (\<lambda>i. bindE (raft_set_commit_idx i s) (\<lambda>s. Inr (s, w)))) of
           Inl f \<Rightarrow> Some (Inl f)
         | Inr sw \<Rightarrow> raft_apply_all (raft_funcs ext) sw))"

text \<open>\<^verbatim>\<open>load_persistent_state\<close> reads \<^verbatim>\<open>voted_for\<close>, writes it as \<^verbatim>\<open>term\<close> and makes it the current term.\<close>

definition load_persistent_state ::
  "'x ext \<Rightarrow> raft_server \<times> 'x world \<Rightarrow> fault + raft_server \<times> 'x world" where
  "load_persistent_state ext sw =
     (case sw of (s, w) \<Rightarrow>
      (case kv_db_get (x_wt ext) (w_state_schema w) key_voted_for (w_ext w) of
         (None, x) \<Rightarrow> Inl Null_deref
       | (Some v, x) \<Rightarrow>
           bindE (bytes_int v) (\<lambda>val.
           bindE (raft_vote_for_nodeid (raft_funcs ext) val (s, w\<lparr>w_ext := x\<rparr>)) (\<lambda>(s, w).
           let w = w\<lparr>w_ext := snd (kv_db_set (x_wt ext) (w_state_schema w) key_term (int_bytes val) (w_ext w))\<rparr> in
           raft_set_current_term (raft_funcs ext) val (s, w)))))"

text \<open>The three ways \<^verbatim>\<open>main\<close> goes on once the server has added itself: found a cluster, join one
  through a peer, rejoin the one it was in. They start from a world whose stores are open and whose
  sockets listen; what \<^verbatim>\<open>main\<close> does before (options, \<^verbatim>\<open>__drop_db\<close>, \<^verbatim>\<open>new_db\<close>, \<^verbatim>\<open>save_opts\<close>, listening
  sockets) makes that world. At this commit \<^verbatim>\<open>new_db\<close> opens WiredTiger only: nothing in
  \<^verbatim>\<open>main.c\<close> creates the LMDB environment \<^verbatim>\<open>sv->db_env\<close> that the callbacks use, so an open one is an
  assumption on the world.\<close>

definition main_add_self :: "'x world \<Rightarrow> fault + raft_server \<times> 'x world" where
  "main_add_self w = bindE (raft_add_node None (w_node_id w) True raft_new) (\<lambda>(_, s). Inr (s, w))"

definition main_start :: "'x ext \<Rightarrow> host \<Rightarrow> 'x world \<Rightarrow> fault + raft_server \<times> 'x world" where
  "main_start ext h w =
     bindE (main_add_self w) (\<lambda>(s, w).
     bindE (raft_become_leader (raft_funcs ext) (s, w)) (\<lambda>sw.
     bindE (append_cfg_change ext (raft_funcs ext) RAFT_LOGTYPE_ADD_NODE h (w_raft_port (snd sw))
              (w_http_port (snd sw)) (w_node_id (snd sw)) sw) (\<lambda>(_, s, w).
     Inr (start_raft_periodic_timer s, w))))"

text \<open>\<open>peer\<close> is the argument \<^verbatim>\<open>PEER\<close>, \<open>res\<close> what the uninitialised result of \<^verbatim>\<open>parse_addr\<close> holds.\<close>

definition main_join ::
  "'x ext \<Rightarrow> byte list \<Rightarrow> addr_parse_result \<Rightarrow> 'x world \<Rightarrow> fault + raft_server \<times> 'x world" where
  "main_join ext peer res w =
     bindE (main_add_self w) (\<lambda>(s, w).
     bindE (peer_of_arg peer res) (\<lambda>(peer_host, peer_port).
     case new_connection w of
       (c, w) \<Rightarrow>
         bindE (connect_to_peer_at_host ext c peer_host peer_port w) (\<lambda>w.
         Inr (start_raft_periodic_timer s, w))))"

definition rejoin_peer :: "'x ext \<Rightarrow> addr option \<Rightarrow> raft_server \<times> 'x world \<Rightarrow> fault + raft_server \<times> 'x world" where
  "rejoin_peer ext p sw =
     (case sw of (s, w) \<Rightarrow>
      bindE (node_get s p) (\<lambda>n.
      if raft_node_get_id n = w_node_id w then Inr (s, w)
      else bindE (connect_to_peer ext (raft_node_get_udata n) w) (\<lambda>w. Inr (s, w))))"

definition main_rejoin :: "'x ext \<Rightarrow> 'x world \<Rightarrow> (fault + raft_server \<times> 'x world) option" where
  "main_rejoin ext w =
     (case main_add_self w of
        Inl f \<Rightarrow> Some (Inl f)
      | Inr sw \<Rightarrow>
          (case load_commit_log ext sw of
             None \<Rightarrow> None
           | Some r \<Rightarrow> Some (
               bindE r (\<lambda>sw.
               bindE (load_persistent_state ext sw) (\<lambda>sw.
               bindE (if 1 = raft_get_num_nodes (fst sw)
                      then raft_become_leader (raft_funcs ext) sw
                      else for_nodes (rejoin_peer ext) sw) (\<lambda>(s, w).
               Inr (start_raft_periodic_timer s, w)))))))"

end
