(* ===== verification/Ticketd_Safety.thy ===== *)
theory Ticketd_Safety
  imports Ticketd_Node
begin

section \<open>The ticket server keeps the Raft server safe\<close>

text \<open>
  Every handler of the ticket server changes its raft server in steps of \<open>step_ok\<close>: the invariant
  holds, term, commit and applied index do not decrease, committed entries stay. The lemmas go
  handler by handler, over the interpretation \<open>tick\<close> of the library's contract. \<open>tick_step\<close> is one
  event of the server: bytes or a disconnect from a peer, a new connection, the timer, a client
  request, an interrupt.
\<close>

lemmas tick_ops_ok =
  tick.recv_appendentries_ok(1) tick.recv_appendentries_response_ok tick.recv_entry_ok
  recv_requestvote_ok recv_requestvote_response_ok

lemma udata_heap_step: "node_upd p (raft_node_set_udata u) s = Inr s' \<Longrightarrow> heap_step s s'"
  by (erule heap_step_upd) simp

lemma delete_connection_ok:
  "delete_connection c (s, w) = Inr (s', w') \<Longrightarrow> srv_inv s \<Longrightarrow> step_ok s s'"
  by (auto simp: delete_connection_def step_ok_refl split: if_splits
      intro: heap_step_ok[OF udata_heap_step])

lemma send_handshake_response_server:
  "send_handshake_response ext p ok l (s, w) = Inr (e, s', w') \<Longrightarrow> s' = s"
  by (auto simp: send_handshake_response_def)

lemma handle_entry_ok:
  "handle_entry ext c entry (s, w) = Inr (e, s', w') \<Longrightarrow> srv_inv s \<Longrightarrow> step_ok s s'"
  by (auto simp: handle_entry_def Let_def intro: tick.recv_appendentries_ok(1))

lemma handle_payload_ok:
  "handle_payload ext c img (s, w) = Inr (e, s', w') \<Longrightarrow> srv_inv s \<Longrightarrow> step_ok s s'"
  by (auto simp: handle_payload_def intro: handle_entry_ok)

lemma handshake_connect_ok:
  assumes ret: "handshake_connect c hs (s, w) = Inr (node, s', w')" and inv: "srv_inv s"
  shows "step_ok s s'"
proof -
  obtain nconn s1 w1 where
    1: "(if nconn \<noteq> None \<and> Some c \<noteq> nconn then delete_connection (the nconn) (s, w) else Inr (s, w)) = Inr (s1, w1)"
    and 2: "s' = s1 \<or> (\<exists>p. node_upd p (raft_node_set_udata (Some c)) s1 = Inr s')"
    using ret by (fastforce simp: handshake_connect_def split: if_splits)
  have ok1: "step_ok s s1" using 1 delete_connection_ok[OF _ inv] step_ok_refl[OF inv] by (auto split: if_splits)
  from 2 show ?thesis
    using ok1 heap_step_ok[OF udata_heap_step step_ok_inv[OF ok1]] step_ok_trans by blast
qed

lemma handle_handshake_ok:
  assumes ret: "handle_handshake ext c hs (s, w) = Inr (e, s', w')" and inv: "srv_inv s"
  shows "step_ok s s'"
proof -
  obtain node s1 w1 where 1: "handshake_connect c hs (s, w) = Inr (node, s1, w1)"
    and 2: "s' = s1 \<or> (\<exists>t h rp hp i w e w''. append_cfg_change ext (raft_funcs ext) t h rp hp i (s1, w) = Inr (e, s', w''))"
    using ret by (auto simp: handle_handshake_def Let_def split: if_splits
        dest!: send_handshake_response_server) blast+
  have ok1: "step_ok s s1" by (rule handshake_connect_ok[OF 1 inv])
  from 2 show ?thesis
    using ok1 append_cfg_change_ok[OF step_ok_inv[OF ok1] tick.raft_env_axioms] step_ok_trans by blast
qed

lemma handle_handshake_response_server:
  "handle_handshake_response ext c hsr (s, w) = Inr (e, s', w') \<Longrightarrow> s' = s"
  by (auto simp: handle_handshake_response_def split: if_splits prod.splits)

lemma handle_leave_ok:
  "handle_leave ext c (s, w) = Inr (e, s', w') \<Longrightarrow> srv_inv s \<Longrightarrow> step_ok s s'"
  by (auto simp: handle_leave_def step_ok_refl split: if_splits
      dest: append_cfg_change_ok[OF _ tick.raft_env_axioms])

lemma handle_requestvote_ok:
  "handle_requestvote ext c rv (s, w) = Inr (e, s', w') \<Longrightarrow> srv_inv s \<Longrightarrow> step_ok s s'"
  by (auto simp: handle_requestvote_def intro: recv_requestvote_ok)

lemma handle_appendentries_ok:
  "handle_appendentries ext c ae (s, w) = Inr (e, s', w') \<Longrightarrow> srv_inv s \<Longrightarrow> step_ok s s'"
  by (auto simp: handle_appendentries_def step_ok_refl intro: tick.recv_appendentries_ok(1) split: if_splits)

lemmas handlers_ok = handle_payload_ok handle_handshake_ok handle_leave_ok handle_requestvote_ok
  handle_appendentries_ok tick.recv_appendentries_response_ok recv_requestvote_response_ok

lemma handle_msg_ok:
  assumes "handle_msg ext c m (s, w) = Inr (e, s', w')" "srv_inv s"
  shows "step_ok s s'"
  using assms
  by (cases m) (auto simp: handle_msg_def step_ok_refl dest: handle_handshake_response_server intro: handlers_ok)

lemma deserialize_msg_ok:
  assumes "deserialize_and_handle_msg ext c img (s, w) = Inr (e, s', w')" "srv_inv s"
  shows "step_ok s s'"
  using assms by (auto simp: deserialize_and_handle_msg_def split: if_splits intro: handle_payload_ok handle_msg_ok)

lemma handle_msgs_ok:
  assumes ret: "foldE (\<lambda>img sw. bindE (deserialize_and_handle_msg ext c img sw) (\<lambda>(_, sw). Inr sw)) imgs (s, w) = Inr (s', w')"
    and inv: "srv_inv s"
  shows "step_ok s s'"
proof -
  let ?f = "\<lambda>img sw. bindE (deserialize_and_handle_msg ext c img sw) (\<lambda>(_, sw). Inr sw)"
  have "step_ok s (fst (s', w'))"
  proof (rule foldE_invariant[where P = "\<lambda>sw. step_ok s (fst sw)"])
    show "foldE ?f imgs (s, w) = Inr (s', w')" by (rule ret)
    show "step_ok s (fst b)" if a: "step_ok s (fst a)" and b: "?f img a = Inr b" for img a b
    proof -
      obtain e where "deserialize_and_handle_msg ext c img (fst a, snd a) = Inr (e, fst b, snd b)"
        using b by auto
      from deserialize_msg_ok[OF this step_ok_inv[OF a]] show ?thesis using a step_ok_trans by blast
    qed
  qed (use inv in \<open>simp add: step_ok_refl\<close>)
  then show ?thesis by simp
qed

lemma peer_read_ok:
  assumes ret: "peer_read_cb ext c nread buf gt (s, w) = Some (Inr (gt', s', w'))" and inv: "srv_inv s"
  shows "step_ok s s'"
proof (cases "nread < 0")
  case True
  then show ?thesis using ret inv by (auto simp: peer_read_cb_def step_ok_refl split: if_splits)
next
  case False
  then obtain rc where "tpl_gather_mem buf gt (deserialize_and_handle_msg ext c) (s, w) = Some (Inr (rc, gt', s', w'))"
    using ret by (auto simp: peer_read_cb_def split: sum.splits option.splits)
  from gather_mem_delivers[OF this] show ?thesis using handle_msgs_ok inv by blast
qed

subsection \<open>The timer and the clients\<close>

lemma apply_all_ok:
  assumes "raft_apply_all cbs (s, w) = Some (Inr (s', w'))" "srv_inv s"
  shows "step_ok s s'"
  using assms
proof (induction "nat (commit_idx s - last_applied_idx s)" arbitrary: s w)
  case 0
  then have "last_applied_idx s = commit_idx s" by (auto simp: srv_inv_def idx_wf_def)
  then show ?case using 0 by (subst (asm) raft_apply_all.simps) (simp add: step_ok_refl)
next
  case (Suc n)
  then have pend: "last_applied_idx s < commit_idx s" by simp
  obtain e s1 w1 where ap: "raft_apply_entry cbs (s, w) = Inr (e, s1, w1)"
    and rest: "raft_apply_all cbs (s1, w1) = Some (Inr (s', w'))"
    using Suc.prems(1) pend by (subst (asm) raft_apply_all.simps) (auto split: sum.splits)
  note c = apply_entry_cases[OF Suc.prems(2) pend ap]
  have "n = nat (commit_idx s1 - last_applied_idx s1)" using Suc.hyps(2) c by simp
  from Suc.hyps(1)[OF this rest] c step_ok_inv show ?case using step_ok_trans by blast
qed

lemma periodic_leave_server: "periodic_leave ext (s, w) = Inr (s', w') \<Longrightarrow> s' = s"
  by (auto simp: periodic_leave_def split: if_splits)

lemma tick_periodic_ok:
  assumes ret: "periodic ext (s, w) = Some (Inr (s', w'))" and inv: "srv_inv s"
  shows "step_ok s s'"
proof -
  obtain e s1 w1 s2 w2 where 1: "raft_periodic (raft_funcs ext) PERIOD_MSEC (s, w) = Inr (e, s1, w1)"
    "periodic_leave ext (s1, w1) = Inr (s2, w2)" "raft_apply_all (raft_funcs ext) (s2, w2) = Some (Inr (s', w'))"
    using ret by (auto simp: periodic_def split: sum.splits)
  have ok1: "step_ok s s1" by (rule periodic_ok[OF inv 1(1)])
  have "s2 = s1" by (rule periodic_leave_server[OF 1(2)])
  then show ?thesis using ok1 apply_all_ok[OF 1(3)] step_ok_inv step_ok_trans by blast
qed

text \<open>While a client waits, other threads run: they do what the server does.\<close>

definition wakes_ok :: "(nat \<Rightarrow> raft_server \<times> 'x world \<Rightarrow> raft_server \<times> 'x world) \<Rightarrow> bool" where
  "wakes_ok wakes \<longleftrightarrow> (\<forall>n sw. srv_inv (fst sw) \<longrightarrow> step_ok (fst sw) (fst (wakes n sw)))"

lemma http_wait_ok:
  "http_wait n wakes r sw = Inr (ok, sw') \<Longrightarrow> wakes_ok wakes \<Longrightarrow> srv_inv (fst sw) \<Longrightarrow>
     step_ok (fst sw) (fst sw') \<and> (ok \<longrightarrow> raft_msg_entry_response_committed (fst sw') r = Inr 1)"
proof (induction n wakes r sw rule: http_wait.induct)
  case (1 wakes r sw)
  then show ?case by (auto simp: step_ok_refl)
next
  case (2 n wakes r sw)
  let ?sw = "wakes n sw"
  have ok: "step_ok (fst sw) (fst ?sw)" using 2(3,4) unfolding wakes_ok_def by blast
  obtain e where e: "raft_msg_entry_response_committed (fst ?sw) r = Inr e" using 2(2) by (auto simp: Let_def)
  show ?case
  proof (cases "e = 0")
    case True
    then have "http_wait n wakes r ?sw = Inr (ok, sw')" using 2(2) e by (simp add: Let_def)
    from 2(1)[OF refl True this 2(3) step_ok_inv[OF ok]] show ?thesis using ok step_ok_trans by blast
  next
    case False
    then show ?thesis using 2(2) e ok by (auto simp: Let_def split: if_splits)
  qed
qed

lemma http_commit_ok:
  assumes ret: "http_commit ext wakes ticket (s, w) = Inr (res, l, s', w')"
    and wakes: "wakes_ok wakes" and inv: "srv_inv s"
  shows "step_ok s s'"
proof -
  obtain x w1 where x: "rand_int ext w = (x, w1)" by force
  let ?e = "\<lparr>ety_term = 0, ety_id = word_of_int x, ety_type = 0, ety_data = ticket_bytes ticket\<rparr>"
  obtain e r s1 w2 where 1: "raft_recv_entry (raft_funcs ext) ?e zero_mer (s, w1) = Inr (e, r, s1, w2)"
    and 2: "(s' = s1) \<or> (\<exists>ok. http_wait 4 wakes r (s1, w2) = Inr (ok, s', w'))"
    using ret unfolding http_commit_def by (simp add: x Let_def) (auto split: if_splits; blast)
  have ok1: "step_ok s s1" using tick.recv_entry_ok[OF inv 1] by blast
  from 2 show ?thesis
    using ok1 http_wait_ok[OF _ wakes, of 4 r "(s1, w2)" _ "(s', w')"] step_ok_inv[OF ok1] step_ok_trans
    by auto
qed

lemma http_get_id_ok:
  assumes ret: "http_get_id ext post wakes (s, w) = Some (Inr (res, l, s', w'))"
    and wakes: "wakes_ok wakes" and inv: "srv_inv s"
  shows "step_ok s s'"
proof -
  have "s' = s \<or> (\<exists>ticket w1. http_commit ext wakes ticket (s, w1) = Inr (res, l, s', w'))"
    using ret by (auto simp: http_get_id_def Let_def split: if_splits sum.splits option.splits)
  then show ?thesis using http_commit_ok[OF _ wakes inv] step_ok_refl[OF inv] by blast
qed

lemma int_handler_server: "int_handler ext (s, w) = Inr (s', w') \<Longrightarrow> s' = s"
  by (auto simp: int_handler_def split: if_splits)

subsection \<open>Events\<close>

inductive tick_step ::
  "'x ext \<Rightarrow> raft_server \<times> 'x world \<Rightarrow> raft_server \<times> 'x world \<Rightarrow> bool" for ext :: "'x ext" where
  peer_read: "peer_read_cb ext c nread buf gt sw = Some (Inr (gt', sw')) \<Longrightarrow> tick_step ext sw sw'"
| peer_connection: "on_peer_connection ext status w = Inr w' \<Longrightarrow> tick_step ext (s, w) (s, w')"
| peer_accepted: "on_connection_accepted_by_peer ext c status w = Inr w' \<Longrightarrow> tick_step ext (s, w) (s, w')"
| timer: "periodic ext sw = Some (Inr sw') \<Longrightarrow> tick_step ext sw sw'"
| client: "http_get_id ext post wakes sw = Some (Inr (res, l, sw')) \<Longrightarrow> wakes_ok wakes \<Longrightarrow> tick_step ext sw sw'"
| interrupt: "int_handler ext sw = Inr sw' \<Longrightarrow> tick_step ext sw sw'"

inductive_cases tick_step_cases: "tick_step ext sw sw'"

lemma tick_step_ok:
  assumes "tick_step ext sw sw'" "srv_inv (fst sw)"
  shows "step_ok (fst sw) (fst sw')"
  using assms
proof (cases rule: tick_step.cases)
  case (peer_read c nread buf gt gt')
  then show ?thesis using peer_read_ok[of ext c nread buf gt "fst sw" "snd sw" gt' "fst sw'" "snd sw'"] assms(2) by simp
next
  case timer
  then show ?thesis using tick_periodic_ok[of ext "fst sw" "snd sw" "fst sw'" "snd sw'"] assms(2) by simp
next
  case (client post wakes res l)
  then show ?thesis
    using http_get_id_ok[of ext post wakes "fst sw" "snd sw" res l "fst sw'" "snd sw'"] assms(2) by simp
next
  case interrupt
  then show ?thesis
    using int_handler_server[of ext "fst sw" "snd sw" "fst sw'" "snd sw'"] assms(2) by (simp add: step_ok_refl)
qed (use assms(2) in \<open>simp_all add: step_ok_refl\<close>)

lemma tick_run_ok:
  assumes "(tick_step ext)\<^sup>*\<^sup>* sw sw'" "srv_inv (fst sw)"
  shows "step_ok (fst sw) (fst sw')"
  using assms
proof (induction rule: rtranclp_induct)
  case base
  then show ?case by (rule step_ok_refl)
next
  case (step y z)
  then have ok: "step_ok (fst sw) (fst y)" by simp
  then show ?case using tick_step_ok[OF step(2) step_ok_inv[OF ok]] step_ok_trans by blast
qed

subsection \<open>Start-up\<close>

lemma add_self_inv: "main_add_self w = Inr (s, w') \<Longrightarrow> srv_inv s"
  using raft_new_inv add_node_ok[of raft_new None "w_node_id w" True] peers_only_ok step_ok_inv
  by (fastforce simp: main_add_self_def srv_inv_def)

lemma start_timer_ok: "srv_inv s \<Longrightarrow> step_ok s (start_raft_periodic_timer s)"
  unfolding start_raft_periodic_timer_def raft_set_election_timeout_def
  by (rule frame_step) (simp_all add: same_core_def)

lemma main_start_inv:
  assumes "main_start ext h w = Inr (s, w')"
  shows "srv_inv s"
proof -
  obtain s0 w0 s1 w1 t hh rp hp i e s2 where
    0: "main_add_self w = Inr (s0, w0)" and 1: "raft_become_leader (raft_funcs ext) (s0, w0) = Inr (s1, w1)"
    and 2: "append_cfg_change ext (raft_funcs ext) t hh rp hp i (s1, w1) = Inr (e, s2, w')"
    and s: "s = start_raft_periodic_timer s2"
    using assms by (auto simp: main_start_def)
  have "srv_inv s1" using become_leader_ok[OF add_self_inv[OF 0] 1] step_ok_inv by blast
  then have "srv_inv s2" using append_cfg_change_ok[OF _ tick.raft_env_axioms 2] step_ok_inv by blast
  then show ?thesis using start_timer_ok step_ok_inv s by blast
qed

lemma main_join_inv:
  assumes "main_join ext peer res w = Inr (s, w')"
  shows "srv_inv s"
proof -
  obtain s0 w0 where "main_add_self w = Inr (s0, w0)" "s = start_raft_periodic_timer s0"
    using assms by (auto simp: main_join_def new_connection_def)
  then show ?thesis using add_self_inv start_timer_ok step_ok_inv by blast
qed

end
