(* ===== verification/Ticketd_Store.thy ===== *)
theory Ticketd_Store
  imports Ticketd_Safety
begin

section \<open>The ticket server: what is on disk\<close>

text \<open>
  The entries database. An entry at index \<open>i\<close> is kept under two keys, the little-endian bytes of
  \<^verbatim>\<open>2i\<close> and \<^verbatim>\<open>2i + 1\<close>. LMDB orders keys by their bytes, so the order of the keys is the order of
  the log only while the numbers fit in one byte: for the first 128 entries the database is the
  list \<open>log_records\<close> of the log, and reading it back appends the same entries.
\<close>

subsection \<open>Order of the keys\<close>

lemma int_bytes_small:
  assumes "0 \<le> i" "i < 256"
  shows "int_bytes i = [word_of_int i, 0, 0, 0]"
proof -
  have u: "uint (word_of_int i :: u32) = i" using assms by (simp add: unsigned_of_int take_bit_int_eq_self)
  have z: "(ucast (drop_bit n (word_of_int i :: u32)) :: byte) = 0" if "8 \<le> n" for n
  proof -
    have p: "256 \<le> (2 :: int) ^ n" using power_increasing[OF that, of "2 :: int"] by simp
    have "uint (drop_bit n (word_of_int i :: u32)) = drop_bit n i"
      using assms by (simp add: unsigned_drop_bit_eq unsigned_of_int take_bit_int_eq_self)
    also have "drop_bit n i = 0" using assms p by (simp add: drop_bit_eq_div div_pos_pos_trivial)
    finally have "uint (drop_bit n (word_of_int i :: u32)) = 0" .
    then have "drop_bit n (word_of_int i :: u32) = 0" by (simp add: unsigned_eq_0_iff)
    then show ?thesis by simp
  qed
  have "(ucast (word_of_int i :: u32) :: byte) = word_of_int i"
    by (rule bit_word_eqI) (simp add: bit_simps)
  then show ?thesis using z[of 8] z[of 16] z[of 24] by (simp add: int_bytes_def Let_def)
qed

lemma int_bytes_less:
  assumes "0 \<le> i" "i < j" "j < 256"
  shows "int_bytes i < int_bytes j"
proof -
  have "(word_of_int i :: byte) < word_of_int j"
    using assms by (simp add: word_less_iff_unsigned[where 'a = int] unsigned_of_int take_bit_int_eq_self)
  then show ?thesis using assms by (simp add: int_bytes_small)
qed

lemma log_keys_ordered:
  assumes "0 \<le> i" "i < 128"
  shows "meta_key i < data_key i" "i < j \<Longrightarrow> j < 128 \<Longrightarrow> data_key i < meta_key j"
  using assms by (auto simp: meta_key_def data_key_def intro!: int_bytes_less)

lemma log_keys_wrap: "meta_key 0 < meta_key 128" "meta_key 128 < data_key 0"
  by (simp_all add: meta_key_def data_key_def int_bytes_def Let_def)

subsection \<open>The records of a log\<close>

text \<open>The metadata of an entry as TPL writes it.\<close>

definition stored_meta :: "'x ext \<Rightarrow> raft_entry \<Rightarrow> mdb_val" where
  "stored_meta ext e = projr (entry_meta (junk ext 4) (x_buf ext e) e)"

lemma stored_meta_image: "entry_meta (junk ext 4) (x_buf ext e) e = Inr (stored_meta ext e)"
  using meta_image[of "junk ext 4" "x_buf ext e" e] by (auto simp: stored_meta_def)

lemma stored_meta_load:
  "c_int (ety_type e) \<Longrightarrow>
   load_meta (junk ext 440) (stored_meta ext e) ety = Inr (ety\<lparr>ety_term := ety_term e, ety_id := ety_id e, ety_type := ety_type e\<rparr>)"
  using meta_roundtrip[of "junk ext 4" "junk ext 440" e "x_buf ext e" ety] stored_meta_image[of ext e] by auto

fun log_records :: "'x ext \<Rightarrow> int \<Rightarrow> raft_entry list \<Rightarrow> mdb_db" where
  "log_records ext i [] = []"
| "log_records ext i (e # es) =
     (meta_key i, stored_meta ext e) # (data_key i, ety_data e) # log_records ext (i + 1) es"

lemma log_records_append:
  "log_records ext i (es @ fs) = log_records ext i es @ log_records ext (i + int (length es)) fs"
  by (induction es arbitrary: i) (simp_all add: algebra_simps)

lemma log_records_keys:
  "k \<in> fst ` set (log_records ext i es) \<Longrightarrow>
     \<exists>j. i \<le> j \<and> j < i + int (length es) \<and> (k = meta_key j \<or> k = data_key j)"
proof (induction es arbitrary: i)
  case (Cons e es)
  show ?case
  proof (cases "k = meta_key i \<or> k = data_key i")
    case True
    then show ?thesis by (intro exI[of _ i]) simp
  next
    case False
    then have "k \<in> fst ` set (log_records ext (i + 1) es)" using Cons.prems by auto
    from Cons.IH[OF this] obtain j where "i + 1 \<le> j" "j < i + 1 + int (length es)" "k = meta_key j \<or> k = data_key j"
      by blast
    then show ?thesis by (intro exI[of _ j]) auto
  qed
qed simp

lemma db_put_last: "\<forall>p \<in> set db. fst p < k \<Longrightarrow> db_put k v db = db @ [(k, v)]"
  by (induction db) auto

lemma db_put_again: "db_sorted db \<Longrightarrow> map_of db k = Some v \<Longrightarrow> db_put k v db = db"
proof (induction db)
  case (Cons p db)
  obtain k' v' where p: "p = (k', v')" by force
  show ?case
  proof (cases "k = k'")
    case True
    then show ?thesis using Cons.prems p by simp
  next
    case False
    then have m: "map_of db k = Some v" using Cons.prems p by simp
    then have "k \<in> fst ` set db" by (metis map_of_eq_None_iff option.distinct(1))
    then have "k' < k" using Cons.prems(1) p by (auto simp: db_sorted_def)
    then show ?thesis using False m Cons p by (auto simp: db_sorted_def)
  qed
qed simp

lemma log_records_put:
  assumes "length es < 128"
  shows "db_put (data_key (int (length es))) (ety_data e)
      (db_put (meta_key (int (length es))) (stored_meta ext e) (log_records ext 0 es)) =
    log_records ext 0 (es @ [e])"
proof -
  let ?n = "int (length es)"
  have n: "?n < 128" using assms by simp
  have below: "fst p < meta_key ?n" if p: "p \<in> set (log_records ext 0 es)" for p
  proof -
    have "fst p \<in> fst ` set (log_records ext 0 es)" using p by simp
    from log_records_keys[OF this] obtain j where j: "0 \<le> j" "j < ?n" "fst p = meta_key j \<or> fst p = data_key j"
      by auto
    then have "data_key j < meta_key ?n" "meta_key j < data_key j"
      using log_keys_ordered(1)[of j] log_keys_ordered(2)[of j ?n] n by auto
    then show ?thesis using j(3) less_trans by metis
  qed
  have k: "meta_key ?n < data_key ?n" using log_keys_ordered(1)[of ?n] n by simp
  have "db_put (meta_key ?n) (stored_meta ext e) (log_records ext 0 es) =
      log_records ext 0 es @ [(meta_key ?n, stored_meta ext e)]"
    using below by (intro db_put_last) blast
  moreover have "db_put (data_key ?n) (ety_data e) (log_records ext 0 es @ [(meta_key ?n, stored_meta ext e)]) =
      (log_records ext 0 es @ [(meta_key ?n, stored_meta ext e)]) @ [(data_key ?n, ety_data e)]"
    using below k by (intro db_put_last) (auto intro: less_trans)
  ultimately show ?thesis by (simp add: log_records_append)
qed

lemma log_records_sorted: "length es \<le> 128 \<Longrightarrow> db_sorted (log_records ext 0 es)"
proof (induction es rule: rev_induct)
  case (snoc e es)
  then show ?case using log_records_put[of es] db_put_sorted by (metis Suc_le_eq length_append_singleton nat_less_le)
qed (simp add: db_sorted_def)

subsection \<open>Appending an ordinary entry\<close>

definition store_ready :: "'x ext \<Rightarrow> 'x world \<Rightarrow> bool" where
  "store_ready ext w \<longleftrightarrow> (\<forall>env. \<not> x_full ext env) \<and> db_entries < length (w_env w)"

lemma key_sizes: "meta_key i \<noteq> []" "data_key i \<noteq> []" "length (meta_key i) \<le> 511" "length (data_key i) \<le> 511"
  by (auto simp: meta_key_def data_key_def dest: arg_cong[of _ _ length])

lemma offer_ordinary:
  assumes "store_ready ext w" "\<not> raft_entry_is_cfg_change e"
  shows "raft_logentry_offer_cb ext e i (s, w) = Inr (e, s, w\<lparr>w_env := (w_env w)[db_entries :=
    db_put (data_key i) (ety_data e) (db_put (meta_key i) (stored_meta ext e) (w_env w ! db_entries))]\<rparr>)"
proof -
  have f: "\<not> x_full ext env" for env using assms(1) by (simp add: store_ready_def)
  have l: "db_entries < length (w_env w)" using assms(1) by (simp add: store_ready_def)
  have st: "offer_store ext e i (w_env w) = Inr (Some ((w_env w)[db_entries :=
      db_put (data_key i) (ety_data e) (db_put (meta_key i) (stored_meta ext e) (w_env w ! db_entries))]))"
    using key_sizes[of i] f l
    by (simp add: offer_store_def mdb_put_def mdb_txn_begin_def mdb_txn_commit_def stored_meta_image MDB_MAP_FULL_def)
  show ?thesis using assms(2) l
    by (simp add: raft_logentry_offer_cb_def st mdb_get_def mdb_txn_begin_def db_put_map)
qed

lemma append_ordinary:
  assumes inv: "srv_inv s" and ready: "store_ready ext w" and e: "\<not> raft_entry_is_cfg_change e" "ety_id e \<noteq> 0"
    and n: "n = int (length (entries_of s))"
  shows "\<exists>s'. raft_append_entry (raft_funcs ext) e (s, w) = Inr (0, s', w\<lparr>w_env := (w_env w)[db_entries :=
      db_put (data_key n) (ety_data e) (db_put (meta_key n) (stored_meta ext e) (w_env w ! db_entries))]\<rparr>) \<and>
    srv_inv s' \<and> entries_of s' = entries_of s @ [e]"
proof -
  let ?w = "w\<lparr>w_env := (w_env w)[db_entries :=
      db_put (data_key n) (ety_data e) (db_put (meta_key n) (stored_meta ext e) (w_env w ! db_entries))]\<rparr>"
  let ?cbs = "raft_set_callbacks (raft_funcs ext)"
  have live: "log_wf (srv_log s)" "l_front (srv_log s) = 0"
    using inv by (auto simp: srv_inv_def log_live_def)
  have at_end: "l_back (srv_log s) = n"
    using live n length_log_abs[OF live(1)] by (simp add: log_wf_def)
  have offer: "call_offer ?cbs e (l_back (srv_log s)) (s, w) = Inr (e, s, ?w)"
    using offer_ordinary[OF ready e(1), of n s] at_end
    by (simp add: call_offer_def raft_set_callbacks_def raft_funcs_def base_funcs_def)
  obtain l where l: "log_append_entry ?cbs (srv_log s) e (s, w) = Inr (0, l, s, ?w)"
    "log_abs l = entries_of s @ [e]"
    using log_append_entry_spec[OF live(1) _ e(2) offer] live(2) by blast
  have nv: "\<not> raft_entry_is_voting_cfg_change e" using e(1) voting_cfg_change_is_cfg_change by blast
  have app: "raft_append_entry (raft_funcs ext) e (s, w) = Inr (0, s\<lparr>srv_log := l\<rparr>, ?w)"
    using l nv by (simp add: raft_append_entry_def)
  moreover have "srv_inv (s\<lparr>srv_log := l\<rparr>)" using tick.append_entry_effect(1)[OF inv app] step_ok_inv by blast
  ultimately show ?thesis using l(2) by (intro exI[of _ "s\<lparr>srv_log := l\<rparr>"]) simp
qed

subsection \<open>Persisting a log and loading it again\<close>

definition ordinary_log :: "raft_entry list \<Rightarrow> bool" where
  "ordinary_log es \<longleftrightarrow> length es \<le> 128 \<and>
     (\<forall>e \<in> set es. \<not> raft_entry_is_cfg_change e \<and> ety_id e \<noteq> 0 \<and> c_int (ety_type e))"

definition append_all ::
  "'x ext \<Rightarrow> raft_entry list \<Rightarrow> raft_server \<times> 'x world \<Rightarrow> fault + raft_server \<times> 'x world" where
  "append_all ext es sw =
     foldE (\<lambda>e sw. bindE (raft_append_entry (raft_funcs ext) e sw) (\<lambda>(_, sw). Inr sw)) es sw"

lemma append_all_snoc:
  "append_all ext (es @ [e]) sw = bindE (append_all ext es sw) (\<lambda>sw.
     bindE (raft_append_entry (raft_funcs ext) e sw) (\<lambda>(_, sw). Inr sw))"
proof -
  have "foldE f [e] = f e" for f :: "raft_entry \<Rightarrow> raft_server \<times> 'a world \<Rightarrow> fault + raft_server \<times> 'a world"
  proof
    fix a
    show "foldE f [e] a = f e a" by (cases "f e a") simp_all
  qed
  then show ?thesis by (simp add: append_all_def foldE_append)
qed

lemma append_all_persists:
  assumes "ordinary_log es" "srv_inv s" "entries_of s = []" "store_ready ext w" "w_env w ! db_entries = []"
  shows "\<exists>s'. append_all ext es (s, w) =
      Inr (s', w\<lparr>w_env := (w_env w)[db_entries := log_records ext 0 es]\<rparr>) \<and> srv_inv s' \<and> entries_of s' = es"
  using assms(1)
proof (induction es rule: rev_induct)
  case Nil
  have "w\<lparr>w_env := (w_env w)[db_entries := []]\<rparr> = w" using assms(5) by (metis list_update_id world.surjective world.update_convs(9))
  then show ?case using assms(2,3) by (simp add: append_all_def)
next
  case (snoc e es)
  let ?w = "\<lambda>es. w\<lparr>w_env := (w_env w)[db_entries := log_records ext 0 es]\<rparr>"
  have "ordinary_log es" and e: "\<not> raft_entry_is_cfg_change e" "ety_id e \<noteq> 0" and len: "length es < 128"
    using snoc.prems by (auto simp: ordinary_log_def)
  then obtain s1 where s1: "append_all ext es (s, w) = Inr (s1, ?w es)" "srv_inv s1" "entries_of s1 = es"
    using snoc.IH by blast
  have lt: "db_entries < length (w_env w)" using assms(4) by (simp add: store_ready_def)
  have ready: "store_ready ext (?w es)" using assms(4) by (simp add: store_ready_def)
  let ?n = "int (length (entries_of s1))"
  have upd: "(?w es)\<lparr>w_env := (w_env (?w es))[db_entries := db_put (data_key ?n) (ety_data e)
      (db_put (meta_key ?n) (stored_meta ext e) (w_env (?w es) ! db_entries))]\<rparr> = ?w (es @ [e])"
    using log_records_put[OF len, of e ext] lt s1(3) by simp
  obtain s2 where "raft_append_entry (raft_funcs ext) e (s1, ?w es) = Inr (0, s2, ?w (es @ [e]))"
    "srv_inv s2" "entries_of s2 = es @ [e]"
    using append_ordinary[OF s1(2) ready e refl] unfolding upd unfolding s1(3) by blast
  then show ?case using s1(1) by (simp add: append_all_snoc)
qed

lemma key_parity:
  assumes "0 \<le> i" "i < 128"
  shows "bytes_int (meta_key i) = Inr (2 * i)" "bytes_int (data_key i) = Inr (2 * i + 1)"
  using assms bytes_int_roundtrip[of "2 * i" "[]"] bytes_int_roundtrip[of "2 * i + 1" "[]"]
  by (simp_all add: meta_key_def data_key_def c_int_def)

text \<open>Loading writes every entry back to the place it was read from: the database does not change.\<close>

lemma load_pair:
  assumes inv: "srv_inv s" and es: "ordinary_log (pre @ e # post)" and pre: "entries_of s = pre"
    and ready: "store_ready ext w"
    and db: "w_env w ! db_entries = log_records ext 0 (pre @ e # post)" and n: "n = int (length pre)"
  shows "\<exists>s' ety'. bindE (load_record ext (meta_key n, stored_meta ext e) (ety, s, w))
      (load_record ext (data_key n, ety_data e)) = Inr (ety', s', w) \<and> srv_inv s' \<and> entries_of s' = pre @ [e]"
proof -
  have nn: "0 \<le> n" "n < 128" and e: "\<not> raft_entry_is_cfg_change e" "ety_id e \<noteq> 0" and ty: "c_int (ety_type e)"
    using es n by (auto simp: ordinary_log_def)
  let ?db = "log_records ext 0 (pre @ e # post)"
  have ety: "ety\<lparr>ety_term := ety_term e, ety_id := ety_id e, ety_type := ety_type e, ety_data := ety_data e\<rparr> = e"
    by simp
  have sorted: "db_sorted ?db" using es by (intro log_records_sorted) (simp add: ordinary_log_def)
  have dist: "distinct (map fst ?db)" using sorted by (simp add: db_sorted_def strict_sorted_iff)
  have "(meta_key n, stored_meta ext e) \<in> set ?db" "(data_key n, ety_data e) \<in> set ?db"
    by (simp_all add: log_records_append n)
  then have "map_of ?db (meta_key n) = Some (stored_meta ext e)" "map_of ?db (data_key n) = Some (ety_data e)"
    using dist by (simp_all add: map_of_eq_Some_iff)
  then have same: "db_put (data_key n) (ety_data e) (db_put (meta_key n) (stored_meta ext e) ?db) = ?db"
    using sorted by (simp add: db_put_again)
  have "(w_env w)[db_entries := ?db] = w_env w" using db by (metis list_update_id)
  then have w: "w\<lparr>w_env := (w_env w)[db_entries := ?db]\<rparr> = w" by simp
  obtain s' where "raft_append_entry (raft_funcs ext) e (s, w) = Inr (0, s', w)" "srv_inv s'" "entries_of s' = pre @ [e]"
    using append_ordinary[OF inv ready e, of n] n pre db same w by auto
  moreover from this(1) have "raft_append_entry (raft_funcs ext)
      (ety\<lparr>ety_term := ety_term e, ety_id := ety_id e, ety_type := ety_type e, ety_data := ety_data e\<rparr>) (s, w) = Inr (0, s', w)"
    by (simp only: ety)
  ultimately show ?thesis
    using stored_meta_load[OF ty, of ext ety] key_parity[OF nn]
    by (simp add: load_record_def Let_def)
qed

lemma load_entries_again:
  assumes es: "ordinary_log (pre @ post)" and inv: "srv_inv s" and pre: "entries_of s = pre"
    and ready: "store_ready ext w"
    and db: "w_env w ! db_entries = log_records ext 0 (pre @ post)"
  shows "\<exists>s' ety'. foldE (load_record ext) (log_records ext (int (length pre)) post) (ety, s, w) =
      Inr (ety', s', w) \<and> srv_inv s' \<and> entries_of s' = pre @ post"
  using assms
proof (induction post arbitrary: pre s ety)
  case (Cons e post)
  obtain s1 ety1 where 1: "bindE (load_record ext (meta_key (int (length pre)), stored_meta ext e) (ety, s, w))
      (load_record ext (data_key (int (length pre)), ety_data e)) = Inr (ety1, s1, w)"
    "srv_inv s1" "entries_of s1 = pre @ [e]"
    using load_pair[OF Cons.prems(2,1,3-5) refl, of ety] by blast
  obtain s2 ety2 where "foldE (load_record ext) (log_records ext (int (length (pre @ [e]))) post) (ety1, s1, w) =
      Inr (ety2, s2, w)" "srv_inv s2" "entries_of s2 = (pre @ [e]) @ post"
    using Cons.IH[of "pre @ [e]" s1 ety1] Cons.prems 1(2,3) by auto
  then show ?case using 1(1) by (auto simp: algebra_simps)
qed simp

end
