(* ===== verification/Ticketd_Conns.thy ===== *)
theory Ticketd_Conns
  imports Ticketd_Store
begin

section \<open>The ticket server: connections, tickets and batches\<close>

text \<open>
  The list of connections is well formed (\<open>conns_wf\<close>: live, distinct addresses, nothing else in the
  store), so a search never reads a freed connection, and it finds what was put there. A
  configuration change that adds a peer leaves the peer and its connection pointing at each other.
  Further: what a search for an unused ticket returns, and how many entries an accepted
  append-entries request has read.
\<close>

definition conns_wf :: "'x world \<Rightarrow> bool" where
  "conns_wf w \<longleftrightarrow> distinct (w_conns w) \<and> dom (w_conn_heap w) = set (w_conns w) \<and>
     (\<forall>c \<in> set (w_conns w). c < w_next_conn w)"

definition conn_is :: "'x world \<Rightarrow> host \<Rightarrow> int \<Rightarrow> addr \<Rightarrow> bool" where
  "conn_is w h port c \<longleftrightarrow>
     (\<exists>conn. w_conn_heap w c = Some conn \<and> pc_host conn = h \<and> pc_raft_port conn = port)"

lemma find_conn_find:
  "set cs \<subseteq> dom (w_conn_heap w) \<Longrightarrow> find_conn w h port cs = Inr (find (conn_is w h port) cs)"
proof (induction cs)
  case (Cons c cs)
  then obtain conn where "w_conn_heap w c = Some conn" by auto
  then show ?case using Cons by (auto simp: conn_get_def conn_is_def)
qed simp

lemma find_connection_find:
  "conns_wf w \<Longrightarrow> find_connection w h port = Inr (find (conn_is w h port) (w_conns w))"
  by (simp add: find_connection_def find_conn_find conns_wf_def)

lemma new_connection_wf:
  assumes "conns_wf w" "new_connection w = (c, w')"
  shows "conns_wf w'" "w_conn_heap w' c = Some zero_conn" "c \<in> set (w_conns w')"
proof -
  have "distinct (w_conns w)" "dom (w_conn_heap w) = set (w_conns w)" "\<forall>c \<in> set (w_conns w). c < w_next_conn w"
    using assms(1) by (simp_all add: conns_wf_def)
  moreover have "c = w_next_conn w" "w' = w\<lparr>w_conn_heap := (w_conn_heap w)(w_next_conn w \<mapsto> zero_conn),
      w_next_conn := Suc (w_next_conn w), w_conns := w_next_conn w # w_conns w\<rparr>"
    using assms(2) by (auto simp: new_connection_def)
  ultimately show "conns_wf w'" "w_conn_heap w' c = Some zero_conn" "c \<in> set (w_conns w')"
    by (auto simp: conns_wf_def simp del: fun_upd_apply) simp
qed

lemma conn_upd_effect:
  "conn_upd p f w = Inr w' \<longleftrightarrow> (\<exists>c conn. p = Some c \<and> w_conn_heap w c = Some conn \<and>
     w' = w\<lparr>w_conn_heap := (w_conn_heap w)(c \<mapsto> f conn)\<rparr>)"
  by (auto simp: conn_upd_def conn_get_def)

lemma conn_upd_wf:
  assumes "conns_wf w" "conn_upd p f w = Inr w'"
  shows "conns_wf w'"
proof -
  have "dom (w_conn_heap w') = dom (w_conn_heap w)" "w_conns w' = w_conns w" "w_next_conn w' = w_next_conn w"
    using assms(2) by (auto simp: conn_upd_effect split: if_splits)
  then show ?thesis using assms(1) by (simp add: conns_wf_def)
qed

lemma conn_upd_node_id: "conn_upd p f w = Inr w' \<Longrightarrow> w_node_id w' = w_node_id w"
  by (auto simp: conn_upd_effect)

lemma delete_connection_wf:
  assumes "conns_wf w" "delete_connection c (s, w) = Inr (s', w')"
  shows "conns_wf w' \<and> c \<notin> set (w_conns w')"
proof -
  have w': "w' = w\<lparr>w_conns := remove1 c (w_conns w), w_conn_heap := (w_conn_heap w)(c := None)\<rparr>"
    using assms(2) by (auto simp: delete_connection_def split: if_splits)
  have "distinct (w_conns w)" "dom (w_conn_heap w) = set (w_conns w)" "\<forall>c \<in> set (w_conns w). c < w_next_conn w"
    using assms(1) by (simp_all add: conns_wf_def)
  then show ?thesis by (simp add: w' conns_wf_def)
qed

subsection \<open>Adding a peer\<close>

text \<open>The connection an added peer gets: the one found, or a new one for its address.\<close>

lemma offer_add_conn:
  assumes wf: "conns_wf w" and conn: "conn = find (conn_is w h port) (w_conns w)"
    and ip: "x_ip4_addr ext h = Some h"
    and ret: "(case conn of
               None \<Rightarrow> (case new_connection w of (c, w) \<Rightarrow>
                  bindE (connection_set_peer ext c h port w) (\<lambda>w. Inr (c, w)))
             | Some c \<Rightarrow> Inr (c, w)) = Inr (c, w')"
  shows "conns_wf w' \<and> find (conn_is w' h port) (w_conns w') = Some c"
proof (cases conn)
  case None
  obtain c1 w1 where n: "new_connection w = (c1, w1)" by force
  note nw = new_connection_wf[OF wf n]
  from ret None n have s: "connection_set_peer ext c1 h port w1 = Inr w'" and c: "c = c1" by auto
  then have u: "conn_upd (Some c1) (\<lambda>conn. conn\<lparr>pc_raft_port := port, pc_host := h, pc_port := port\<rparr>) w1 = Inr w'"
    by (simp add: connection_set_peer_def ip)
  have "w_conns w1 = c1 # w_conns w" using n by (auto simp: new_connection_def)
  then have "w_conns w' = c1 # w_conns w" "conn_is w' h port c1" using u nw(2)
    by (auto simp: conn_upd_effect conn_is_def)
  then show ?thesis using conn_upd_wf[OF nw(1) u] c by simp
next
  case (Some c1)
  then show ?thesis using ret conn wf by simp
qed

lemma conn_upd_find:
  assumes "conn_upd p f w = Inr w'" "\<And>conn. pc_host (f conn) = pc_host conn \<and> pc_raft_port (f conn) = pc_raft_port conn"
  shows "find (conn_is w' h port) (w_conns w') = find (conn_is w h port) (w_conns w)"
proof -
  have "conn_is w' h port = conn_is w h port" "w_conns w' = w_conns w"
    using assms by (auto simp: conn_upd_effect conn_is_def fun_eq_iff split: if_splits)
  then show ?thesis by simp
qed

lemma offer_add_links:
  assumes wf: "conns_wf w" and nwf: "nodes_wf s" and ip: "x_ip4_addr ext (cc_host ch) = Some (cc_host ch)"
    and ret: "offer_add ext ch (find (conn_is w (cc_host ch) (cc_raft_port ch)) (w_conns w)) t (s, w) = Inr (e, s', w')"
  shows "conns_wf w' \<and> (\<exists>c conn a n. find_connection w' (cc_host ch) (cc_raft_port ch) = Inr (Some c) \<and>
    w_conn_heap w' c = Some conn \<and> pc_node conn = Some a \<and> node_heap s' a = Some n \<and>
    nd_id n = cc_node_id ch \<and> nd_udata n = Some c)"
proof -
  obtain c w1 w2 b node s1 where
    1: "(case find (conn_is w (cc_host ch) (cc_raft_port ch)) (w_conns w) of
               None \<Rightarrow> (case new_connection w of (c, w) \<Rightarrow>
                  bindE (connection_set_peer ext c (cc_host ch) (cc_raft_port ch) w) (\<lambda>w. Inr (c, w)))
             | Some c \<Rightarrow> Inr (c, w)) = Inr (c, w1)"
    and 2: "conn_upd (Some c) (\<lambda>conn. conn\<lparr>pc_http_port := cc_http_port ch\<rparr>) w1 = Inr w2"
    and 3: "(if RAFT_LOGTYPE_ADD_NONVOTING_NODE = t then raft_add_non_voting_node (Some c) (cc_node_id ch) b s
         else if RAFT_LOGTYPE_ADD_NODE = t then raft_add_node (Some c) (cc_node_id ch) b s
         else Inl Assert_failed) = Inr (node, s1)"
    and 4: "conn_upd (Some c) (\<lambda>conn. conn\<lparr>pc_node := node\<rparr>) w2 = Inr w'"
    and 5: "node_upd node (raft_node_set_udata (Some c)) s1 = Inr s'"
    using ret unfolding offer_add_def by (simp only: bindE_eq_Inr Let_def prod.case) auto
  note c1 = offer_add_conn[OF wf refl ip 1]
  have wf': "conns_wf w'" using c1 conn_upd_wf[OF conn_upd_wf[OF _ 2] 4] by blast
  have found: "find (conn_is w' (cc_host ch) (cc_raft_port ch)) (w_conns w') = Some c"
    using c1 conn_upd_find[OF 2] conn_upd_find[OF 4] by simp
  obtain a n where n: "node = Some a" "node_heap s1 a = Some n" "nd_id n = cc_node_id ch"
    using 3 by (auto split: if_splits dest!: add_non_voting_node_ok(3)[OF nwf] add_node_ok(4)[OF nwf])
  have "node_heap s' a = Some (n\<lparr>nd_udata := Some c\<rparr>)"
    using 5 n by (auto simp: node_upd_effect raft_node_set_udata_def)
  moreover obtain conn where "w_conn_heap w' c = Some conn" "pc_node conn = Some a"
    using 4 n(1) by (auto simp: conn_upd_effect)
  ultimately show ?thesis using wf' found n(3) by (auto simp: find_connection_find)
qed

subsection \<open>Tickets\<close>

text \<open>The \<open>n\<close>-th value \<^verbatim>\<open>rand\<close> returns from a world.\<close>

primrec draw :: "'x ext \<Rightarrow> nat \<Rightarrow> 'x world \<Rightarrow> int" where
  "draw ext 0 w = fst (rand_int ext w)"
| "draw ext (Suc n) w = draw ext n (snd (rand_int ext w))"

lemma rand_int_env: "w_env (snd (rand_int ext w)) = w_env w"
  by (simp add: rand_int_def split: prod.split)

lemma ticket_exists_env: "w_env w' = w_env w \<Longrightarrow> check_if_ticket_exists t w' = check_if_ticket_exists t w"
  by (simp add: check_if_ticket_exists_def)

lemma generate_ticket_ends:
  assumes "\<not> check_if_ticket_exists (word_of_int (draw ext n w)) w"
  shows "\<exists>t w'. generate_ticket ext w = Some (t, w') \<and> w_env w' = w_env w \<and>
    \<not> check_if_ticket_exists t w' \<and> (\<exists>k \<le> n. t = word_of_int (draw ext k w))"
  using assms
proof (induction n arbitrary: w)
  case 0
  obtain r w1 where r: "rand_int ext w = (r, w1)" by force
  have env: "w_env w1 = w_env w" using rand_int_env[of ext w] r by simp
  then have "\<not> check_if_ticket_exists (word_of_int r) w1" using 0 r ticket_exists_env[OF env] by simp
  then show ?case using r env by (subst generate_ticket.simps) simp
next
  case (Suc n)
  obtain r w1 where r: "rand_int ext w = (r, w1)" by force
  have env: "w_env w1 = w_env w" using rand_int_env[of ext w] r by simp
  show ?case
  proof (cases "check_if_ticket_exists (word_of_int r) w1")
    case True
    have "\<not> check_if_ticket_exists (word_of_int (draw ext n w1)) w1"
      using Suc.prems r ticket_exists_env[OF env] by simp
    from Suc.IH[OF this] obtain t w' k where "generate_ticket ext w1 = Some (t, w')" "w_env w' = w_env w"
      "\<not> check_if_ticket_exists t w'" "k \<le> n" "t = word_of_int (draw ext k w1)" using env by auto
    moreover have "generate_ticket ext w = generate_ticket ext w1"
      using r True by (subst generate_ticket.simps) simp
    moreover have "draw ext (Suc k) w = draw ext k w1" using r by simp
    ultimately show ?thesis by (metis Suc_le_mono)
  next
    case False
    then have "generate_ticket ext w = Some (word_of_int r, w1)" using r by (subst generate_ticket.simps) simp
    moreover have "draw ext 0 w = r" using r by simp
    ultimately show ?thesis using env False by (metis zero_le)
  qed
qed

subsection \<open>Batches of entries\<close>

lemma ae_scan_reads:
  "ae_scan cbs ae n i (r, s, w) = Inr (i', x) \<Longrightarrow> i \<le> int (length (ae_entries ae)) \<Longrightarrow>
     i' \<le> int (length (ae_entries ae))"
proof (induction n arbitrary: i r)
  case (Suc n)
  then show ?case by (auto simp: Let_def split: option.splits if_splits)
qed simp

lemma ae_append_reads:
  "ae_append cbs ae n i x = Inr (Next y) \<Longrightarrow> i \<le> int (length (ae_entries ae)) \<Longrightarrow>
     i + int n \<le> int (length (ae_entries ae))"
proof (induction cbs ae n i x rule: ae_append.induct)
  case (2 cbs ae n i r sw)
  then show ?case by (fastforce split: if_splits)
qed simp

lemma bindF_eq_Next: "bindF m k = Inr (Next y) \<longleftrightarrow> (\<exists>z. m = Inr (Next z) \<and> k z = Inr (Next y))"
proof (cases m)
  case (Inr f)
  then show ?thesis by (cases f) (auto simp: bindF_def)
qed (simp add: bindF_def)

lemma ae_body_reads:
  assumes "ae_body cbs p ae x = Inr (Next y)"
  shows "ae_n_entries ae \<le> int (length (ae_entries ae))"
proof -
  obtain r s w n i r' s' w' y' where
    sc: "ae_scan cbs ae n 0 (r, s, w) = Inr (i, r', s', w')"
    and ap: "ae_append cbs ae (nat (ae_n_entries ae - i)) i (r', s', w') = Inr (Next y')"
    using assms by (auto simp: ae_body_def bindF_eq_Next)
  have "i \<le> int (length (ae_entries ae))" using ae_scan_reads[OF sc] by simp
  from ae_append_reads[OF ap this] show ?thesis by linarith
qed

lemma accepted_reads:
  assumes "raft_recv_appendentries cbs p ae r (s, w) = Inr (0, r', sw')"
  shows "ae_n_entries ae \<le> int (length (ae_entries ae))"
proof -
  obtain f where f: "ae_body cbs p ae (r\<lparr>aer_term := current_term s\<rparr>, s\<lparr>timeout_elapsed := 0\<rparr>, w) = Inr f"
    and nx: "\<exists>y. f = Next y"
    using assms unfolding raft_recv_appendentries_def
    by (simp only: bindE_eq_Inr Let_def prod.case) (force split: flow.splits)
  from nx obtain y where "f = Next y" ..
  with f show ?thesis using ae_body_reads by blast
qed

end
