(* ===== verification/Ticketd_Demo.thy ===== *)
theory Ticketd_Demo
  imports Ticketd_Conns
begin

section \<open>A concrete environment for the ticket server\<close>

text \<open>
  The instance the witnesses use: WiredTiger's tables as maps, libuv calls that succeed, addresses
  taken as they are, a store that is never full, uninitialised memory full of 7, and a
  \<^verbatim>\<open>rand\<close> that counts up.
\<close>

type_synonym demo_x = "nat \<times> (key \<Rightarrow> key \<rightharpoonup> byte list)"

definition demo_wt :: "demo_x wt" where
  "demo_wt = \<lparr>wt_open_session = \<lambda>x. (0, x), wt_drop = \<lambda>u x. (0, fst x, (snd x)(u := Map.empty)),
     wt_create = \<lambda>u x. (0, x), wt_open_cursor = \<lambda>u x. (0, x),
     wt_insert = \<lambda>u k v x. (case wt_insert map_wt u k v (snd x) of (e, d) \<Rightarrow> (e, fst x, d)),
     wt_search = \<lambda>u k x. (case wt_search map_wt u k (snd x) of (e, v, d) \<Rightarrow> (e, v, fst x, d)),
     wt_remove = \<lambda>u k x. (0, fst x, (snd x)(u := (snd x u)(k := None))), wt_close = \<lambda>u x. x\<rparr>"

lemma demo_wt_documented: "wt_documented demo_wt snd"
  using map_wt_documented
  by (auto simp: wt_documented_def demo_wt_def map_wt_def split: option.splits)

definition demo_ext :: "demo_x ext" where
  "demo_ext = \<lparr>x_wt = demo_wt, x_rand = \<lambda>x. (fst x, Suc (fst x), snd x), x_uv = \<lambda>x. (0, x),
     x_full = \<lambda>env. False, x_ip4_addr = Some, x_getpeername = \<lambda>st x. [49, 48], x_junk = \<lambda>_. 7,
     x_buf = \<lambda>e. 480\<rparr>"

text \<open>Node 1, with one connection, to 10.0.0.2:9002; the next value of \<^verbatim>\<open>rand\<close> is 5.\<close>

definition demo_host :: host where
  "demo_host = [49, 48, 46, 48, 46, 48, 46, 50]"

definition demo_conn :: peer_connection where
  "demo_conn = zero_conn\<lparr>pc_host := demo_host, pc_raft_port := 9002, pc_status := CONNECTED, pc_stream := Some 7\<rparr>"

definition demo_world :: "demo_x world" where
  "demo_world = \<lparr>w_node_id = 1, w_raft_port = 9001, w_http_port = 8001, w_leave = False, w_conns = [3],
     w_conn_heap = [3 \<mapsto> demo_conn], w_next_conn = 4, w_next_stream = 8, w_env = [[], [], []],
     w_state_schema = \<lparr>ks_name = [115], ks_table = [115]\<rparr>, w_out = [], w_dials = [],
     w_ext = (5, \<lambda>_ _. None)\<rparr>"

lemma demo_conns_wf: "conns_wf demo_world"
  by (simp add: conns_wf_def demo_world_def)

lemma demo_store_ready: "store_ready demo_ext demo_world"
  by (simp add: store_ready_def demo_ext_def demo_world_def db_entries_def)

text \<open>The server of a cluster of one, before and after it has become leader.\<close>

definition demo_self :: raft_server where
  "demo_self = added_server None 1 True raft_new"

definition demo_leader :: raft_server where
  "demo_leader = demo_self\<lparr>srv_state := RAFT_STATE_LEADER, current_leader := Some 0, current_term := 1\<rparr>"

lemma demo_self_inv: "srv_inv demo_self"
proof -
  have "0 \<le> num_nodes raft_new" by (simp add: raft_new_def raft_set_state_def)
  then have "nodes_wf demo_self" using added_nodes_wf raft_new_inv by (simp add: demo_self_def srv_inv_def)
  moreover have "peers_only raft_new demo_self" by (simp add: demo_self_def peers_only_def added_server_def)
  ultimately show ?thesis using peers_only_ok[OF _ _ raft_new_inv] step_ok_inv by blast
qed

lemma demo_leader_inv: "srv_inv demo_leader"
  using demo_self_inv
  by (simp add: demo_leader_def srv_inv_def nodes_wf_def idx_wf_def raft_get_current_idx_def)

text \<open>Two ordinary entries, the bytes of a configuration change, and a connection that expects a batch of two.\<close>

definition demo_ticket_log :: "raft_entry list" where
  "demo_ticket_log = [\<lparr>ety_term = 1, ety_id = 5, ety_type = 0, ety_data = [1, 0, 0, 0]\<rparr>,
     \<lparr>ety_term = 2, ety_id = 6, ety_type = 0, ety_data = [2, 0, 0, 0]\<rparr>]"

definition demo_cfg :: "byte list" where
  "demo_cfg = projr (cfg_bytes 9002 8002 2 demo_host)"

definition demo_batch_world :: "demo_x world" where
  "demo_batch_world = demo_world\<lparr>w_conn_heap := [3 \<mapsto> demo_conn\<lparr>pc_n_expected_entries := 2,
     pc_ae := zero_ae\<lparr>ae_n_entries := 2\<rparr>\<rparr>]\<rparr>"

end
