(* ===== verification/Ticketd_Properties.thy ===== *)
theory Ticketd_Properties
  imports Ticketd_Demo
begin

section \<open>Properties of the ticket server\<close>

text \<open>
  The theorems on \<^verbatim>\<open>main.c\<close>, over its own handlers and callbacks, each with a concrete instance
  where it has hypotheses.
\<close>

subsection \<open>Safety\<close>

text \<open>C18. The ticket server is safe: after \<^verbatim>\<open>main\<close> has founded a cluster on open stores, whatever messages, connections,
  timer ticks, client requests and interrupts arrive, in any order, the raft server's invariant
  holds, and along any continuation its term, commit index and applied index do not decrease and
  no committed entry is lost or changed.\<close>

theorem tick_run_safe:
  assumes "main_start ext h w0 = Inr sw0" "(tick_step ext)\<^sup>*\<^sup>* sw0 sw1" "(tick_step ext)\<^sup>*\<^sup>* sw1 sw2"
  shows "srv_inv (fst sw1) \<and> srv_inv (fst sw2) \<and> evolves (fst sw1) (fst sw2)"
proof -
  have "srv_inv (fst sw0)" using main_start_inv[of ext h w0 "fst sw0" "snd sw0"] assms(1) by simp
  then have "srv_inv (fst sw1)" using tick_run_ok[OF assms(2)] step_ok_inv by blast
  then show ?thesis using tick_run_ok[OF assms(3)] by (simp add: step_ok_def)
qed

lemma demo_started: "main_start demo_ext demo_host demo_world = Inr (projr (main_start demo_ext demo_host demo_world))"
proof -
  have "\<not> isl (main_start demo_ext demo_host demo_world)" by code_simp
  then show ?thesis by (cases "main_start demo_ext demo_host demo_world") simp_all
qed

theorem tick_run_safe_witness:
  "srv_inv (fst (projr (main_start demo_ext demo_host demo_world)))"
  using tick_run_safe[OF demo_started rtranclp.rtrancl_refl rtranclp.rtrancl_refl] by blast

subsection \<open>Persistence\<close>


lemma demo_self_empty: "entries_of demo_self = []"
  using log_new_wf(2) by (simp add: demo_self_def added_server_def raft_new_def raft_set_state_def)


text \<open>A term reaches the disk once: \<^verbatim>\<open>kv_db_set\<close> inserts through a cursor that does not overwrite, so
  when the server adopts a newer term, the stored term becomes the new one only if none was
  stored; a stored term stays, although the server is in the new term.\<close>

theorem term_persisted_once:
  assumes "wt_documented (x_wt ext) tab" "current_term s < t"
    "raft_set_current_term (raft_funcs ext) t (s, w) = Inr (s', w')"
  shows "current_term s' = t \<and>
    fst (kv_db_get (x_wt ext) (w_state_schema w') key_term (w_ext w')) =
      (case tab (w_ext w) (ks_table (w_state_schema w)) key_term of
         None \<Rightarrow> Some (int_bytes t) | Some old \<Rightarrow> Some old)"
proof -
  have w': "w' = w\<lparr>w_ext := snd (kv_db_set (x_wt ext) (w_state_schema w) key_term (int_bytes t) (w_ext w))\<rparr>"
    and s': "current_term s' = t"
    using assms(2,3)
    by (auto simp: raft_set_current_term_def lift_cb_def raft_funcs_def base_funcs_def raft_persist_term_cb_def)
  show ?thesis
    using s' kv_db_get_documented(1)[OF assms(1)] kv_db_set_documented(1)[OF assms(1)]
    by (simp add: w' split: option.split)
qed

theorem term_persisted_once_witness:
  "fst (kv_db_get demo_wt (w_state_schema demo_world) key_term
     (w_ext (snd (projr (raft_set_current_term (raft_funcs demo_ext) 3 (demo_self, demo_world)))))) = Some (int_bytes 3)"
proof -
  let ?r = "raft_set_current_term (raft_funcs demo_ext) 3 (demo_self, demo_world)"
  have wt: "wt_documented (x_wt demo_ext) snd" using demo_wt_documented by (simp add: demo_ext_def)
  have t: "current_term demo_self < 3" by (simp add: demo_self_def added_server_def raft_new_def raft_set_state_def)
  obtain s' w' where r: "?r = Inr (s', w')"
    using t by (auto simp: raft_set_current_term_def lift_cb_def raft_funcs_def base_funcs_def raft_persist_term_cb_def)
  have "w_state_schema w' = w_state_schema demo_world"
    using r t by (auto simp: raft_set_current_term_def lift_cb_def raft_funcs_def base_funcs_def raft_persist_term_cb_def)
  then show ?thesis
    using term_persisted_once[OF wt t r] r by (simp add: demo_ext_def demo_world_def)
qed

text \<open>A conflicting entry ends the process: \<^verbatim>\<open>mdb_pop\<close> deletes in a read-only transaction, so whenever
  the raft server deletes entries from its log while the entries database is not empty, the pop
  callback is fatal with \<^verbatim>\<open>EACCES\<close>.\<close>

theorem conflict_is_fatal:
  assumes "srv_inv s" "1 \<le> idx" "idx \<le> raft_get_current_idx s" "w_env w ! db_entries \<noteq> []"
  shows "srv_log_delete (raft_funcs ext) idx (s, w) = Inl (Fatal EACCES)"
proof -
  let ?l = "srv_log s" and ?cbs = "raft_set_callbacks (raft_funcs ext)"
  have live: "log_wf ?l" "l_front ?l = 0" "l_base ?l = 0" using assms(1) by (auto simp: srv_inv_def log_live_def)
  have cnt: "log_count ?l = raft_get_current_idx s"
    using live(3) by (simp add: raft_get_current_idx_def log_get_current_idx_def)
  have ends: "0 < l_back ?l" "l_back ?l \<le> int (length (l_entries ?l))"
    using assms(2,3) live cnt by (auto simp: log_wf_def log_count_def)
  then have pop: "call_pop ?cbs ?l (s, w) = Inl (Fatal EACCES)"
    using mdb_pop_fatal[OF assms(4)]
    by (simp add: call_pop_def raft_set_callbacks_def raft_funcs_def base_funcs_def raft_logentry_pop_cb_def
        arr_get_nat)
  have "0 < nat (log_count ?l - (idx - 1 - l_base ?l))" using assms(3) cnt live(3) by simp
  then obtain n where "nat (log_count ?l - (idx - 1 - l_base ?l)) = Suc n" using gr0_conv_Suc by blast
  then have "log_delete ?cbs ?l idx (s, w) = Inl (Fatal EACCES)" by (simp add: log_delete_def Let_def pop)
  then show ?thesis by (simp add: srv_log_delete_def)
qed

theorem conflict_is_fatal_witness:
  "\<exists>s w. srv_log_delete (raft_funcs demo_ext) 1 (s, w) = Inl (Fatal EACCES)"
proof -
  have "ordinary_log demo_ticket_log"
    by (simp add: ordinary_log_def demo_ticket_log_def raft_entry_is_cfg_change_def logtype_defs c_int_def)
  from append_all_persists[OF this demo_self_inv demo_self_empty demo_store_ready]
  obtain s where s: "srv_inv s" "entries_of s = demo_ticket_log" by (auto simp: demo_world_def db_entries_def)
  let ?w = "demo_world\<lparr>w_env := [[([0], [])], [], []]\<rparr>"
  have "1 \<le> raft_get_current_idx s" using srv_inv_current_idx[OF s(1)] s(2) by (simp add: demo_ticket_log_def)
  moreover have "w_env ?w ! db_entries \<noteq> []" by (simp add: db_entries_def)
  ultimately have "srv_log_delete (raft_funcs demo_ext) 1 (s, ?w) = Inl (Fatal EACCES)"
    using conflict_is_fatal[OF s(1), of 1 ?w demo_ext] by simp
  then show ?thesis by blast
qed

subsection \<open>Membership\<close>

text \<open>A configuration change read back from its bytes has the ports and the id it was written with and
  the first 14 characters of the host: a dotted address of 15 characters, such as
  192.168.100.100, loses its last digit.\<close>

theorem cfg_change_roundtrip:
  assumes "c_int rp" "c_int hp" "c_int nid" "0 \<notin> set h" "length h \<le> 15"
  shows "\<exists>bs ch. cfg_bytes rp hp nid h = Inr bs \<and> bytes_cfg bs = Inr ch \<and> cc_raft_port ch = rp \<and>
    cc_http_port ch = hp \<and> cc_node_id ch = nid \<and> cc_host ch = take 14 h \<and>
    (cc_host ch = h \<longleftrightarrow> length h \<le> 14)"
proof -
  obtain bs where "cfg_bytes rp hp nid h = Inr bs"
    "bytes_cfg bs = Inr \<lparr>cc_raft_port = rp, cc_http_port = hp, cc_node_id = nid, cc_host = take 14 h\<rparr>"
    using cfg_roundtrip[OF assms] by blast
  moreover have "take 14 h = h \<longleftrightarrow> length h \<le> 14" by (metis length_take min.cobounded2 take_all)
  ultimately show ?thesis by simp
qed

theorem cfg_change_roundtrip_witness:
  "\<exists>bs ch. cfg_bytes 9002 8002 2 demo_host = Inr bs \<and> bytes_cfg bs = Inr ch \<and> cc_host ch = demo_host"
proof -
  have "c_int 9002" "c_int 8002" "c_int 2" "0 \<notin> set demo_host" "length demo_host \<le> 14"
    by (simp_all add: c_int_def demo_host_def)
  then show ?thesis using cfg_change_roundtrip[of 9002 8002 2 demo_host] by auto
qed

text \<open>C25. When the log takes in an entry that adds a peer, the peer and its connection point at each
  other: a search for the peer's address finds a connection whose node is the peer with the
  entry's id, and whose node leads back to the connection; the list of connections stays well
  formed. The address must be one libuv reads as it is printed.\<close>

theorem offer_links_peer:
  assumes "conns_wf w" "nodes_wf s" "bytes_cfg buf = Inr ch" "x_ip4_addr ext (cc_host ch) = Some (cc_host ch)"
    "t \<noteq> RAFT_LOGTYPE_REMOVE_NODE" "offer_cfg_change ext buf t (s, w) = Inr (e, s', w')"
  shows "conns_wf w' \<and> nodes_wf s' \<and>
    (\<exists>c conn a n. find_connection w' (cc_host ch) (cc_raft_port ch) = Inr (Some c) \<and>
      conn_get w' (Some c) = Inr conn \<and> pc_node conn = Some a \<and> node_get s' (Some a) = Inr n \<and>
      nd_id n = cc_node_id ch \<and> nd_udata n = Some c)"
proof -
  have "offer_add ext ch (find (conn_is w (cc_host ch) (cc_raft_port ch)) (w_conns w)) t (s, w) = Inr (e, s', w')"
    using assms(3,5,6) find_connection_find[OF assms(1)] by (simp add: offer_cfg_change_def)
  from offer_add_links[OF assms(1,2,4) this] offer_cfg_change_ok[OF assms(2,6)]
  show ?thesis by (auto simp: conn_get_def node_get_def)
qed

theorem offer_links_peer_witness:
  "\<exists>e s' w'. offer_cfg_change demo_ext demo_cfg RAFT_LOGTYPE_ADD_NODE (demo_self, demo_world) = Inr (e, s', w') \<and>
     conns_wf w' \<and> (\<exists>c. find_connection w' demo_host 9002 = Inr (Some c))"
proof -
  let ?r = "offer_cfg_change demo_ext demo_cfg RAFT_LOGTYPE_ADD_NODE (demo_self, demo_world)"
  have "\<not> isl ?r" by code_simp
  then obtain e s' w' where r: "?r = Inr (e, s', w')" by (cases ?r) auto
  have b: "bytes_cfg demo_cfg = Inr \<lparr>cc_raft_port = 9002, cc_http_port = 8002, cc_node_id = 2, cc_host = demo_host\<rparr>"
    by code_simp
  have "nodes_wf demo_self" using demo_self_inv by (simp add: srv_inv_def)
  from offer_links_peer[OF demo_conns_wf this b _ _ r] r show ?thesis
    by (auto simp: demo_ext_def logtype_defs)
qed

subsection \<open>Clients\<close>

text \<open>C26. The search for a ticket ends as soon as \<^verbatim>\<open>rand\<close> draws one that was not issued: if the draw
  number \<open>n\<close> is not in the tickets database, \<^verbatim>\<open>__generate_ticket\<close> returns one of the first
  \<open>n + 1\<close> draws, and the ticket it returns was not issued.\<close>

theorem generate_ticket_returns:
  assumes "\<not> check_if_ticket_exists (word_of_int (draw ext n w)) w"
  shows "\<exists>t w'. generate_ticket ext w = Some (t, w') \<and> \<not> check_if_ticket_exists t w \<and>
    (\<exists>k \<le> n. t = word_of_int (draw ext k w))"
proof -
  obtain t w' where t: "generate_ticket ext w = Some (t, w')" "w_env w' = w_env w"
    "\<not> check_if_ticket_exists t w'" "\<exists>k \<le> n. t = word_of_int (draw ext k w)"
    using generate_ticket_ends[OF assms] by blast
  then show ?thesis using ticket_exists_env[OF t(2)] by blast
qed

theorem generate_ticket_returns_witness:
  "\<exists>t w'. generate_ticket demo_ext (demo_world\<lparr>w_env := [[], [(ticket_bytes 5, [])], []]\<rparr>) = Some (t, w')"
proof -
  let ?w = "demo_world\<lparr>w_env := [[], [(ticket_bytes 5, [])], []]\<rparr>"
  have d: "draw demo_ext 1 ?w = 6" by (simp add: rand_int_def demo_ext_def demo_world_def)
  have "\<not> check_if_ticket_exists (word_of_int (draw demo_ext 1 ?w)) ?w"
    unfolding d by (simp add: check_if_ticket_exists_def mdb_get_def mdb_txn_begin_def db_tickets_def ticket_bytes_def
        int_bytes_def Let_def)
  from generate_ticket_returns[OF this] show ?thesis by blast
qed

text \<open>C27. A client is answered 200 only after its entry was committed: the leader had appended an entry
  with the returned id at some index in its own term, at the time of the answer the log has an
  entry of that term at that index, and the commit index has reached it. The id is the raw value of
  \<^verbatim>\<open>rand\<close> drawn behind the ticket; it is not the ticket that was checked to be unused.\<close>

theorem http_ok_committed:
  assumes "http_commit ext wakes ticket (s, w) = Inr (Http_ok i, lock, s', w')"
    "wakes_ok wakes" "srv_inv s"
  shows "\<not> lock \<and> i = sint (word_of_int (fst (rand_int ext w)) :: u32) \<and> raft_is_leader s \<and>
    (\<exists>idx. 1 \<le> idx \<and> idx \<le> commit_idx s' \<and> commit_idx s' \<le> raft_get_current_idx s' \<and>
       ety_term (entries_of s' ! nat (idx - 1)) = word_of_int (current_term s) \<and>
       (i \<noteq> 0 \<longrightarrow> idx = int (length (entries_of s)) + 1))"
proof -
  obtain x w1 where x: "rand_int ext w = (x, w1)" by force
  let ?e = "\<lparr>ety_term = 0, ety_id = word_of_int x, ety_type = 0, ety_data = ticket_bytes ticket\<rparr>"
  obtain r s1 w2 where
    1: "raft_recv_entry (raft_funcs ext) ?e zero_mer (s, w1) = Inr (0, r, s1, w2)"
    and 2: "http_wait 4 wakes r (s1, w2) = Inr (True, s', w')"
    and 3: "i = sint (word_of_int x :: u32)" "\<not> lock"
    using assms(1) by (auto simp: http_commit_def x Let_def split: if_splits)
  have nr: "\<not> recv_entry_refused ?e s" using 1 recv_entry_refused_eq[of ?e s "raft_funcs ext" zero_mer w1] by auto
  then have lead: "raft_is_leader s" by (simp add: recv_entry_refused_def)
  have ok1: "step_ok s s1" "current_term s1 = current_term s" using tick.recv_entry_ok[OF assms(3) 1] by auto
  have trm: "mer_term r = current_term s" by (rule recv_entry_parts[OF nr 1]) (use ok1(2) in simp)
  have w: "step_ok s1 s'" "raft_msg_entry_response_committed s' r = Inr 1"
    using http_wait_ok[OF 2 assms(2)] step_ok_inv[OF ok1(1)] by auto
  have inv': "srv_inv s'" by (rule step_ok_inv[OF w(1)])
  have idx1: "1 \<le> mer_idx r"
    using w(2) get_entry_assert[of "mer_idx r" s'] by (auto simp: raft_msg_entry_response_committed_def not_less[symmetric])
  have "mer_idx r \<le> commit_idx s' \<and> ety_term (entries_of s' ! nat (mer_idx r - 1)) = word_of_int (mer_term r)"
    using w(2) get_entry_eq[OF inv' idx1]
    by (auto simp: raft_msg_entry_response_committed_def split: if_splits)
  moreover have "mer_idx r = int (length (entries_of s)) + 1" if "i \<noteq> 0"
  proof -
    have "ety_id ?e \<noteq> 0" using that 3(1) by auto
    from tick.recv_entry_appends(2,4)[OF assms(3) 1 this] show ?thesis by auto
  qed
  moreover have "commit_idx s' \<le> raft_get_current_idx s'" using inv' by (simp add: srv_inv_def idx_wf_def)
  ultimately show ?thesis using 3 lead x trm idx1 by auto
qed

lemma wakes_id_ok: "wakes_ok (\<lambda>_ sw. sw)"
  by (simp add: wakes_ok_def step_ok_refl)

theorem http_ok_committed_witness:
  "\<exists>lock s' w'. http_commit demo_ext (\<lambda>_ sw. sw) 9 (demo_leader, demo_world) = Inr (Http_ok 5, lock, s', w') \<and>
     \<not> lock \<and> 1 \<le> commit_idx s'"
proof -
  let ?r = "http_commit demo_ext (\<lambda>_ sw. sw) 9 (demo_leader, demo_world)"
  have "(case ?r of Inl f \<Rightarrow> False | Inr (res, _) \<Rightarrow> res = Http_ok 5)" by code_simp
  then obtain lock s' w' where r: "?r = Inr (Http_ok 5, lock, s', w')" by (auto split: sum.splits)
  from http_ok_committed[OF r wakes_id_ok demo_leader_inv] r show ?thesis by auto
qed

text \<open>A client request returns with \<^verbatim>\<open>raft_lock\<close> held exactly when it is answered with status 500,
  which happens when the raft server refuses the entry: every later lock of the mutex waits for
  ever.\<close>

theorem http_lock_kept:
  assumes "http_get_id ext post wakes (s, w) = Some (Inr (res, lock, sw'))"
  shows "lock \<longleftrightarrow> res = Http_error 500"
proof -
  have c: "lock' \<longleftrightarrow> res' = Http_error 500"
    if "http_commit ext wakes ticket (s, w1) = Inr (res', lock', sw1)" for ticket w1 res' lock' sw1
  proof -
    obtain x w2 where x: "rand_int ext w1 = (x, w2)" by force
    from that show ?thesis by (auto simp: http_commit_def x Let_def split: if_splits)
  qed
  from assms show ?thesis
    by (auto simp: http_get_id_def Let_def split: if_splits sum.splits option.splits dest!: c)
qed

theorem http_lock_kept_witness:
  "\<exists>sw'. http_get_id demo_ext True (\<lambda>_ sw. sw) (demo_leader\<lparr>srv_state := RAFT_STATE_FOLLOWER\<rparr>, demo_world) =
     Some (Inr (Http_error 500, True, sw'))"
proof -
  let ?s = "demo_leader\<lparr>srv_state := RAFT_STATE_FOLLOWER\<rparr>"
  let ?r = "http_get_id demo_ext True (\<lambda>_ sw. sw) (?s, demo_world)"
  have "\<not> check_if_ticket_exists (word_of_int (draw demo_ext 0 demo_world)) demo_world"
    by (simp add: check_if_ticket_exists_def mdb_get_def mdb_txn_begin_def db_tickets_def demo_world_def)
  then obtain t w1 where t: "generate_ticket demo_ext demo_world = Some (t, w1)"
    using generate_ticket_ends by blast
  obtain x w2 where x: "rand_int demo_ext w1 = (x, w2)" by force
  have nl: "\<not> raft_is_leader ?s" by (simp add: raft_is_leader_def)
  have "http_commit demo_ext (\<lambda>_ sw. sw) t (?s, w1) = Inr (Http_error 500, True, ?s, w2)"
    using nl by (simp add: http_commit_def x raft_recv_entry_def Let_def)
  moreover have "current_leader ?s = Some 0" "node_get ?s (Some 0) = Inr (raft_node_new None 1)"
    by (simp_all add: demo_leader_def demo_self_def added_server_def node_get_def raft_new_def raft_set_state_def)
  moreover have "raft_node_get_id (raft_node_new None 1) = w_node_id demo_world"
    by (simp add: raft_node_new_def demo_world_def)
  ultimately have "?r = Some (Inr (Http_error 500, True, ?s, w2))" by (simp add: http_get_id_def t Let_def)
  with http_lock_kept[OF this] show ?thesis by blast
qed

subsection \<open>Batches\<close>

text \<open>A batch of two or more entries is never accepted: the sender puts only the first entry behind
  the message, and the receiver hands the raft server that one entry with the length of the whole
  batch. Whenever the handler of the payload returns at all, the response it has sent is a refusal;
  otherwise it reads past the entry.\<close>

theorem batch_never_accepted:
  assumes "conn_get w (Some c) = Inr conn" "2 \<le> ae_n_entries (pc_ae conn)" "srv_inv s"
    "handle_payload ext c img (s, w) = Inr (e, s', w')"
  shows "\<exists>st aer. last (w_out w') = (st, [MSG_APPENDENTRIES_RESPONSE aer]) \<and> aer_success aer = 0"
proof -
  obtain entry w1 e1 aer s1 w2 and conn2 :: peer_connection and w3 where
    1: "raft_recv_appendentries (raft_funcs ext) (pc_node conn) ((pc_ae conn)\<lparr>ae_entries := [entry]\<rparr>) zero_aer (s, w1) = Inr (e1, aer, s1, w2)"
    and 2: "peer_msg_send ext (pc_stream conn2) (MSG_APPENDENTRIES_RESPONSE aer) w2 = Inr w3"
    and 3: "conn_upd (Some c) (\<lambda>conn. conn\<lparr>pc_n_expected_entries := 0\<rparr>) w3 = Inr w'"
    using assms(1,4) by (auto simp: handle_payload_def handle_entry_def Let_def)
  let ?ae = "(pc_ae conn)\<lparr>ae_entries := [entry]\<rparr>"
  have "e1 \<noteq> 0"
  proof
    assume "e1 = 0"
    then have "ae_n_entries ?ae \<le> int (length (ae_entries ?ae))"
      using 1 accepted_reads[of "raft_funcs ext" "pc_node conn" ?ae zero_aer s w1] by simp
    then show False using assms(2) by simp
  qed
  then have "aer_success aer = 0" using tick.recv_appendentries_ok(3)[OF assms(3) 1] by simp
  moreover have "w_out w' = w_out w3" using 3 by (auto simp: conn_upd_effect)
  moreover have "\<exists>st. last (w_out w3) = (st, [MSG_APPENDENTRIES_RESPONSE aer])"
    using 2 by (auto simp: peer_msg_send_def try_write_def split: option.splits prod.splits if_splits)
  ultimately show ?thesis by metis
qed

theorem batch_never_accepted_witness:
  "\<exists>e s' w' st aer. handle_payload demo_ext 3 (payload_image [7, 7, 7, 7] zero_entry) (demo_leader, demo_batch_world) = Inr (e, s', w') \<and>
     w_out w' \<noteq> [] \<and> last (w_out w') = (st, [MSG_APPENDENTRIES_RESPONSE aer]) \<and> aer_success aer = 0"
proof -
  let ?r = "handle_payload demo_ext 3 (payload_image [7, 7, 7, 7] zero_entry) (demo_leader, demo_batch_world)"
  have "(case ?r of Inl f \<Rightarrow> False | Inr (_, _, w') \<Rightarrow> w_out w' \<noteq> [])" by code_simp
  then obtain e s' w' where r: "?r = Inr (e, s', w')" and out: "w_out w' \<noteq> []" by (auto split: sum.splits)
  let ?c = "demo_conn\<lparr>pc_n_expected_entries := 2, pc_ae := zero_ae\<lparr>ae_n_entries := 2\<rparr>\<rparr>"
  have c: "conn_get demo_batch_world (Some 3) = Inr ?c" by (simp add: conn_get_def demo_batch_world_def)
  have n: "2 \<le> ae_n_entries (pc_ae ?c)" by simp
  from batch_never_accepted[OF c n demo_leader_inv r] r out show ?thesis by blast
qed

end
