(* ===== verification/Usage_Tables.thy ===== *)
theory Usage_Tables
  imports Ragel
begin

section \<open>The tables of the command-line automaton (utils.c, usage.c)\<close>

text \<open>
  The tables that Ragel generated into \<^verbatim>\<open>src/src/utils.c\<close>; those of \<^verbatim>\<open>src/src/usage.c\<close> are the same.
\<close>

definition params_actions :: "int list" where
  "params_actions =
     [0, 1, 0, 1, 3, 1, 4, 1, 5, 1, 6, 1, 7, 1, 8, 1, 9, 1, 10, 2, 1, 11, 2, 1, 12, 2, 1, 13, 2, 1, 14,
      2, 1, 15, 2, 1, 16, 2, 1, 17, 2, 1, 18, 2, 2, 0]"

definition params_key_offsets :: "int list" where
  "params_key_offsets =
     [0, 0, 9, 13, 16, 17, 18, 19, 20, 21, 22, 23, 24, 31, 34, 35, 36, 37, 38, 39, 40, 42, 43, 44, 45,
      46, 47, 48, 49, 50, 51, 52, 53, 54, 55, 56, 57, 58, 59, 60, 61, 62, 63, 64, 65, 66, 67, 68, 70, 71,
      72, 73, 74, 75, 76, 77, 78, 79, 80, 81, 82, 83, 84, 87, 89, 90, 91, 92, 93, 94, 95, 96, 97, 98, 99,
      100, 101, 102, 103, 104, 105, 106, 107, 109, 110, 111, 112, 113, 114, 123, 127, 130, 131, 132, 133,
      134, 135, 136, 137, 138, 139, 140, 141, 142, 143, 144, 145, 146, 147, 148, 149, 150, 152, 153, 154,
      155, 156, 157, 158, 159, 160, 161, 162, 163, 164, 165, 166, 167, 169, 170, 171, 172, 173, 174, 175,
      176, 177, 178, 179, 180, 181, 182, 183, 184, 185, 186, 187, 188, 189, 190, 191, 192, 193, 194, 195,
      196, 197, 198, 199, 200, 201, 202, 203, 204, 209, 210, 210, 211]"

definition params_trans_keys :: "int list" where
  "params_trans_keys =
     [45, 72, 80, 100, 103, 104, 105, 115, 118, 100, 104, 112, 118, 97, 98, 101, 101, 109, 111, 110, 105,
      122, 101, 0, 45, 72, 80, 100, 103, 105, 115, 100, 104, 112, 111, 115, 116, 0, 0, 0, 97, 105, 116,
      104, 0, 0, 0, 100, 95, 102, 105, 108, 101, 0, 0, 0, 0, 0, 0, 0, 95, 115, 105, 122, 101, 98, 117,
      103, 101, 111, 108, 112, 0, 101, 114, 115, 105, 111, 110, 0, 114, 111, 112, 0, 45, 80, 103, 100,
      112, 101, 98, 117, 103, 0, 97, 116, 104, 0, 0, 0, 111, 105, 110, 0, 0, 0, 45, 45, 73, 105, 100, 0,
      0, 0, 45, 72, 80, 100, 103, 105, 112, 115, 116, 100, 104, 112, 114, 97, 98, 101, 101, 109, 111,
      110, 105, 122, 101, 0, 95, 115, 105, 122, 101, 0, 0, 0, 98, 117, 103, 0, 111, 116, 115, 116, 0, 0,
      0, 116, 112, 95, 112, 111, 114, 116, 0, 0, 0, 97, 105, 116, 104, 0, 0, 0, 100, 95, 102, 105, 108,
      101, 0, 0, 0, 97, 102, 116, 95, 112, 111, 114, 116, 0, 0, 0, 101, 97, 118, 101, 0, 116, 97, 114,
      116, 0, 45, 100, 106, 108, 115, 45, 45, 45, 0]"

definition params_single_lengths :: "int list" where
  "params_single_lengths =
     [0, 9, 4, 3, 1, 1, 1, 1, 1, 1, 1, 1, 7, 3, 1, 1, 1, 1, 1, 1, 2, 1, 1, 1, 1, 1, 1, 1, 1, 1, 1, 1, 1,
      1, 1, 1, 1, 1, 1, 1, 1, 1, 1, 1, 1, 1, 1, 2, 1, 1, 1, 1, 1, 1, 1, 1, 1, 1, 1, 1, 1, 1, 3, 2, 1, 1,
      1, 1, 1, 1, 1, 1, 1, 1, 1, 1, 1, 1, 1, 1, 1, 1, 2, 1, 1, 1, 1, 1, 9, 4, 3, 1, 1, 1, 1, 1, 1, 1, 1,
      1, 1, 1, 1, 1, 1, 1, 1, 1, 1, 1, 1, 2, 1, 1, 1, 1, 1, 1, 1, 1, 1, 1, 1, 1, 1, 1, 1, 2, 1, 1, 1, 1,
      1, 1, 1, 1, 1, 1, 1, 1, 1, 1, 1, 1, 1, 1, 1, 1, 1, 1, 1, 1, 1, 1, 1, 1, 1, 1, 1, 1, 1, 1, 1, 5, 1,
      0, 1, 1]"

definition params_range_lengths :: "int list" where
  "params_range_lengths =
     [0, 0, 0, 0, 0, 0, 0, 0, 0, 0, 0, 0, 0, 0, 0, 0, 0, 0, 0, 0, 0, 0, 0, 0, 0, 0, 0, 0, 0, 0, 0, 0, 0,
      0, 0, 0, 0, 0, 0, 0, 0, 0, 0, 0, 0, 0, 0, 0, 0, 0, 0, 0, 0, 0, 0, 0, 0, 0, 0, 0, 0, 0, 0, 0, 0, 0,
      0, 0, 0, 0, 0, 0, 0, 0, 0, 0, 0, 0, 0, 0, 0, 0, 0, 0, 0, 0, 0, 0, 0, 0, 0, 0, 0, 0, 0, 0, 0, 0, 0,
      0, 0, 0, 0, 0, 0, 0, 0, 0, 0, 0, 0, 0, 0, 0, 0, 0, 0, 0, 0, 0, 0, 0, 0, 0, 0, 0, 0, 0, 0, 0, 0, 0,
      0, 0, 0, 0, 0, 0, 0, 0, 0, 0, 0, 0, 0, 0, 0, 0, 0, 0, 0, 0, 0, 0, 0, 0, 0, 0, 0, 0, 0, 0, 0, 0, 0,
      0, 0, 0]"

definition params_index_offsets :: "int list" where
  "params_index_offsets =
     [0, 0, 10, 15, 19, 21, 23, 25, 27, 29, 31, 33, 35, 43, 47, 49, 51, 53, 55, 57, 59, 62, 64, 66, 68,
      70, 72, 74, 76, 78, 80, 82, 84, 86, 88, 90, 92, 94, 96, 98, 100, 102, 104, 106, 108, 110, 112, 114,
      117, 119, 121, 123, 125, 127, 129, 131, 133, 135, 137, 139, 141, 143, 145, 149, 152, 154, 156, 158,
      160, 162, 164, 166, 168, 170, 172, 174, 176, 178, 180, 182, 184, 186, 188, 191, 193, 195, 197, 199,
      201, 211, 216, 220, 222, 224, 226, 228, 230, 232, 234, 236, 238, 240, 242, 244, 246, 248, 250, 252,
      254, 256, 258, 260, 263, 265, 267, 269, 271, 273, 275, 277, 279, 281, 283, 285, 287, 289, 291, 293,
      296, 298, 300, 302, 304, 306, 308, 310, 312, 314, 316, 318, 320, 322, 324, 326, 328, 330, 332, 334,
      336, 338, 340, 342, 344, 346, 348, 350, 352, 354, 356, 358, 360, 362, 364, 366, 372, 374, 375, 377]"

definition params_trans_targs :: "int list" where
  "params_trans_targs =
     [2, 17, 23, 11, 35, 50, 32, 36, 57, 0, 3, 47, 20, 51, 0, 4, 39, 44, 0, 5, 0, 6, 0, 7, 0, 8, 0, 9, 0,
      10, 0, 11, 0, 164, 0, 13, 17, 23, 11, 35, 32, 36, 0, 3, 14, 20, 0, 15, 0, 16, 0, 17, 0, 18, 0, 0,
      19, 164, 19, 21, 26, 0, 22, 0, 23, 0, 24, 0, 0, 25, 164, 25, 27, 0, 28, 0, 29, 0, 30, 0, 31, 0, 32,
      0, 33, 0, 0, 34, 164, 34, 164, 0, 37, 0, 0, 38, 164, 38, 40, 0, 41, 0, 42, 0, 43, 0, 36, 0, 45, 0,
      46, 0, 35, 0, 48, 15, 0, 49, 0, 50, 0, 165, 0, 52, 0, 53, 0, 54, 0, 55, 0, 56, 0, 57, 0, 165, 0,
      59, 0, 60, 0, 61, 0, 166, 0, 63, 72, 68, 0, 64, 69, 0, 65, 0, 66, 0, 67, 0, 68, 0, 166, 0, 70, 0,
      71, 0, 72, 0, 73, 0, 0, 74, 166, 74, 76, 0, 77, 0, 78, 0, 79, 0, 0, 80, 81, 80, 82, 0, 83, 85, 0,
      84, 0, 85, 0, 86, 0, 0, 87, 167, 87, 89, 114, 130, 98, 110, 139, 150, 104, 124, 0, 90, 111, 127,
      142, 0, 91, 99, 107, 0, 92, 0, 93, 0, 94, 0, 95, 0, 96, 0, 97, 0, 98, 0, 167, 0, 100, 0, 101, 0,
      102, 0, 103, 0, 104, 0, 105, 0, 0, 106, 167, 106, 108, 0, 109, 0, 110, 0, 167, 0, 112, 117, 0, 113,
      0, 114, 0, 115, 0, 0, 116, 167, 116, 118, 0, 119, 0, 120, 0, 121, 0, 122, 0, 123, 0, 124, 0, 125,
      0, 0, 126, 167, 126, 128, 133, 0, 129, 0, 130, 0, 131, 0, 0, 132, 167, 132, 134, 0, 135, 0, 136, 0,
      137, 0, 138, 0, 139, 0, 140, 0, 0, 141, 167, 141, 143, 0, 144, 0, 145, 0, 146, 0, 147, 0, 148, 0,
      149, 0, 150, 0, 151, 0, 0, 152, 167, 152, 154, 0, 155, 0, 156, 0, 157, 0, 166, 0, 159, 0, 160, 0,
      161, 0, 162, 0, 81, 0, 1, 58, 75, 153, 158, 0, 12, 0, 0, 62, 0, 88, 0, 0]"

definition params_trans_actions :: "int list" where
  "params_trans_actions =
     [0, 0, 0, 0, 0, 0, 0, 0, 0, 0, 0, 0, 0, 0, 0, 0, 0, 0, 0, 0, 0, 0, 0, 0, 0, 0, 0, 0, 0, 0, 0, 0, 0,
      11, 0, 0, 0, 0, 0, 0, 0, 0, 0, 0, 0, 0, 0, 0, 0, 0, 0, 0, 0, 0, 0, 0, 43, 22, 1, 0, 0, 0, 0, 0, 0,
      0, 0, 0, 0, 43, 31, 1, 0, 0, 0, 0, 0, 0, 0, 0, 0, 0, 0, 0, 0, 0, 0, 43, 34, 1, 13, 0, 0, 0, 0, 43,
      19, 1, 0, 0, 0, 0, 0, 0, 0, 0, 0, 0, 0, 0, 0, 0, 0, 0, 0, 0, 0, 0, 0, 0, 0, 15, 0, 0, 0, 0, 0, 0,
      0, 0, 0, 0, 0, 0, 0, 17, 0, 0, 0, 0, 0, 0, 0, 3, 0, 0, 0, 0, 0, 0, 0, 0, 0, 0, 0, 0, 0, 0, 0, 0,
      13, 0, 0, 0, 0, 0, 0, 0, 0, 0, 0, 43, 31, 1, 0, 0, 0, 0, 0, 0, 5, 0, 0, 43, 40, 1, 0, 0, 0, 0, 0,
      0, 0, 0, 0, 0, 0, 0, 43, 28, 1, 0, 0, 0, 0, 0, 0, 0, 0, 0, 0, 0, 0, 0, 0, 0, 0, 0, 0, 0, 0, 0, 0,
      0, 0, 0, 0, 0, 0, 0, 0, 0, 0, 0, 11, 0, 0, 0, 0, 0, 0, 0, 0, 0, 0, 0, 0, 0, 0, 43, 19, 1, 0, 0, 0,
      0, 0, 0, 13, 0, 0, 0, 0, 0, 0, 0, 0, 0, 0, 0, 43, 22, 1, 0, 0, 0, 0, 0, 0, 0, 0, 0, 0, 0, 0, 0, 0,
      0, 0, 0, 43, 25, 1, 0, 0, 0, 0, 0, 0, 0, 0, 0, 0, 43, 31, 1, 0, 0, 0, 0, 0, 0, 0, 0, 0, 0, 0, 0, 0,
      0, 0, 43, 34, 1, 0, 0, 0, 0, 0, 0, 0, 0, 0, 0, 0, 0, 0, 0, 0, 0, 0, 0, 0, 43, 37, 1, 0, 0, 0, 0, 0,
      0, 0, 0, 7, 0, 0, 0, 0, 0, 0, 0, 0, 0, 9, 0, 0, 0, 0, 0, 0, 0, 0, 0, 0, 0, 0, 0, 0, 0]"

definition params_machine :: ragel where
  "params_machine =
     \<lparr>rg_actions = params_actions, rg_key_offsets = params_key_offsets, rg_trans_keys = params_trans_keys,
      rg_single_lengths = params_single_lengths, rg_range_lengths = params_range_lengths,
      rg_index_offsets = params_index_offsets, rg_indicies = None, rg_trans_targs = params_trans_targs,
      rg_trans_actions = params_trans_actions\<rparr>"

end
