(* ===== verification/Usage.thy ===== *)
theory Usage
  imports Usage_Tables
begin

section \<open>The command line (utils.c, usage.c)\<close>

text \<open>
  \<^verbatim>\<open>parse_options\<close> of \<^verbatim>\<open>src/src/utils.c\<close> feeds every argument, with its terminating 0, to one automaton that
  collects option values in a buffer of \<^verbatim>\<open>BUFLEN + 1\<close> characters. \<^verbatim>\<open>src/src/usage.c\<close>, which \<^verbatim>\<open>main.c\<close>
  includes, has the same code without the http port: its action 13 is missing, and no default is
  set; the flag \<open>http\<close> tells them apart. What the buffer on the stack holds at first is an
  argument. Copying it with \<^verbatim>\<open>strdup\<close> reads up to its first 0.
\<close>

definition BUFLEN :: int where "BUFLEN = 1024"

record options =
  o_drop :: int
  o_join :: int
  o_leave :: int
  o_start :: int
  o_daemonize :: int
  o_debug :: int
  o_help :: int
  o_version :: int
  o_db_size :: "byte list option"
  o_host :: "byte list option"
  o_http_port :: "byte list option"
  o_id :: "byte list option"
  o_path :: "byte list option"
  o_pid_file :: "byte list option"
  o_raft_port :: "byte list option"
  o_PEER :: "byte list option"

record params =
  pm_opt :: options
  pm_buffer :: "byte list"
  pm_buflen :: int

definition params_start :: int where "params_start = 163"
definition params_first_final :: int where "params_first_final = 163"
definition params_error :: int where "params_error = 0"

text \<open>The defaults \<^verbatim>\<open>"1000"\<close>, \<^verbatim>\<open>"127.0.0.1"\<close>, \<^verbatim>\<open>"8000"\<close>, \<^verbatim>\<open>"store"\<close>, \<^verbatim>\<open>"/var/run/pearl.pid"\<close> and
  \<^verbatim>\<open>"9000"\<close>.\<close>

definition default_options :: "bool \<Rightarrow> options" where
  "default_options http =
     \<lparr>o_drop = 0, o_join = 0, o_leave = 0, o_start = 0, o_daemonize = 0, o_debug = 0, o_help = 0, o_version = 0,
      o_db_size = Some [49, 48, 48, 48],
      o_host = Some [49, 50, 55, 46, 48, 46, 48, 46, 49],
      o_http_port = (if http then Some [56, 48, 48, 48] else None), o_id = None,
      o_path = Some [115, 116, 111, 114, 101],
      o_pid_file = Some [47, 118, 97, 114, 47, 114, 117, 110, 47, 112, 101, 97, 114, 108, 46, 112, 105, 100],
      o_raft_port = Some [57, 48, 48, 48], o_PEER = None\<rparr>"

definition params_init :: "bool \<Rightarrow> byte list \<Rightarrow> int \<times> params" where
  "params_init http buffer =
     (params_start, \<lparr>pm_opt = default_options http, pm_buffer = buffer, pm_buflen = 0\<rparr>)"

definition buf_put :: "byte \<Rightarrow> params \<Rightarrow> fault + params" where
  "buf_put b fsm =
     (if pm_buflen fsm < BUFLEN
      then bindE (arr_set (pm_buffer fsm) (pm_buflen fsm) b) (\<lambda>buf.
           Inr (fsm\<lparr>pm_buffer := buf, pm_buflen := pm_buflen fsm + 1\<rparr>))
      else Inr fsm)"

definition buf_dup :: "params \<Rightarrow> fault + byte list" where
  "buf_dup fsm =
     (if 0 \<in> set (pm_buffer fsm) then Inr (takeWhile (\<lambda>b. b \<noteq> 0) (pm_buffer fsm)) else Inl Out_of_bounds)"

text \<open>The flags and options the actions from 3 on set.\<close>

definition set_flag :: "int \<Rightarrow> options \<Rightarrow> options" where
  "set_flag a opt =
     (if a = 3 then opt\<lparr>o_drop := 1\<rparr> else if a = 4 then opt\<lparr>o_join := 1\<rparr> else if a = 5 then opt\<lparr>o_leave := 1\<rparr>
      else if a = 6 then opt\<lparr>o_start := 1\<rparr> else if a = 7 then opt\<lparr>o_daemonize := 1\<rparr>
      else if a = 8 then opt\<lparr>o_debug := 1\<rparr> else if a = 9 then opt\<lparr>o_help := 1\<rparr> else opt\<lparr>o_version := 1\<rparr>)"

definition set_option :: "bool \<Rightarrow> int \<Rightarrow> byte list \<Rightarrow> options \<Rightarrow> options" where
  "set_option http a v opt =
     (if a = 11 then opt\<lparr>o_db_size := Some v\<rparr> else if a = 12 then opt\<lparr>o_host := Some v\<rparr>
      else if a = 13 then (if http then opt\<lparr>o_http_port := Some v\<rparr> else opt)
      else if a = 14 then opt\<lparr>o_id := Some v\<rparr> else if a = 15 then opt\<lparr>o_path := Some v\<rparr>
      else if a = 16 then opt\<lparr>o_pid_file := Some v\<rparr> else if a = 17 then opt\<lparr>o_raft_port := Some v\<rparr>
      else if a = 18 then opt\<lparr>o_PEER := Some v\<rparr> else opt)"

definition params_act :: "bool \<Rightarrow> byte \<Rightarrow> int \<Rightarrow> params \<Rightarrow> fault + params" where
  "params_act http b a fsm =
     (if a = 0 then buf_put b fsm
      else if a = 1 then buf_put 0 fsm
      else if a = 2 then Inr (fsm\<lparr>pm_buflen := 0\<rparr>)
      else if 3 \<le> a \<and> a \<le> 10 then Inr (fsm\<lparr>pm_opt := set_flag a (pm_opt fsm)\<rparr>)
      else if a = 13 \<and> \<not> http then Inr fsm
      else if 11 \<le> a \<and> a \<le> 18
      then bindE (buf_dup fsm) (\<lambda>v. Inr (fsm\<lparr>pm_opt := set_option http a v (pm_opt fsm)\<rparr>))
      else Inr fsm)"

definition params_execute :: "bool \<Rightarrow> byte list \<Rightarrow> int \<times> params \<Rightarrow> fault + int \<times> params" where
  "params_execute http data st =
     bindE (ragel_execute params_machine (\<lambda>p b a fsm. params_act http b a fsm) data st) (\<lambda>(_, st). Inr st)"

definition params_finish :: "int \<Rightarrow> int" where
  "params_finish cs = (if cs = params_error then -1 else if params_first_final \<le> cs then 1 else 0)"

text \<open>\<open>args\<close> are the arguments behind the program name.\<close>

definition parse_options :: "bool \<Rightarrow> byte list list \<Rightarrow> byte list \<Rightarrow> fault + int \<times> options" where
  "parse_options http args buffer =
     bindE (foldE (\<lambda>arg st. params_execute http (arg @ [0]) st) args (params_init http buffer)) (\<lambda>(cs, fsm).
     Inr (if params_finish cs \<noteq> 1 then -1 else 0, pm_opt fsm))"

subsection \<open>The shape of the tables\<close>

text \<open>The states in which the value of an option is read.\<close>

definition value_state :: "int \<Rightarrow> bool" where
  "value_state cs \<longleftrightarrow> cs \<in> set [19, 25, 34, 38, 74, 80, 87, 106, 116, 126, 132, 141, 152]"

definition trans_ok :: "int \<Rightarrow> int \<Rightarrow> int \<Rightarrow> bool" where
  "trans_ok cs targ ac \<longleftrightarrow> 0 \<le> targ \<and> targ < 168 \<and>
     (if ac = 1 then value_state cs \<and> targ = cs
      else if ac = 43 then value_state targ
      else \<not> value_state targ \<and>
        (ac \<in> set [0, 3, 5, 7, 9, 11, 13, 15, 17] \<or> ac \<in> set [19, 22, 25, 28, 31, 34, 37, 40] \<and> value_state cs))"

definition state_ok :: "int \<Rightarrow> bool" where
  "state_ok cs \<longleftrightarrow>
     (let ko = params_key_offsets ! nat cs; n = params_single_lengths ! nat cs;
          io = params_index_offsets ! nat cs in
      0 \<le> ko \<and> 0 \<le> n \<and> ko + n \<le> 213 \<and> 0 \<le> io \<and> io + n < 380 \<and> params_range_lengths ! nat cs = 0 \<and>
      list_all (\<lambda>j. trans_ok cs (params_trans_targs ! nat j) (params_trans_actions ! nat j)) [io..io + n])"

lemma all_states_ok: "list_all state_ok [0..167]"
  by code_simp

lemma zero_leaves_value: "list_all (\<lambda>cs. case ragel_trans params_machine cs 0 of
     Inl _ \<Rightarrow> False | Inr t \<Rightarrow> \<not> value_state (params_trans_targs ! nat t)) [0..167]"
  by code_simp

lemma state_facts:
  assumes "0 \<le> cs" "cs < 168"
  shows "state_ok cs"
    "\<And>t. ragel_trans params_machine cs 0 = Inr t \<Longrightarrow> \<not> value_state (params_trans_targs ! nat t)"
proof -
  have "cs \<in> set [0..167]" using assms by simp
  then show "state_ok cs"
    "\<And>t. ragel_trans params_machine cs 0 = Inr t \<Longrightarrow> \<not> value_state (params_trans_targs ! nat t)"
    using all_states_ok zero_leaves_value unfolding list_all_iff by (blast, fastforce)
qed

lemma table_lengths:
  "length params_key_offsets = 168" "length params_single_lengths = 168" "length params_index_offsets = 168"
  "length params_range_lengths = 168" "length params_trans_keys = 213" "length params_trans_targs = 380"
  "length params_trans_actions = 380"
  by (simp_all add: params_key_offsets_def params_single_lengths_def params_index_offsets_def
      params_range_lengths_def params_trans_keys_def params_trans_targs_def params_trans_actions_def)

text \<open>Every character has a transition, within the tables.\<close>

lemma params_trans_ok:
  assumes "0 \<le> cs" "cs < 168"
  shows "\<exists>t. ragel_trans params_machine cs c = Inr t \<and> 0 \<le> t \<and> t < 380 \<and>
    trans_ok cs (params_trans_targs ! nat t) (params_trans_actions ! nat t)"
proof -
  let ?ko = "params_key_offsets ! nat cs" and ?n = "params_single_lengths ! nat cs"
    and ?io = "params_index_offsets ! nat cs"
  have ok: "0 \<le> ?ko" "0 \<le> ?n" "?ko + ?n \<le> 213" "0 \<le> ?io" "?io + ?n < 380" "params_range_lengths ! nat cs = 0"
    "\<And>j. ?io \<le> j \<Longrightarrow> j \<le> ?io + ?n \<Longrightarrow> trans_ok cs (params_trans_targs ! nat j) (params_trans_actions ! nat j)"
    using state_facts(1)[OF assms] by (simp_all add: state_ok_def Let_def list_all_iff)
  have get: "arr_get params_key_offsets cs = Inr ?ko" "arr_get params_single_lengths cs = Inr ?n"
    "arr_get params_index_offsets cs = Inr ?io" "arr_get params_range_lengths cs = Inr 0"
    using assms ok(6) by (simp_all add: arr_get_nat table_lengths)
  have "?ko + ?n - 1 < int (length params_trans_keys)" using ok(3) by (simp add: table_lengths)
  from single_search_total[OF ok(1) this, of c] obtain hit where
    hit: "single_search params_trans_keys c ?ko (?ko + ?n - 1) = Inr hit"
    "\<And>mid. hit = Some mid \<Longrightarrow> ?ko \<le> mid \<and> mid \<le> ?ko + ?n - 1" by blast
  define t where "t = (if 0 < ?n then case hit of Some mid \<Rightarrow> ?io + (mid - ?ko) | None \<Rightarrow> ?io + ?n else ?io)"
  have "ragel_trans params_machine cs c = Inr t"
    using get hit(1) by (cases hit) (auto simp: ragel_trans_def params_machine_def t_def Let_def)
  moreover have "?io \<le> t" "t \<le> ?io + ?n" using ok(2) hit(2) by (auto simp: t_def split: option.split)
  ultimately show ?thesis using ok(4,5,7) by force
qed

subsection \<open>The buffer\<close>

lemma foldE_few: "foldE f [] = Inr" "foldE f [x] = f x" "bindE m Inr = m"
  by (auto simp: fun_eq_iff bindE_def split: sum.split)

lemma params_acts:
  "ragel_acts params_machine act 1 u = act 0 u"
  "ragel_acts params_machine act 43 u = bindE (act 2 u) (act 0)"
  "ac \<in> set [3, 5, 7, 9, 11, 13, 15, 17] \<Longrightarrow> ragel_acts params_machine act ac u = act ((ac + 3) div 2) u"
  "ac \<in> set [19, 22, 25, 28, 31, 34, 37, 40] \<Longrightarrow>
     ragel_acts params_machine act ac u = bindE (act 1 u) (act ((ac - 19) div 3 + 11))"
  by (auto simp: ragel_acts_def params_machine_def params_actions_def arr_get_def upt_two foldE_few)

definition params_inv :: "int \<Rightarrow> int \<times> params \<Rightarrow> bool" where
  "params_inv i st \<longleftrightarrow> 0 \<le> fst st \<and> fst st < 168 \<and> length (pm_buffer (snd st)) = 1025 \<and>
     0 \<le> pm_buflen (snd st) \<and> pm_buflen (snd st) \<le> 1024 \<and> (value_state (fst st) \<longrightarrow> pm_buflen (snd st) \<le> i)"

lemma buf_put_ok:
  assumes "length (pm_buffer u) = 1025" "0 \<le> pm_buflen u" "pm_buflen u < 1024"
  shows "buf_put b u = Inr (u\<lparr>pm_buffer := (pm_buffer u)[nat (pm_buflen u) := b], pm_buflen := pm_buflen u + 1\<rparr>)"
  using assms by (simp add: buf_put_def BUFLEN_def arr_set_def)

lemma keep_opt: "\<exists>opt. u = u\<lparr>pm_opt := opt\<rparr>" for u :: params
  by (rule exI[of _ "pm_opt u"]) simp

lemma params_step:
  assumes inv: "params_inv i (cs, u)" and i: "0 \<le> i" "i < 1024"
  shows "\<exists>st. ragel_step params_machine (params_act http b) (sint b) (cs, u) = Inr st \<and> params_inv (i + 1) st \<and>
    (b = 0 \<longrightarrow> \<not> value_state (fst st))"
proof -
  have cs: "0 \<le> cs" "cs < 168" and u: "length (pm_buffer u) = 1025" "0 \<le> pm_buflen u" "pm_buflen u \<le> 1024"
    "value_state cs \<Longrightarrow> pm_buflen u \<le> i" using inv by (auto simp: params_inv_def)
  obtain t where t: "ragel_trans params_machine cs (sint b) = Inr t" "0 \<le> t" "t < 380"
    "trans_ok cs (params_trans_targs ! nat t) (params_trans_actions ! nat t)"
    using params_trans_ok[OF cs] by blast
  let ?targ = "params_trans_targs ! nat t" and ?ac = "params_trans_actions ! nat t"
  have z: "\<not> value_state ?targ" if "b = 0" using state_facts(2)[OF cs] t(1) that by simp
  have step: "ragel_step params_machine (params_act http b) (sint b) (cs, u) =
      (if ?ac = 0 then Inr (?targ, u) else bindE (ragel_acts params_machine (params_act http b) ?ac u) (\<lambda>u. Inr (?targ, u)))"
    using t(1-3) by (simp add: ragel_step_def params_machine_def arr_get_nat table_lengths)
  have targ: "0 \<le> ?targ" "?targ < 168" using t(4) by (auto simp: trans_ok_def)
  consider "?ac = 1" "value_state cs" "?targ = cs" | "?ac = 43" | "?ac = 0" "\<not> value_state ?targ"
    | "?ac \<in> set [3, 5, 7, 9, 11, 13, 15, 17]" "\<not> value_state ?targ"
    | "?ac \<in> set [19, 22, 25, 28, 31, 34, 37, 40]" "value_state cs" "\<not> value_state ?targ"
    using t(4) by (auto simp: trans_ok_def split: if_splits)
  then show ?thesis
  proof cases
    case 1
    then have "params_act http b 0 u = buf_put b u" "pm_buflen u < 1024" using u(4) i by (auto simp: params_act_def)
    then show ?thesis using step 1 u cs z buf_put_ok[OF u(1,2), of b]
      by (auto simp: params_acts(1) params_inv_def)
  next
    case 2
    have "buf_put b (u\<lparr>pm_buflen := 0\<rparr>) = Inr (u\<lparr>pm_buffer := (pm_buffer u)[0 := b], pm_buflen := 1\<rparr>)"
      using buf_put_ok[of "u\<lparr>pm_buflen := 0\<rparr>" b] u(1) by simp
    then show ?thesis using step 2 u(1) targ i z by (auto simp: params_acts(2) params_act_def params_inv_def)
  next
    case 3
    then show ?thesis using step targ u by (auto simp: params_inv_def)
  next
    case 4
    let ?a = "(?ac + 3) div 2"
    have nz: "?ac \<noteq> 0" "3 \<le> ?a" "?a \<le> 10" using 4(1) by auto
    then have "params_act http b ?a u = Inr (u\<lparr>pm_opt := set_flag ?a (pm_opt u)\<rparr>)" by (simp add: params_act_def)
    then have "ragel_step params_machine (params_act http b) (sint b) (cs, u) =
        Inr (?targ, u\<lparr>pm_opt := set_flag ?a (pm_opt u)\<rparr>)"
      using step params_acts(3)[OF 4(1), of "params_act http b" u] nz(1) by simp
    then show ?thesis using 4(2) targ u by (simp add: params_inv_def)
  next
    case 5
    define a where "a = (?ac - 19) div 3 + 11"
    have a: "11 \<le> a" "a \<le> 18" "?ac \<noteq> 0" using 5(1) by (auto simp: a_def)
    have acts: "ragel_acts params_machine (params_act http b) ?ac u = bindE (params_act http b 1 u) (params_act http b a)"
      using params_acts(4)[OF 5(1)] by (simp add: a_def)
    let ?u = "u\<lparr>pm_buffer := (pm_buffer u)[nat (pm_buflen u) := 0], pm_buflen := pm_buflen u + 1\<rparr>"
    have lt: "pm_buflen u < 1024" using u(4) 5(2) i by auto
    then have "params_act http b 1 u = Inr ?u" using buf_put_ok[OF u(1,2)] by (simp add: params_act_def)
    moreover have "0 \<in> set (pm_buffer ?u)" using u lt by (simp add: set_update_memI)
    then have "buf_dup ?u = Inr (takeWhile (\<lambda>b. b \<noteq> 0) (pm_buffer ?u))" by (simp add: buf_dup_def)
    then have "\<exists>opt. params_act http b a ?u = Inr (?u\<lparr>pm_opt := opt\<rparr>)"
      using a by (cases "a = 13 \<and> \<not> http") (auto simp: params_act_def keep_opt)
    ultimately obtain opt where "ragel_acts params_machine (params_act http b) ?ac u = Inr (?u\<lparr>pm_opt := opt\<rparr>)"
      using acts by auto
    then have "ragel_step params_machine (params_act http b) (sint b) (cs, u) = Inr (?targ, ?u\<lparr>pm_opt := opt\<rparr>)"
      using step a(3) by simp
    then show ?thesis using 5(3) targ u lt by (simp add: params_inv_def)
  qed
qed

lemma params_loop:
  assumes "params_inv i st" "0 \<le> i" "i + int (length bs) \<le> 1024"
  shows "\<exists>eof st'. ragel_loop params_machine (\<lambda>p b a fsm. params_act http b a fsm) i bs st = Inr (eof, st') \<and>
    params_inv (i + int (length bs)) st' \<and> (bs \<noteq> [] \<and> last bs = 0 \<longrightarrow> \<not> value_state (fst st'))"
  using assms
proof (induction bs arbitrary: i st)
  case (Cons b bs)
  obtain cs u where st: "st = (cs, u)" by (cases st)
  obtain st1 where st1: "ragel_step params_machine (params_act http b) (sint b) st = Inr st1"
    "params_inv (i + 1) st1" "b = 0 \<longrightarrow> \<not> value_state (fst st1)"
    using params_step[of i cs u http b] Cons.prems st by auto
  show ?case
  proof (cases "fst st1 = 0")
    case True
    then have "\<not> value_state (fst st1)" by (simp add: value_state_def)
    then have "params_inv (i + int (length (b # bs))) st1" using st1(2) by (auto simp: params_inv_def)
    then show ?thesis using True st1 \<open>\<not> value_state (fst st1)\<close> by (auto intro: exI[of _ False])
  next
    case False
    have "\<exists>eof st'. ragel_loop params_machine (\<lambda>p b a fsm. params_act http b a fsm) (i + 1) bs st1 = Inr (eof, st') \<and>
      params_inv (i + 1 + int (length bs)) st' \<and> (bs \<noteq> [] \<and> last bs = 0 \<longrightarrow> \<not> value_state (fst st'))"
      by (rule Cons.IH) (use st1(2) Cons.prems in auto)
    then obtain eof st' where r: "ragel_loop params_machine (\<lambda>p b a fsm. params_act http b a fsm) (i + 1) bs st1 = Inr (eof, st')"
      "params_inv (i + 1 + int (length bs)) st'" "bs \<noteq> [] \<and> last bs = 0 \<longrightarrow> \<not> value_state (fst st')" by blast
    have "ragel_loop params_machine (\<lambda>p b a fsm. params_act http b a fsm) i (b # bs) st = Inr (eof, st')"
      using False st1(1) r(1) by simp
    moreover have "i + int (length (b # bs)) = i + 1 + int (length bs)" by simp
    moreover have "bs = [] \<Longrightarrow> st' = st1" using r(1) by simp
    ultimately show ?thesis using r(2,3) st1(3)
      by (intro exI[of _ eof] exI[of _ st']) (cases "bs = []", auto simp: add.assoc simp del: ragel_loop.simps)
  qed
qed auto

text \<open>Between two arguments no value is being read.\<close>

lemma params_execute_ok:
  assumes "params_inv 0 st" "length arg \<le> 1023"
  shows "\<exists>st'. params_execute http (arg @ [0]) st = Inr st' \<and> params_inv 0 st'"
proof (cases "fst st = 0")
  case True
  then show ?thesis using assms(1) by (simp add: params_execute_def ragel_execute_def)
next
  case False
  from params_loop[OF assms(1), of "arg @ [0]" http] assms(2)
  obtain eof st' where r: "ragel_loop params_machine (\<lambda>p b a fsm. params_act http b a fsm) 0 (arg @ [0]) st = Inr (eof, st')"
    "params_inv (int (length (arg @ [0]))) st'" "\<not> value_state (fst st')" by auto
  then have "params_inv 0 st'" by (simp add: params_inv_def)
  then show ?thesis using False r(1) by (simp add: params_execute_def ragel_execute_def)
qed

lemma parse_options_total:
  assumes "list_all (\<lambda>arg. length arg \<le> 1023) args" "length buffer = 1025"
  shows "\<exists>e opt. parse_options http args buffer = Inr (e, opt) \<and> (e = 0 \<or> e = -1)"
proof -
  have "params_inv 0 (params_init http buffer)"
    using assms(2) by (simp add: params_inv_def params_init_def params_start_def value_state_def)
  then have "\<exists>st. foldE (\<lambda>arg st. params_execute http (arg @ [0]) st) args (params_init http buffer) = Inr st \<and> params_inv 0 st"
    by (rule foldE_total[rotated]) (use assms(1) params_execute_ok in \<open>auto simp: list_all_iff\<close>)
  then obtain cs u where "foldE (\<lambda>arg st. params_execute http (arg @ [0]) st) args (params_init http buffer) = Inr (cs, u)"
    by auto
  then have "parse_options http args buffer = Inr (if params_finish cs \<noteq> 1 then -1 else 0, pm_opt u)"
    by (simp add: parse_options_def)
  then show ?thesis by auto
qed

end
