(* ===== verification/Usage_Grammar.thy ===== *)
theory Usage_Grammar
  imports Usage
begin

section \<open>The language of the command line\<close>

text \<open>
  The help text of \<^verbatim>\<open>src/src/utils.c\<close> as a datatype of command lines, how they are written as arguments, and
  what they mean; \<^verbatim>\<open>parse_options\<close> maps the arguments to the meaning. The automaton is used through
  three facts: a keyword leads from one state to another, setting at most a flag; the value of
  an option is collected in the buffer; every option leads back to the state it started from.
\<close>

definition bytes :: "string \<Rightarrow> byte list" where
  "bytes s = map of_char s"

datatype cmd_opt =
    Daemonize
  | Debug
  | Db_size "byte list"
  | Host "byte list"
  | Http_port "byte list"
  | Path "byte list"
  | Pid_file "byte list"
  | Raft_port "byte list"

text \<open>An option with its long (\<open>False\<close>) or short (\<open>True\<close>) name.\<close>

type_synonym written_opt = "bool \<times> cmd_opt"

datatype cmd_line =
    Start bool "byte list" "written_opt list"
  | Join bool "byte list" "byte list" "written_opt list"
  | Drop "written_opt list"
  | Leave "written_opt list"
  | Rejoin "written_opt list"
  | Help bool
  | Version bool

definition opt_name :: "bool \<Rightarrow> string \<Rightarrow> string \<Rightarrow> byte list" where
  "opt_name short s l = bytes (if short then s else l)"

fun opt_args :: "written_opt \<Rightarrow> byte list list" where
  "opt_args (s, Daemonize) = [opt_name s ''-d'' ''--daemonize'']"
| "opt_args (s, Debug) = [opt_name s ''-g'' ''--debug'']"
| "opt_args (s, Db_size v) = [opt_name s ''-s'' ''--db_size'', v]"
| "opt_args (s, Host v) = [opt_name s ''-H'' ''--host'', v]"
| "opt_args (s, Http_port v) = [opt_name s ''-t'' ''--http_port'', v]"
| "opt_args (s, Path v) = [opt_name s ''-P'' ''--path'', v]"
| "opt_args (s, Pid_file v) = [opt_name s ''-i'' ''--pid_file'', v]"
| "opt_args (s, Raft_port v) = [opt_name s ''-p'' ''--raft_port'', v]"

fun cmd_args :: "cmd_line \<Rightarrow> byte list list" where
  "cmd_args (Start s i os) = [bytes ''start'', opt_name s ''-I'' ''--id'', i] @ concat (map opt_args os)"
| "cmd_args (Join s p i os) = [bytes ''join'', p, opt_name s ''-I'' ''--id'', i] @ concat (map opt_args os)"
| "cmd_args (Drop os) = bytes ''drop'' # concat (map opt_args os)"
| "cmd_args (Leave os) = bytes ''leave'' # concat (map opt_args os)"
| "cmd_args (Rejoin os) = concat (map opt_args os)"
| "cmd_args (Help s) = [opt_name s ''-h'' ''--help'']"
| "cmd_args (Version s) = [opt_name s ''-v'' ''--version'']"

text \<open>What an argument can be: not empty, without the character 0, and shorter than the buffer.\<close>

definition value_ok :: "byte list \<Rightarrow> bool" where
  "value_ok v \<longleftrightarrow> v \<noteq> [] \<and> 0 \<notin> set v \<and> length v \<le> 1023"

fun opt_value :: "cmd_opt \<Rightarrow> byte list option" where
  "opt_value (Db_size v) = Some v"
| "opt_value (Host v) = Some v"
| "opt_value (Http_port v) = Some v"
| "opt_value (Path v) = Some v"
| "opt_value (Pid_file v) = Some v"
| "opt_value (Raft_port v) = Some v"
| "opt_value _ = None"

definition opt_ok :: "written_opt \<Rightarrow> bool" where
  "opt_ok wo \<longleftrightarrow> (case opt_value (snd wo) of None \<Rightarrow> True | Some v \<Rightarrow> value_ok v)"

text \<open>\<^verbatim>\<open>drop\<close> and \<^verbatim>\<open>leave\<close> accept \<^verbatim>\<open>--debug\<close> and \<^verbatim>\<open>--path\<close> only; without a command the ports cannot be given.\<close>

fun path_opt :: "cmd_opt \<Rightarrow> bool" where
  "path_opt (Path v) = True"
| "path_opt Debug = True"
| "path_opt _ = False"

fun local_opt :: "cmd_opt \<Rightarrow> bool" where
  "local_opt (Http_port v) = False"
| "local_opt (Raft_port v) = False"
| "local_opt _ = True"

fun cmd_ok :: "cmd_line \<Rightarrow> bool" where
  "cmd_ok (Start s i os) \<longleftrightarrow> value_ok i \<and> list_all opt_ok os"
| "cmd_ok (Join s p i os) \<longleftrightarrow> value_ok p \<and> value_ok i \<and> list_all opt_ok os"
| "cmd_ok (Drop os) \<longleftrightarrow> list_all (\<lambda>wo. opt_ok wo \<and> path_opt (snd wo)) os"
| "cmd_ok (Leave os) \<longleftrightarrow> list_all (\<lambda>wo. opt_ok wo \<and> path_opt (snd wo)) os"
| "cmd_ok (Rejoin os) \<longleftrightarrow> list_all (\<lambda>wo. opt_ok wo \<and> local_opt (snd wo)) os"
| "cmd_ok (Help s) \<longleftrightarrow> True"
| "cmd_ok (Version s) \<longleftrightarrow> True"

text \<open>The meaning; the automaton of \<^verbatim>\<open>usage.c\<close> reads the http port and drops it.\<close>

fun opt_mean :: "bool \<Rightarrow> cmd_opt \<Rightarrow> options \<Rightarrow> options" where
  "opt_mean http Daemonize opt = opt\<lparr>o_daemonize := 1\<rparr>"
| "opt_mean http Debug opt = opt\<lparr>o_debug := 1\<rparr>"
| "opt_mean http (Db_size v) opt = opt\<lparr>o_db_size := Some v\<rparr>"
| "opt_mean http (Host v) opt = opt\<lparr>o_host := Some v\<rparr>"
| "opt_mean http (Http_port v) opt = (if http then opt\<lparr>o_http_port := Some v\<rparr> else opt)"
| "opt_mean http (Path v) opt = opt\<lparr>o_path := Some v\<rparr>"
| "opt_mean http (Pid_file v) opt = opt\<lparr>o_pid_file := Some v\<rparr>"
| "opt_mean http (Raft_port v) opt = opt\<lparr>o_raft_port := Some v\<rparr>"

definition opts_mean :: "bool \<Rightarrow> written_opt list \<Rightarrow> options \<Rightarrow> options" where
  "opts_mean http os opt = fold (\<lambda>wo. opt_mean http (snd wo)) os opt"

fun cmd_mean :: "bool \<Rightarrow> cmd_line \<Rightarrow> options" where
  "cmd_mean http (Start s i os) = opts_mean http os ((default_options http)\<lparr>o_start := 1, o_id := Some i\<rparr>)"
| "cmd_mean http (Join s p i os) =
     opts_mean http os ((default_options http)\<lparr>o_join := 1, o_PEER := Some p, o_id := Some i\<rparr>)"
| "cmd_mean http (Drop os) = opts_mean http os ((default_options http)\<lparr>o_drop := 1\<rparr>)"
| "cmd_mean http (Leave os) = opts_mean http os ((default_options http)\<lparr>o_leave := 1\<rparr>)"
| "cmd_mean http (Rejoin os) = opts_mean http os (default_options http)"
| "cmd_mean http (Help s) = (default_options http)\<lparr>o_help := 1\<rparr>"
| "cmd_mean http (Version s) = (default_options http)\<lparr>o_version := 1\<rparr>"

subsection \<open>Keywords\<close>

text \<open>The control part of a step, and a path without actions.\<close>

definition params_ctl :: "int \<Rightarrow> byte \<Rightarrow> int \<times> int" where
  "params_ctl cs b =
     (case ragel_trans params_machine cs (sint b) of
        Inl _ \<Rightarrow> (0, 0)
      | Inr t \<Rightarrow> (params_trans_targs ! nat t, params_trans_actions ! nat t))"

fun params_path :: "int \<Rightarrow> byte list \<Rightarrow> int" where
  "params_path cs [] = cs"
| "params_path cs (b # bs) =
     (case params_ctl cs b of (t, ac) \<Rightarrow> if ac \<noteq> 0 \<or> t = 0 then 0 else params_path t bs)"

definition keyword :: "int \<Rightarrow> byte list \<Rightarrow> int \<Rightarrow> int \<Rightarrow> bool" where
  "keyword cs w cs' ac \<longleftrightarrow> params_path cs w \<noteq> 0 \<and> params_ctl (params_path cs w) 0 = (cs', ac)"

lemma params_ctl_step:
  assumes "0 < cs" "cs < 168" "params_ctl cs b = (t, ac)"
  shows "ragel_step params_machine act (sint b) (cs, u) =
      (if ac = 0 then Inr (t, u) else bindE (ragel_acts params_machine act ac u) (\<lambda>u. Inr (t, u)))"
    "0 \<le> t" "t < 168"
proof -
  obtain i where i: "ragel_trans params_machine cs (sint b) = Inr i" "0 \<le> i" "i < 380"
    "trans_ok cs (params_trans_targs ! nat i) (params_trans_actions ! nat i)"
    using params_trans_ok[of cs "sint b"] assms by auto
  then have "t = params_trans_targs ! nat i" "ac = params_trans_actions ! nat i"
    using assms(3) by (simp_all add: params_ctl_def)
  with i show "ragel_step params_machine act (sint b) (cs, u) =
      (if ac = 0 then Inr (t, u) else bindE (ragel_acts params_machine act ac u) (\<lambda>u. Inr (t, u)))"
    "0 \<le> t" "t < 168"
    by (simp_all add: ragel_step_def params_machine_def arr_get_nat table_lengths trans_ok_def)
qed

lemma params_path_loop:
  assumes "0 < cs" "cs < 168" "params_path cs w \<noteq> 0"
  shows "ragel_loop params_machine act i w (cs, u) = Inr (True, params_path cs w, u) \<and>
    0 < params_path cs w \<and> params_path cs w < 168"
  using assms
proof (induction w arbitrary: cs i)
  case (Cons b w)
  obtain t ac where c: "params_ctl cs b = (t, ac)" by (cases "params_ctl cs b")
  with Cons.prems(3) have t: "ac = 0" "t \<noteq> 0" by (auto split: if_splits)
  note step = params_ctl_step[OF Cons.prems(1,2) c]
  have "params_path t w \<noteq> 0" using Cons.prems(3) c t by simp
  then have "ragel_loop params_machine act (i + 1) w (t, u) = Inr (True, params_path t w, u) \<and>
      0 < params_path t w \<and> params_path t w < 168"
    using Cons.IH[of t "i + 1"] t step(2,3) by simp
  moreover have "ragel_step params_machine (act i b) (sint b) (cs, u) = Inr (t, u)"
    using step(1) t(1) by simp
  ultimately show ?case using t by (simp add: c del: Inr_eq_bindE bindE_eq_Inr)
qed simp

lemma execute_loop:
  "fst st \<noteq> 0 \<Longrightarrow> params_execute http (arg @ [0]) st =
     bindE (ragel_loop params_machine (\<lambda>p b a fsm. params_act http b a fsm) 0 (arg @ [0]) st) (\<lambda>(_, st). Inr st)"
  by (simp add: params_execute_def ragel_execute_def)

lemma keyword_run:
  assumes "keyword cs w cs' ac" "0 < cs" "cs < 168"
  shows "params_execute http (w @ [0]) (cs, u) =
    (if ac = 0 then Inr (cs', u) else bindE (ragel_acts params_machine (params_act http 0) ac u) (\<lambda>u. Inr (cs', u)))"
proof -
  have end_ctl: "params_ctl (params_path cs w) 0 = (cs', ac)" and nz: "params_path cs w \<noteq> 0"
    using assms(1) by (simp_all add: keyword_def)
  note path = params_path_loop[OF assms(2,3) nz]
  have "ragel_step params_machine (params_act http 0) (sint (0 :: byte)) (params_path cs w, u) =
      (if ac = 0 then Inr (cs', u) else bindE (ragel_acts params_machine (params_act http 0) ac u) (\<lambda>u. Inr (cs', u)))"
    by (rule params_ctl_step(1)[OF _ _ end_ctl]) (simp_all add: path nz)
  then show ?thesis using assms(2)
    by (cases "ragel_acts params_machine (params_act http 0) ac u")
      (simp_all add: execute_loop ragel_loop_append path del: sint_0 bindE_eq_Inr Inr_eq_bindE)
qed

lemma flag_act:
  "ac \<in> set [3, 5, 7, 9, 11, 13, 15, 17] \<Longrightarrow>
     ragel_acts params_machine (params_act http b) ac u = Inr (u\<lparr>pm_opt := set_flag ((ac + 3) div 2) (pm_opt u)\<rparr>)"
  by (subst params_acts(3)) (auto simp: params_act_def)

subsection \<open>Values\<close>

text \<open>States whose only key is 0: every other character takes the default transition.\<close>

definition any_next :: "int \<Rightarrow> int \<Rightarrow> int \<Rightarrow> bool" where
  "any_next cs t ac \<longleftrightarrow> 0 < cs \<and> cs < 168 \<and> params_single_lengths ! nat cs = 1 \<and>
     0 \<le> params_key_offsets ! nat cs \<and> params_key_offsets ! nat cs < 213 \<and>
     params_trans_keys ! nat (params_key_offsets ! nat cs) = 0 \<and> params_range_lengths ! nat cs = 0 \<and>
     params_trans_targs ! nat (params_index_offsets ! nat cs + 1) = t \<and>
     params_trans_actions ! nat (params_index_offsets ! nat cs + 1) = ac"

definition value_slot :: "int \<Rightarrow> int \<Rightarrow> int \<Rightarrow> int \<Rightarrow> bool" where
  "value_slot e v x ac \<longleftrightarrow> any_next e v 43 \<and> any_next v v 1 \<and> params_ctl v 0 = (x, ac) \<and> 0 < x \<and>
     ac \<in> set [19, 22, 25, 28, 31, 34, 37, 40]"

lemma search_empty: "upper < lower \<Longrightarrow> single_search ks c lower upper = Inr None"
  by (simp add: single_search.simps)

lemma any_next_ctl:
  assumes "any_next cs t ac" "b \<noteq> 0"
  shows "params_ctl cs b = (t, ac)"
proof -
  have n: "sint b \<noteq> 0" using assms(2) by (metis sint_0 word_eq_iff_signed)
  let ?ko = "params_key_offsets ! nat cs"
  have "single_search params_trans_keys (sint b) ?ko (?ko + 1 - 1) = Inr None"
    using assms(1) n by (subst single_search.simps)
      (auto simp: any_next_def arr_get_nat table_lengths Let_def search_empty)
  then have "ragel_trans params_machine cs (sint b) = Inr (params_index_offsets ! nat cs + 1)"
    using assms(1) by (simp add: ragel_trans_def params_machine_def any_next_def arr_get_nat table_lengths)
  then show ?thesis using assms(1) by (simp add: params_ctl_def any_next_def)
qed

text \<open>The characters of a value after the first one, then the 0.\<close>

lemma read_rest:
  assumes "any_next v v 1" "0 \<notin> set w" "length (pm_buffer u) = 1025" "0 \<le> pm_buflen u"
    "pm_buflen u + int (length w) < 1024"
  shows "\<exists>u'. ragel_loop params_machine (\<lambda>p b a fsm. params_act http b a fsm) i w (v, u) = Inr (True, v, u') \<and>
    pm_opt u' = pm_opt u \<and> length (pm_buffer u') = 1025 \<and> pm_buflen u' = pm_buflen u + int (length w) \<and>
    take (nat (pm_buflen u')) (pm_buffer u') = take (nat (pm_buflen u)) (pm_buffer u) @ w"
  using assms(2-)
proof (induction w arbitrary: u i)
  case (Cons b w)
  let ?u = "u\<lparr>pm_buffer := (pm_buffer u)[nat (pm_buflen u) := b], pm_buflen := pm_buflen u + 1\<rparr>"
  have v: "0 < v" "v < 168" using assms(1) by (simp_all add: any_next_def)
  have "params_ctl v b = (v, 1)" by (rule any_next_ctl[OF assms(1)]) (use Cons.prems in auto)
  moreover have "params_act http b 0 u = Inr ?u"
    using buf_put_ok[of u b] Cons.prems by (simp add: params_act_def)
  ultimately have step: "ragel_step params_machine (params_act http b) (sint b) (v, u) = Inr (v, ?u)"
    using params_ctl_step(1)[OF v, where b = b and t = v and ac = 1 and act = "params_act http b" and u = u] by (simp add: params_acts)
  have "nat (pm_buflen u + 1) = Suc (nat (pm_buflen u))" using Cons.prems by simp
  then have tk: "take (nat (pm_buflen ?u)) (pm_buffer ?u) = take (nat (pm_buflen u)) (pm_buffer u) @ [b]"
    using Cons.prems by (simp add: take_Suc_update)
  from Cons.IH[of ?u "i + 1"] Cons.prems obtain u' where
    u': "ragel_loop params_machine (\<lambda>p b a fsm. params_act http b a fsm) (i + 1) w (v, ?u) = Inr (True, v, u')"
    "pm_opt u' = pm_opt ?u" "length (pm_buffer u') = 1025" "pm_buflen u' = pm_buflen ?u + int (length w)"
    "take (nat (pm_buflen u')) (pm_buffer u') = take (nat (pm_buflen ?u)) (pm_buffer ?u) @ w" by auto
  have "ragel_loop params_machine (\<lambda>p b a fsm. params_act http b a fsm) i (b # w) (v, u) = Inr (True, v, u')"
    using step u'(1) v by (simp del: bindE_eq_Inr)
  then show ?case using u'(2-5) tk by (intro exI[of _ u']) (simp del: ragel_loop.simps)
qed simp

lemma takeWhile_terminated:
  "n < length xs \<Longrightarrow> 0 \<notin> set (take n xs) \<Longrightarrow> takeWhile (\<lambda>b. b \<noteq> 0) (xs[n := 0]) = take n xs"
  for xs :: "byte list"
proof -
  assume n: "n < length xs" "0 \<notin> set (take n xs)"
  then have "xs[n := 0] = take n xs @ 0 # drop (Suc n) xs" by (simp add: upd_conv_take_nth_drop)
  moreover have "\<forall>b \<in> set (take n xs). b \<noteq> 0" using n(2) by blast
  ultimately show ?thesis by (simp add: takeWhile_tail)
qed

lemma read_value:
  assumes "value_slot e v x ac" "value_ok w" "length (pm_buffer u) = 1025"
  shows "\<exists>u'. params_execute http (w @ [0]) (e, u) = Inr (x, u') \<and> length (pm_buffer u') = 1025 \<and>
    pm_opt u' = set_option http ((ac - 19) div 3 + 11) w (pm_opt u)"
proof -
  obtain b bs where w: "w = b # bs" using assms(2) by (cases w) (auto simp: value_ok_def)
  have nz: "b \<noteq> 0" "0 \<notin> set bs" and len: "int (length bs) < 1023" using assms(2) w by (auto simp: value_ok_def)
  have slot: "any_next e v 43" "any_next v v 1" "params_ctl v 0 = (x, ac)" "0 < x"
    "ac \<in> set [19, 22, 25, 28, 31, 34, 37, 40]" using assms(1) by (simp_all add: value_slot_def)
  have e: "0 < e" "e < 168" "0 < v" "v < 168" using slot(1,2) by (simp_all add: any_next_def)
  let ?u = "u\<lparr>pm_buffer := (pm_buffer u)[0 := b], pm_buflen := 1\<rparr>"
  have "buf_put b (u\<lparr>pm_buflen := 0\<rparr>) = Inr ?u" using buf_put_ok[of "u\<lparr>pm_buflen := 0\<rparr>" b] assms(3) by simp
  then have first: "ragel_step params_machine (params_act http b) (sint b) (e, u) = Inr (v, ?u)"
    using params_ctl_step(1)[OF e(1,2) any_next_ctl[OF slot(1) nz(1)], where act = "params_act http b" and u = u]
    by (simp add: params_acts params_act_def)
  from read_rest[OF slot(2) nz(2), of ?u http 1] len assms(3) obtain u1 where
    u1: "ragel_loop params_machine (\<lambda>p b a fsm. params_act http b a fsm) 1 bs (v, ?u) = Inr (True, v, u1)"
    "pm_opt u1 = pm_opt u" "length (pm_buffer u1) = 1025" "pm_buflen u1 = 1 + int (length bs)"
    "take (nat (pm_buflen u1)) (pm_buffer u1) = take 1 ((pm_buffer u)[0 := b]) @ bs" by auto
  have tw: "take (nat (pm_buflen u1)) (pm_buffer u1) = w"
    using u1(5) assms(3) w by (cases "pm_buffer u") auto
  let ?u2 = "u1\<lparr>pm_buffer := (pm_buffer u1)[nat (pm_buflen u1) := 0], pm_buflen := pm_buflen u1 + 1\<rparr>"
  define a where "a = (ac - 19) div 3 + 11"
  have a: "11 \<le> a" "a \<le> 18" "ac \<noteq> 0" using slot(5) by (auto simp: a_def)
  have "params_act http 0 1 u1 = Inr ?u2"
    using buf_put_ok[of u1 0] u1(3,4) len by (simp add: params_act_def)
  moreover have "takeWhile (\<lambda>b. b \<noteq> 0) (pm_buffer ?u2) = w"
    using takeWhile_terminated[of "nat (pm_buflen u1)" "pm_buffer u1"] tw u1(3,4) len assms(2)
    by (simp add: value_ok_def)
  moreover have "0 \<in> set (pm_buffer ?u2)" using u1(3,4) len by (simp add: set_update_memI)
  ultimately have "\<exists>u'. ragel_acts params_machine (params_act http 0) ac u1 = Inr u' \<and>
      length (pm_buffer u') = 1025 \<and> pm_opt u' = set_option http a w (pm_opt u)"
    using params_acts(4)[OF slot(5), of "params_act http 0" u1] a u1(2,3)
    by (cases "a = 13 \<and> \<not> http") (auto simp: a_def[symmetric] params_act_def buf_dup_def set_option_def)
  then obtain u' where u': "ragel_acts params_machine (params_act http 0) ac u1 = Inr u'"
    "length (pm_buffer u') = 1025" "pm_opt u' = set_option http a w (pm_opt u)" by blast
  have "ragel_step params_machine (params_act http 0) (sint (0 :: byte)) (v, u1) = Inr (x, u')"
    using params_ctl_step(1)[OF e(3,4) slot(3), where act = "params_act http 0" and u = u1] u'(1) a(3)
    by (simp del: sint_0)
  then have "ragel_loop params_machine (\<lambda>p b a fsm. params_act http b a fsm) 0 (w @ [0]) (e, u) = Inr (True, x, u')"
    using first u1(1) e slot(4) by (simp add: w ragel_loop_append del: sint_0 bindE_eq_Inr)
  then have "params_execute http (w @ [0]) (e, u) = Inr (x, u')" using e(1) by (simp add: execute_loop)
  then show ?thesis using u'(2,3) by (auto simp: a_def)
qed

subsection \<open>Options\<close>

text \<open>The values and keywords of the tables.\<close>

lemma value_slots:
  "value_slot 79 80 81 40" "value_slot 86 87 167 28" "value_slot 73 74 166 31"
  "value_slot 105 106 167 19" "value_slot 115 116 167 22" "value_slot 125 126 167 25"
  "value_slot 131 132 167 31" "value_slot 140 141 167 34" "value_slot 151 152 167 37"
  "value_slot 37 38 164 19" "value_slot 18 19 164 22" "value_slot 24 25 164 31" "value_slot 33 34 164 34"
  by code_simp+

lemma command_keywords:
  "keyword 163 (bytes ''start'') 81 9" "keyword 163 (bytes ''join'') 79 5"
  "keyword 163 (bytes ''drop'') 166 3" "keyword 163 (bytes ''leave'') 166 7"
  by code_simp+

definition option_names :: "(int \<times> string \<times> string \<times> int \<times> int) list" where
  "option_names =
     [(81, ''-I'', ''--id'', 86, 0), (167, ''-d'', ''--daemonize'', 167, 11), (167, ''-g'', ''--debug'', 167, 13),
      (167, ''-s'', ''--db_size'', 105, 0), (167, ''-H'', ''--host'', 115, 0), (167, ''-t'', ''--http_port'', 125, 0),
      (167, ''-P'', ''--path'', 131, 0), (167, ''-i'', ''--pid_file'', 140, 0),
      (167, ''-p'', ''--raft_port'', 151, 0), (166, ''-g'', ''--debug'', 166, 13), (166, ''-P'', ''--path'', 73, 0),
      (163, ''-h'', ''--help'', 165, 15), (163, ''-v'', ''--version'', 165, 17)]"

definition local_names :: "int \<Rightarrow> (int \<times> string \<times> string \<times> int \<times> int) list" where
  "local_names cs =
     [(cs, ''-d'', ''--daemonize'', 164, 11), (cs, ''-g'', ''--debug'', 164, 13), (cs, ''-s'', ''--db_size'', 37, 0),
      (cs, ''-H'', ''--host'', 18, 0), (cs, ''-P'', ''--path'', 24, 0), (cs, ''-i'', ''--pid_file'', 33, 0)]"

definition named :: "(int \<times> string \<times> string \<times> int \<times> int) \<Rightarrow> bool" where
  "named x = (case x of (cs, s, l, cs', ac) \<Rightarrow> keyword cs (bytes s) cs' ac \<and> keyword cs (bytes l) cs' ac)"

lemma option_names_ok: "list_all named option_names"
  by code_simp

lemma local_names_ok: "list_all named (local_names 163)" "list_all named (local_names 164)"
  by code_simp+

lemma names_ok: "x \<in> set option_names \<or> x \<in> set (local_names 163) \<or> x \<in> set (local_names 164) \<Longrightarrow> named x"
  using option_names_ok local_names_ok by (auto simp: list_all_iff)

lemma option_keyword: "named (cs, s, l, cs', ac) \<Longrightarrow> keyword cs (opt_name short s l) cs' ac"
  by (auto simp: named_def opt_name_def)

abbreviation feed :: "bool \<Rightarrow> byte list list \<Rightarrow> int \<times> params \<Rightarrow> fault + int \<times> params" where
  "feed http args st \<equiv> foldE (\<lambda>arg st. params_execute http (arg @ [0]) st) args st"

text \<open>A keyword that sets a flag, and a keyword with its value.\<close>

lemma feed_flag:
  assumes "keyword cs w cs' ac" "0 < cs" "cs < 168" "ac \<in> set [3, 5, 7, 9, 11, 13, 15, 17]"
  shows "feed http [w] (cs, u) = Inr (cs', u\<lparr>pm_opt := set_flag ((ac + 3) div 2) (pm_opt u)\<rparr>)"
  using keyword_run[OF assms(1-3), of http u] flag_act[OF assms(4), of http 0 u] assms(4)
  by (auto simp: foldE_few)

lemma feed_value:
  assumes "keyword cs w e 0" "0 < cs" "cs < 168" "value_slot e v x ac" "value_ok val" "length (pm_buffer u) = 1025"
  shows "\<exists>u'. feed http [w, val] (cs, u) = Inr (x, u') \<and> length (pm_buffer u') = 1025 \<and>
    pm_opt u' = set_option http ((ac - 19) div 3 + 11) val (pm_opt u)"
  using keyword_run[OF assms(1-3), of http u] read_value[OF assms(4-6), of http] by auto

lemma feed_named:
  assumes "named (cs, s, l, e, 0)" "0 < cs" "cs < 168" "value_slot e v x ac" "value_ok val"
    "length (pm_buffer u) = 1025" "(ac - 19) div 3 + 11 = a"
  shows "\<exists>u'. feed http [opt_name short s l, val] (cs, u) = Inr (x, u') \<and> length (pm_buffer u') = 1025 \<and>
    pm_opt u' = set_option http a val (pm_opt u)"
  using feed_value[OF option_keyword[OF assms(1)] assms(2-6)] assms(7) by blast

lemma feed_node_opt:
  assumes "opt_ok (s, p)" "length (pm_buffer u) = 1025"
  shows "\<exists>u'. feed http (opt_args (s, p)) (167, u) = Inr (167, u') \<and> length (pm_buffer u') = 1025 \<and>
    pm_opt u' = opt_mean http p (pm_opt u)"
proof (cases p)
  case Daemonize
  then show ?thesis using assms(2) feed_flag[OF option_keyword[OF names_ok], of 167 _ _ 167 11 http s u]
    by (simp add: option_names_def set_flag_def)
next
  case Debug
  then show ?thesis using assms(2) feed_flag[OF option_keyword[OF names_ok], of 167 _ _ 167 13 http s u]
    by (simp add: option_names_def set_flag_def)
next
  case (Db_size v)
  then show ?thesis using assms feed_named[OF names_ok _ _ value_slots(4), of 167 "''-s''" "''--db_size''" v u 11 http s]
    by (simp add: option_names_def opt_ok_def set_option_def)
next
  case (Host v)
  then show ?thesis using assms feed_named[OF names_ok _ _ value_slots(5), of 167 "''-H''" "''--host''" v u 12 http s]
    by (simp add: option_names_def opt_ok_def set_option_def)
next
  case (Http_port v)
  then show ?thesis using assms feed_named[OF names_ok _ _ value_slots(6), of 167 "''-t''" "''--http_port''" v u 13 http s]
    by (simp add: option_names_def opt_ok_def set_option_def)
next
  case (Path v)
  then show ?thesis using assms feed_named[OF names_ok _ _ value_slots(7), of 167 "''-P''" "''--path''" v u 15 http s]
    by (simp add: option_names_def opt_ok_def set_option_def)
next
  case (Pid_file v)
  then show ?thesis using assms feed_named[OF names_ok _ _ value_slots(8), of 167 "''-i''" "''--pid_file''" v u 16 http s]
    by (simp add: option_names_def opt_ok_def set_option_def)
next
  case (Raft_port v)
  then show ?thesis using assms feed_named[OF names_ok _ _ value_slots(9), of 167 "''-p''" "''--raft_port''" v u 17 http s]
    by (simp add: option_names_def opt_ok_def set_option_def)
qed

lemma feed_path_opt:
  assumes "opt_ok (s, p)" "path_opt p" "length (pm_buffer u) = 1025"
  shows "\<exists>u'. feed http (opt_args (s, p)) (166, u) = Inr (166, u') \<and> length (pm_buffer u') = 1025 \<and>
    pm_opt u' = opt_mean http p (pm_opt u)"
proof (cases p)
  case Debug
  then show ?thesis using assms(3) feed_flag[OF option_keyword[OF names_ok], of 166 _ _ 166 13 http s u]
    by (simp add: option_names_def set_flag_def)
next
  case (Path v)
  then show ?thesis using assms feed_named[OF names_ok _ _ value_slots(3), of 166 "''-P''" "''--path''" v u 15 http s]
    by (simp add: option_names_def opt_ok_def set_option_def)
qed (use assms(2) in simp_all)

lemma feed_local_opt:
  assumes "opt_ok (s, p)" "local_opt p" "length (pm_buffer u) = 1025" "cs \<in> {163, 164}"
  shows "\<exists>u'. feed http (opt_args (s, p)) (cs, u) = Inr (164, u') \<and> length (pm_buffer u') = 1025 \<and>
    pm_opt u' = opt_mean http p (pm_opt u)"
proof -
  have cs: "0 < cs" "cs < 168" and loc: "\<And>x. x \<in> set (local_names cs) \<Longrightarrow> named x"
    using assms(4) names_ok by auto
  note flag = feed_flag[OF option_keyword[OF loc] cs] and nmd = feed_named[OF loc cs]
  show ?thesis
  proof (cases p)
    case Daemonize
    then show ?thesis using assms(3) flag[of _ _ 164 11 http s u] by (simp add: local_names_def set_flag_def)
  next
    case Debug
    then show ?thesis using assms(3) flag[of _ _ 164 13 http s u] by (simp add: local_names_def set_flag_def)
  next
    case (Db_size v)
    then show ?thesis using assms(1,3) nmd[OF _ value_slots(10), of "''-s''" "''--db_size''" v u 11 http s]
      by (simp add: local_names_def opt_ok_def set_option_def)
  next
    case (Host v)
    then show ?thesis using assms(1,3) nmd[OF _ value_slots(11), of "''-H''" "''--host''" v u 12 http s]
      by (simp add: local_names_def opt_ok_def set_option_def)
  next
    case (Path v)
    then show ?thesis using assms(1,3) nmd[OF _ value_slots(12), of "''-P''" "''--path''" v u 15 http s]
      by (simp add: local_names_def opt_ok_def set_option_def)
  next
    case (Pid_file v)
    then show ?thesis using assms(1,3) nmd[OF _ value_slots(13), of "''-i''" "''--pid_file''" v u 16 http s]
      by (simp add: local_names_def opt_ok_def set_option_def)
  qed (use assms(2) in simp_all)
qed

text \<open>Options that lead back to the state they are read in can be repeated.\<close>

lemma feed_opts:
  assumes one: "\<And>s p u. P (s, p) \<Longrightarrow> length (pm_buffer u) = 1025 \<Longrightarrow>
      \<exists>u'. feed http (opt_args (s, p)) (cs, u) = Inr (cs, u') \<and> length (pm_buffer u') = 1025 \<and>
        pm_opt u' = opt_mean http p (pm_opt u)"
    and "list_all P os" "length (pm_buffer u) = 1025"
  shows "\<exists>u'. feed http (concat (map opt_args os)) (cs, u) = Inr (cs, u') \<and>
    pm_opt u' = opts_mean http os (pm_opt u)"
  using assms(2,3)
proof (induction os arbitrary: u)
  case (Cons wo os)
  obtain s p where wo: "wo = (s, p)" by (cases wo)
  obtain u1 where u1: "feed http (opt_args wo) (cs, u) = Inr (cs, u1)" "length (pm_buffer u1) = 1025"
    "pm_opt u1 = opt_mean http p (pm_opt u)" using one[of s p u] Cons.prems wo by auto
  obtain u2 where "feed http (concat (map opt_args os)) (cs, u1) = Inr (cs, u2)"
    "pm_opt u2 = opts_mean http os (pm_opt u1)" using Cons.IH[OF _ u1(2)] Cons.prems by auto
  then show ?case using u1 wo by (auto simp: foldE_append opts_mean_def)
qed (simp add: opts_mean_def)

lemma parse_accepts:
  assumes "feed http args (163, \<lparr>pm_opt = default_options http, pm_buffer = buffer, pm_buflen = 0\<rparr>) = Inr (cs, u)"
    "163 \<le> cs"
  shows "parse_options http args buffer = Inr (0, pm_opt u)"
  using assms by (simp add: parse_options_def params_init_def params_start_def params_finish_def
      params_error_def params_first_final_def)

lemma parse_parts:
  assumes "feed http pre (163, \<lparr>pm_opt = default_options http, pm_buffer = buffer, pm_buflen = 0\<rparr>) = Inr (cs, u)"
    "\<exists>u'. feed http (concat (map opt_args os)) (cs, u) = Inr (cs, u') \<and> pm_opt u' = opts_mean http os (pm_opt u)"
    "163 \<le> cs"
  shows "parse_options http (pre @ concat (map opt_args os)) buffer = Inr (0, opts_mean http os (pm_opt u))"
proof -
  from assms(2) obtain u' where u': "feed http (concat (map opt_args os)) (cs, u) = Inr (cs, u')"
    "pm_opt u' = opts_mean http os (pm_opt u)" by blast
  have "feed http (pre @ concat (map opt_args os))
      (163, \<lparr>pm_opt = default_options http, pm_buffer = buffer, pm_buflen = 0\<rparr>) = Inr (cs, u')"
    using assms(1) u'(1) by (simp add: foldE_append)
  from parse_accepts[OF this assms(3)] u'(2) show ?thesis by simp
qed

lemma parse_drop_leave:
  assumes "keyword 163 w 166 ac" "ac \<in> set [3, 7]" "list_all (\<lambda>wo. opt_ok wo \<and> path_opt (snd wo)) os" "length buffer = 1025"
  shows "parse_options http ([w] @ concat (map opt_args os)) buffer =
    Inr (0, opts_mean http os (set_flag ((ac + 3) div 2) (default_options http)))"
proof -
  let ?u = "\<lparr>pm_opt = default_options http, pm_buffer = buffer, pm_buflen = 0\<rparr>"
  let ?v = "?u\<lparr>pm_opt := set_flag ((ac + 3) div 2) (default_options http)\<rparr>"
  have "feed http [w] (163, ?u) = Inr (166, ?v)"
    using feed_flag[OF assms(1), of http ?u] assms(2) by auto
  moreover have "\<exists>u'. feed http (concat (map opt_args os)) (166, ?v) = Inr (166, u') \<and>
      pm_opt u' = opts_mean http os (pm_opt ?v)"
    by (rule feed_opts[where P = "\<lambda>wo. opt_ok wo \<and> path_opt (snd wo)"])
      (use feed_path_opt assms(3,4) in auto)
  ultimately show ?thesis using parse_parts[of http "[w]" buffer 166 ?v os] by simp
qed

lemma parse_rejoin:
  assumes "list_all (\<lambda>wo. opt_ok wo \<and> local_opt (snd wo)) os" "length buffer = 1025"
  shows "parse_options http (concat (map opt_args os)) buffer = Inr (0, opts_mean http os (default_options http))"
proof -
  let ?u = "\<lparr>pm_opt = default_options http, pm_buffer = buffer, pm_buflen = 0\<rparr>"
  show ?thesis
  proof (cases os)
    case Nil
    then show ?thesis using parse_accepts[of http "[]" buffer 163 ?u] by (simp add: opts_mean_def)
  next
    case (Cons wo os')
    obtain s p where wo: "wo = (s, p)" by (cases wo)
    obtain u1 where u1: "feed http (opt_args wo) (163, ?u) = Inr (164, u1)" "length (pm_buffer u1) = 1025"
      "pm_opt u1 = opt_mean http p (default_options http)"
      using feed_local_opt[of s p ?u 163 http] assms Cons wo by auto
    have "\<exists>u'. feed http (concat (map opt_args os')) (164, u1) = Inr (164, u') \<and>
        pm_opt u' = opts_mean http os' (pm_opt u1)"
      by (rule feed_opts[where P = "\<lambda>wo. opt_ok wo \<and> local_opt (snd wo)"])
        (use feed_local_opt u1(2) assms(1) Cons in auto)
    from parse_parts[OF u1(1) this] show ?thesis using u1(3) Cons wo by (simp add: opts_mean_def)
  qed
qed

lemma parse_info:
  assumes "named (163, s, l, 165, ac)" "ac \<in> set [15, 17]"
  shows "parse_options http [opt_name short s l] buffer = Inr (0, set_flag ((ac + 3) div 2) (default_options http))"
proof -
  let ?u = "\<lparr>pm_opt = default_options http, pm_buffer = buffer, pm_buflen = 0\<rparr>"
  have "feed http [opt_name short s l] (163, ?u) =
      Inr (165, ?u\<lparr>pm_opt := set_flag ((ac + 3) div 2) (default_options http)\<rparr>)"
    using feed_flag[OF option_keyword[OF assms(1)], of http short ?u] assms(2) by auto
  from parse_accepts[OF this] show ?thesis by simp
qed

lemma feed_id:
  assumes "value_ok i" "length (pm_buffer u) = 1025" "list_all opt_ok os"
    "feed http pre (163, \<lparr>pm_opt = default_options http, pm_buffer = buffer, pm_buflen = 0\<rparr>) = Inr (81, u)"
  shows "parse_options http ((pre @ [opt_name s ''-I'' ''--id'', i]) @ concat (map opt_args os)) buffer =
    Inr (0, opts_mean http os ((pm_opt u)\<lparr>o_id := Some i\<rparr>))"
proof -
  obtain u1 where u1: "feed http [opt_name s ''-I'' ''--id'', i] (81, u) = Inr (167, u1)" "length (pm_buffer u1) = 1025"
    "pm_opt u1 = (pm_opt u)\<lparr>o_id := Some i\<rparr>"
    using feed_named[OF names_ok _ _ value_slots(2) assms(1,2), of 81 "''-I''" "''--id''" 14 http s]
    by (auto simp: option_names_def set_option_def)
  have "feed http (pre @ [opt_name s ''-I'' ''--id'', i])
      (163, \<lparr>pm_opt = default_options http, pm_buffer = buffer, pm_buflen = 0\<rparr>) = Inr (167, u1)"
    using assms(4) u1(1) by (simp add: foldE_append)
  moreover have "\<exists>u'. feed http (concat (map opt_args os)) (167, u1) = Inr (167, u') \<and>
      pm_opt u' = opts_mean http os (pm_opt u1)"
    by (rule feed_opts[where P = opt_ok]) (use feed_node_opt u1(2) assms(3) in auto)
  ultimately show ?thesis using parse_parts[of http "pre @ [opt_name s ''-I'' ''--id'', i]" buffer 167 u1 os] u1(3)
    by simp
qed

lemma parse_start:
  assumes "value_ok i" "list_all opt_ok os" "length buffer = 1025"
  shows "parse_options http (cmd_args (Start s i os)) buffer = Inr (0, cmd_mean http (Start s i os))"
proof -
  let ?u = "\<lparr>pm_opt = default_options http, pm_buffer = buffer, pm_buflen = 0\<rparr>"
  have "feed http [bytes ''start''] (163, ?u) = Inr (81, ?u\<lparr>pm_opt := (default_options http)\<lparr>o_start := 1\<rparr>\<rparr>)"
    using feed_flag[OF command_keywords(1), of http ?u] by (simp add: set_flag_def)
  from feed_id[OF assms(1) _ assms(2) this, of s] assms(3) show ?thesis by simp
qed

lemma parse_join:
  assumes "value_ok p" "value_ok i" "list_all opt_ok os" "length buffer = 1025"
  shows "parse_options http (cmd_args (Join s p i os)) buffer = Inr (0, cmd_mean http (Join s p i os))"
proof -
  let ?u = "\<lparr>pm_opt = default_options http, pm_buffer = buffer, pm_buflen = 0\<rparr>"
  have "feed http [bytes ''join''] (163, ?u) = Inr (79, ?u\<lparr>pm_opt := (default_options http)\<lparr>o_join := 1\<rparr>\<rparr>)"
    using feed_flag[OF command_keywords(2), of http ?u] by (simp add: set_flag_def)
  moreover obtain u1 where u1: "params_execute http (p @ [0]) (79, ?u\<lparr>pm_opt := (default_options http)\<lparr>o_join := 1\<rparr>\<rparr>) =
      Inr (81, u1)" "length (pm_buffer u1) = 1025" "pm_opt u1 = (default_options http)\<lparr>o_join := 1, o_PEER := Some p\<rparr>"
    using read_value[OF value_slots(1) assms(1), of "?u\<lparr>pm_opt := (default_options http)\<lparr>o_join := 1\<rparr>\<rparr>" http] assms(4)
    by (auto simp: set_option_def)
  ultimately have "feed http [bytes ''join'', p] (163, ?u) = Inr (81, u1)" by simp
  from feed_id[OF assms(2) u1(2) assms(3) this, of s] u1(3) show ?thesis by simp
qed

lemma parse_cmd_line:
  assumes "cmd_ok cmd" "length buffer = 1025"
  shows "parse_options http (cmd_args cmd) buffer = Inr (0, cmd_mean http cmd)"
proof (cases cmd)
  case (Drop os)
  then show ?thesis using assms parse_drop_leave[OF command_keywords(3), of os buffer http]
    by (simp add: set_flag_def)
next
  case (Leave os)
  then show ?thesis using assms parse_drop_leave[OF command_keywords(4), of os buffer http]
    by (simp add: set_flag_def)
next
  case (Help s)
  then show ?thesis using parse_info[OF names_ok, of "''-h''" "''--help''" 15 http s buffer]
    by (simp add: option_names_def set_flag_def)
next
  case (Version s)
  then show ?thesis using parse_info[OF names_ok, of "''-v''" "''--version''" 17 http s buffer]
    by (simp add: option_names_def set_flag_def)
qed (use assms parse_start parse_join parse_rejoin in simp_all)

end
