(* ===== verification/Usage_Language.thy ===== *)
theory Usage_Language
  imports Usage_Grammar
begin

section \<open>The command line accepts nothing else\<close>

text \<open>
  The converse of the round trip: arguments that \<^verbatim>\<open>parse_options\<close> accepts are one of the command lines
  of the help text. From each state between two arguments the automaton is a trie; \<open>trie_in\<close>
  follows its branches and checks that the words it accepts are in a given list.
\<close>

subsection \<open>Control\<close>

fun ctl_run :: "int \<Rightarrow> byte list \<Rightarrow> int" where
  "ctl_run cs [] = cs"
| "ctl_run cs (b # bs) = (let t = fst (params_ctl cs b) in if t = 0 then 0 else ctl_run t bs)"

definition arg_next :: "int \<Rightarrow> byte list \<Rightarrow> int" where
  "arg_next cs w = (if cs = 0 then 0 else ctl_run cs (w @ [0]))"

lemma ctl_loop:
  assumes "0 < cs" "cs < 168" "ragel_loop params_machine act i bs (cs, u) = Inr (eof, cs', u')"
  shows "cs' = ctl_run cs bs" "0 \<le> cs'" "cs' < 168"
proof -
  have "cs' = ctl_run cs bs \<and> 0 \<le> cs' \<and> cs' < 168"
    using assms
  proof (induction bs arbitrary: cs i u)
    case (Cons b bs)
    obtain t ac where c: "params_ctl cs b = (t, ac)" by (cases "params_ctl cs b")
    note step = params_ctl_step(1)[OF Cons.prems(1,2) c, where act = "act i b" and u = u]
      params_ctl_step(2,3)[OF Cons.prems(1,2) c]
    from Cons.prems(3) obtain st where st: "ragel_step params_machine (act i b) (sint b) (cs, u) = Inr st"
      "(if fst st = 0 then Inr (False, st) else ragel_loop params_machine act (i + 1) bs st) = Inr (eof, cs', u')"
      by auto
    obtain u1 where u1: "st = (t, u1)" using step(1) st(1) by (auto split: if_splits)
    show ?case
    proof (cases "t = 0")
      case True
      then show ?thesis using st(2) u1 c by simp
    next
      case False
      then show ?thesis using Cons.IH[of t "i + 1" u1] step(2,3) st(2) u1 c by simp
    qed
  qed simp
  then show "cs' = ctl_run cs bs" "0 \<le> cs'" "cs' < 168" by auto
qed

lemma execute_next:
  assumes "0 \<le> cs" "cs < 168" "params_execute http (w @ [0]) (cs, u) = Inr (cs', u')"
  shows "cs' = arg_next cs w \<and> 0 \<le> cs' \<and> cs' < 168"
proof (cases "cs = 0")
  case True
  then show ?thesis using assms(3) by (simp add: params_execute_def ragel_execute_def arg_next_def)
next
  case False
  then obtain eof where "ragel_loop params_machine (\<lambda>p b a fsm. params_act http b a fsm) 0 (w @ [0]) (cs, u) =
      Inr (eof, cs', u')" using assms(3) by (auto simp: execute_loop)
  with ctl_loop[of cs _ 0 "w @ [0]" u eof cs' u'] assms False show ?thesis by (simp add: arg_next_def)
qed

lemma feed_next:
  assumes "0 \<le> cs" "cs < 168" "feed http args (cs, u) = Inr (cs', u')"
  shows "cs' = foldl arg_next cs args"
  using assms
proof (induction args arbitrary: cs u)
  case (Cons w args)
  from Cons.prems(3) obtain cs1 u1 where "params_execute http (w @ [0]) (cs, u) = Inr (cs1, u1)"
    "feed http args (cs1, u1) = Inr (cs', u')" by auto
  with execute_next[OF Cons.prems(1,2)] Cons.IH[of cs1 u1] show ?case by auto
qed simp

lemma accepted_state:
  assumes "parse_options http args buffer = Inr (0, opt)"
  shows "163 \<le> foldl arg_next 163 args"
proof -
  from assms obtain cs u where
    "feed http args (163, \<lparr>pm_opt = default_options http, pm_buffer = buffer, pm_buflen = 0\<rparr>) = Inr (cs, u)"
    "params_finish cs = 1"
    by (auto simp: parse_options_def params_init_def params_start_def split: if_splits)
  then show ?thesis using feed_next[of 163] by (auto simp: params_finish_def params_first_final_def split: if_splits)
qed

lemma arg_next_dead: "foldl arg_next 0 args = 0"
  by (induction args) (simp_all add: arg_next_def)

lemma path_ctl_run: "params_path cs w \<noteq> 0 \<Longrightarrow> ctl_run cs (w @ bs) = ctl_run (params_path cs w) bs"
  by (induction cs w rule: params_path.induct) (auto simp: Let_def split: prod.splits if_splits)

lemma keyword_next: "keyword cs w cs' ac \<Longrightarrow> 0 < cs \<Longrightarrow> arg_next cs w = cs'"
  by (simp add: keyword_def arg_next_def path_ctl_run)

subsection \<open>Tries\<close>

lemma single_search_hit: "single_search ks c lower upper = Inr (Some mid) \<Longrightarrow> ks ! nat mid = c"
proof (induction ks c lower upper rule: single_search.induct)
  case (1 ks c lower upper)
  let ?mid = "lower + (upper - lower) div 2"
  note unf = single_search.simps[of ks c lower upper]
  have le: "\<not> upper < lower" using "1.prems" by (auto simp: unf)
  then obtain k where k: "arr_get ks ?mid = Inr k" using "1.prems" by (auto simp: unf Let_def)
  consider "c < k" | "k < c" | "k = c" by linarith
  then show ?case
  proof cases
    case 1
    then have "single_search ks c lower (?mid - 1) = Inr (Some mid)" using "1.prems" le k by (simp add: unf Let_def)
    from "1.IH"(1)[OF le refl 1 this] show ?thesis .
  next
    case 2
    then have "single_search ks c (?mid + 1) upper = Inr (Some mid)" using "1.prems" le k by (simp add: unf Let_def)
    from "1.IH"(2)[OF le refl _ 2 this] 2 show ?thesis by simp
  next
    case 3
    then show ?thesis using "1.prems" le k by (auto simp: unf Let_def)
  qed
qed

text \<open>A step takes the transition of a key that is the character, or the default.\<close>

lemma params_ctl_key:
  assumes "0 \<le> cs" "cs < 168"
  shows "\<exists>j. params_ctl cs b = (params_trans_targs ! nat (params_index_offsets ! nat cs + j),
        params_trans_actions ! nat (params_index_offsets ! nat cs + j)) \<and>
      (0 \<le> j \<and> j < params_single_lengths ! nat cs \<and> params_trans_keys ! nat (params_key_offsets ! nat cs + j) = sint b \<or>
       j = params_single_lengths ! nat cs)"
proof -
  let ?ko = "params_key_offsets ! nat cs" and ?n = "params_single_lengths ! nat cs"
    and ?io = "params_index_offsets ! nat cs"
  have ok: "0 \<le> ?ko" "0 \<le> ?n" "?ko + ?n \<le> 213" "params_range_lengths ! nat cs = 0"
    using state_facts(1)[OF assms] by (simp_all add: state_ok_def Let_def)
  have get: "arr_get params_key_offsets cs = Inr ?ko" "arr_get params_single_lengths cs = Inr ?n"
    "arr_get params_index_offsets cs = Inr ?io" "arr_get params_range_lengths cs = Inr 0"
    using assms ok(4) by (simp_all add: arr_get_nat table_lengths)
  have "?ko + ?n - 1 < int (length params_trans_keys)" using ok(3) by (simp add: table_lengths)
  from single_search_total[OF ok(1) this, of "sint b"] obtain hit where
    hit: "single_search params_trans_keys (sint b) ?ko (?ko + ?n - 1) = Inr hit"
    "\<And>mid. hit = Some mid \<Longrightarrow> ?ko \<le> mid \<and> mid \<le> ?ko + ?n - 1" by blast
  show ?thesis
  proof (cases "0 < ?n \<and> hit \<noteq> None")
    case True
    then obtain mid where mid: "hit = Some mid" by blast
    have "ragel_trans params_machine cs (sint b) = Inr (?io + (mid - ?ko))"
      using get hit(1) mid True by (simp add: ragel_trans_def params_machine_def)
    moreover have "params_trans_keys ! nat mid = sint b" using hit(1) mid single_search_hit by simp
    ultimately show ?thesis using hit(2)[OF mid]
      by (intro exI[of _ "mid - ?ko"]) (simp add: params_ctl_def)
  next
    case False
    then have "ragel_trans params_machine cs (sint b) = Inr (?io + ?n)"
      using get hit(1) ok(2) by (auto simp: ragel_trans_def params_machine_def Let_def)
    then show ?thesis by (intro exI[of _ ?n]) (simp add: params_ctl_def)
  qed
qed

definition continuations :: "int \<Rightarrow> byte list list \<Rightarrow> byte list list" where
  "continuations c ws = map tl (filter (\<lambda>w. w \<noteq> [] \<and> sint (hd w) = c) ws)"

fun trie_in :: "nat \<Rightarrow> int \<Rightarrow> byte list list \<Rightarrow> bool" where
  "trie_in 0 cs ws = False"
| "trie_in (Suc n) cs ws \<longleftrightarrow>
     (let ko = params_key_offsets ! nat cs; len = params_single_lengths ! nat cs;
          io = params_index_offsets ! nat cs in
      params_trans_targs ! nat (io + len) = 0 \<and>
      list_all (\<lambda>j.
        (let t = params_trans_targs ! nat (io + j); c = params_trans_keys ! nat (ko + j) in
         t = 0 \<or> (if c = 0 then [] \<in> set ws else trie_in n t (continuations c ws)))) [0..len - 1])"

lemma trie_in_sound:
  assumes "trie_in n cs ws" "0 < cs" "cs < 168" "0 \<notin> set w" "ctl_run cs (w @ [0]) \<noteq> 0"
  shows "w \<in> set ws"
  using assms
proof (induction n arbitrary: cs ws w)
  case (Suc n)
  let ?io = "params_index_offsets ! nat cs" and ?ko = "params_key_offsets ! nat cs"
    and ?len = "params_single_lengths ! nat cs"
  obtain b r where br: "w @ [0] = b # r" by (cases "w @ [0]") auto
  obtain j where j: "params_ctl cs b = (params_trans_targs ! nat (?io + j), params_trans_actions ! nat (?io + j))"
    "0 \<le> j \<and> j < ?len \<and> params_trans_keys ! nat (?ko + j) = sint b \<or> j = ?len"
    using params_ctl_key[of cs b] Suc.prems(2,3) by auto
  let ?t = "params_trans_targs ! nat (?io + j)"
  have t: "?t \<noteq> 0" "ctl_run ?t r \<noteq> 0" using Suc.prems(5) j(1) br by (auto simp: Let_def split: if_splits)
  then have jl: "0 \<le> j" "j < ?len" "params_trans_keys ! nat (?ko + j) = sint b"
    using j(2) Suc.prems(1) by (auto simp: Let_def)
  have key: "if sint b = 0 then [] \<in> set ws else trie_in n ?t (continuations (sint b) ws)"
    using Suc.prems(1) jl t(1) by (auto simp: Let_def list_all_iff)
  show ?case
  proof (cases w)
    case Nil
    then show ?thesis using br key by simp
  next
    case (Cons b' w')
    then have b: "b' = b" "r = w' @ [0]" "b \<noteq> 0" using br Suc.prems(4) by auto
    have tr: "0 \<le> ?t" "?t < 168" using params_ctl_step(2,3)[OF Suc.prems(2,3) j(1)] by auto
    have "sint b \<noteq> 0" using b(3) by (metis sint_0 word_eq_iff_signed)
    then have "w' \<in> set (continuations (sint b) ws)"
      using Suc.IH[of ?t "continuations (sint b) ws" w'] key tr t b Suc.prems(4) Cons by auto
    then obtain v where "v \<in> set ws" "v \<noteq> []" "sint (hd v) = sint b" "w' = tl v"
      by (auto simp: continuations_def)
    then have "v = b # w'" by (metis list.collapse word_eq_iff_signed)
    then show ?thesis using \<open>v \<in> set ws\<close> Cons b(1) by simp
  qed
qed simp

subsection \<open>Options\<close>

definition names_of :: "int \<Rightarrow> (int \<times> string \<times> string \<times> int \<times> int) list \<Rightarrow> byte list list" where
  "names_of cs tbl = concat (map (\<lambda>(c, s, l, e, ac). if c = cs then [bytes s, bytes l] else []) tbl)"

definition commands :: "byte list list" where
  "commands = [bytes ''start'', bytes ''join'', bytes ''drop'', bytes ''leave'']"

lemma tries:
  "trie_in 16 81 (names_of 81 option_names)" "trie_in 16 166 (names_of 166 option_names)"
  "trie_in 16 167 (names_of 167 option_names)" "trie_in 16 164 (names_of 164 (local_names 164))"
  "trie_in 16 163 (commands @ names_of 163 (local_names 163 @ option_names))" "trie_in 16 165 []"
  by code_simp+

lemma names_of_named:
  assumes "w \<in> set (names_of cs tbl)" "list_all named tbl" "0 < cs"
  obtains short s l e ac where "(cs, s, l, e, ac) \<in> set tbl" "w = opt_name short s l" "arg_next cs w = e"
proof -
  from assms(1) obtain s l e ac where t: "(cs, s, l, e, ac) \<in> set tbl" "w = bytes s \<or> w = bytes l"
    by (auto simp: names_of_def split: if_splits)
  then have "named (cs, s, l, e, ac)" using assms(2) by (auto simp: list_all_iff)
  then have "arg_next cs w = e" using t(2) assms(3) by (auto simp: named_def intro: keyword_next)
  moreover have "w = opt_name (w = bytes s) s l" using t(2) by (auto simp: opt_name_def)
  ultimately show thesis using that t(1) by blast
qed

text \<open>The states that read a value refuse an empty one.\<close>

definition value_entry :: "int \<Rightarrow> int \<Rightarrow> bool" where
  "value_entry e x \<longleftrightarrow> 0 < e \<and> e < 163 \<and> fst (params_ctl e 0) = 0 \<and>
     (\<exists>v ac. value_slot e v x ac)"

lemma value_entry_empty: "list_all (\<lambda>e. fst (params_ctl e 0) = 0) [79, 86, 73, 105, 115, 125, 131, 140, 151, 37, 18, 24, 33]"
  by code_simp

lemma value_entries:
  "value_entry 79 81" "value_entry 86 167" "value_entry 73 166"
  "value_entry 105 167" "value_entry 115 167" "value_entry 125 167"
  "value_entry 131 167" "value_entry 140 167" "value_entry 151 167"
  "value_entry 37 164" "value_entry 18 164" "value_entry 24 164" "value_entry 33 164"
  using value_slots value_entry_empty by (auto simp: value_entry_def)

lemma any_run: "any_next v v 1 \<Longrightarrow> 0 \<notin> set w \<Longrightarrow> ctl_run v (w @ bs) = ctl_run v bs"
  by (induction w) (auto simp: any_next_ctl any_next_def Let_def)

lemma value_next:
  assumes "value_entry e x" "0 \<notin> set w"
  shows "arg_next e w = (if w = [] then 0 else x)"
proof -
  obtain v ac where "value_slot e v x ac" using assms(1) by (auto simp: value_entry_def)
  then have v: "any_next e v 43" "any_next v v 1" "params_ctl v 0 = (x, ac)" "0 < v" "0 < e"
    by (auto simp: value_slot_def any_next_def)
  show ?thesis
  proof (cases w)
    case Nil
    then show ?thesis using assms(1) by (simp add: arg_next_def value_entry_def)
  next
    case (Cons b w')
    then have "params_ctl e b = (v, 43)" using any_next_ctl[OF v(1)] assms(2) by auto
    then show ?thesis using Cons v assms(2) any_run[OF v(2), of w' "[0]"] by (simp add: arg_next_def)
  qed
qed

text \<open>\<open>opt_word cs x P w\<close>: in state \<open>cs\<close> the word names an option of kind \<open>P\<close>, and behind it the state is \<open>x\<close>.\<close>

definition opt_word :: "int \<Rightarrow> int \<Rightarrow> (cmd_opt \<Rightarrow> bool) \<Rightarrow> byte list \<Rightarrow> bool" where
  "opt_word cs x P w \<longleftrightarrow>
     (\<exists>s p. P p \<and> opt_value p = None \<and> opt_args (s, p) = [w] \<and> arg_next cs w = x) \<or>
     (\<exists>s f. (\<forall>v. P (f v) \<and> opt_value (f v) = Some v \<and> opt_args (s, f v) = [w, v]) \<and> value_entry (arg_next cs w) x)"

lemma opt_word_flag:
  "arg_next cs w = x \<Longrightarrow> P p \<Longrightarrow> opt_value p = None \<Longrightarrow> opt_args (s, p) = [w] \<Longrightarrow> opt_word cs x P w"
  by (auto simp: opt_word_def)

lemma opt_word_value:
  "arg_next cs w = e \<Longrightarrow> value_entry e x \<Longrightarrow> (\<And>v. P (f v)) \<Longrightarrow> (\<And>v. opt_value (f v) = Some v) \<Longrightarrow>
     (\<And>v. opt_args (s, f v) = [w, v]) \<Longrightarrow> opt_word cs x P w"
  unfolding opt_word_def by (intro disjI2 exI[of _ s] exI[of _ f]) simp

lemma opt_word_args:
  assumes "opt_word cs x P w" "list_all (\<lambda>a. 0 \<notin> set a \<and> length a \<le> 1023) args"
    "163 \<le> foldl arg_next cs (w # args)"
  shows "\<exists>s p args'. w # args = opt_args (s, p) @ args' \<and> opt_ok (s, p) \<and> P p \<and> 163 \<le> foldl arg_next x args' \<and>
    length args' \<le> length args \<and> list_all (\<lambda>a. 0 \<notin> set a \<and> length a \<le> 1023) args'"
  using assms(1) unfolding opt_word_def
proof (elim disjE exE conjE)
  fix s p assume "P p" "opt_value p = None" "opt_args (s, p) = [w]" "arg_next cs w = x"
  then show ?thesis using assms(2,3) by (intro exI[of _ s] exI[of _ p] exI[of _ args]) (simp add: opt_ok_def)
next
  fix s f assume f: "\<forall>v. P (f v) \<and> opt_value (f v) = Some v \<and> opt_args (s, f v) = [w, v]"
    and e: "value_entry (arg_next cs w) x"
  show ?thesis
  proof (cases args)
    case Nil
    then show ?thesis using assms(3) e by (simp add: value_entry_def)
  next
    case (Cons v args')
    have "v \<noteq> []"
    proof
      assume "v = []"
      then have "arg_next (arg_next cs w) v = 0" using value_next[OF e] by simp
      then show False using assms(3) Cons arg_next_dead[of args'] by simp
    qed
    then have "value_ok v" "arg_next (arg_next cs w) v = x"
      using assms(2) Cons value_next[OF e] by (auto simp: value_ok_def)
    then show ?thesis using f assms(2,3) Cons
      by (intro exI[of _ s] exI[of _ "f v"] exI[of _ args']) (simp add: opt_ok_def)
  qed
qed

lemma opts_language:
  assumes word: "\<And>w. 0 \<notin> set w \<Longrightarrow> arg_next cs w \<noteq> 0 \<Longrightarrow> opt_word cs cs P w"
    and "list_all (\<lambda>a. 0 \<notin> set a \<and> length a \<le> 1023) args" "163 \<le> foldl arg_next cs args"
  shows "\<exists>os. args = concat (map opt_args os) \<and> list_all (\<lambda>wo. opt_ok wo \<and> P (snd wo)) os"
  using assms(2,3)
proof (induction "length args" arbitrary: args rule: less_induct)
  case less
  show ?case
  proof (cases args)
    case Nil
    then show ?thesis by (intro exI[of _ "[]"]) simp
  next
    case (Cons w args1)
    have "arg_next cs w \<noteq> 0" using less.prems(2) Cons arg_next_dead[of args1] by auto
    then have "opt_word cs cs P w" using word less.prems(1) Cons by simp
    from opt_word_args[OF this, of args1] less.prems Cons obtain s p args' where
      a: "args = opt_args (s, p) @ args'" "opt_ok (s, p)" "P p" "163 \<le> foldl arg_next cs args'"
      "length args' \<le> length args1" "list_all (\<lambda>a. 0 \<notin> set a \<and> length a \<le> 1023) args'" by auto
    from less.hyps[OF _ a(6,4)] a(5) Cons obtain os where
      "args' = concat (map opt_args os)" "list_all (\<lambda>wo. opt_ok wo \<and> P (snd wo)) os" by auto
    then show ?thesis using a(1-3) by (intro exI[of _ "(s, p) # os"]) simp
  qed
qed

text \<open>The words of the three states that read options.\<close>

lemma trie_word:
  assumes "trie_in n cs ws" "0 < cs" "cs < 168" "0 \<notin> set w" "arg_next cs w \<noteq> 0"
  shows "w \<in> set ws"
  using trie_in_sound[OF assms(1-4)] assms(2,5) by (simp add: arg_next_def)

definition opt_of :: "string \<Rightarrow> byte list \<Rightarrow> cmd_opt" where
  "opt_of l v =
     (if l = ''--daemonize'' then Daemonize else if l = ''--debug'' then Debug else if l = ''--db_size'' then Db_size v
      else if l = ''--host'' then Host v else if l = ''--http_port'' then Http_port v else if l = ''--path'' then Path v
      else if l = ''--pid_file'' then Pid_file v else Raft_port v)"

definition row_ok :: "int \<Rightarrow> (cmd_opt \<Rightarrow> bool) \<Rightarrow> int \<times> string \<times> string \<times> int \<times> int \<Rightarrow> bool" where
  "row_ok x P row \<longleftrightarrow> (case row of (cs, s, l, e, ac) \<Rightarrow>
     \<forall>short v. P (opt_of l v) \<and>
       (if ac = 0
        then value_entry e x \<and> opt_value (opt_of l v) = Some v \<and> opt_args (short, opt_of l v) = [opt_name short s l, v]
        else e = x \<and> opt_value (opt_of l v) = None \<and> opt_args (short, opt_of l v) = [opt_name short s l]))"

lemma rows:
  "list_all (\<lambda>row. fst row = 167 \<longrightarrow> row_ok 167 (\<lambda>_. True) row) option_names"
  "list_all (\<lambda>row. fst row = 166 \<longrightarrow> row_ok 166 path_opt row) option_names"
  "list_all (row_ok 164 local_opt) (local_names cs)"
  by (simp_all add: option_names_def local_names_def row_ok_def opt_of_def value_entries)

lemma row_word:
  assumes "row_ok x P (cs, s, l, e, ac)" "w = opt_name short s l" "arg_next cs w = e"
  shows "opt_word cs x P w"
proof (cases "ac = 0")
  case True
  then show ?thesis using assms
    by (intro opt_word_value[where f = "opt_of l" and s = short, OF assms(3)]) (simp_all add: row_ok_def)
next
  case False
  then show ?thesis using assms
    by (intro opt_word_flag[where p = "opt_of l []" and s = short]) (simp_all add: row_ok_def)
qed

lemma node_word:
  assumes "0 \<notin> set w" "arg_next 167 w \<noteq> 0"
  shows "opt_word 167 167 (\<lambda>_. True) w"
proof -
  obtain short s l e ac where w: "(167, s, l, e, ac) \<in> set option_names" "w = opt_name short s l" "arg_next 167 w = e"
    by (rule names_of_named[OF trie_word[OF tries(3) _ _ assms] option_names_ok]) auto
  then show ?thesis using rows(1) by (intro row_word[OF _ w(2,3)]) (auto simp: list_all_iff)
qed

lemma path_word:
  assumes "0 \<notin> set w" "arg_next 166 w \<noteq> 0"
  shows "opt_word 166 166 path_opt w"
proof -
  obtain short s l e ac where w: "(166, s, l, e, ac) \<in> set option_names" "w = opt_name short s l" "arg_next 166 w = e"
    by (rule names_of_named[OF trie_word[OF tries(2) _ _ assms] option_names_ok]) auto
  then show ?thesis using rows(2) by (intro row_word[OF _ w(2,3)]) (auto simp: list_all_iff)
qed

lemma local_name_word:
  assumes "(cs, s, l, e, ac) \<in> set (local_names cs)" "w = opt_name short s l" "arg_next cs w = e"
  shows "opt_word cs 164 local_opt w"
  using rows(3)[of cs] assms(1) by (intro row_word[OF _ assms(2,3)]) (auto simp: list_all_iff)

lemma local_word:
  assumes "0 \<notin> set w" "arg_next 164 w \<noteq> 0"
  shows "opt_word 164 164 local_opt w"
proof -
  obtain short s l e ac where w: "(164, s, l, e, ac) \<in> set (local_names 164)" "w = opt_name short s l" "arg_next 164 w = e"
    by (rule names_of_named[OF trie_word[OF tries(4) _ _ assms] local_names_ok(2)]) auto
  then show ?thesis using local_name_word by blast
qed

subsection \<open>Commands\<close>

text \<open>The first argument.\<close>

lemma names_of_append: "names_of cs (xs @ ys) = names_of cs xs @ names_of cs ys"
  by (simp add: names_of_def)

lemma first_word:
  assumes "0 \<notin> set w" "arg_next 163 w \<noteq> 0"
  shows "w = bytes ''start'' \<and> arg_next 163 w = 81 \<or> w = bytes ''join'' \<and> arg_next 163 w = 79 \<or>
    w = bytes ''drop'' \<and> arg_next 163 w = 166 \<or> w = bytes ''leave'' \<and> arg_next 163 w = 166 \<or>
    (\<exists>s. (w = opt_name s ''-h'' ''--help'' \<or> w = opt_name s ''-v'' ''--version'') \<and> arg_next 163 w = 165) \<or>
    opt_word 163 164 local_opt w"
proof -
  from trie_word[OF tries(5) _ _ assms]
  consider "w \<in> set commands" | "w \<in> set (names_of 163 (local_names 163))" | "w \<in> set (names_of 163 option_names)"
    by (auto simp: names_of_append)
  then show ?thesis
  proof cases
    case 1
    then show ?thesis using command_keywords[THEN keyword_next] by (auto simp: commands_def)
  next
    case 2
    obtain short s l e ac where w: "(163, s, l, e, ac) \<in> set (local_names 163)" "w = opt_name short s l" "arg_next 163 w = e"
      by (rule names_of_named[OF 2 local_names_ok(1)]) auto
    then show ?thesis using local_name_word by blast
  next
    case 3
    obtain short s l e ac where w: "(163, s, l, e, ac) \<in> set option_names" "w = opt_name short s l" "arg_next 163 w = e"
      by (rule names_of_named[OF 3 option_names_ok]) auto
    then show ?thesis by (auto simp: option_names_def)
  qed
qed

abbreviation args_ok :: "byte list list \<Rightarrow> bool" where
  "args_ok args \<equiv> list_all (\<lambda>a. 0 \<notin> set a \<and> length a \<le> 1023) args"

lemma value_arg:
  assumes "value_entry e x" "args_ok args" "163 \<le> foldl arg_next e args"
  shows "\<exists>v args'. args = v # args' \<and> value_ok v \<and> args_ok args' \<and> 163 \<le> foldl arg_next x args'"
proof (cases args)
  case Nil
  then show ?thesis using assms(1,3) by (simp add: value_entry_def)
next
  case (Cons v args')
  then have "arg_next e v = (if v = [] then 0 else x)" using value_next[OF assms(1)] assms(2) by simp
  then show ?thesis using assms(2,3) Cons arg_next_dead[of args'] by (auto simp: value_ok_def split: if_splits)
qed

lemma id_language:
  assumes "args_ok args" "163 \<le> foldl arg_next 81 args"
  shows "\<exists>s i os. args = [opt_name s ''-I'' ''--id'', i] @ concat (map opt_args os) \<and> value_ok i \<and> list_all opt_ok os"
proof (cases args)
  case Nil
  then show ?thesis using assms(2) by simp
next
  case (Cons w args1)
  then have nz: "0 \<notin> set w" "arg_next 81 w \<noteq> 0" using assms arg_next_dead[of args1] by auto
  obtain s s' l' e ac where "(81, s', l', e, ac) \<in> set option_names" "w = opt_name s s' l'" "arg_next 81 w = e"
    by (rule names_of_named[OF trie_word[OF tries(1) _ _ nz] option_names_ok]) auto
  then have w: "w = opt_name s ''-I'' ''--id''" "arg_next 81 w = 86" by (auto simp: option_names_def)
  then obtain i args2 where i: "args1 = i # args2" "value_ok i" "args_ok args2" "163 \<le> foldl arg_next 167 args2"
    using value_arg[OF value_entries(2), of args1] assms Cons by auto
  from opts_language[OF node_word i(3,4)] obtain os where "args2 = concat (map opt_args os)" "list_all opt_ok os"
    by auto
  then show ?thesis using Cons w(1) i(1,2) by auto
qed

lemma accepted_is_cmd:
  assumes "args_ok args" "163 \<le> foldl arg_next 163 args"
  shows "\<exists>cmd. cmd_ok cmd \<and> args = cmd_args cmd"
proof (cases args)
  case Nil
  then show ?thesis by (intro exI[of _ "Rejoin []"]) simp
next
  case (Cons w args1)
  then have nz: "0 \<notin> set w" "arg_next 163 w \<noteq> 0" and rest: "args_ok args1" "163 \<le> foldl arg_next (arg_next 163 w) args1"
    using assms arg_next_dead[of args1] by auto
  from first_word[OF nz] consider "w = bytes ''start''" "arg_next 163 w = 81" | "w = bytes ''join''" "arg_next 163 w = 79"
    | "w = bytes ''drop''" "arg_next 163 w = 166" | "w = bytes ''leave''" "arg_next 163 w = 166"
    | s where "w = opt_name s ''-h'' ''--help'' \<or> w = opt_name s ''-v'' ''--version''" "arg_next 163 w = 165"
    | "opt_word 163 164 local_opt w" by blast
  then show ?thesis
  proof cases
    case 1
    with id_language[of args1] rest Cons obtain s i os where
      "args1 = [opt_name s ''-I'' ''--id'', i] @ concat (map opt_args os)" "value_ok i" "list_all opt_ok os" by auto
    then show ?thesis using 1 Cons by (intro exI[of _ "Start s i os"]) simp
  next
    case 2
    with value_arg[OF value_entries(1) rest(1)] rest(2) obtain p args2 where p: "args1 = p # args2" "value_ok p"
      "args_ok args2" "163 \<le> foldl arg_next 81 args2" by auto
    from id_language[OF p(3,4)] obtain s i os where
      "args2 = [opt_name s ''-I'' ''--id'', i] @ concat (map opt_args os)" "value_ok i" "list_all opt_ok os" by auto
    then show ?thesis using 2 Cons p by (intro exI[of _ "Join s p i os"]) simp
  next
    case 3
    with opts_language[OF path_word rest(1)] rest(2) obtain os where
      "args1 = concat (map opt_args os)" "list_all (\<lambda>wo. opt_ok wo \<and> path_opt (snd wo)) os" by auto
    then show ?thesis using 3 Cons by (intro exI[of _ "Drop os"]) simp
  next
    case 4
    with opts_language[OF path_word rest(1)] rest(2) obtain os where
      "args1 = concat (map opt_args os)" "list_all (\<lambda>wo. opt_ok wo \<and> path_opt (snd wo)) os" by auto
    then show ?thesis using 4 Cons by (intro exI[of _ "Leave os"]) simp
  next
    case 5
    have "args1 = []"
    proof (rule ccontr)
      assume "args1 \<noteq> []"
      then obtain a as where a: "args1 = a # as" by (cases args1) auto
      then have "arg_next 165 a = 0" using trie_word[OF tries(6), of a] rest(1) by auto
      then show False using rest(2) 5(2) a arg_next_dead[of as] by simp
    qed
    then show ?thesis using 5 Cons
      by (elim disjE) (auto intro: exI[of _ "Help s"] exI[of _ "Version s"])
  next
    case 6
    from opt_word_args[OF 6 rest(1)] rest(2) obtain s p args' where
      a: "args = opt_args (s, p) @ args'" "opt_ok (s, p)" "local_opt p" "163 \<le> foldl arg_next 164 args'" "args_ok args'"
      using Cons by auto
    from opts_language[OF local_word a(5,4)] obtain os where
      "args' = concat (map opt_args os)" "list_all (\<lambda>wo. opt_ok wo \<and> local_opt (snd wo)) os" by auto
    then show ?thesis using a by (intro exI[of _ "Rejoin ((s, p) # os)"]) simp
  qed
qed

end
