(* ===== verification/Options.thy ===== *)
theory Options
  imports C_Strings
begin

section \<open>The command line with getopt (options.c)\<close>

text \<open>
  \<^verbatim>\<open>options_init\<close> of \<^verbatim>\<open>src/src/options.c\<close>. What \<^verbatim>\<open>getopt_long\<close> returns, one pair of option character and
  \<^verbatim>\<open>optarg\<close> per call, is an argument (\<^verbatim>\<open>-l\<close> has a null \<^verbatim>\<open>optarg\<close>, by the option string \<^verbatim>\<open>"s:i:j:l"\<close>).
\<close>

definition OPTION_START :: int where "OPTION_START = 0"
definition OPTION_JOIN :: int where "OPTION_JOIN = 1"
definition OPTION_LEAVE :: int where "OPTION_LEAVE = 2"
definition OPTION_DROP :: int where "OPTION_DROP = 3"

record options_t =
  ot_name :: "byte list option"
  ot_type :: int
  ot_daemonize :: int
  ot_debug :: int
  ot_host :: "byte list option"
  ot_id :: "byte list option"
  ot_database_dir :: "byte list option"
  ot_database_name :: "byte list option"
  ot_pid_file :: "byte list option"
  ot_raft_port :: "byte list option"
  ot_http_port :: "byte list option"
  ot_service_port :: "byte list option"
  ot_peer :: "byte list option"

definition zero_options :: options_t where
  "zero_options =
     \<lparr>ot_name = None, ot_type = 0, ot_daemonize = 0, ot_debug = 0, ot_host = None, ot_id = None, ot_database_dir = None,
      ot_database_name = None, ot_pid_file = None, ot_raft_port = None, ot_http_port = None,
      ot_service_port = None, ot_peer = None\<rparr>"

definition strdup :: "byte list option \<Rightarrow> fault + byte list" where
  "strdup p = (case p of None \<Rightarrow> Inl Null_deref | Some s \<Rightarrow> Inr s)"

text \<open>The branch for \<^verbatim>\<open>start\<close>, \<^verbatim>\<open>leave\<close> and \<^verbatim>\<open>join\<close>; \<open>None\<close> is the early return. \<^verbatim>\<open>tmp_ptr\<close> stands behind the
  colon when \<^verbatim>\<open>tmp_ptr + 1\<close> is copied.\<close>

definition options_addr :: "byte list option \<Rightarrow> options_t \<Rightarrow> fault + options_t option" where
  "options_addr optarg opts =
     bindE (strdup optarg) (\<lambda>arg.
     case dropWhile (\<lambda>b. b \<noteq> 58) arg of
       [] \<Rightarrow> Inr None
     | _ # tmp \<Rightarrow>
         bindE (c_str (tmp @ [0]) 1) (\<lambda>port.
         Inr (Some (opts\<lparr>ot_host := Some (takeWhile (\<lambda>b. b \<noteq> 58) arg), ot_raft_port := Some port,
                         ot_service_port := Some (dec_str 32 (atoi port + 1))\<rparr>))))"

text \<open>The \<^verbatim>\<open>switch\<close>. \<^verbatim>\<open>arg_ptr\<close> is null there: it is set in the first branch only, and reset at its end.\<close>

definition options_switch :: "byte \<Rightarrow> byte list option \<Rightarrow> options_t \<Rightarrow> fault + options_t" where
  "options_switch c arg_ptr opts =
     (if c = 115 then Inr (opts\<lparr>ot_name := Some [115, 116, 97, 114, 116], ot_type := OPTION_START\<rparr>)
      else if c = 108 then Inr (opts\<lparr>ot_name := Some [108, 101, 97, 118, 101], ot_type := OPTION_LEAVE\<rparr>)
      else if c = 106 then Inr (opts\<lparr>ot_name := Some [106, 111, 105, 110], ot_type := OPTION_JOIN\<rparr>)
      else if c = 112 then bindE (strdup arg_ptr) (\<lambda>s. Inr (opts\<lparr>ot_peer := Some s\<rparr>))
      else Inr opts)"

fun options_loop :: "(byte \<times> byte list option) list \<Rightarrow> options_t \<Rightarrow> fault + bool \<times> options_t" where
  "options_loop [] opts = Inr (True, opts)"
| "options_loop ((c, optarg) # evs) opts =
     bindE (if c = 115 \<or> c = 108 \<or> c = 106 then options_addr optarg opts
            else bindE (strdup optarg) (\<lambda>s. Inr (Some (opts\<lparr>ot_id := Some s\<rparr>)))) (\<lambda>r.
     case r of
       None \<Rightarrow> Inr (False, opts)
     | Some opts \<Rightarrow> bindE (options_switch c None opts) (options_loop evs))"

definition options_init :: "(byte \<times> byte list option) list \<Rightarrow> fault + int \<times> options_t" where
  "options_init evs =
     bindE (options_loop evs zero_options) (\<lambda>(ok, opts).
     if \<not> ok then Inr (-1, opts)
     else if ot_host opts = None \<or> (ot_type opts < OPTION_START \<or> OPTION_LEAVE < ot_type opts) then Inr (-1, opts)
     else if ot_type opts < OPTION_JOIN \<and> ot_peer opts = None then Inr (-1, opts)
     else Inr (0, opts))"

subsection \<open>What it accepts\<close>

lemma options_addr_keeps:
  "options_addr optarg opts = Inr (Some opts') \<Longrightarrow> ot_peer opts' = ot_peer opts"
  unfolding options_addr_def strdup_def by (cases optarg) (auto split: list.split_asm)

lemma options_loop_peer:
  "options_loop evs opts = Inr (ok, opts') \<Longrightarrow> ot_peer opts' = ot_peer opts"
proof (induction evs opts rule: options_loop.induct)
  case (2 c optarg evs opts)
  show ?case using "2.prems" "2.IH" options_addr_keeps[of optarg opts]
    by (auto simp: options_switch_def strdup_def split: option.splits if_splits)
qed simp

lemma options_init_accepts:
  assumes "options_init evs = Inr (0, opts)"
  shows "ot_type opts = OPTION_JOIN \<or> ot_type opts = OPTION_LEAVE" "ot_peer opts = None"
proof -
  from assms obtain ok where run: "options_loop evs zero_options = Inr (ok, opts)"
    by (auto simp: options_init_def split: if_splits)
  then show "ot_peer opts = None" using options_loop_peer[OF run] by (simp add: zero_options_def)
  with assms run show "ot_type opts = OPTION_JOIN \<or> ot_type opts = OPTION_LEAVE"
    by (auto simp: options_init_def OPTION_START_def OPTION_JOIN_def OPTION_LEAVE_def split: if_splits)
qed

lemma options_addr_parts:
  assumes "58 \<notin> set h" "0 \<notin> set p"
  shows "options_addr (Some (h @ 58 # d # p)) opts =
    Inr (Some (opts\<lparr>ot_host := Some h, ot_raft_port := Some p, ot_service_port := Some (dec_str 32 (atoi p + 1))\<rparr>))"
proof -
  have "dropWhile (\<lambda>b. b \<noteq> 58) h = []" using assms(1) by (auto simp: dropWhile_eq_Nil_conv)
  then have "dropWhile (\<lambda>b. b \<noteq> 58) (h @ 58 # d # p) = 58 # d # p" "takeWhile (\<lambda>b. b \<noteq> 58) (h @ 58 # d # p) = h"
    using assms(1) by (auto simp: dropWhile_append takeWhile_tail)
  moreover have "c_str (d # p @ [0]) 1 = Inr p" using c_str_at[of 1 "[d]" p "[]"] assms(2) by simp
  ultimately show ?thesis by (simp add: options_addr_def strdup_def)
qed

end
