(* ===== verification/Cli_Properties.thy ===== *)
theory Cli_Properties
  imports Usage_Language Addr_Parser Options
begin

section \<open>The command line: theorems\<close>

text \<open>
  The theorems on \<^verbatim>\<open>utils.c\<close>, \<^verbatim>\<open>usage.c\<close>, \<^verbatim>\<open>parse_addr.c\<close> and \<^verbatim>\<open>options.c\<close>. The witnesses use the example of
  \<^verbatim>\<open>options.h\<close>: \<^verbatim>\<open>ticketd join 127.0.0.1:9001 --id 2 --raft_port 9002 --http_port 8002\<close>.
\<close>

definition demo_cmd :: cmd_line where
  "demo_cmd = Join False (bytes ''127.0.0.1:9001'') (bytes ''2'')
     [(False, Raft_port (bytes ''9002'')), (False, Http_port (bytes ''8002''))]"

lemma demo_cmd_ok: "cmd_ok demo_cmd"
  by (simp add: demo_cmd_def value_ok_def opt_ok_def bytes_def)

lemma demo_args_ok: "args_ok (cmd_args demo_cmd)"
  by (simp add: demo_cmd_def opt_name_def bytes_def)

definition demo_res :: addr_parse_result where
  "demo_res = \<lparr>ar_is_ip_address = 0, ar_ip = -1, ar_ip_len = -1, ar_host = -1, ar_host_len = -1, ar_port = -1, ar_port_len = -1\<rparr>"

text \<open>C29. Every command line of the help text, written as arguments, is read back as what it means:
  the command, the peer, the id and the options with their values over the defaults, later options
  over earlier ones. In \<^verbatim>\<open>usage.c\<close> (\<open>http\<close> false) the http port is read and dropped. Values are not
  empty and have at most 1023 characters.\<close>

theorem command_line_roundtrip:
  assumes "cmd_ok cmd" "length buffer = 1025"
  shows "parse_options http (cmd_args cmd) buffer = Inr (0, cmd_mean http cmd)"
  using assms by (rule parse_cmd_line)

lemma command_line_roundtrip_witness:
  "parse_options True (cmd_args demo_cmd) (replicate 1025 170) =
     Inr (0, (default_options True)\<lparr>o_join := 1, o_PEER := Some (bytes ''127.0.0.1:9001''), o_id := Some (bytes ''2''),
       o_raft_port := Some (bytes ''9002''), o_http_port := Some (bytes ''8002'')\<rparr>)"
  using command_line_roundtrip[OF demo_cmd_ok, of "replicate 1025 170" True]
  by (simp add: demo_cmd_def opts_mean_def)

text \<open>C28. On any arguments of at most 1023 characters \<^verbatim>\<open>parse_options\<close> returns without leaving its tables or its
  buffer, whatever the buffer held before, and it accepts exactly the command lines of the help
  text.\<close>

theorem command_line_language:
  assumes "args_ok args" "length buffer = 1025"
  shows "\<exists>e opt. parse_options http args buffer = Inr (e, opt) \<and> (e = 0 \<or> e = -1) \<and>
    (e = 0 \<longleftrightarrow> (\<exists>cmd. cmd_ok cmd \<and> args = cmd_args cmd))"
proof -
  have "list_all (\<lambda>arg. length arg \<le> 1023) args" using assms(1) by (auto simp: list_all_iff)
  then obtain e opt where r: "parse_options http args buffer = Inr (e, opt)" "e = 0 \<or> e = -1"
    using parse_options_total assms(2) by blast
  moreover have "e = 0 \<longleftrightarrow> (\<exists>cmd. cmd_ok cmd \<and> args = cmd_args cmd)"
    using accepted_is_cmd[OF assms(1) accepted_state[of http args buffer opt]] r(1) parse_cmd_line[OF _ assms(2)]
    by auto
  ultimately show ?thesis by blast
qed

lemma command_line_language_witness:
  "\<exists>e opt. parse_options True (cmd_args demo_cmd) (replicate 1025 0) = Inr (e, opt) \<and> (e = 0 \<or> e = -1) \<and>
    (e = 0 \<longleftrightarrow> (\<exists>cmd. cmd_ok cmd \<and> cmd_args demo_cmd = cmd_args cmd))"
  by (rule command_line_language[OF demo_args_ok]) simp

text \<open>\<^verbatim>\<open>parse_addr\<close> returns for every text, and accepts exactly a non-empty host of letters, digits and
  \<^verbatim>\<open>- . = _ ~\<close>, alone or with a colon and a non-empty decimal port behind it; then it finds the host
  at the start and the port behind the colon, with their lengths.\<close>

theorem parse_addr_language:
  "\<exists>e r'. parse_addr bs r = Inr (e, r') \<and> (e = 0 \<or> e = -1) \<and> (e = 0 \<longleftrightarrow> addr_wf bs) \<and> (e = 0 \<longrightarrow> addr_found bs r')"
  using parse_addr_spec[of bs r] by blast

lemma parse_addr_language_witness:
  "\<exists>r'. parse_addr (bytes ''127.0.0.1:9001'') demo_res = Inr (0, r') \<and> addr_found (bytes ''127.0.0.1:9001'') r'"
proof -
  have "addr_wf (bytes ''127.0.0.1:9001'')" by code_simp
  then show ?thesis using parse_addr_language[of "bytes ''127.0.0.1:9001''" demo_res] by auto
qed



text \<open>\<^verbatim>\<open>options_init\<close> never accepts \<^verbatim>\<open>start\<close>: it asks for a peer for exactly this command, and no run can set
  one, because \<^verbatim>\<open>--peer\<close> copies a null pointer. Only \<^verbatim>\<open>join\<close> and \<^verbatim>\<open>leave\<close> are accepted, and the peer stays unset.\<close>

theorem options_never_start:
  assumes "options_init evs = Inr (0, opts)"
  shows "(ot_type opts = OPTION_JOIN \<or> ot_type opts = OPTION_LEAVE) \<and> ot_peer opts = None"
  using options_init_accepts[OF assms] by blast

lemma options_never_start_witness:
  "\<exists>opts. options_init [(106, Some (bytes ''h:9001''))] = Inr (0, opts) \<and>
     (ot_type opts = OPTION_JOIN \<or> ot_type opts = OPTION_LEAVE) \<and> ot_peer opts = None"
proof -
  have "\<exists>opts. options_init [(106, Some (bytes ''h:9001''))] = Inr (0, opts)"
    using options_addr_parts[of "[104]" "[48, 48, 49]" 57 zero_options]
    by (simp add: options_init_def bytes_def options_switch_def zero_options_def OPTION_START_def
        OPTION_JOIN_def OPTION_LEAVE_def)
  then show ?thesis using options_never_start by blast
qed

text \<open>\<^verbatim>\<open>options_init\<close> drops the first digit of the port: for \<^verbatim>\<open>--join host:dp --id i\<close> the raft port is \<open>p\<close>
  without \<open>d\<close>, and the service port is one more than that.\<close>

theorem options_port_digit:
  assumes "58 \<notin> set h" "0 \<notin> set p"
  shows "options_init [(106, Some (h @ 58 # d # p)), (105, Some i)] =
    Inr (0, zero_options\<lparr>ot_name := Some (bytes ''join''), ot_type := OPTION_JOIN, ot_host := Some h, ot_id := Some i,
      ot_raft_port := Some p, ot_service_port := Some (dec_str 32 (atoi p + 1))\<rparr>)"
  using options_addr_parts[OF assms, of d zero_options]
  by (simp add: options_init_def options_switch_def strdup_def zero_options_def OPTION_START_def
      OPTION_JOIN_def OPTION_LEAVE_def bytes_def)

lemma options_port_digit_witness:
  "options_init [(106, Some (bytes ''127.0.0.1'' @ 58 # 57 # bytes ''001'')), (105, Some (bytes ''2''))] =
    Inr (0, zero_options\<lparr>ot_name := Some (bytes ''join''), ot_type := OPTION_JOIN, ot_host := Some (bytes ''127.0.0.1''),
      ot_id := Some (bytes ''2''), ot_raft_port := Some (bytes ''001''),
      ot_service_port := Some (dec_str 32 (atoi (bytes ''001'') + 1))\<rparr>)"
  by (rule options_port_digit) (simp_all add: bytes_def)

end
