(* ===== verification/Midl.thy ===== *)
theory Midl
  imports Ticketd_Prelude
begin

section \<open>ID lists of LMDB (midl.c)\<close>

text \<open>
  The lists of page numbers that LMDB keeps for free and dirty pages (\<^verbatim>\<open>src/src/midl.c\<close>). An \<^verbatim>\<open>MDB_IDL\<close>
  points at element 0 of an array, which counts the ids behind it; in front of it, at index -1,
  stands the allocated length. Here \<open>idl_alloc\<close> is that word and \<open>idl_ids\<close> the array from index 0 on, as
  long as the memory behind the pointer. Memory that \<^verbatim>\<open>malloc\<close> or \<^verbatim>\<open>realloc\<close> adds holds \<open>junk\<close>, and \<open>None\<close> is
  an allocation that fails; sizes in bytes do not overflow. An \<^verbatim>\<open>unsigned\<close> is an \<open>int\<close> with \<open>wrap32\<close>
  where C wraps.
\<close>

type_synonym mdb_id = u64

record idl =
  idl_alloc :: u64
  idl_ids :: "mdb_id list"

definition wrap32 :: "int \<Rightarrow> int" where "wrap32 x = x mod 2 ^ 32"

definition MDB_IDL_UM_MAX :: int where "MDB_IDL_UM_MAX = 2 ^ 17 - 1"

definition ENOMEM :: int where "ENOMEM = 12"

definition CMP :: "mdb_id \<Rightarrow> mdb_id \<Rightarrow> int" where
  "CMP x y = (if x < y then -1 else if y < x then 1 else 0)"

subsection \<open>Binary search\<close>

text \<open>The loop of both searches; \<open>get\<close> compares the element under the cursor.\<close>

function search_loop :: "(int \<Rightarrow> fault + int) \<Rightarrow> int \<Rightarrow> int \<Rightarrow> int \<Rightarrow> int \<Rightarrow> fault + int" where
  "search_loop get base cursor val n =
     (if 0 < n
      then
        (let pivot = n div 2; cursor = wrap32 (base + pivot + 1) in
         bindE (get cursor) (\<lambda>val.
         if val < 0 then search_loop get base cursor val pivot
         else if 0 < val then search_loop get cursor cursor val (n - (pivot + 1))
         else Inr cursor))
      else Inr (if 0 < val then wrap32 (cursor + 1) else cursor))"
  by pat_completeness auto
termination
  by (relation "measure (\<lambda>(get, base, cursor, val, n). nat n)") auto

declare search_loop.simps [simp del]

definition mdb_midl_search :: "mdb_id list \<Rightarrow> mdb_id \<Rightarrow> fault + int" where
  "mdb_midl_search ids x =
     bindE (arr_get ids 0) (\<lambda>n.
     search_loop (\<lambda>c. bindE (arr_get ids c) (\<lambda>y. Inr (CMP y x))) 0 1 0 (wrap32 (uint n)))"

subsection \<open>Allocation\<close>

text \<open>\<open>n\<close> words of memory, the one in front of the pointer included.\<close>

definition idl_realloc :: "(nat \<Rightarrow> u64) \<Rightarrow> int \<Rightarrow> idl \<Rightarrow> idl" where
  "idl_realloc junk n l =
     l\<lparr>idl_ids := take (nat (n - 1)) (idl_ids l) @ map junk [length (idl_ids l)..<nat (n - 1)]\<rparr>"

definition mdb_midl_alloc :: "(nat \<Rightarrow> u64) option \<Rightarrow> int \<Rightarrow> fault + idl option" where
  "mdb_midl_alloc mem num =
     (case mem of
        None \<Rightarrow> Inr None
      | Some junk \<Rightarrow>
          bindE (arr_set (map junk [0..<nat (num + 1)]) 0 0) (\<lambda>ids.
          Inr (Some \<lparr>idl_alloc = of_int num, idl_ids = ids\<rparr>)))"

definition mdb_midl_shrink :: "(nat \<Rightarrow> u64) option \<Rightarrow> idl \<Rightarrow> int \<times> idl" where
  "mdb_midl_shrink mem l =
     (if MDB_IDL_UM_MAX < uint (idl_alloc l)
      then
        (case mem of
           None \<Rightarrow> (0, l)
         | Some junk \<Rightarrow> (1, (idl_realloc junk (MDB_IDL_UM_MAX + 1) l)\<lparr>idl_alloc := of_int MDB_IDL_UM_MAX\<rparr>))
      else (0, l))"

definition mdb_midl_grow :: "(nat \<Rightarrow> u64) option \<Rightarrow> int \<Rightarrow> idl \<Rightarrow> int \<times> idl" where
  "mdb_midl_grow mem num l =
     (case mem of
        None \<Rightarrow> (ENOMEM, l)
      | Some junk \<Rightarrow>
          (0, (idl_realloc junk (uint (idl_alloc l + of_int num + 2)) l)\<lparr>idl_alloc := idl_alloc l + of_int num\<rparr>))"

definition mdb_midl_need :: "(nat \<Rightarrow> u64) option \<Rightarrow> int \<Rightarrow> idl \<Rightarrow> fault + int \<times> idl" where
  "mdb_midl_need mem num l =
     bindE (arr_get (idl_ids l) 0) (\<lambda>count.
     let num = wrap32 (num + uint count) in
     if uint (idl_alloc l) < num
     then
       (let num = 256 * (wrap32 (num + num div 4 + (256 + 2)) div 256) in
        case mem of
          None \<Rightarrow> Inr (ENOMEM, l)
        | Some junk \<Rightarrow>
            if num = 0 then Inl Out_of_bounds
            else Inr (0, (idl_realloc junk num l)\<lparr>idl_alloc := of_int (num - 2)\<rparr>))
     else Inr (0, l))"

subsection \<open>Appending\<close>

definition mdb_midl_append :: "(nat \<Rightarrow> u64) option \<Rightarrow> mdb_id \<Rightarrow> idl \<Rightarrow> fault + int \<times> idl" where
  "mdb_midl_append mem x l =
     bindE (arr_get (idl_ids l) 0) (\<lambda>count.
     case (if idl_alloc l \<le> count then mdb_midl_grow mem MDB_IDL_UM_MAX l else (0, l)) of
       (e, l) \<Rightarrow>
         if e \<noteq> 0 then Inr (ENOMEM, l)
         else
           bindE (arr_set (idl_ids l) 0 (count + 1)) (\<lambda>ids.
           bindE (arr_set ids (uint (count + 1)) x) (\<lambda>ids.
           Inr (0, l\<lparr>idl_ids := ids\<rparr>))))"

text \<open>\<^verbatim>\<open>memcpy\<close> of \<open>n\<close> words from element 1 of \<open>src\<close>.\<close>

definition copy_ids :: "mdb_id list \<Rightarrow> int \<Rightarrow> mdb_id list \<Rightarrow> int \<Rightarrow> fault + mdb_id list" where
  "copy_ids dst at src n =
     (if at + n \<le> int (length dst) \<and> n + 1 \<le> int (length src)
      then Inr (take (nat at) dst @ take (nat n) (drop 1 src) @ drop (nat (at + n)) dst)
      else Inl Out_of_bounds)"

definition mdb_midl_append_list :: "(nat \<Rightarrow> u64) option \<Rightarrow> mdb_id list \<Rightarrow> idl \<Rightarrow> fault + int \<times> idl" where
  "mdb_midl_append_list mem app l =
     bindE (arr_get (idl_ids l) 0) (\<lambda>count.
     bindE (arr_get app 0) (\<lambda>n.
     case (if idl_alloc l \<le> count + n then mdb_midl_grow mem (sint (ucast n :: u32)) l else (0, l)) of
       (e, l) \<Rightarrow>
         if e \<noteq> 0 then Inr (ENOMEM, l)
         else
           bindE (copy_ids (idl_ids l) (uint count + 1) app (uint n)) (\<lambda>ids.
           bindE (arr_set ids 0 (count + n)) (\<lambda>ids.
           Inr (0, l\<lparr>idl_ids := ids\<rparr>)))))"

text \<open>The loop \<^verbatim>\<open>while (n) ids[n--] = id++\<close> behind the first \<open>len\<close> elements.\<close>

fun range_fill :: "mdb_id list \<Rightarrow> int \<Rightarrow> nat \<Rightarrow> mdb_id \<Rightarrow> fault + mdb_id list" where
  "range_fill ids len 0 x = Inr ids"
| "range_fill ids len (Suc n) x =
     bindE (arr_set ids (len + int (Suc n)) x) (\<lambda>ids. range_fill ids len n (x + 1))"

definition mdb_midl_append_range :: "(nat \<Rightarrow> u64) option \<Rightarrow> mdb_id \<Rightarrow> u32 \<Rightarrow> idl \<Rightarrow> fault + int \<times> idl" where
  "mdb_midl_append_range mem x n l =
     bindE (arr_get (idl_ids l) 0) (\<lambda>len.
     case (if idl_alloc l < len + ucast n then mdb_midl_grow mem (sint (n OR of_int MDB_IDL_UM_MAX)) l else (0, l)) of
       (e, l) \<Rightarrow>
         if e \<noteq> 0 then Inr (ENOMEM, l)
         else
           bindE (arr_set (idl_ids l) 0 (len + ucast n)) (\<lambda>ids.
           bindE (range_fill ids (uint len) (unat n) x) (\<lambda>ids.
           Inr (0, l\<lparr>idl_ids := ids\<rparr>))))"

subsection \<open>Merging\<close>

text \<open>The inner loop: moves ids below \<open>merge_id\<close> up; \<open>old_id\<close> is element \<open>j\<close>.\<close>

function xmerge_move ::
  "mdb_id \<Rightarrow> mdb_id \<Rightarrow> int \<Rightarrow> int \<Rightarrow> mdb_id list \<Rightarrow> fault + mdb_id \<times> int \<times> int \<times> mdb_id list" where
  "xmerge_move merge_id old_id j k idl =
     (if old_id < merge_id
      then
        bindE (arr_set idl k old_id) (\<lambda>idl.
        if j - 1 < 0 then Inl Out_of_bounds
        else bindE (arr_get idl (j - 1)) (\<lambda>old_id. xmerge_move merge_id old_id (j - 1) (k - 1) idl))
      else Inr (old_id, j, k, idl))"
  by pat_completeness auto
termination
  by (relation "measure (\<lambda>(merge_id, old_id, j, k, idl). nat j)") auto

declare xmerge_move.simps [simp del]

fun xmerge_loop :: "mdb_id list \<Rightarrow> nat \<Rightarrow> mdb_id \<Rightarrow> int \<Rightarrow> int \<Rightarrow> mdb_id list \<Rightarrow> fault + mdb_id list" where
  "xmerge_loop merge 0 old_id j k idl = Inr idl"
| "xmerge_loop merge (Suc i) old_id j k idl =
     bindE (arr_get merge (int (Suc i))) (\<lambda>merge_id.
     bindE (xmerge_move merge_id old_id j k idl) (\<lambda>(old_id, j, k, idl).
     bindE (arr_set idl k merge_id) (\<lambda>idl.
     xmerge_loop merge i old_id j (k - 1) idl)))"

definition mdb_midl_xmerge :: "mdb_id list \<Rightarrow> mdb_id list \<Rightarrow> fault + mdb_id list" where
  "mdb_midl_xmerge idl merge =
     bindE (arr_get merge 0) (\<lambda>i.
     bindE (arr_get idl 0) (\<lambda>j.
     let total = i + j in
     bindE (arr_set idl 0 (- 1)) (\<lambda>idl.
     bindE (arr_get idl (uint j)) (\<lambda>old_id.
     bindE (xmerge_loop merge (unat i) old_id (uint j) (uint total) idl) (\<lambda>idl.
     arr_set idl 0 total)))))"

subsection \<open>Lists of pairs\<close>

definition mdb_mid2l_search :: "(mdb_id \<times> 'p) list \<Rightarrow> mdb_id \<Rightarrow> fault + int" where
  "mdb_mid2l_search ids x =
     bindE (arr_get ids 0) (\<lambda>n.
     search_loop (\<lambda>c. bindE (arr_get ids c) (\<lambda>y. Inr (CMP x (fst y)))) 0 1 0 (wrap32 (uint (fst n))))"

text \<open>The loop \<^verbatim>\<open>for (i = count; i > x; i--) ids[i] = ids[i - 1]\<close>.\<close>

function shift_up :: "int \<Rightarrow> int \<Rightarrow> 'a list \<Rightarrow> fault + 'a list" where
  "shift_up x i ids =
     (if x < i then bindE (arr_get ids (i - 1)) (\<lambda>y. bindE (arr_set ids i y) (shift_up x (i - 1))) else Inr ids)"
  by pat_completeness auto
termination
  by (relation "measure (\<lambda>(x, i, ids). nat (i - x))") auto

declare shift_up.simps [simp del]

definition mdb_mid2l_insert :: "(mdb_id \<times> 'p) \<Rightarrow> (mdb_id \<times> 'p) list \<Rightarrow> fault + int \<times> (mdb_id \<times> 'p) list" where
  "mdb_mid2l_insert y ids =
     bindE (mdb_mid2l_search ids (fst y)) (\<lambda>x.
     if x < 1 then Inr (-2, ids)
     else
       bindE (arr_get ids 0) (\<lambda>hd.
       bindE (if x \<le> uint (fst hd) then bindE (arr_get ids x) (\<lambda>z. Inr (fst z = fst y)) else Inr False) (\<lambda>dup.
       if dup then Inr (-1, ids)
       else if MDB_IDL_UM_MAX \<le> uint (fst hd) then Inr (-2, ids)
       else
         bindE (arr_set ids 0 (fst hd + 1, snd hd)) (\<lambda>ids.
         bindE (shift_up x (wrap32 (uint (fst hd + 1))) ids) (\<lambda>ids.
         bindE (arr_set ids x y) (\<lambda>ids.
         Inr (0, ids)))))))"

definition mdb_mid2l_append :: "(mdb_id \<times> 'p) \<Rightarrow> (mdb_id \<times> 'p) list \<Rightarrow> fault + int \<times> (mdb_id \<times> 'p) list" where
  "mdb_mid2l_append y ids =
     bindE (arr_get ids 0) (\<lambda>hd.
     if MDB_IDL_UM_MAX \<le> uint (fst hd) then Inr (-2, ids)
     else
       bindE (arr_set ids 0 (fst hd + 1, snd hd)) (\<lambda>ids.
       bindE (arr_set ids (uint (fst hd + 1)) y) (\<lambda>ids.
       Inr (0, ids))))"

end
