(* ===== verification/Midl_Lists.thy ===== *)
theory Midl_Lists
  imports Midl
begin

section \<open>ID lists: searching, appending, merging, inserting\<close>

text \<open>
  \<open>idl_view\<close> is the sequence of ids that a list holds; what each operation of \<^verbatim>\<open>midl.c\<close> does to it. Lists of
  ids are sorted in descending order, lists of pairs in ascending order of their ids.
\<close>

lemma wrap32_id: "0 \<le> x \<Longrightarrow> x < 2 ^ 32 \<Longrightarrow> wrap32 x = x"
  by (simp add: wrap32_def)

subsection \<open>Binary search\<close>

definition found_at :: "(int \<Rightarrow> int) \<Rightarrow> int \<Rightarrow> int \<Rightarrow> bool" where
  "found_at v N c \<longleftrightarrow> 1 \<le> c \<and> c \<le> N + 1 \<and>
     (c \<le> N \<and> v c = 0 \<or> (\<forall>i. 1 \<le> i \<and> i < c \<longrightarrow> 0 < v i) \<and> (\<forall>i. c \<le> i \<and> i \<le> N \<longrightarrow> v i < 0))"

lemma search_loop_spec:
  assumes get: "\<And>c. 1 \<le> c \<Longrightarrow> c \<le> N \<Longrightarrow> get c = Inr (v c)"
    and anti: "\<And>i j. 1 \<le> i \<Longrightarrow> i \<le> j \<Longrightarrow> j \<le> N \<Longrightarrow> v j \<le> v i"
    and N: "N < 2 ^ 32 - 1"
    and inv: "0 \<le> base" "0 \<le> n" "base + n \<le> N"
      "\<And>i. 1 \<le> i \<Longrightarrow> i \<le> base \<Longrightarrow> 0 < v i" "\<And>i. base + n < i \<Longrightarrow> i \<le> N \<Longrightarrow> v i < 0"
      "n = 0 \<Longrightarrow> cursor = (if 0 < val then base else base + 1)"
  shows "\<exists>c. search_loop get base cursor val n = Inr c \<and> found_at v N c"
  using inv
proof (induction "nat n" arbitrary: base cursor val n rule: less_induct)
  case less
  note unf = search_loop.simps[of get base cursor val n]
  show ?case
  proof (cases "0 < n")
    case False
    then have n: "n = 0" using less.prems(2) by simp
    have "wrap32 (base + 1) = base + 1" by (rule wrap32_id) (use less.prems N n in auto)
    then have "search_loop get base cursor val n = Inr (base + 1)" using less.prems(6)[OF n] n
      by (subst search_loop.simps) auto
    moreover have "found_at v N (base + 1)" using less.prems n by (auto simp: found_at_def)
    ultimately show ?thesis by blast
  next
    case True
    let ?p = "n div 2"
    let ?c = "base + ?p + 1"
    have p: "0 \<le> ?p" "?p < n" using True by auto
    have c: "1 \<le> ?c" "?c \<le> N" "wrap32 ?c = ?c" using less.prems(1,3) p N by (auto intro!: wrap32_id)
    consider "v ?c < 0" | "0 < v ?c" | "v ?c = 0" by linarith
    then show ?thesis
    proof cases
      case 1
      have "\<exists>c. search_loop get base ?c (v ?c) ?p = Inr c \<and> found_at v N c"
      proof (rule less.hyps)
        show "v i < 0" if "base + ?p < i" "i \<le> N" for i using anti[of ?c i] that c(1) 1 by simp
      qed (use less.prems p 1 in auto)
      with 1 True show ?thesis using get[OF c(1,2)] by (simp add: unf Let_def c(3))
    next
      case 2
      have "\<exists>c. search_loop get ?c ?c (v ?c) (n - (?p + 1)) = Inr c \<and> found_at v N c"
      proof (rule less.hyps)
        show "0 < v i" if "1 \<le> i" "i \<le> ?c" for i using anti[of i ?c] that c(2) 2 by simp
      qed (use less.prems p 2 in auto)
      with 2 True show ?thesis using get[OF c(1,2)] by (simp add: unf Let_def c(3))
    next
      case 3
      then have "search_loop get base cursor val n = Inr ?c"
        using True get[OF c(1,2)] by (simp add: unf Let_def c(3))
      with 3 c show ?thesis by (auto simp: found_at_def)
    qed
  qed
qed

lemma CMP_simps [simp]: "CMP x y < 0 \<longleftrightarrow> x < y" "0 < CMP x y \<longleftrightarrow> y < x" "CMP x y = 0 \<longleftrightarrow> x = y"
  by (auto simp: CMP_def)

lemma CMP_mono: "y \<le> y' \<Longrightarrow> CMP y x \<le> CMP y' x" "y \<le> y' \<Longrightarrow> CMP x y' \<le> CMP x y"
  by (auto simp: CMP_def)

lemma midl_search_spec:
  assumes "uint (ids ! 0) = N" "N < int (length ids)" "N < 2 ^ 32 - 1"
    and desc: "\<And>i j. 1 \<le> i \<Longrightarrow> i \<le> j \<Longrightarrow> j \<le> N \<Longrightarrow> ids ! nat j \<le> ids ! nat i"
  shows "\<exists>c. mdb_midl_search ids x = Inr c \<and> found_at (\<lambda>i. CMP (ids ! nat i) x) N c"
proof -
  have N0: "0 \<le> N" using assms(1) uint_ge_0[of "ids ! 0"] by simp
  have "ids \<noteq> []" using assms(2) N0 by auto
  then have "mdb_midl_search ids x = search_loop (\<lambda>c. bindE (arr_get ids c) (\<lambda>y. Inr (CMP y x))) 0 1 0 N"
    using assms(1,3) N0 by (simp add: mdb_midl_search_def arr_get_nat wrap32_id)
  moreover have "\<exists>c. search_loop (\<lambda>c. bindE (arr_get ids c) (\<lambda>y. Inr (CMP y x))) 0 1 0 N = Inr c \<and>
      found_at (\<lambda>i. CMP (ids ! nat i) x) N c"
    by (rule search_loop_spec) (use assms N0 CMP_mono in \<open>auto simp: arr_get_nat\<close>)
  ultimately show ?thesis by simp
qed

lemma mid2l_search_spec:
  assumes "uint (fst (ids ! 0)) = N" "N < int (length ids)" "N < 2 ^ 32 - 1"
    and asc: "\<And>i j. 1 \<le> i \<Longrightarrow> i \<le> j \<Longrightarrow> j \<le> N \<Longrightarrow> fst (ids ! nat i) \<le> fst (ids ! nat j)"
  shows "\<exists>c. mdb_mid2l_search ids x = Inr c \<and> found_at (\<lambda>i. CMP x (fst (ids ! nat i))) N c"
proof -
  have N0: "0 \<le> N" using assms(1) uint_ge_0[of "fst (ids ! 0)"] by simp
  have "ids \<noteq> []" using assms(2) N0 by auto
  then have "mdb_mid2l_search ids x = search_loop (\<lambda>c. bindE (arr_get ids c) (\<lambda>y. Inr (CMP x (fst y)))) 0 1 0 N"
    using assms(1,3) N0 by (simp add: mdb_mid2l_search_def arr_get_nat wrap32_id)
  moreover have "\<exists>c. search_loop (\<lambda>c. bindE (arr_get ids c) (\<lambda>y. Inr (CMP x (fst y)))) 0 1 0 N = Inr c \<and>
      found_at (\<lambda>i. CMP x (fst (ids ! nat i))) N c"
    by (rule search_loop_spec) (use assms N0 CMP_mono in \<open>auto simp: arr_get_nat\<close>)
  ultimately show ?thesis by simp
qed

subsection \<open>Views\<close>

lemma uint_u64: "0 \<le> x \<Longrightarrow> x < 2 ^ 64 \<Longrightarrow> uint (of_int x :: u64) = x"
  by (simp add: uint_word_of_int_eq take_bit_int_eq_self)

lemma word_nat:
  fixes w :: u64
  obtains k where "unat w = k" "uint w = int k"
  by (metis uint_nat)

definition ids_view :: "mdb_id list \<Rightarrow> mdb_id list" where
  "ids_view ids = take (unat (ids ! 0)) (tl ids)"

definition idl_view :: "idl \<Rightarrow> mdb_id list" where
  "idl_view l = ids_view (idl_ids l)"

text \<open>The array is as long as its header says, and the count fits.\<close>

definition idl_ok :: "idl \<Rightarrow> bool" where
  "idl_ok l \<longleftrightarrow> length (idl_ids l) = unat (idl_alloc l) + 1 \<and> unat (idl_ids l ! 0) \<le> unat (idl_alloc l)"

abbreviation descending :: "mdb_id list \<Rightarrow> bool" where
  "descending xs \<equiv> sorted_wrt (\<ge>) xs"

lemma length_ids_view: "unat (ids ! 0) < length ids \<Longrightarrow> length (ids_view ids) = unat (ids ! 0)"
  by (simp add: ids_view_def)

lemma nth_ids_view: "unat (ids ! 0) < length ids \<Longrightarrow> i < unat (ids ! 0) \<Longrightarrow> ids_view ids ! i = ids ! Suc i"
  by (simp add: ids_view_def nth_tl)

lemma midl_search_view:
  assumes ids: "unat (ids ! 0) < length ids" "unat (ids ! 0) < 2 ^ 32 - 1" and desc: "descending (ids_view ids)"
  shows "\<exists>c. mdb_midl_search ids x = Inr c \<and> 1 \<le> c \<and> c \<le> int (length (ids_view ids)) + 1 \<and>
    (if x \<in> set (ids_view ids) then c \<le> int (length (ids_view ids)) \<and> ids_view ids ! nat (c - 1) = x
     else (\<forall>i < length (ids_view ids). if int i < c - 1 then x < ids_view ids ! i else ids_view ids ! i < x))"
proof -
  obtain n where n: "unat (ids ! 0) = n" "uint (ids ! 0) = int n" by (rule word_nat)
  let ?v = "ids_view ids" and ?N = "int n"
  have len: "length ?v = n" using length_ids_view[OF ids(1)] n by simp
  have at: "ids ! nat i = ?v ! nat (i - 1)" if "1 \<le> i" "i \<le> ?N" for i
  proof -
    have "nat i = Suc (nat (i - 1))" "nat (i - 1) < n" using that by auto
    then show ?thesis using nth_ids_view[OF ids(1)] n(1) by simp
  qed
  have "\<exists>c. mdb_midl_search ids x = Inr c \<and> found_at (\<lambda>i. CMP (ids ! nat i) x) ?N c"
  proof (rule midl_search_spec)
    fix i j assume ij: "1 \<le> i" "i \<le> j" "j \<le> ?N"
    then have "nat (i - 1) \<le> nat (j - 1)" "nat (j - 1) < length ?v" using len by auto
    then have "?v ! nat (j - 1) \<le> ?v ! nat (i - 1)"
      using sorted_wrt_nth_less[OF desc, of "nat (i - 1)" "nat (j - 1)"] ij by (cases "i = j") simp_all
    then show "ids ! nat j \<le> ids ! nat i" using ij by (simp add: at)
  qed (use ids n in auto)
  then obtain c where c: "mdb_midl_search ids x = Inr c" "found_at (\<lambda>i. CMP (ids ! nat i) x) ?N c" by blast
  show ?thesis
  proof (cases "c \<le> ?N \<and> ids ! nat c = x")
    case True
    then have "?v ! nat (c - 1) = x" "nat (c - 1) < length ?v" using c(2) at[of c] len by (auto simp: found_at_def)
    then have "x \<in> set ?v" by (metis nth_mem)
    with True c len \<open>?v ! nat (c - 1) = x\<close> show ?thesis by (auto simp: found_at_def)
  next
    case False
    then have gt: "\<And>i. 1 \<le> i \<Longrightarrow> i < c \<Longrightarrow> x < ids ! nat i" and lt: "\<And>i. c \<le> i \<Longrightarrow> i \<le> ?N \<Longrightarrow> ids ! nat i < x"
      and cr: "1 \<le> c" "c \<le> ?N + 1"
      using c(2) by (auto simp: found_at_def)
    have sep: "if int i < c - 1 then x < ?v ! i else ?v ! i < x" if "i < length ?v" for i
      using that gt[of "int i + 1"] lt[of "int i + 1"] at[of "int i + 1"] len cr by auto
    then have "x \<notin> set ?v" by (fastforce simp: in_set_conv_nth split: if_splits)
    then show ?thesis using c(1) cr len sep by auto
  qed
qed

subsection \<open>Appending\<close>

lemma ids_view_append: "unat (ids ! 0) < length ids \<Longrightarrow> ids_view (ids @ ext) = ids_view ids"
  by (cases ids) (simp_all add: ids_view_def)

lemma grow_ok:
  assumes "idl_ok l" "0 \<le> num" "uint (idl_alloc l) + num + 2 < 2 ^ 64"
  shows "\<exists>ext. mdb_midl_grow (Some junk) num l =
      (0, l\<lparr>idl_ids := idl_ids l @ ext, idl_alloc := idl_alloc l + of_int num\<rparr>) \<and> length ext = nat num \<and>
    unat (idl_alloc l + of_int num) = unat (idl_alloc l) + nat num"
proof -
  have "num < 2 ^ 64" using assms(3) uint_ge_0[of "idl_alloc l"] by linarith
  then have num: "uint (of_int num :: u64) = num" using assms(2) by (simp add: uint_u64)
  have u: "uint (idl_alloc l + of_int num) = uint (idl_alloc l) + num"
    using assms(2,3) num by (simp add: uint_plus_if' word_size)
  have u2: "uint (idl_alloc l + of_int num + 2) = uint (idl_alloc l) + num + 2"
    using assms(2,3) u by (subst uint_plus_if') simp
  obtain a where a: "unat (idl_alloc l) = a" "uint (idl_alloc l) = int a" by (rule word_nat)
  have len: "length (idl_ids l) = a + 1" using assms(1) a by (simp add: idl_ok_def)
  have "idl_realloc junk (uint (idl_alloc l + of_int num + 2)) l =
      l\<lparr>idl_ids := idl_ids l @ map junk [a + 1..<a + 1 + nat num]\<rparr>"
  proof -
    have "nat (uint (idl_alloc l) + num + 2 - 1) = a + 1 + nat num" using a(2) assms(2) by simp
    then show ?thesis using len by (simp add: idl_realloc_def u2 del: diff_add_eq)
  qed
  moreover have "unat (idl_alloc l + of_int num) = unat (idl_alloc l) + nat num"
    using u a assms(2) by (metis nat_add_distrib nat_int of_nat_0_le_iff unat_eq_nat_uint)
  ultimately show ?thesis using len assms(2)
    by (intro exI[of _ "map junk [a + 1..<a + 1 + nat num]"]) (simp add: mdb_midl_grow_def)
qed

lemma unat_Suc: "unat c + 1 < 2 ^ 64 \<Longrightarrow> unat (c + 1) = unat c + 1" for c :: u64
  by (simp add: unat_word_ariths)

text \<open>After the check for room: the list, possibly grown, with space for \<open>k\<close> more ids.\<close>

definition grown :: "nat \<Rightarrow> idl \<Rightarrow> idl \<Rightarrow> bool" where
  "grown k l l' \<longleftrightarrow> length (idl_ids l') = unat (idl_alloc l') + 1 \<and> unat (idl_ids l ! 0) + k \<le> unat (idl_alloc l') \<and>
     idl_ids l' ! 0 = idl_ids l ! 0 \<and> idl_view l' = idl_view l"

lemma grown_grow:
  assumes "idl_ok l" "0 \<le> num" "uint (idl_alloc l) + num + 2 < 2 ^ 64" "unat (idl_ids l ! 0) + k \<le> unat (idl_alloc l) + nat num"
  shows "\<exists>l'. mdb_midl_grow (Some junk) num l = (0, l') \<and> grown k l l'"
proof -
  obtain ext where ext: "mdb_midl_grow (Some junk) num l =
      (0, l\<lparr>idl_ids := idl_ids l @ ext, idl_alloc := idl_alloc l + of_int num\<rparr>)" "length ext = nat num"
    "unat (idl_alloc l + of_int num) = unat (idl_alloc l) + nat num" using grow_ok[OF assms(1-3)] by blast
  moreover have "idl_ids l \<noteq> []" "unat (idl_ids l ! 0) < length (idl_ids l)" using assms(1) by (auto simp: idl_ok_def)
  ultimately show ?thesis using assms(1,4)
    by (auto simp: grown_def idl_ok_def idl_view_def nth_append ids_view_append)
qed

lemma grown_refl: "idl_ok l \<Longrightarrow> unat (idl_ids l ! 0) + k \<le> unat (idl_alloc l) \<Longrightarrow> grown k l l"
  by (simp add: grown_def idl_ok_def)

lemma grown_ids:
  assumes "grown k l l'"
  obtains c r where "idl_ids l' = c # r" "idl_ids l ! 0 = c" "length r = unat (idl_alloc l')"
    "unat c + k \<le> length r" "idl_view l = take (unat c) r"
  using assms by (cases "idl_ids l'") (auto simp: grown_def idl_view_def ids_view_def)

text \<open>Writing \<open>ys\<close> behind the ids of such a list and adding their number to the count appends them.\<close>

lemma write_back:
  assumes "grown (length ys) l l'"
  shows "idl_ok (l'\<lparr>idl_ids := (idl_ids l ! 0 + of_nat (length ys)) #
      take (unat (idl_ids l ! 0)) (tl (idl_ids l')) @ ys @ drop (unat (idl_ids l ! 0) + length ys) (tl (idl_ids l'))\<rparr>)"
    "idl_view (l'\<lparr>idl_ids := (idl_ids l ! 0 + of_nat (length ys)) #
      take (unat (idl_ids l ! 0)) (tl (idl_ids l')) @ ys @ drop (unat (idl_ids l ! 0) + length ys) (tl (idl_ids l'))\<rparr>) =
      idl_view l @ ys"
    "unat (idl_ids l ! 0 + of_nat (length ys)) = unat (idl_ids l ! 0) + length ys"
proof -
  obtain c r where g: "idl_ids l' = c # r" "idl_ids l ! 0 = c" "length r = unat (idl_alloc l')"
    "unat c + length ys \<le> length r" "idl_view l = take (unat c) r" using grown_ids[OF assms] .
  have "unat c + length ys < 2 ^ 64" using g(3,4) unsigned_less[of "idl_alloc l'", where 'a = nat] by simp
  then have u: "unat (c + of_nat (length ys)) = unat c + length ys"
    by (simp add: unat_word_ariths unat_of_nat)
  then show "unat (idl_ids l ! 0 + of_nat (length ys)) = unat (idl_ids l ! 0) + length ys" by (simp add: g(2))
  show "idl_ok (l'\<lparr>idl_ids := (idl_ids l ! 0 + of_nat (length ys)) #
      take (unat (idl_ids l ! 0)) (tl (idl_ids l')) @ ys @ drop (unat (idl_ids l ! 0) + length ys) (tl (idl_ids l'))\<rparr>)"
    "idl_view (l'\<lparr>idl_ids := (idl_ids l ! 0 + of_nat (length ys)) #
      take (unat (idl_ids l ! 0)) (tl (idl_ids l')) @ ys @ drop (unat (idl_ids l ! 0) + length ys) (tl (idl_ids l'))\<rparr>) =
      idl_view l @ ys"
    using g u by (simp_all add: idl_ok_def idl_view_def ids_view_def)
qed

lemma update_split: "i < length xs \<Longrightarrow> xs[i := x] = take i xs @ [x] @ drop (i + 1) xs"
  by (simp add: upd_conv_take_nth_drop)

lemma arr_get_0: "xs \<noteq> [] \<Longrightarrow> arr_get xs 0 = Inr (xs ! 0)"
  by (simp add: arr_get_def)

lemma idl_ok_count: "idl_ok l \<Longrightarrow> arr_get (idl_ids l) 0 = Inr (idl_ids l ! 0)"
  by (rule arr_get_0) (auto simp: idl_ok_def)

lemma append_ok:
  assumes "idl_ok l" "uint (idl_alloc l) + MDB_IDL_UM_MAX + 2 < 2 ^ 64"
  shows "\<exists>l'. mdb_midl_append (Some junk) x l = Inr (0, l') \<and> idl_ok l' \<and> idl_view l' = idl_view l @ [x]"
proof -
  let ?c = "idl_ids l ! 0"
  have c: "arr_get (idl_ids l) 0 = Inr ?c" by (rule idl_ok_count[OF assms(1)])
  have "\<exists>l1. (if idl_alloc l \<le> ?c then mdb_midl_grow (Some junk) MDB_IDL_UM_MAX l else (0, l)) = (0, l1) \<and>
      grown (length [x]) l l1"
    using grown_grow[OF assms(1) _ assms(2), of 1] grown_refl[OF assms(1), of 1] assms(1)
    by (auto simp: MDB_IDL_UM_MAX_def idl_ok_def word_le_nat_alt)
  then obtain l1 where l1: "(if idl_alloc l \<le> ?c then mdb_midl_grow (Some junk) MDB_IDL_UM_MAX l else (0, l)) = (0, l1)"
    "grown (length [x]) l l1" by blast
  obtain d r where g: "idl_ids l1 = d # r" "?c = d" "length r = unat (idl_alloc l1)" "unat d + 1 \<le> length r"
    by (rule grown_ids[OF l1(2)]) simp
  note w = write_back[OF l1(2)]
  define n where "n = unat d"
  then have n: "unat d = n" "unat (d + 1) = n + 1" using w(3) g(2) by simp_all
  have ui: "uint (d + 1) = int (n + 1)" by (simp only: uint_nat n(2))
  have "arr_set (idl_ids l1) 0 (?c + 1) = Inr ((d + 1) # r)" by (simp add: g(1,2) arr_set_def)
  moreover have "arr_set ((d + 1) # r) (uint (d + 1)) x = Inr ((d + 1) # take n r @ [x] @ drop (n + 1) r)"
    using g(4) n(1) by (simp add: ui arr_set_def nat_add_distrib update_split del: of_nat_add)
  ultimately have "mdb_midl_append (Some junk) x l = Inr (0, l1\<lparr>idl_ids := (d + 1) # take n r @ [x] @ drop (n + 1) r\<rparr>)"
    using c l1(1) by (simp add: mdb_midl_append_def g(2))
  then show ?thesis using w(1,2) g n(1) by simp
qed

lemma unat_sum: "unat a + unat b < 2 ^ 64 \<Longrightarrow> unat (a + b) = unat a + unat b" for a b :: u64
  by (simp add: unat_word_ariths)

lemma sint_count:
  assumes "uint w < 2 ^ 31"
  shows "sint (ucast (w :: u64) :: u32) = uint w"
proof -
  have u: "uint (ucast w :: u32) = uint w" using assms by (simp add: unsigned_ucast_eq take_bit_int_eq_self)
  have "signed_take_bit 31 (uint w) = uint w"
    by (rule signed_take_bit_int_eq_self) (use assms uint_ge_0[of w] in linarith)+
  then show ?thesis using u by (simp add: sint_uint)
qed

lemma append_list_ok:
  assumes "idl_ok l" "unat (app ! 0) < length app" "unat (app ! 0) < 2 ^ 31"
    "unat (idl_alloc l) + unat (app ! 0) + 2 < 2 ^ 64"
  shows "\<exists>l'. mdb_midl_append_list (Some junk) app l = Inr (0, l') \<and> idl_ok l' \<and>
    idl_view l' = idl_view l @ ids_view app"
proof -
  let ?c = "idl_ids l ! 0" and ?n = "app ! 0" and ?ys = "ids_view app" and ?g = "sint (ucast (app ! 0) :: u32)"
  obtain m where m: "unat ?n = m" "uint ?n = int m" by (rule word_nat)
  have "uint ?n < 2 ^ 31" using assms(3) m by simp
  then have sg: "?g = int m" using sint_count m(2) by metis
  obtain k where k: "unat ?c = k" "uint ?c = int k" by (rule word_nat)
  have ys: "length ?ys = m" using length_ids_view[OF assms(2)] m by simp
  have c: "arr_get (idl_ids l) 0 = Inr ?c" by (rule idl_ok_count[OF assms(1)])
  have a: "arr_get app 0 = Inr ?n" by (rule arr_get_0) (use assms(2) in auto)
  have kl: "k \<le> unat (idl_alloc l)" using assms(1) k by (simp add: idl_ok_def)
  then have cn: "unat (?c + ?n) = k + m" using assms(4) m k by (simp add: unat_sum)
  have lim: "uint (idl_alloc l) + int m + 2 < 2 ^ 64" using assms(4) m(1) by (rule_tac word_nat[of "idl_alloc l"]) simp
  have "\<exists>l1. (if idl_alloc l \<le> ?c + ?n then mdb_midl_grow (Some junk) ?g l else (0, l)) = (0, l1) \<and>
      grown m l l1"
    using grown_grow[OF assms(1) _ lim, of m junk] grown_refl[OF assms(1), of m] kl k m cn sg
    by (auto simp: word_le_nat_alt)
  then obtain l1 where l1: "(if idl_alloc l \<le> ?c + ?n then mdb_midl_grow (Some junk) ?g l else (0, l)) = (0, l1)"
    "grown (length ?ys) l l1" using ys by auto
  obtain r where g: "idl_ids l1 = ?c # r" "k + m \<le> length r" by (rule grown_ids[OF l1(2)]) (use ys k in auto)
  have "take m (drop 1 app) = ?ys" using m(1) by (simp add: ids_view_def drop_Suc)
  moreover have "nat (int k + 1) = Suc k" "nat (int k + 1 + int m) = Suc (k + m)" by simp_all
  ultimately have "copy_ids (idl_ids l1) (uint ?c + 1) app (uint ?n) = Inr (?c # take k r @ ?ys @ drop (k + m) r)"
    using g assms(2) m k by (simp add: copy_ids_def)
  then have "mdb_midl_append_list (Some junk) app l =
      Inr (0, l1\<lparr>idl_ids := (?c + ?n) # take k r @ ?ys @ drop (k + m) r\<rparr>)"
    using c a l1(1) by (simp add: mdb_midl_append_list_def arr_set_def)
  moreover have "of_nat (length ?ys) = ?n" by (simp add: ys m(1)[symmetric])
  ultimately show ?thesis using write_back(1,2)[OF l1(2)] g k ys by auto
qed

lemma range_fill_ok:
  "0 \<le> len \<Longrightarrow> nat len + n < length ids \<Longrightarrow> range_fill ids len n x =
     Inr (take (nat len + 1) ids @ rev (map (\<lambda>i. x + of_nat i) [0..<n]) @ drop (nat len + n + 1) ids)"
proof (induction n arbitrary: ids x)
  case (Suc n)
  let ?i = "nat len + n + 1"
  have i: "nat (len + int (Suc n)) = ?i" "len + int (Suc n) < int (length ids)" using Suc.prems by auto
  have "range_fill ids len (Suc n) x = range_fill (ids[?i := x]) len n (x + 1)"
    using Suc.prems i by (simp add: arr_set_def del: of_nat_Suc)
  also have "\<dots> = Inr (take (nat len + 1) ids @ rev (map (\<lambda>i. x + 1 + of_nat i) [0..<n]) @ drop ?i (ids[?i := x]))"
    using Suc.IH[of "ids[?i := x]" "x + 1"] Suc.prems by simp
  also have "drop ?i (ids[?i := x]) = x # drop (?i + 1) ids"
    using Suc.prems by (simp add: drop_update_swap Cons_nth_drop_Suc[symmetric])
  also have "map (\<lambda>i. x + of_nat i) [0..<Suc n] = x # map (\<lambda>i. x + 1 + of_nat i) [0..<n]"
    by (simp add: upt_conv_Cons map_Suc_upt[symmetric] comp_def algebra_simps del: upt_Suc)
  ultimately show ?case by simp
qed simp

text \<open>The number of ids to grow by: at least \<open>n\<close>, and non-negative as an \<^verbatim>\<open>int\<close> for \<open>n\<close> below \<open>2 ^ 31\<close>.\<close>

lemma or_um_max:
  fixes n :: u32
  assumes "uint n < 2 ^ 31"
  shows "uint n \<le> sint (n OR of_int MDB_IDL_UM_MAX)" "sint (n OR of_int MDB_IDL_UM_MAX) < 2 ^ 31"
proof -
  let ?m = "n OR of_int MDB_IDL_UM_MAX"
  have u: "uint ?m = uint n OR MDB_IDL_UM_MAX"
    by (simp add: unsigned_or_eq MDB_IDL_UM_MAX_def)
  have ub: "uint n OR MDB_IDL_UM_MAX < 2 ^ 31" by (rule OR_upper) (use assms in \<open>simp_all add: MDB_IDL_UM_MAX_def\<close>)
  have ge: "uint n \<le> uint n OR MDB_IDL_UM_MAX" by (simp add: MDB_IDL_UM_MAX_def or_greater_eq)
  have "0 \<le> uint n OR MDB_IDL_UM_MAX" by (rule order_trans[OF uint_ge_0 ge])
  then have "signed_take_bit 31 (uint n OR MDB_IDL_UM_MAX) = uint n OR MDB_IDL_UM_MAX"
    by (intro signed_take_bit_int_eq_self) (use ub in linarith)+
  then have "sint ?m = uint ?m" using u by (simp add: sint_uint)
  then show "uint n \<le> sint ?m" "sint ?m < 2 ^ 31" using u ub ge by simp_all
qed

lemma append_range_ok:
  assumes "idl_ok l" "unat n < 2 ^ 31" "unat (idl_alloc l) + 2 ^ 31 + 2 < 2 ^ 64"
  shows "\<exists>l'. mdb_midl_append_range (Some junk) x n l = Inr (0, l') \<and> idl_ok l' \<and>
    idl_view l' = idl_view l @ rev (map (\<lambda>i. x + of_nat i) [0..<unat n])"
proof -
  let ?c = "idl_ids l ! 0" and ?ys = "rev (map (\<lambda>i. x + of_nat i) [0..<unat n])" and ?g = "sint (n OR of_int MDB_IDL_UM_MAX)"
  obtain m where m: "unat n = m" "uint n = int m" by (metis uint_nat)
  obtain k where k: "unat ?c = k" "uint ?c = int k" by (rule word_nat)
  have ys: "length ?ys = m" using m by simp
  have c: "arr_get (idl_ids l) 0 = Inr ?c" by (rule idl_ok_count[OF assms(1)])
  have kl: "k \<le> unat (idl_alloc l)" using assms(1) k by (simp add: idl_ok_def)
  have un: "unat (ucast n :: u64) = m" using m(1) unsigned_less[of n, where 'a = nat]
    by (simp add: unsigned_ucast_eq take_bit_nat_eq_self)
  then have cn: "unat (?c + ucast n) = k + m" using assms(2,3) m k kl by (simp add: unat_sum)
  have "uint n < 2 ^ 31" using assms(2) m by simp
  note g = or_um_max[OF this]
  have lim: "0 \<le> ?g" "uint (idl_alloc l) + ?g + 2 < 2 ^ 64" "k + m \<le> unat (idl_alloc l) + nat ?g"
    using g m(2) assms(3) kl by (rule_tac word_nat[of "idl_alloc l"], simp)+
  have "\<exists>l1. (if idl_alloc l < ?c + ucast n then mdb_midl_grow (Some junk) ?g l else (0, l)) = (0, l1) \<and> grown m l l1"
    using grown_grow[OF assms(1) lim(1,2), of m junk] grown_refl[OF assms(1), of m] lim(3) k cn
    by (auto simp: word_less_nat_alt)
  then obtain l1 where l1: "(if idl_alloc l < ?c + ucast n then mdb_midl_grow (Some junk) ?g l else (0, l)) = (0, l1)"
    "grown (length ?ys) l l1" using ys by auto
  obtain r where r: "idl_ids l1 = ?c # r" "k + m \<le> length r" by (rule grown_ids[OF l1(2)]) (use ys k in auto)
  have "range_fill ((?c + ucast n) # r) (uint ?c) (unat n) x = Inr ((?c + ucast n) # take k r @ ?ys @ drop (k + m) r)"
    using range_fill_ok[of "int k" m "(?c + ucast n) # r" x] r(2) k(2) m(1) by simp
  then have "mdb_midl_append_range (Some junk) x n l =
      Inr (0, l1\<lparr>idl_ids := (?c + ucast n) # take k r @ ?ys @ drop (k + m) r\<rparr>)"
    using c l1(1) r(1) by (simp add: mdb_midl_append_range_def arr_set_def)
  moreover have "of_nat (length ?ys) = (ucast n :: u64)" by (simp add: ys un[symmetric])
  ultimately show ?thesis using write_back(1,2)[OF l1(2)] r k ys by auto
qed

subsection \<open>Allocation\<close>

lemma alloc_ok:
  assumes "0 \<le> num" "num < 2 ^ 31"
  shows "\<exists>l. mdb_midl_alloc (Some junk) num = Inr (Some l) \<and> idl_ok l \<and> idl_view l = [] \<and>
    unat (idl_alloc l) = nat num"
proof -
  have n: "uint (of_int num :: u64) = num" using assms by (simp add: uint_u64)
  have "nat num + 1 = nat (num + 1)" using assms(1) by simp
  moreover have "unat (of_int num :: u64) = nat num" using n by (metis unat_eq_nat_uint)
  ultimately show ?thesis using assms(1)
    by (auto simp: mdb_midl_alloc_def arr_set_def idl_ok_def idl_view_def ids_view_def)
qed

lemma need_ok:
  assumes "idl_ok l" "0 \<le> num" "uint (idl_ids l ! 0) + num < 2 ^ 31"
  shows "\<exists>l'. mdb_midl_need (Some junk) num l = Inr (0, l') \<and> idl_ok l' \<and> idl_view l' = idl_view l \<and>
    unat (idl_ids l ! 0) + nat num \<le> unat (idl_alloc l')"
proof -
  let ?c = "idl_ids l ! 0"
  obtain k where k: "unat ?c = k" "uint ?c = int k" by (rule word_nat)
  obtain a where a: "unat (idl_alloc l) = a" "uint (idl_alloc l) = int a" by (rule word_nat)
  have c: "arr_get (idl_ids l) 0 = Inr ?c" by (rule idl_ok_count[OF assms(1)])
  have len: "length (idl_ids l) = a + 1" "k \<le> a" using assms(1) a k by (simp_all add: idl_ok_def)
  have w: "wrap32 (num + uint ?c) = num + int k" using assms(2,3) k by (simp add: wrap32_id)
  show ?thesis
  proof (cases "int a < num + int k")
    case False
    then have "mdb_midl_need (Some junk) num l = Inr (0, l)" using c w a by (simp add: mdb_midl_need_def)
    moreover have "k + nat num \<le> a" using False assms(2) by simp
    ultimately show ?thesis using assms(1) k(1) a(1) by simp
  next
    case True
    define N where "N = num + int k"
    define M where "M = 256 * ((N + N div 4 + 258) div 256)"
    have N: "0 \<le> N" "N < 2 ^ 31" "int a < N" using assms(2,3) k True by (simp_all add: N_def)
    have wr: "wrap32 (N + N div 4 + 258) = N + N div 4 + 258" by (rule wrap32_id) (use N in auto)
    have "M = N + N div 4 + 258 - (N + N div 4 + 258) mod 256"
      unfolding M_def by (rule minus_mod_eq_mult_div[symmetric])
    moreover have "0 \<le> N div 4" "N div 4 < 2 ^ 29" using N by simp_all
    ultimately have M: "N + 2 \<le> M" "M < 2 ^ 32" using N pos_mod_bound[of 256 "N + N div 4 + 258"]
      pos_mod_sign[of 256 "N + N div 4 + 258"] by simp_all
    have r: "mdb_midl_need (Some junk) num l = Inr (0, (idl_realloc junk M l)\<lparr>idl_alloc := of_int (M - 2)\<rparr>)"
      using c w a N M wr by (simp add: mdb_midl_need_def Let_def N_def[symmetric] M_def[symmetric])
    have "uint (of_int (M - 2) :: u64) = M - 2" by (rule uint_u64) (use M N in simp_all)
    then have u: "unat (of_int (M - 2) :: u64) = nat (M - 2)" by (metis unat_eq_nat_uint)
    let ?ext = "map junk [a + 1..<nat (M - 1)]"
    have ids: "idl_ids (idl_realloc junk M l) = idl_ids l @ ?ext"
      using M N len by (simp add: idl_realloc_def)
    have "idl_ids l \<noteq> []" "unat ?c < length (idl_ids l)" using len k by auto
    then have "idl_ok ((idl_realloc junk M l)\<lparr>idl_alloc := of_int (M - 2)\<rparr>)"
      "idl_view ((idl_realloc junk M l)\<lparr>idl_alloc := of_int (M - 2)\<rparr>) = idl_view l"
      using M N len k u by (auto simp: idl_ok_def idl_view_def ids nth_append ids_view_append)
    moreover have "k + nat num \<le> nat (M - 2)" using M(1) N(1) assms(2) by (simp add: N_def)
    ultimately show ?thesis using r k u by auto
  qed
qed

text \<open>\<^verbatim>\<open>mdb_midl_shrink\<close> allocates one word less than the length it records.\<close>

lemma shrink_short:
  assumes "idl_ok l" "MDB_IDL_UM_MAX < uint (idl_alloc l)" "uint (idl_ids l ! 0) = MDB_IDL_UM_MAX - 1"
  shows "mdb_midl_append mem x (snd (mdb_midl_shrink (Some junk) l)) = Inl Out_of_bounds"
proof -
  let ?l = "snd (mdb_midl_shrink (Some junk) l)" and ?c = "idl_ids l ! 0"
  obtain a where a: "unat (idl_alloc l) = a" "uint (idl_alloc l) = int a" by (rule word_nat)
  have len: "length (idl_ids l) = a + 1" using assms(1) a by (simp add: idl_ok_def)
  have ids: "idl_ids ?l = take 131071 (idl_ids l)" "idl_alloc ?l = 131071"
    using assms(2) a len by (simp_all add: mdb_midl_shrink_def idl_realloc_def MDB_IDL_UM_MAX_def)
  have c: "?c = 131070" using assms(3) by (simp add: MDB_IDL_UM_MAX_def word_uint_eq_iff)
  have g: "arr_get (idl_ids ?l) 0 = Inr ?c" using len ids assms(2) a by (simp add: arr_get_def MDB_IDL_UM_MAX_def)
  have "length (idl_ids ?l) = 131071" using len ids assms(2) a by (simp add: MDB_IDL_UM_MAX_def)
  then show ?thesis using ids(2) by (simp add: mdb_midl_append_def g c arr_set_def)
qed

end
