(* ===== verification/Midl_Merge.thy ===== *)
theory Midl_Merge
  imports Midl_Lists "HOL-Library.Multiset"
begin

section \<open>ID lists: merging and inserting in place\<close>

text \<open>
  \<^verbatim>\<open>mdb_midl_xmerge\<close> merges from the back, so that the ids of the first list that are still to be read are
  not overwritten: at every moment the array is the sentinel, the unread ids, as many free places
  as there are ids left in the second list, and the merged rest. \<^verbatim>\<open>mdb_mid2l_insert\<close> searches and
  shifts.
\<close>

subsection \<open>Merging\<close>

lemma arr_get_int: "i < length xs \<Longrightarrow> arr_get xs (int i) = Inr (xs ! i)"
  by (simp add: arr_get_def)

lemma arr_set_int: "i < length xs \<Longrightarrow> arr_set xs (int i) x = Inr (xs[i := x])"
  by (simp add: arr_set_def)

lemma arr_set_last:
  "xs \<noteq> [] \<Longrightarrow> k = int (length pre + length xs) - 1 \<Longrightarrow>
     arr_set (pre @ xs @ post) k x = Inr (pre @ butlast xs @ x # post)"
proof -
  assume a: "xs \<noteq> []" "k = int (length pre + length xs) - 1"
  then obtain ys y where xs: "xs = ys @ [y]" by (metis append_butlast_last_id)
  then have "nat k = length (pre @ ys)" using a(2) by simp
  then show ?thesis using a xs list_update_length[of "pre @ ys" y post x] by (simp add: arr_set_def)
qed

lemma move_spec:
  assumes "j \<le> length A" "length X = Suc i" "E = max_id # take j A @ X @ S @ rest" "max_id = -1"
  shows "\<exists>j' X'. j' \<le> j \<and> length X' = Suc i \<and> (\<forall>a \<in> set (drop j' (take j A)). a < m) \<and>
    (0 < j' \<longrightarrow> m \<le> A ! (j' - 1)) \<and>
    xmerge_move m (E ! j) (int j) (int (j + Suc i)) E =
      Inr ((max_id # A) ! j', int j', int (j' + Suc i), max_id # take j' A @ X' @ drop j' (take j A) @ S @ rest)"
  using assms(1-3)
proof (induction j arbitrary: X S E)
  case 0
  have "\<not> (-1 :: mdb_id) < m" by (rule word_order.extremum_strict)
  then show ?case using 0 assms(4) by (subst xmerge_move.simps) auto
next
  case (Suc j)
  have E: "E ! Suc j = A ! j" using Suc.prems by (simp add: nth_append)
  note unf = xmerge_move.simps[of m "E ! Suc j" "int (Suc j)" "int (Suc j + Suc i)" E]
  show ?case
  proof (cases "A ! j < m")
    case False
    then have "xmerge_move m (E ! Suc j) (int (Suc j)) (int (Suc j + Suc i)) E =
        Inr (E ! Suc j, int (Suc j), int (Suc j + Suc i), E)" by (subst xmerge_move.simps) (simp add: E)
    then show ?thesis using Suc.prems False E by (intro exI[of _ "Suc j"] exI[of _ X]) simp
  next
    case True
    let ?E = "max_id # take (Suc j) A @ butlast X @ A ! j # S @ rest"
    have tk: "take (Suc j) A = take j A @ [A ! j]" using Suc.prems(1) by (simp add: take_Suc_conv_app_nth)
    have X: "X \<noteq> []" using Suc.prems(2) by auto
    have set: "arr_set E (int (Suc j + Suc i)) (A ! j) = Inr ?E"
      using arr_set_last[OF X, of "int (Suc j + Suc i)" "max_id # take (Suc j) A" "S @ rest" "A ! j"] Suc.prems by simp
    have get: "arr_get ?E (int j) = Inr (?E ! j)" by (rule arr_get_int) (use Suc.prems in auto)
    have ar: "int (Suc j) - 1 = int j" "\<not> int j < 0" "int (Suc j + Suc i) - 1 = int (j + Suc i)" by simp_all
    have rec: "xmerge_move m (E ! Suc j) (int (Suc j)) (int (Suc j + Suc i)) E =
        xmerge_move m (?E ! j) (int j) (int (j + Suc i)) ?E"
      by (subst xmerge_move.simps) (simp only: E True if_True if_False set get bindE_Inr ar)
    have "\<exists>j' X'. j' \<le> j \<and> length X' = Suc i \<and> (\<forall>a \<in> set (drop j' (take j A)). a < m) \<and>
        (0 < j' \<longrightarrow> m \<le> A ! (j' - 1)) \<and>
        xmerge_move m (?E ! j) (int j) (int (j + Suc i)) ?E =
          Inr ((max_id # A) ! j', int j', int (j' + Suc i),
            max_id # take j' A @ X' @ drop j' (take j A) @ (A ! j # S) @ rest)"
      by (rule Suc.IH[where X = "A ! j # butlast X"]) (use Suc.prems tk in auto)
    then obtain j' X' where r: "j' \<le> j" "length X' = Suc i" "\<forall>a \<in> set (drop j' (take j A)). a < m"
      "0 < j' \<longrightarrow> m \<le> A ! (j' - 1)" "xmerge_move m (?E ! j) (int j) (int (j + Suc i)) ?E =
          Inr ((max_id # A) ! j', int j', int (j' + Suc i),
            max_id # take j' A @ X' @ drop j' (take j A) @ (A ! j # S) @ rest)" by blast
    moreover have "drop j' (take (Suc j) A) = drop j' (take j A) @ [A ! j]" using r(1) Suc.prems(1) tk by simp
    ultimately show ?thesis unfolding rec using True by (intro exI[of _ j'] exI[of _ X']) auto
  qed
qed

lemma merge_loop_spec:
  assumes "j \<le> length A" "i \<le> length B" "length X = i" "E = max_id # take j A @ X @ S @ rest" "max_id = -1"
    "\<And>p. p < length B \<Longrightarrow> arr_get merge (int (Suc p)) = Inr (B ! p)"
    "descending A" "descending B" "descending (take j A @ S)" "descending (take i B @ S)"
  shows "\<exists>R. xmerge_loop merge i (E ! j) (int j) (int (j + i)) E = Inr (max_id # R @ rest) \<and> descending R \<and>
    mset R = mset (take j A) + mset (take i B) + mset S"
  using assms(1-4,9,10)
proof (induction i arbitrary: j X E S)
  case 0
  then show ?case by (intro exI[of _ "take j A @ S"]) simp
next
  case (Suc i)
  let ?m = "B ! i"
  obtain j' X' where mv: "j' \<le> j" "length X' = Suc i" "\<forall>a \<in> set (drop j' (take j A)). a < ?m"
    "0 < j' \<longrightarrow> ?m \<le> A ! (j' - 1)" "xmerge_move ?m (E ! j) (int j) (int (j + Suc i)) E =
      Inr ((max_id # A) ! j', int j', int (j' + Suc i), max_id # take j' A @ X' @ drop j' (take j A) @ S @ rest)"
    using move_spec[OF Suc.prems(1) _ Suc.prems(4) assms(5), of i ?m] Suc.prems(3) by blast
  let ?S = "drop j' (take j A) @ S"
  let ?E = "max_id # take j' A @ butlast X' @ (?m # ?S) @ rest"
  have X': "X' \<noteq> []" using mv(2) by auto
  have set: "arr_set (max_id # take j' A @ X' @ drop j' (take j A) @ S @ rest) (int (j' + Suc i)) ?m = Inr ?E"
    using arr_set_last[OF X', of "int (j' + Suc i)" "max_id # take j' A" "?S @ rest" ?m] mv(1,2) Suc.prems(1) by simp
  have B: "take (Suc i) B = take i B @ [?m]" using Suc.prems(2) by (simp add: take_Suc_conv_app_nth)
  have A: "take j A = take j' A @ drop j' (take j A)" using append_take_drop_id[of j' "take j A"] mv(1)
    by (simp add: min_absorb1)
  have below: "\<forall>a \<in> set (take j' A). ?m \<le> a"
  proof
    fix a assume "a \<in> set (take j' A)"
    then obtain p where p: "p < j'" "a = A ! p" "p < length A" by (auto simp: in_set_conv_nth)
    have "A ! (j' - 1) \<le> A ! p"
    proof (cases "p = j' - 1")
      case False
      then show ?thesis using sorted_wrt_nth_less[OF assms(7), of p "j' - 1"] p mv(1) Suc.prems(1) by simp
    qed simp
    then show "?m \<le> a" using mv(4) p by auto
  qed
  have above: "\<forall>s \<in> set ?S. s \<le> ?m"
    using mv(3) Suc.prems(6) by (auto simp: B sorted_wrt_append)
  have dS: "descending (take j' A @ ?S)" using Suc.prems(5) A by (metis append.assoc)
  have "\<forall>x \<in> set (take i B). ?m \<le> x" using Suc.prems(6) by (auto simp: B sorted_wrt_append)
  then have trans: "\<forall>x \<in> set (take i B). \<forall>y \<in> set ?S. y \<le> x" using above order_trans by blast
  have "descending (take j' A @ ?m # ?S)" "descending (take i B @ ?m # ?S)"
    using dS below above trans Suc.prems(6) by (auto simp: B sorted_wrt_append)
  then have "\<exists>R. xmerge_loop merge i (?E ! j') (int j') (int (j' + i)) ?E = Inr (max_id # R @ rest) \<and> descending R \<and>
      mset R = mset (take j' A) + mset (take i B) + mset (?m # ?S)"
    by (intro Suc.IH) (use mv(1,2) Suc.prems in auto)
  then obtain R where R: "xmerge_loop merge i (?E ! j') (int j') (int (j' + i)) ?E = Inr (max_id # R @ rest)"
    "descending R" "mset R = mset (take j' A) + mset (take i B) + mset (?m # ?S)" by blast
  have Ej: "?E ! j' = (max_id # A) ! j'" using mv(1) Suc.prems(1) by (cases j') (auto simp: nth_append)
  have "int (j' + Suc i) - 1 = int (j' + i)" by simp
  moreover have "arr_get merge (int (Suc i)) = Inr ?m" using assms(6)[of i] Suc.prems(2) by simp
  ultimately have "xmerge_loop merge (Suc i) (E ! j) (int j) (int (j + Suc i)) E = Inr (max_id # R @ rest)"
    using R(1) by (simp only: xmerge_loop.simps bindE_Inr mv(5) prod.case set Ej)
  moreover have "mset R = mset (take j A) + mset (take (Suc i) B) + mset S"
    using R(3) by (subst A) (simp add: B)
  ultimately show ?case using R(2) by blast
qed

lemma xmerge_ok:
  assumes idl: "unat (idl ! 0) + unat (merge ! 0) < length idl" and merge: "unat (merge ! 0) < length merge"
    and small: "length idl \<le> 2 ^ 64"
    and sorted: "descending (ids_view idl)" "descending (ids_view merge)"
  shows "\<exists>idl'. mdb_midl_xmerge idl merge = Inr idl' \<and> length idl' = length idl \<and> descending (ids_view idl') \<and>
    mset (ids_view idl') = mset (ids_view idl) + mset (ids_view merge) \<and>
    unat (idl' ! 0) = unat (idl ! 0) + unat (merge ! 0)"
proof -
  let ?A = "ids_view idl" and ?B = "ids_view merge"
  obtain i where i: "unat (merge ! 0) = i" "uint (merge ! 0) = int i" by (rule word_nat)
  obtain j where j: "unat (idl ! 0) = j" "uint (idl ! 0) = int j" by (rule word_nat)
  obtain c r where cr: "idl = c # r" using idl by (cases idl) auto
  have A: "?A = take j r" "length ?A = j" using idl j cr by (auto simp: ids_view_def)
  have B: "length ?B = i" using length_ids_view[OF merge] i by simp
  have Bp: "arr_get merge (int (Suc p)) = Inr (?B ! p)" if "p < length ?B" for p
    using nth_ids_view[OF merge] arr_get_int[of "Suc p" merge] that B merge i by simp
  define X where "X = take i (drop j r)"
  define rest where "rest = drop (j + i) r"
  have X: "length X = i" "r = ?A @ X @ rest" using idl cr i j A
    by (auto simp: X_def rest_def) (metis append_take_drop_id drop_drop add.commute)
  let ?E = "(-1) # take j ?A @ X @ [] @ rest"
  obtain R where R: "xmerge_loop merge i (?E ! j) (int j) (int (j + i)) ?E = Inr ((-1) # R @ rest)" "descending R"
    "mset R = mset (take j ?A) + mset (take i ?B) + mset []"
    using merge_loop_spec[of j ?A i ?B X ?E "-1" "[]" rest merge, OF _ _ X(1) refl refl Bp sorted] A(2) B sorted
    by auto
  have tot: "unat (merge ! 0 + idl ! 0) = j + i" using idl small i j by (simp add: unat_sum add.commute)
  have uc: "uint (merge ! 0 + idl ! 0) = int (j + i)" by (simp only: uint_nat tot)
  have rE: "(-1) # r = ?E" using X(2) A(2) by (metis append_Nil order_refl take_all)
  have Ej: "arr_get ?E (int j) = Inr (?E ! j)" by (rule arr_get_int) (use A(2) in simp)
  have lenR: "length R = j + i" using arg_cong[OF R(3), of size] A(2) B by simp
  have "arr_set idl 0 (-1) = Inr ?E" using cr rE[symmetric] by (simp add: arr_set_def)
  moreover have "arr_get merge 0 = Inr (merge ! 0)" "arr_get idl 0 = Inr (idl ! 0)"
    by (rule arr_get_0; use merge cr in auto)+
  moreover have "arr_set ((-1) # R @ rest) 0 (merge ! 0 + idl ! 0) = Inr ((merge ! 0 + idl ! 0) # R @ rest)"
    by (simp add: arr_set_def)
  ultimately have "mdb_midl_xmerge idl merge = Inr ((merge ! 0 + idl ! 0) # R @ rest)"
    by (simp only: mdb_midl_xmerge_def Let_def bindE_Inr j(2) i(1) uc Ej R(1))
  moreover have "ids_view ((merge ! 0 + idl ! 0) # R @ rest) = R" using tot lenR by (simp add: ids_view_def)
  moreover have "length ((merge ! 0 + idl ! 0) # R @ rest) = length idl"
    using lenR arg_cong[OF X(2), of length] A(2) X(1) by (simp add: cr)
  ultimately show ?thesis using R(2,3) A(2) B tot i j by simp
qed

subsection \<open>Inserting a pair\<close>

lemma shift_up_spec:
  "x \<le> i \<Longrightarrow> i < length ids \<Longrightarrow> shift_up (int x) (int i) ids =
     Inr (take (Suc x) ids @ drop x (take i ids) @ drop (Suc i) ids)"
proof (induction i arbitrary: ids)
  case 0
  then show ?case using append_take_drop_id[of "Suc 0" ids] by (subst shift_up.simps) simp
next
  case (Suc i)
  show ?case
  proof (cases "x = Suc i")
    case True
    then show ?thesis using append_take_drop_id[of "Suc (Suc i)" ids] Suc.prems by (subst shift_up.simps) simp
  next
    case False
    let ?ids = "ids[Suc i := ids ! i]"
    have get: "arr_get ids (int i) = Inr (ids ! i)" by (rule arr_get_int) (use Suc.prems in simp)
    have set: "arr_set ids (int (Suc i)) (ids ! i) = Inr ?ids" using Suc.prems by (intro arr_set_int) simp
    have ar: "int x < int (Suc i) = True" "int (Suc i) - 1 = int i" using False Suc.prems(1) by auto
    have "shift_up (int x) (int (Suc i)) ids = shift_up (int x) (int i) ?ids"
      by (subst shift_up.simps) (simp only: ar if_True get set bindE_Inr)
    also have "\<dots> = Inr (take (Suc x) ?ids @ drop x (take i ?ids) @ drop (Suc i) ?ids)"
      using Suc.IH[of ?ids] False Suc.prems by simp
    also have "take (Suc x) ?ids = take (Suc x) ids" using False Suc.prems(1) by simp
    also have "take i ?ids = take i ids" by simp
    also have "drop (Suc i) ?ids = ids ! i # drop (Suc (Suc i)) ids"
      using Suc.prems(2) by (simp add: drop_update_swap Cons_nth_drop_Suc[symmetric])
    also have "drop x (take i ids) @ ids ! i # drop (Suc (Suc i)) ids = drop x (take (Suc i) ids) @ drop (Suc (Suc i)) ids"
      using False Suc.prems by (simp add: take_Suc_conv_app_nth)
    finally show ?thesis .
  qed
qed

definition pairs_view :: "(mdb_id \<times> 'p) list \<Rightarrow> (mdb_id \<times> 'p) list" where
  "pairs_view ids = take (unat (fst (ids ! 0))) (tl ids)"

definition pairs_ok :: "(mdb_id \<times> 'p) list \<Rightarrow> bool" where
  "pairs_ok ids \<longleftrightarrow> int (length ids) = MDB_IDL_UM_MAX + 1 \<and> uint (fst (ids ! 0)) \<le> MDB_IDL_UM_MAX \<and>
     sorted_wrt (\<lambda>a b. fst a < fst b) (pairs_view ids)"

lemma pairs_nth:
  assumes "pairs_ok ids"
  shows "length (pairs_view ids) = unat (fst (ids ! 0))"
    "i < unat (fst (ids ! 0)) \<Longrightarrow> ids ! Suc i = pairs_view ids ! i"
    "unat (fst (ids ! 0)) < length ids"
proof -
  obtain n where n: "unat (fst (ids ! 0)) = n" "uint (fst (ids ! 0)) = int n" by (rule word_nat)
  have "n < length ids" using assms n by (simp add: pairs_ok_def)
  then show "length (pairs_view ids) = unat (fst (ids ! 0))"
    "i < unat (fst (ids ! 0)) \<Longrightarrow> ids ! Suc i = pairs_view ids ! i" "unat (fst (ids ! 0)) < length ids"
    using n by (auto simp: pairs_view_def nth_tl)
qed

text \<open>Where the search stops: at the id, or between the smaller and the larger ids.\<close>

lemma mid2l_search_view:
  assumes "pairs_ok ids"
  shows "\<exists>k \<le> length (pairs_view ids). mdb_mid2l_search ids x = Inr (int k + 1) \<and>
    (if x \<in> fst ` set (pairs_view ids) then k < length (pairs_view ids) \<and> fst (pairs_view ids ! k) = x
     else (\<forall>p \<in> set (take k (pairs_view ids)). fst p < x) \<and> (\<forall>p \<in> set (drop k (pairs_view ids)). x < fst p))"
proof -
  let ?v = "pairs_view ids"
  obtain n where n: "unat (fst (ids ! 0)) = n" "uint (fst (ids ! 0)) = int n" by (rule word_nat)
  note v = pairs_nth[OF assms, unfolded n(1)]
  have at: "ids ! nat i = ?v ! nat (i - 1)" if "1 \<le> i" "i \<le> int n" for i
  proof -
    have "nat i = Suc (nat (i - 1))" "nat (i - 1) < n" using that by auto
    then show ?thesis using v(2) by simp
  qed
  have sorted: "fst (?v ! i) < fst (?v ! j)" if "i < j" "j < n" for i j
    using assms that v(1) by (simp add: pairs_ok_def sorted_wrt_iff_nth_less)
  have "\<exists>c. mdb_mid2l_search ids x = Inr c \<and> found_at (\<lambda>i. CMP x (fst (ids ! nat i))) (int n) c"
  proof (rule mid2l_search_spec)
    fix i j assume ij: "1 \<le> i" "i \<le> j" "j \<le> int n"
    then have "nat (j - 1) < n" by simp
    then show "fst (ids ! nat i) \<le> fst (ids ! nat j)"
      using sorted[of "nat (i - 1)" "nat (j - 1)"] ij by (cases "i = j") (simp_all add: at)
  qed (use n v(3) assms in \<open>auto simp: pairs_ok_def MDB_IDL_UM_MAX_def\<close>)
  then obtain c where c: "mdb_mid2l_search ids x = Inr c" "found_at (\<lambda>i. CMP x (fst (ids ! nat i))) (int n) c" by blast
  define k where "k = nat (c - 1)"
  have k: "c = int k + 1" "k \<le> n" using c(2) by (auto simp: found_at_def k_def)
  have kth: "fst (ids ! nat c) = fst (?v ! k)" if "k < n" using that at[of c] k by simp
  show ?thesis
  proof (cases "k < n \<and> fst (?v ! k) = x")
    case True
    then have "x \<in> fst ` set ?v" using v(1) by (auto intro: rev_image_eqI)
    then show ?thesis using True k c(1) v(1) by auto
  next
    case False
    then have gt: "\<And>i. 1 \<le> i \<Longrightarrow> i < c \<Longrightarrow> fst (ids ! nat i) < x" and lt: "\<And>i. c \<le> i \<Longrightarrow> i \<le> int n \<Longrightarrow> x < fst (ids ! nat i)"
      using c(2) kth k by (auto simp: found_at_def)
    have lo: "\<forall>p \<in> set (take k ?v). fst p < x"
    proof
      fix p assume "p \<in> set (take k ?v)"
      then obtain i where i: "i < k" "p = ?v ! i" "i < n" using v(1) by (auto simp: in_set_conv_nth)
      then show "fst p < x" using gt[of "int i + 1"] at[of "int i + 1"] k by simp
    qed
    have hi: "\<forall>p \<in> set (drop k ?v). x < fst p"
    proof
      fix p assume "p \<in> set (drop k ?v)"
      then obtain i where "i < length (drop k ?v)" "p = drop k ?v ! i" by (auto simp: in_set_conv_nth)
      then have i: "k + i < n" "p = ?v ! (k + i)" using v(1) by auto
      then show "x < fst p" using lt[of "int (k + i) + 1"] at[of "int (k + i) + 1"] k
        by (simp del: of_nat_add)
    qed
    have "set ?v = set (take k ?v) \<union> set (drop k ?v)" by (metis append_take_drop_id set_append)
    then have "x \<notin> fst ` set ?v" using lo hi by fastforce
    then show ?thesis using k c(1) v(1) lo hi by auto
  qed
qed

lemma mid2l_insert_cases:
  assumes ok: "pairs_ok ids"
  shows "if fst y \<in> fst ` set (pairs_view ids) then mdb_mid2l_insert y ids = Inr (-1, ids)
    else if uint (fst (ids ! 0)) = MDB_IDL_UM_MAX then mdb_mid2l_insert y ids = Inr (-2, ids)
    else \<exists>ids' k. mdb_mid2l_insert y ids = Inr (0, ids') \<and> pairs_ok ids' \<and>
      pairs_view ids' = take k (pairs_view ids) @ y # drop k (pairs_view ids)"
proof -
  let ?v = "pairs_view ids" and ?h = "ids ! 0"
  obtain n where n: "unat (fst ?h) = n" "uint (fst ?h) = int n" by (rule word_nat)
  note v = pairs_nth[OF ok, unfolded n(1)]
  have nm: "int n \<le> MDB_IDL_UM_MAX" and L: "int (length ids) = MDB_IDL_UM_MAX + 1" using ok n by (simp_all add: pairs_ok_def)
  obtain k where k: "k \<le> n" "mdb_mid2l_search ids (fst y) = Inr (int k + 1)"
    "if fst y \<in> fst ` set ?v then k < n \<and> fst (?v ! k) = fst y
     else (\<forall>p \<in> set (take k ?v). fst p < fst y) \<and> (\<forall>p \<in> set (drop k ?v). fst y < fst p)"
    using mid2l_search_view[OF ok, of "fst y"] v(1) by auto
  have hd: "arr_get ids 0 = Inr ?h" by (rule arr_get_0) (use v(3) in auto)
  have ik: "int k + 1 = int (Suc k)" "\<not> int (Suc k) < 1" by simp_all
  have dup: "(if int (Suc k) \<le> int n then bindE (arr_get ids (int (Suc k))) (\<lambda>z. Inr (fst z = fst y)) else Inr False) =
      Inr (fst y \<in> fst ` set ?v)"
  proof (cases "k < n")
    case True
    then have "arr_get ids (int (Suc k)) = Inr (?v ! k)" using arr_get_int[of "Suc k" ids] v by simp
    moreover have "?v ! k \<in> set (drop k ?v)" using True v(1) by (metis Cons_nth_drop_Suc list.set_intros(1))
    ultimately show ?thesis using True k(3) by (auto split: if_splits)
  qed (use k(3) in \<open>auto split: if_splits\<close>)
  have start: "mdb_mid2l_insert y ids =
      (if fst y \<in> fst ` set ?v then Inr (-1, ids)
       else if MDB_IDL_UM_MAX \<le> int n then Inr (-2, ids)
       else bindE (arr_set ids 0 (fst ?h + 1, snd ?h)) (\<lambda>ids.
         bindE (shift_up (int (Suc k)) (wrap32 (uint (fst ?h + 1))) ids) (\<lambda>ids.
         bindE (arr_set ids (int (Suc k)) y) (\<lambda>ids. Inr (0, ids)))))"
    by (simp only: mdb_mid2l_insert_def k(2) bindE_Inr hd ik if_False n(2) dup)
  show ?thesis
  proof (cases "fst y \<in> fst ` set ?v \<or> int n = MDB_IDL_UM_MAX")
    case True
    then show ?thesis using start n(2) by auto
  next
    case False
    then have lt: "int n < MDB_IDL_UM_MAX" using nm by simp
    obtain r where r: "ids = ?h # r" using v(3) by (cases ids) auto
    let ?h' = "(fst ?h + 1, snd ?h)"
    have u: "unat (fst ?h + 1) = Suc n" using lt n(1) unat_Suc[of "fst ?h"] by (simp add: MDB_IDL_UM_MAX_def)
    have ui: "uint (fst ?h + 1) = int (Suc n)" by (simp only: uint_nat u)
    have "wrap32 (int (Suc n)) = int (Suc n)" by (rule wrap32_id) (use lt in \<open>simp_all add: MDB_IDL_UM_MAX_def\<close>)
    then have w: "wrap32 (uint (fst ?h + 1)) = int (Suc n)" by (simp only: ui)
    have lr: "Suc n \<le> length r" using lt L arg_cong[OF r, of length] by simp
    have s0: "arr_set ids 0 ?h' = Inr (?h' # r)" by (subst r) (simp add: arr_set_def)
    have s1: "shift_up (int (Suc k)) (int (Suc n)) (?h' # r) = Inr (?h' # take (Suc k) r @ drop k (take n r) @ drop (Suc n) r)"
      using shift_up_spec[of "Suc k" "Suc n" "?h' # r"] k(1) lr by simp
    have tk: "take (Suc k) r \<noteq> []" using lr by auto
    have s2: "arr_set (?h' # take (Suc k) r @ drop k (take n r) @ drop (Suc n) r) (int (Suc k)) y =
        Inr (?h' # take k r @ y # drop k (take n r) @ drop (Suc n) r)"
      using arr_set_last[OF tk, of "int (Suc k)" "[?h']" "drop k (take n r) @ drop (Suc n) r" y] k(1) lr
      by (simp add: butlast_take)
    define ids' where "ids' = ?h' # take k r @ y # drop k (take n r) @ drop (Suc n) r"
    have ins: "mdb_mid2l_insert y ids = Inr (0, ids')"
      using False lt by (simp only: start s0 s1 s2 w bindE_Inr ids'_def) simp
    have vr: "?v = take n r" using r n(1) by (metis list.sel(3) pairs_view_def)
    have "pairs_view ids' = take (Suc n) (take k r @ y # drop k (take n r) @ drop (Suc n) r)"
      using u by (simp add: pairs_view_def ids'_def)
    also have "\<dots> = take k (take n r) @ y # drop k (take n r)"
      using k(1) lr by (simp add: Suc_diff_le min_absorb1)
    finally have view: "pairs_view ids' = take k ?v @ y # drop k ?v" by (simp only: vr)
    have srt: "sorted_wrt (\<lambda>a b. fst a < fst b) (take k ?v @ drop k ?v)" using ok by (simp add: pairs_ok_def)
    have "sorted_wrt (\<lambda>a b. fst a < fst b) (pairs_view ids')"
      using srt k(3) False unfolding view sorted_wrt_append by (auto intro: less_trans)
    moreover have "length ids' = length ids" using k(1) lr arg_cong[OF r, of length] by (simp add: ids'_def)
    moreover have "uint (fst (ids' ! 0)) \<le> MDB_IDL_UM_MAX" using lt ui by (simp add: ids'_def)
    ultimately have "pairs_ok ids'" using L by (simp add: pairs_ok_def)
    then show ?thesis using ins view False n(2) by auto
  qed
qed

subsection \<open>Appending one by one\<close>

text \<open>What a caller relies on when it collects ids: \<open>ok k l\<close> is a list with room for \<open>k\<close> more.\<close>

locale appendable =
  fixes app :: "'x \<Rightarrow> 'l \<Rightarrow> fault + int \<times> 'l" and view :: "'l \<Rightarrow> 'x list" and ok :: "nat \<Rightarrow> 'l \<Rightarrow> bool"
  assumes app_one: "ok (Suc k) l \<Longrightarrow> \<exists>l'. app x l = Inr (0, l') \<and> ok k l' \<and> view l' = view l @ [x]"
begin

lemma app_all:
  "ok (length xs + k) l \<Longrightarrow> \<exists>l'. foldE (\<lambda>x l. bindE (app x l) (\<lambda>(_, l). Inr l)) xs l = Inr l' \<and> ok k l' \<and>
     view l' = view l @ xs"
proof (induction xs arbitrary: l)
  case (Cons x xs)
  obtain l1 where l1: "app x l = Inr (0, l1)" "ok (length xs + k) l1" "view l1 = view l @ [x]"
    using app_one[of "length xs + k" l x] Cons.prems by auto
  obtain l' where "foldE (\<lambda>x l. bindE (app x l) (\<lambda>(_, l). Inr l)) xs l1 = Inr l'" "ok k l'" "view l' = view l1 @ xs"
    using Cons.IH[OF l1(2)] by blast
  then show ?case using l1 by auto
qed auto

end

definition idl_room :: "nat \<Rightarrow> idl \<Rightarrow> bool" where
  "idl_room k l \<longleftrightarrow> idl_ok l \<and> unat (idl_alloc l) \<le> 2 ^ 62 \<and> unat (idl_ids l ! 0) + k + 131071 \<le> 2 ^ 62"

lemma append_alloc:
  "mdb_midl_append mem x l = Inr (0, l') \<Longrightarrow>
     idl_alloc l' = (if idl_alloc l \<le> idl_ids l ! 0 then idl_alloc l + of_int MDB_IDL_UM_MAX else idl_alloc l)"
  by (cases mem) (auto simp: mdb_midl_append_def mdb_midl_grow_def idl_realloc_def ENOMEM_def split: if_splits)

lemma idl_room_append:
  assumes "idl_room (Suc k) l"
  shows "\<exists>l'. mdb_midl_append (Some junk) x l = Inr (0, l') \<and> idl_room k l' \<and> idl_view l' = idl_view l @ [x]"
proof -
  obtain a where a: "unat (idl_alloc l) = a" "uint (idl_alloc l) = int a" by (rule word_nat)
  obtain n where n: "unat (idl_ids l ! 0) = n" by blast
  have ok: "idl_ok l" and b: "a \<le> 2 ^ 62" "n + Suc k + 131071 \<le> 2 ^ 62" using assms a n by (simp_all add: idl_room_def)
  have "uint (idl_alloc l) + MDB_IDL_UM_MAX + 2 < 2 ^ 64" using a(2) b(1) by (simp add: MDB_IDL_UM_MAX_def)
  from append_ok[OF ok this] obtain l' where l': "mdb_midl_append (Some junk) x l = Inr (0, l')" "idl_ok l'"
    "idl_view l' = idl_view l @ [x]" by blast
  have "length (idl_view l') = unat (idl_ids l' ! 0)" "length (idl_view l) = n"
    using l'(2) ok n by (simp_all add: idl_view_def length_ids_view idl_ok_def)
  then have n': "unat (idl_ids l' ! 0) = Suc n" using l'(3) by simp
  have "unat (idl_alloc l') \<le> 2 ^ 62"
  proof (cases "idl_alloc l \<le> idl_ids l ! 0")
    case True
    then have "a = n" using a(1) n ok by (simp add: word_le_nat_alt idl_ok_def)
    moreover have "unat (of_int MDB_IDL_UM_MAX :: u64) = 131071" by (simp add: MDB_IDL_UM_MAX_def)
    ultimately show ?thesis using append_alloc[OF l'(1)] True a(1) b
      by (simp add: unat_sum)
  next
    case False
    then show ?thesis using append_alloc[OF l'(1)] a(1) b(1) by simp
  qed
  then show ?thesis using l' n' b(2) by (simp add: idl_room_def)
qed

interpretation idl_seq: appendable "mdb_midl_append (Some junk)" idl_view idl_room for junk
  by unfold_locales (rule idl_room_append)

definition pairs_room :: "nat \<Rightarrow> (mdb_id \<times> 'p) list \<Rightarrow> bool" where
  "pairs_room k ids \<longleftrightarrow> length ids = 131072 \<and> unat (fst (ids ! 0)) + k \<le> 131071"

lemma pairs_room_append:
  assumes "pairs_room (Suc k) ids"
  shows "\<exists>ids'. mdb_mid2l_append y ids = Inr (0, ids') \<and> pairs_room k ids' \<and> pairs_view ids' = pairs_view ids @ [y]"
proof -
  obtain h r where ids: "ids = h # r" using assms by (cases ids) (auto simp: pairs_room_def)
  obtain n where n: "unat (fst h) = n" "uint (fst h) = int n" by (rule word_nat)
  have b: "length r = 131071" "n + Suc k \<le> 131071" using assms ids n by (simp_all add: pairs_room_def)
  have u: "unat (fst h + 1) = Suc n" using b(2) n(1) unat_Suc[of "fst h"] by simp
  have ui: "uint (fst h + 1) = int (Suc n)" by (simp only: uint_nat u)
  have get: "arr_get ids 0 = Inr h" using ids by (simp add: arr_get_def)
  have nf: "\<not> MDB_IDL_UM_MAX \<le> int n" using b(2) by (simp add: MDB_IDL_UM_MAX_def)
  have s0: "arr_set ids 0 (fst h + 1, snd h) = Inr ((fst h + 1, snd h) # r)" using ids by (simp add: arr_set_def)
  have s1: "arr_set ((fst h + 1, snd h) # r) (int (Suc n)) y = Inr ((fst h + 1, snd h) # r[n := y])"
    by (subst arr_set_int) (use b in auto)
  have "mdb_mid2l_append y ids = Inr (0, (fst h + 1, snd h) # r[n := y])"
    by (simp only: mdb_mid2l_append_def get bindE_Inr n(2) nf if_False s0 ui s1)
  moreover have "take (Suc n) (r[n := y]) = take n r @ [y]" using b by (intro take_Suc_update) simp
  ultimately show ?thesis using u b n(1) ids by (simp add: pairs_room_def pairs_view_def)
qed

interpretation pair_seq: appendable mdb_mid2l_append pairs_view pairs_room
  by unfold_locales (rule pairs_room_append)

end
