(* ===== verification/Midl_Sort.thy ===== *)
theory Midl_Sort
  imports Midl_Merge
begin

section \<open>ID lists: sorting (midl.c)\<close>

text \<open>
  \<^verbatim>\<open>mdb_midl_sort\<close>: quicksort with the median of three, an explicit stack of 64 \<^verbatim>\<open>int\<close>s, and insertion sort
  for short segments, in descending order. The stack holds pairs of bounds and is a list of pairs
  here, its top first; a push checks the index \<^verbatim>\<open>jstack\<close> against the size of the array \<^verbatim>\<open>istack\<close>.
\<close>

lemma bindE_cong [fundef_cong]:
  "m = m' \<Longrightarrow> (\<And>x. m' = Inr x \<Longrightarrow> k x = k' x) \<Longrightarrow> bindE m k = bindE m' k'"
  by (cases m') simp_all

subsection \<open>The code\<close>

definition SMALL :: int where "SMALL = 8"

text \<open>Insertion sort: the inner and the outer loop.\<close>

function ins_shift :: "mdb_id \<Rightarrow> int \<Rightarrow> mdb_id list \<Rightarrow> fault + int \<times> mdb_id list" where
  "ins_shift a i ids =
     (if 1 \<le> i
      then
        bindE (arr_get ids i) (\<lambda>y.
        if a \<le> y then Inr (i, ids)
        else bindE (arr_set ids (i + 1) y) (ins_shift a (i - 1)))
      else Inr (i, ids))"
  by pat_completeness auto
termination
  by (relation "measure (\<lambda>(a, i, ids). nat i)") auto

function ins_sort :: "int \<Rightarrow> int \<Rightarrow> mdb_id list \<Rightarrow> fault + mdb_id list" where
  "ins_sort j ir ids =
     (if j \<le> ir
      then
        bindE (arr_get ids j) (\<lambda>a.
        bindE (ins_shift a (j - 1) ids) (\<lambda>(i, ids).
        bindE (arr_set ids (i + 1) a) (ins_sort (j + 1) ir)))
      else Inr ids)"
  by pat_completeness auto
termination
  by (relation "measure (\<lambda>(j, ir, ids). nat (ir + 1 - j))") auto

definition MIDL_SWAP :: "int \<Rightarrow> int \<Rightarrow> mdb_id list \<Rightarrow> fault + mdb_id list" where
  "MIDL_SWAP p q ids =
     bindE (arr_get ids p) (\<lambda>itmp.
     bindE (arr_get ids q) (\<lambda>y.
     bindE (arr_set ids p y) (\<lambda>ids.
     arr_set ids q itmp)))"

text \<open>The scans \<^verbatim>\<open>do i++; while (ids[i] > a)\<close> and \<^verbatim>\<open>do j--; while (ids[j] < a)\<close>.\<close>

function scan_up :: "mdb_id \<Rightarrow> int \<Rightarrow> mdb_id list \<Rightarrow> fault + int" where
  "scan_up a i ids = bindE (arr_get ids (i + 1)) (\<lambda>y. if a < y then scan_up a (i + 1) ids else Inr (i + 1))"
  by pat_completeness auto
termination
  by (relation "measure (\<lambda>(a, i, ids). nat (int (length ids) - i))") auto

function scan_down :: "mdb_id \<Rightarrow> int \<Rightarrow> mdb_id list \<Rightarrow> fault + int" where
  "scan_down a j ids = bindE (arr_get ids (j - 1)) (\<lambda>y. if y < a then scan_down a (j - 1) ids else Inr (j - 1))"
  by pat_completeness auto
termination
  by (relation "measure (\<lambda>(a, j, ids). nat j)") auto

declare ins_shift.simps [simp del] ins_sort.simps [simp del] scan_up.simps [simp del] scan_down.simps [simp del]

lemma scan_up_gt: "scan_up a i ids = Inr i' \<Longrightarrow> i < i'"
proof (induction a i ids rule: scan_up.induct)
  case (1 a i ids)
  then show ?case by (subst (asm) (2) scan_up.simps) (fastforce split: if_splits)
qed

lemma scan_down_lt: "scan_down a j ids = Inr j' \<Longrightarrow> j' < j"
proof (induction a j ids rule: scan_down.induct)
  case (1 a j ids)
  then show ?case by (subst (asm) (2) scan_down.simps) (fastforce split: if_splits)
qed

function part_loop :: "mdb_id \<Rightarrow> int \<Rightarrow> int \<Rightarrow> mdb_id list \<Rightarrow> fault + int \<times> int \<times> mdb_id list" where
  "part_loop a i j ids =
     bindE (scan_up a i ids) (\<lambda>i'.
     bindE (scan_down a j ids) (\<lambda>j'.
     if j' < i' then Inr (i', j', ids)
     else bindE (MIDL_SWAP i' j' ids) (part_loop a i' j')))"
  by pat_completeness auto
termination
  by (relation "measure (\<lambda>(a, i, j, ids). nat (j - i))") (auto dest!: scan_up_gt scan_down_lt)

declare part_loop.simps [simp del]

definition swap_if_less :: "int \<Rightarrow> int \<Rightarrow> mdb_id list \<Rightarrow> fault + mdb_id list" where
  "swap_if_less p q ids =
     bindE (arr_get ids p) (\<lambda>x. bindE (arr_get ids q) (\<lambda>y. if x < y then MIDL_SWAP p q ids else Inr ids))"

definition sort_partition :: "int \<Rightarrow> int \<Rightarrow> mdb_id list \<Rightarrow> fault + int \<times> int \<times> mdb_id list" where
  "sort_partition l ir ids =
     bindE (MIDL_SWAP ((l + ir) div 2) (l + 1) ids) (\<lambda>ids.
     bindE (swap_if_less l ir ids) (\<lambda>ids.
     bindE (swap_if_less (l + 1) ir ids) (\<lambda>ids.
     bindE (swap_if_less l (l + 1) ids) (\<lambda>ids.
     bindE (arr_get ids (l + 1)) (\<lambda>a.
     bindE (part_loop a (l + 1) ir ids) (\<lambda>(i, j, ids).
     bindE (arr_get ids j) (\<lambda>y.
     bindE (arr_set ids (l + 1) y) (\<lambda>ids.
     bindE (arr_set ids j a) (\<lambda>ids.
     Inr (i, j, ids))))))))))"

lemma part_loop_bounds: "part_loop a i j ids = Inr (i', j', ids') \<Longrightarrow> i < i' \<and> j' < j \<and> j' < i'"
proof (induction a i j ids rule: part_loop.induct)
  case (1 a i j ids)
  from "1.prems" obtain i1 j1 where s: "scan_up a i ids = Inr i1" "scan_down a j ids = Inr j1"
    by (subst (asm) part_loop.simps) auto
  note lt = scan_up_gt[OF s(1)] scan_down_lt[OF s(2)]
  show ?case
  proof (cases "j1 < i1")
    case True
    then show ?thesis using "1.prems" s lt by (subst (asm) part_loop.simps) auto
  next
    case False
    then obtain ids1 where "MIDL_SWAP i1 j1 ids = Inr ids1" "part_loop a i1 j1 ids1 = Inr (i', j', ids')"
      using "1.prems" s by (subst (asm) part_loop.simps) auto
    then show ?thesis using "1.IH"[OF s False] lt by auto
  qed
qed

lemma sort_partition_bounds: "sort_partition l ir ids = Inr (i, j, ids') \<Longrightarrow> l + 1 < i \<and> j < ir \<and> j < i"
  by (auto simp: sort_partition_def dest!: part_loop_bounds)

definition seg_weight :: "int \<times> int \<Rightarrow> nat" where
  "seg_weight s = (case s of (l, ir) \<Rightarrow> 2 * nat (ir - l + 1) + 1)"

text \<open>\<^verbatim>\<open>istack\<close> has \<^verbatim>\<open>sizeof(int) * CHAR_BIT * 2\<close> elements; a push writes up to index \<^verbatim>\<open>jstack + 2\<close>.\<close>

definition push :: "int \<times> int \<Rightarrow> (int \<times> int) list \<Rightarrow> fault + (int \<times> int) list" where
  "push s st = (if 2 * int (length st) + 2 < 64 then Inr (s # st) else Inl Out_of_bounds)"

function sort_loop :: "int \<Rightarrow> int \<Rightarrow> (int \<times> int) list \<Rightarrow> mdb_id list \<Rightarrow> fault + mdb_id list" where
  "sort_loop l ir st ids =
     (if ir - l < SMALL
      then
        bindE (ins_sort (l + 1) ir ids) (\<lambda>ids.
        case st of
          [] \<Rightarrow> Inr ids
        | (l', ir') # st' \<Rightarrow> sort_loop l' ir' st' ids)
      else
        bindE (sort_partition l ir ids) (\<lambda>(i, j, ids).
        if j - l \<le> ir - i + 1
        then bindE (push (i, ir) st) (\<lambda>st. sort_loop l (j - 1) st ids)
        else bindE (push (l, j - 1) st) (\<lambda>st. sort_loop i ir st ids)))"
  by pat_completeness auto
termination
  by (relation "measure (\<lambda>(l, ir, st, ids). seg_weight (l, ir) + sum_list (map seg_weight st))")
    (auto simp: seg_weight_def push_def SMALL_def dest!: sort_partition_bounds split: if_splits)

declare sort_loop.simps [simp del]

definition mdb_midl_sort :: "mdb_id list \<Rightarrow> fault + mdb_id list" where
  "mdb_midl_sort ids =
     bindE (arr_get ids 0) (\<lambda>n. sort_loop 1 (sint (ucast n :: u32)) [] ids)"

subsection \<open>Permutations of a segment\<close>

text \<open>\<open>ids'\<close> is \<open>ids\<close> with the elements from \<open>l\<close> to \<open>r\<close> rearranged.\<close>

definition seg_perm :: "nat \<Rightarrow> nat \<Rightarrow> mdb_id list \<Rightarrow> mdb_id list \<Rightarrow> bool" where
  "seg_perm l r ids ids' \<longleftrightarrow> length ids' = length ids \<and> mset ids' = mset ids \<and>
     (\<forall>p < length ids. p < l \<or> r < p \<longrightarrow> ids' ! p = ids ! p) \<and>
     (\<forall>p. l \<le> p \<and> p \<le> r \<longrightarrow> (\<exists>p'. l \<le> p' \<and> p' \<le> r \<and> ids' ! p = ids ! p'))"

lemma seg_perm_refl: "seg_perm l r ids ids"
  by (auto simp: seg_perm_def)

lemma seg_perm_trans: "seg_perm l r ids ids' \<Longrightarrow> seg_perm l r ids' ids'' \<Longrightarrow> seg_perm l r ids ids''"
  unfolding seg_perm_def by metis

lemma seg_perm_mono:
  assumes "seg_perm l r ids ids'" "l' \<le> l" "r \<le> r'" "r' < length ids"
  shows "seg_perm l' r' ids ids'"
proof -
  have "\<exists>p'. l' \<le> p' \<and> p' \<le> r' \<and> ids' ! p = ids ! p'" if "l' \<le> p" "p \<le> r'" for p
  proof (cases "l \<le> p \<and> p \<le> r")
    case True
    then obtain p' where "l \<le> p'" "p' \<le> r" "ids' ! p = ids ! p'" using assms(1) unfolding seg_perm_def by blast
    then show ?thesis using assms(2,3) by (intro exI[of _ p']) simp
  next
    case False
    then have "ids' ! p = ids ! p" using assms(1,4) that unfolding seg_perm_def by (metis le_less_trans not_le)
    then show ?thesis using that by blast
  qed
  then show ?thesis using assms unfolding seg_perm_def by auto
qed

lemma seg_perm_at: "seg_perm l r ids ids' \<Longrightarrow> p < length ids \<Longrightarrow> p < l \<or> r < p \<Longrightarrow> ids' ! p = ids ! p"
  by (auto simp: seg_perm_def)

lemma seg_perm_length: "seg_perm l r ids ids' \<Longrightarrow> length ids' = length ids"
  by (simp add: seg_perm_def)

lemma swap_int:
  "p < length ids \<Longrightarrow> q < length ids \<Longrightarrow> MIDL_SWAP (int p) (int q) ids = Inr (ids[p := ids ! q, q := ids ! p])"
  by (simp only: MIDL_SWAP_def arr_get_int bindE_Inr arr_set_int length_list_update)

lemma swap_perm:
  assumes "l \<le> p" "p \<le> r" "l \<le> q" "q \<le> r" "r < length ids"
  shows "seg_perm l r ids (ids[p := ids ! q, q := ids ! p])"
proof -
  have "mset (ids[p := ids ! q, q := ids ! p]) = mset ids" using assms by (intro mset_swap) auto
  moreover have "(ids[p := ids ! q, q := ids ! p]) ! x = (if x = q then ids ! p else if x = p then ids ! q else ids ! x)"
    if "x < length ids" for x using that by (auto simp: nth_list_update)
  ultimately show ?thesis using assms by (auto simp: seg_perm_def)
qed

lemma swap_if_less_int:
  "p < length ids \<Longrightarrow> q < length ids \<Longrightarrow> swap_if_less (int p) (int q) ids =
     Inr (if ids ! p < ids ! q then ids[p := ids ! q, q := ids ! p] else ids)"
  by (simp add: swap_if_less_def arr_get_int swap_int)

subsection \<open>Partitioning\<close>

lemma scan_up_spec:
  assumes "i < m" "m < length ids" "ids ! m \<le> a"
  shows "\<exists>i'. scan_up a (int i) ids = Inr (int i') \<and> i < i' \<and> i' \<le> m \<and> ids ! i' \<le> a \<and> (\<forall>p. i < p \<and> p < i' \<longrightarrow> a < ids ! p)"
  using assms(1)
proof (induction "m - i" arbitrary: i)
  case (Suc k)
  have s: "int i + 1 = int (Suc i)" by simp
  have get: "arr_get ids (int (Suc i)) = Inr (ids ! Suc i)" by (rule arr_get_int) (use Suc.prems assms(2) in simp)
  have step: "scan_up a (int i) ids = (if a < ids ! Suc i then scan_up a (int (Suc i)) ids else Inr (int (Suc i)))"
    by (subst scan_up.simps) (simp only: s get bindE_Inr)
  show ?case
  proof (cases "a < ids ! Suc i")
    case False
    then show ?thesis using step Suc.prems by (intro exI[of _ "Suc i"]) auto
  next
    case True
    then have "Suc i \<noteq> m" using assms(3) by auto
    then have "Suc i < m" "k = m - Suc i" using Suc.prems Suc.hyps(2) by auto
    from Suc.hyps(1)[OF this(2,1)] obtain i' where "scan_up a (int (Suc i)) ids = Inr (int i')" "Suc i < i'" "i' \<le> m"
      "ids ! i' \<le> a" "\<forall>p. Suc i < p \<and> p < i' \<longrightarrow> a < ids ! p" by blast
    then show ?thesis using step True by (intro exI[of _ i']) (auto simp: Suc_le_eq less_Suc_eq_le nat_less_le)
  qed
qed simp

lemma scan_down_spec:
  assumes "m < j" "j \<le> length ids" "a \<le> ids ! m"
  shows "\<exists>j'. scan_down a (int j) ids = Inr (int j') \<and> m \<le> j' \<and> j' < j \<and> a \<le> ids ! j' \<and> (\<forall>p. j' < p \<and> p < j \<longrightarrow> ids ! p < a)"
  using assms(1,2)
proof (induction j)
  case (Suc j)
  have s: "int (Suc j) - 1 = int j" by simp
  have get: "arr_get ids (int j) = Inr (ids ! j)" by (rule arr_get_int) (use Suc.prems in simp)
  have step: "scan_down a (int (Suc j)) ids = (if ids ! j < a then scan_down a (int j) ids else Inr (int j))"
    by (subst scan_down.simps) (simp only: s get bindE_Inr)
  show ?case
  proof (cases "ids ! j < a")
    case False
    then show ?thesis using step Suc.prems by (intro exI[of _ j]) auto
  next
    case True
    then have "j \<noteq> m" using assms(3) by auto
    then have "m < j" "j \<le> length ids" using Suc.prems by auto
    from Suc.IH[OF this] obtain j' where "scan_down a (int j) ids = Inr (int j')" "m \<le> j'" "j' < j" "a \<le> ids ! j'"
      "\<forall>p. j' < p \<and> p < j \<longrightarrow> ids ! p < a" by blast
    then show ?thesis using step True by (intro exI[of _ j']) (auto simp: less_Suc_eq)
  qed
qed simp

lemma part_loop_spec:
  assumes "lo \<le> i" "i \<le> j" "j \<le> ir" "ir < length ids" "i < j \<or> j < ir" "lo < j" "ids ! lo = a"
    "\<And>p. lo < p \<Longrightarrow> p \<le> i \<Longrightarrow> a \<le> ids ! p" "\<And>p. j \<le> p \<Longrightarrow> p \<le> ir \<Longrightarrow> ids ! p \<le> a"
  shows "\<exists>i' j' ids'. part_loop a (int i) (int j) ids = Inr (int i', int j', ids') \<and> seg_perm (Suc lo) ir ids ids' \<and>
    lo \<le> j' \<and> j' < i' \<and> i' \<le> ir \<and> (\<forall>p. lo < p \<and> p < i' \<longrightarrow> a \<le> ids' ! p) \<and> (\<forall>p. j' < p \<and> p \<le> ir \<longrightarrow> ids' ! p \<le> a)"
  using assms
proof (induction "j - i" arbitrary: i j ids rule: less_induct)
  case less
  let ?m = "if i < j then j else Suc i"
  have "i < ?m" "?m < length ids" "ids ! ?m \<le> a" using less.prems(2-5,9) by auto
  then obtain i1 where i1: "scan_up a (int i) ids = Inr (int i1)" "i < i1" "i1 \<le> ?m" "ids ! i1 \<le> a"
    "\<forall>p. i < p \<and> p < i1 \<longrightarrow> a < ids ! p" using scan_up_spec by blast
  have "a \<le> ids ! lo" "j \<le> length ids" using less.prems(3,4,7) by auto
  then obtain j1 where j1: "scan_down a (int j) ids = Inr (int j1)" "lo \<le> j1" "j1 < j" "a \<le> ids ! j1"
    "\<forall>p. j1 < p \<and> p < j \<longrightarrow> ids ! p < a" using scan_down_spec[OF less.prems(6)] by blast
  have ir: "i1 \<le> ir" using i1(3) less.prems(2,3,5) by (auto split: if_splits)
  have up: "a \<le> ids ! p" if "lo < p" "p < i1" for p
    using that less.prems(8)[of p] i1(5) by (cases "p \<le> i") (auto simp: not_le less_imp_le)
  have down: "ids ! p \<le> a" if "j1 < p" "p \<le> ir" for p
    using that less.prems(9)[of p] j1(5) by (cases "j \<le> p") (auto simp: not_le less_imp_le)
  have step: "part_loop a (int i) (int j) ids =
      (if int j1 < int i1 then Inr (int i1, int j1, ids)
       else bindE (MIDL_SWAP (int i1) (int j1) ids) (part_loop a (int i1) (int j1)))"
    by (subst part_loop.simps) (simp only: i1(1) j1(1) bindE_Inr)
  show ?case
  proof (cases "j1 < i1")
    case True
    then show ?thesis using step up down ir j1(2) seg_perm_refl
      by (intro exI[of _ i1] exI[of _ j1] exI[of _ ids]) auto
  next
    case False
    let ?ids = "ids[i1 := ids ! j1, j1 := ids ! i1]"
    have len: "i1 < length ids" "j1 < length ids" using ir less.prems(3,4) j1(3) by auto
    have nth: "?ids ! x = (if x = j1 then ids ! i1 else if x = i1 then ids ! j1 else ids ! x)" if "x < length ids" for x
      using that len by (auto simp: nth_list_update)
    have "\<exists>i' j' ids'. part_loop a (int i1) (int j1) ?ids = Inr (int i', int j', ids') \<and> seg_perm (Suc lo) ir ?ids ids' \<and>
        lo \<le> j' \<and> j' < i' \<and> i' \<le> ir \<and> (\<forall>p. lo < p \<and> p < i' \<longrightarrow> a \<le> ids' ! p) \<and> (\<forall>p. j' < p \<and> p \<le> ir \<longrightarrow> ids' ! p \<le> a)"
    proof (rule less.hyps)
      show "a \<le> ?ids ! p" if "lo < p" "p \<le> i1" for p
        using that up[of p] nth[of p] len j1(4) i1(4) False by (cases "p = i1") auto
      show "?ids ! p \<le> a" if "j1 \<le> p" "p \<le> ir" for p
        using that down[of p] nth[of p] len j1(4) i1(4) False less.prems(4) by (cases "p = j1") auto
      show "?ids ! lo = a" using nth[of lo] len i1(2) less.prems(1,7) False by auto
    qed (use False i1(2) j1(2,3) less.prems(1-4) ir in auto)
    then obtain i' j' ids' where r: "part_loop a (int i1) (int j1) ?ids = Inr (int i', int j', ids')"
      "seg_perm (Suc lo) ir ?ids ids'" "lo \<le> j'" "j' < i'" "i' \<le> ir" "\<forall>p. lo < p \<and> p < i' \<longrightarrow> a \<le> ids' ! p"
      "\<forall>p. j' < p \<and> p \<le> ir \<longrightarrow> ids' ! p \<le> a" by blast
    have "seg_perm (Suc lo) ir ids ?ids"
      by (rule swap_perm) (use False i1(2) less.prems(1,3,4) ir j1(3) in auto)
    then have "seg_perm (Suc lo) ir ids ids'" using r(2) seg_perm_trans by blast
    moreover have "part_loop a (int i) (int j) ids = Inr (int i', int j', ids')"
      using step False r(1) len by (simp add: swap_int del: of_nat_less_iff)
    ultimately show ?thesis using r(3-7) by blast
  qed
qed

lemma swap_if_less_spec:
  assumes "l \<le> p" "p \<le> r" "l \<le> q" "q \<le> r" "r < length ids" "p \<noteq> q"
  shows "\<exists>ids'. swap_if_less (int p) (int q) ids = Inr ids' \<and> seg_perm l r ids ids' \<and>
    ids' ! p = max (ids ! p) (ids ! q) \<and> ids' ! q = min (ids ! p) (ids ! q) \<and>
    (\<forall>x. x \<noteq> p \<longrightarrow> x \<noteq> q \<longrightarrow> ids' ! x = ids ! x)"
proof (cases "ids ! p < ids ! q")
  case True
  then show ?thesis using assms swap_perm[OF assms(1-5)]
    by (intro exI[of _ "ids[p := ids ! q, q := ids ! p]"]) (simp add: swap_if_less_int max_def min_def less_imp_le leD)
next
  case False
  then show ?thesis using assms seg_perm_refl
    by (intro exI[of _ ids]) (auto simp: swap_if_less_int max_def min_def)
qed

text \<open>The median of three is put at \<open>l + 1\<close>.\<close>

lemma median_spec:
  assumes "Suc (Suc l) \<le> ir" "ir < length ids"
  shows "\<exists>ids'. bindE (MIDL_SWAP ((int l + int ir) div 2) (int l + 1) ids) (\<lambda>ids.
      bindE (swap_if_less (int l) (int ir) ids) (\<lambda>ids.
      bindE (swap_if_less (int l + 1) (int ir) ids) (\<lambda>ids.
      bindE (swap_if_less (int l) (int l + 1) ids) k))) = k ids' \<and> seg_perm l ir ids ids' \<and>
    ids' ! Suc l \<le> ids' ! l \<and> ids' ! ir \<le> ids' ! Suc l"
proof -
  let ?m = "(l + ir) div 2"
  have m: "(int l + int ir) div 2 = int ?m" "int l + 1 = int (Suc l)" by simp_all
  let ?i1 = "ids[?m := ids ! Suc l, Suc l := ids ! ?m]"
  have s1: "MIDL_SWAP (int ?m) (int (Suc l)) ids = Inr ?i1" by (rule swap_int) (use assms in auto)
  have p1: "seg_perm l ir ids ?i1" by (rule swap_perm) (use assms in auto)
  obtain i2 where i2: "swap_if_less (int l) (int ir) ?i1 = Inr i2" "seg_perm l ir ?i1 i2" "i2 ! ir \<le> i2 ! l"
    using swap_if_less_spec[of l l ir ir ?i1] assms by (auto simp: min_le_iff_disj le_max_iff_disj)
  have l2: "length i2 = length ids" using seg_perm_length[OF i2(2)] by simp
  obtain i3 where i3: "swap_if_less (int (Suc l)) (int ir) i2 = Inr i3" "seg_perm l ir i2 i3" "i3 ! ir \<le> i3 ! Suc l"
    "i3 ! ir \<le> i2 ! ir" "i3 ! l = i2 ! l" using swap_if_less_spec[of l "Suc l" ir ir i2] assms l2
    by (auto simp: min_le_iff_disj le_max_iff_disj)
  have l3: "length i3 = length ids" using seg_perm_length[OF i3(2)] l2 by simp
  obtain i4 where i4: "swap_if_less (int l) (int (Suc l)) i3 = Inr i4" "seg_perm l ir i3 i4"
    "i4 ! l = max (i3 ! l) (i3 ! Suc l)" "i4 ! Suc l = min (i3 ! l) (i3 ! Suc l)" "i4 ! ir = i3 ! ir"
    using swap_if_less_spec[of l l ir "Suc l" i3] assms l3 by auto
  have "i3 ! ir \<le> i3 ! l" using i2(3) i3(4,5) by simp
  then have "i4 ! Suc l \<le> i4 ! l" "i4 ! ir \<le> i4 ! Suc l" using i3(3) i4(3-5) by (auto simp: max_def min_def)
  moreover have "seg_perm l ir ids i4" using p1 i2(2) i3(2) i4(2) seg_perm_trans by blast
  ultimately show ?thesis
    by (intro exI[of _ i4]) (simp only: m s1 i2(1) i3(1) i4(1) bindE_Inr simp_thms)
qed

lemma sort_partition_spec:
  assumes "Suc (Suc l) \<le> ir" "ir < length ids"
  shows "\<exists>i j ids' a. sort_partition (int l) (int ir) ids = Inr (int i, int j, ids') \<and> seg_perm l ir ids ids' \<and>
    l < j \<and> j < i \<and> i \<le> ir \<and> (\<forall>p. l \<le> p \<and> p < i \<longrightarrow> a \<le> ids' ! p) \<and> (\<forall>p. j \<le> p \<and> p \<le> ir \<longrightarrow> ids' ! p \<le> a)"
proof -
  let ?k = "\<lambda>ids. bindE (arr_get ids (int l + 1)) (\<lambda>a. bindE (part_loop a (int l + 1) (int ir) ids) (\<lambda>(i, j, ids).
     bindE (arr_get ids j) (\<lambda>y. bindE (arr_set ids (int l + 1) y) (\<lambda>ids. bindE (arr_set ids j a) (\<lambda>ids.
     Inr (i, j, ids))))))"
  obtain i4 where i4: "sort_partition (int l) (int ir) ids = ?k i4" "seg_perm l ir ids i4"
    "i4 ! Suc l \<le> i4 ! l" "i4 ! ir \<le> i4 ! Suc l"
    using median_spec[OF assms, of ?k] unfolding sort_partition_def by blast
  have l4: "length i4 = length ids" using seg_perm_length[OF i4(2)] .
  let ?a = "i4 ! Suc l"
  have s: "int l + 1 = int (Suc l)" by simp
  have "\<exists>i j i5. part_loop ?a (int (Suc l)) (int ir) i4 = Inr (int i, int j, i5) \<and> seg_perm (Suc (Suc l)) ir i4 i5 \<and>
      Suc l \<le> j \<and> j < i \<and> i \<le> ir \<and> (\<forall>p. Suc l < p \<and> p < i \<longrightarrow> ?a \<le> i5 ! p) \<and> (\<forall>p. j < p \<and> p \<le> ir \<longrightarrow> i5 ! p \<le> ?a)"
    by (rule part_loop_spec) (use assms l4 i4(4) in \<open>auto simp: le_antisym\<close>)
  then obtain i j i5 where r: "part_loop ?a (int (Suc l)) (int ir) i4 = Inr (int i, int j, i5)"
    "seg_perm (Suc (Suc l)) ir i4 i5" "Suc l \<le> j" "j < i" "i \<le> ir" "\<forall>p. Suc l < p \<and> p < i \<longrightarrow> ?a \<le> i5 ! p"
    "\<forall>p. j < p \<and> p \<le> ir \<longrightarrow> i5 ! p \<le> ?a" by blast
  have l5: "length i5 = length ids" using seg_perm_length[OF r(2)] l4 by simp
  have b: "j < length i5" "Suc l < length i5" "l < length i5" using r(4,5) assms l5 by auto
  have fixed: "i5 ! Suc l = ?a" "i5 ! l = i4 ! l" using seg_perm_at[OF r(2)] assms l4 by auto
  let ?i6 = "i5[Suc l := i5 ! j, j := i5 ! Suc l]"
  have n6: "?i6 ! p = (if p = j then ?a else if p = Suc l then i5 ! j else i5 ! p)" if "p < length ids" for p
    using that b l5 fixed(1) by (auto simp: nth_list_update)
  have "sort_partition (int l) (int ir) ids = Inr (int i, int j, ?i6)"
    using b l4 l5 by (simp only: i4(1) s arr_get_int bindE_Inr r(1) prod.case arr_set_int length_list_update fixed(1))
  moreover have "seg_perm l ir i5 ?i6" by (rule swap_perm) (use r assms l5 in auto)
  then have "seg_perm l ir ids ?i6"
    using i4(2) seg_perm_mono[OF r(2), of l ir] assms l4 seg_perm_trans by (metis le_SucI order_refl)
  moreover have "?a \<le> ?i6 ! p" if "l \<le> p" "p < i" for p
  proof -
    have "p < length ids" using that r(5) assms(2) by simp
    then show ?thesis using that n6[of p] r(3,4,6) fixed(2) i4(3) by (cases "p = l"; cases "p = Suc l") auto
  qed
  moreover have "?i6 ! p \<le> ?a" if "j \<le> p" "p \<le> ir" for p
    using that n6[of p] r(3,7) assms(2) by (cases "p = j") auto
  ultimately show ?thesis using r(3-5)
    by (intro exI[of _ i] exI[of _ j] exI[of _ ?i6] exI[of _ ?a]) auto
qed

subsection \<open>Insertion sort\<close>

lemma ins_shift_spec:
  assumes "Suc i < length ids"
  shows "\<exists>i' \<le> i. ins_shift a (int i) ids =
      Inr (int i', take (Suc (Suc i')) ids @ drop (Suc i') (take (Suc i) ids) @ drop (Suc (Suc i)) ids) \<and>
    (\<forall>p. i' < p \<and> p \<le> i \<longrightarrow> ids ! p < a) \<and> (i' = 0 \<or> a \<le> ids ! i')"
  using assms
proof (induction i arbitrary: ids)
  case 0
  then show ?case using append_take_drop_id[of 2 ids]
    by (subst ins_shift.simps) (simp add: numeral_2_eq_2)
next
  case (Suc i)
  have s: "1 \<le> int (Suc i)" "int (Suc i) + 1 = int (Suc (Suc i))" "int (Suc i) - 1 = int i" by simp_all
  have get: "arr_get ids (int (Suc i)) = Inr (ids ! Suc i)" by (rule arr_get_int) (use Suc.prems in simp)
  let ?ids = "ids[Suc (Suc i) := ids ! Suc i]"
  have set: "arr_set ids (int (Suc (Suc i))) (ids ! Suc i) = Inr ?ids" by (rule arr_set_int) (use Suc.prems in simp)
  have step: "ins_shift a (int (Suc i)) ids = (if a \<le> ids ! Suc i then Inr (int (Suc i), ids) else ins_shift a (int i) ?ids)"
    by (subst ins_shift.simps) (simp only: s get set bindE_Inr if_True simp_thms)
  show ?case
  proof (cases "a \<le> ids ! Suc i")
    case True
    then show ?thesis using step append_take_drop_id[of "Suc (Suc (Suc i))" ids] by (intro exI[of _ "Suc i"]) auto
  next
    case False
    from Suc.IH[of ?ids] Suc.prems obtain i' where r: "i' \<le> i" "ins_shift a (int i) ?ids =
        Inr (int i', take (Suc (Suc i')) ?ids @ drop (Suc i') (take (Suc i) ?ids) @ drop (Suc (Suc i)) ?ids)"
      "\<forall>p. i' < p \<and> p \<le> i \<longrightarrow> ?ids ! p < a" "i' = 0 \<or> a \<le> ?ids ! i'" by auto
    have "take (Suc (Suc i')) ?ids = take (Suc (Suc i')) ids" "take (Suc i) ?ids = take (Suc i) ids" using r(1) by simp_all
    moreover have "drop (Suc (Suc i)) ?ids = ids ! Suc i # drop (Suc (Suc (Suc i))) ids"
      using Suc.prems by (simp add: drop_update_swap Cons_nth_drop_Suc[symmetric])
    moreover have "drop (Suc i') (take (Suc i) ids) @ ids ! Suc i # drop (Suc (Suc (Suc i))) ids =
        drop (Suc i') (take (Suc (Suc i)) ids) @ drop (Suc (Suc (Suc i))) ids"
    proof -
      have "take (Suc (Suc i)) ids = take (Suc i) ids @ [ids ! Suc i]" using Suc.prems by (intro take_Suc_conv_app_nth) simp
      moreover have "Suc i' \<le> length (take (Suc i) ids)" using r(1) Suc.prems by simp
      ultimately show ?thesis by simp
    qed
    ultimately have "ins_shift a (int (Suc i)) ids = Inr (int i', take (Suc (Suc i')) ids @
        drop (Suc i') (take (Suc (Suc i)) ids) @ drop (Suc (Suc (Suc i))) ids)"
      using step False r(2) by simp
    then show ?thesis using r(1,3,4) False by (intro exI[of _ i']) (auto simp: le_Suc_eq)
  qed
qed

text \<open>One element \<open>a\<close> behind the sorted part \<open>S\<close>; what stands before \<open>S\<close> stops the shift.\<close>

lemma ins_step:
  assumes pre: "pre \<noteq> []" "length pre = 1 \<or> a \<le> last pre" and S: "S \<noteq> []" "descending S"
  shows "\<exists>S1 S2. S = S1 @ S2 \<and> (\<forall>x \<in> set S1. a \<le> x) \<and> (\<forall>x \<in> set S2. x < a) \<and>
    bindE (ins_shift a (int (length (pre @ S)) - 1) (pre @ S @ a # R)) (\<lambda>(i, ids). bindE (arr_set ids (i + 1) a) k) =
      k (pre @ S1 @ a # S2 @ R)"
proof -
  let ?ids = "pre @ S @ a # R" and ?n = "length (pre @ S)"
  obtain i where n: "?n = Suc i" "length pre \<le> i" 
  proof (rule that[of "?n - 1"])
    show "?n = Suc (?n - 1)" using pre(1) by (cases pre) auto
    show "length pre \<le> ?n - 1" using S(1) by (cases S) auto
  qed
  from ins_shift_spec[of i ?ids a] n obtain i' where r: "i' \<le> i" "ins_shift a (int i) ?ids =
      Inr (int i', take (Suc (Suc i')) ?ids @ drop (Suc i') (take (Suc i) ?ids) @ drop (Suc (Suc i)) ?ids)"
    "\<forall>p. i' < p \<and> p \<le> i \<longrightarrow> ?ids ! p < a" "i' = 0 \<or> a \<le> ?ids ! i'" by auto
  have lp: "length pre \<le> Suc i'"
  proof (rule ccontr)
    assume "\<not> length pre \<le> Suc i'"
    then have l: "i' < length pre - 1" "length pre - 1 \<le> i" using n(2) by auto
    then have "?ids ! (length pre - 1) < a" using r(3) by blast
    moreover have "?ids ! (length pre - 1) = last pre" using pre(1) by (simp add: nth_append last_conv_nth)
    ultimately show False using pre(2) l(1) by auto
  qed
  define k' where "k' = Suc i' - length pre"
  have k': "Suc i' = length pre + k'" "k' \<le> length S" using lp r(1) n(1) by (auto simp: k'_def)
  let ?S1 = "take k' S" and ?S2 = "drop k' S"
  have parts: "take (Suc i) ?ids = pre @ S" "drop (Suc (Suc i)) ?ids = R" using n(1) by (simp_all add: n(1)[symmetric])
  have dr: "drop (Suc i') (take (Suc i) ?ids) = ?S2" unfolding parts(1) using k' by simp
  have tk: "take (Suc (Suc i')) ?ids = pre @ take (Suc k') (S @ [a])"
    using k' by (simp add: Suc_diff_le take_Cons' split: nat.split)
  have set: "arr_set (pre @ take (Suc k') (S @ [a]) @ ?S2 @ R) (int i' + 1) a = Inr (pre @ ?S1 @ a # ?S2 @ R)"
  proof -
    have ne: "take (Suc k') (S @ [a]) \<noteq> []" by (cases S) auto
    have "int i' + 1 = int (length pre + length (take (Suc k') (S @ [a]))) - 1" using k' by simp
    moreover have "butlast (take (Suc k') (S @ [a])) = ?S1" using butlast_take[of "Suc k'" "S @ [a]"] k'(2)
      by (simp del: take_append) simp
    ultimately show ?thesis using arr_set_last[OF ne, of "int i' + 1" pre "?S2 @ R" a] by simp
  qed
  have i: "int ?n - 1 = int i" using n(1) by simp
  have "bindE (ins_shift a (int ?n - 1) ?ids) (\<lambda>(i, ids). bindE (arr_set ids (i + 1) a) k) =
      bindE (arr_set (pre @ take (Suc k') (S @ [a]) @ ?S2 @ R) (int i' + 1) a) k"
    unfolding i r(2) dr parts(2) tk by simp
  then have run: "bindE (ins_shift a (int ?n - 1) ?ids) (\<lambda>(i, ids). bindE (arr_set ids (i + 1) a) k) =
      k (pre @ ?S1 @ a # ?S2 @ R)" unfolding set by simp
  have "\<forall>x \<in> set ?S2. x < a"
  proof
    fix x assume "x \<in> set ?S2"
    then obtain q where q: "q < length S - k'" "x = S ! (k' + q)" using k'(2) by (auto simp: in_set_conv_nth)
    have "i' < length pre + k' + q" "length pre + k' + q \<le> i" using q(1) k' n(1) by auto
    then have "?ids ! (length pre + k' + q) < a" using r(3) by blast
    moreover have "k' + q < length S" using q(1) by simp
    ultimately show "x < a" using q(2) by (simp add: nth_append)
  qed
  moreover have "\<forall>x \<in> set ?S1. a \<le> x"
  proof
    fix x assume "x \<in> set ?S1"
    then obtain q where q: "q < k'" "x = S ! q" using k'(2) by (auto simp: in_set_conv_nth)
    have "a \<le> ?ids ! i'" using r(4) q(1) k'(1) pre(1) by (cases pre) auto
    moreover have "i' = length pre + (k' - 1)" "k' - 1 < length S" using q(1) k' by auto
    then have "?ids ! i' = S ! (k' - 1)" by (simp add: nth_append)
    moreover have "S ! (k' - 1) \<le> S ! q"
      using sorted_wrt_nth_less[OF S(2), of q "k' - 1"] q k'(2) by (cases "q = k' - 1") auto
    ultimately show "a \<le> x" using q(2) by simp
  qed
  ultimately show ?thesis using run by (intro exI[of _ ?S1] exI[of _ ?S2]) simp
qed

lemma ins_sort_spec:
  assumes "pre \<noteq> []" "S \<noteq> []" "descending S" "\<forall>x \<in> set R. length pre = 1 \<or> x \<le> last pre"
  shows "\<exists>T. ins_sort (int (length (pre @ S))) (int (length (pre @ S @ R)) - 1) (pre @ S @ R @ post) = Inr (pre @ T @ post) \<and>
    descending T \<and> mset T = mset S + mset R"
  using assms(2-4)
proof (induction R arbitrary: S)
  case Nil
  have "ins_sort (int (length (pre @ S))) (int (length (pre @ S @ [])) - 1) (pre @ S @ [] @ post) = Inr (pre @ S @ post)"
    by (subst ins_sort.simps) simp
  then show ?case using Nil.prems by auto
next
  case (Cons a R)
  let ?ir = "int (length (pre @ S @ a # R)) - 1" and ?j = "int (length (pre @ S))"
  have get: "arr_get (pre @ S @ a # R @ post) ?j = Inr a"
    using arr_get_int[of "length (pre @ S)" "pre @ S @ a # R @ post"] by (simp add: nth_append)
  have pre: "length pre = 1 \<or> a \<le> last pre" using Cons.prems(3) by auto
  obtain S1 S2 where r: "S = S1 @ S2" "\<forall>x \<in> set S1. a \<le> x" "\<forall>x \<in> set S2. x < a"
    "bindE (ins_shift a (?j - 1) (pre @ S @ a # R @ post)) (\<lambda>(i, ids). bindE (arr_set ids (i + 1) a) (ins_sort (?j + 1) ?ir)) =
      ins_sort (?j + 1) ?ir (pre @ S1 @ a # S2 @ R @ post)"
    using ins_step[OF assms(1) pre Cons.prems(1,2), of "R @ post" "ins_sort (?j + 1) ?ir"] by blast
  let ?S = "S1 @ a # S2"
  have le: "?j \<le> ?ir" by simp
  have "ins_sort ?j ?ir (pre @ S @ a # R @ post) = ins_sort (?j + 1) ?ir (pre @ S1 @ a # S2 @ R @ post)"
    by (subst ins_sort.simps) (simp only: le if_True get bindE_Inr r(4))
  moreover have "?j + 1 = int (length (pre @ ?S))" "?ir = int (length (pre @ ?S @ R)) - 1" by (simp_all add: r(1))
  moreover have "pre @ S1 @ a # S2 @ R @ post = pre @ ?S @ R @ post" by simp
  ultimately have eq: "ins_sort ?j ?ir (pre @ S @ a # R @ post) =
      ins_sort (int (length (pre @ ?S))) (int (length (pre @ ?S @ R)) - 1) (pre @ ?S @ R @ post)" by (simp only:)
  have "descending ?S" using Cons.prems(2) r(1-3) by (auto simp: sorted_wrt_append less_imp_le)
  then have "\<exists>T. ins_sort (int (length (pre @ ?S))) (int (length (pre @ ?S @ R)) - 1) (pre @ ?S @ R @ post) =
      Inr (pre @ T @ post) \<and> descending T \<and> mset T = mset ?S + mset R"
    by (intro Cons.IH) (use Cons.prems(3) in auto)
  then show ?case using eq r(1) by auto
qed

lemma seg_perm_parts:
  assumes "mset Y = mset X" "X \<noteq> []"
  shows "seg_perm (length pre) (length pre + length X - 1) (pre @ X @ post) (pre @ Y @ post)"
proof -
  have len: "length Y = length X" "set Y = set X" using assms(1) by (metis size_mset, metis set_mset_mset)
  have "\<exists>p'. length pre \<le> p' \<and> p' \<le> length pre + length X - 1 \<and> (pre @ Y @ post) ! p = (pre @ X @ post) ! p'"
    if p: "length pre \<le> p" "p \<le> length pre + length X - 1" for p
  proof -
    have lt: "p - length pre < length X" using p assms(2) by (cases X) auto
    then have "Y ! (p - length pre) \<in> set X" using len by (metis nth_mem)
    then obtain k where "k < length X" "X ! k = Y ! (p - length pre)" by (auto simp: in_set_conv_nth)
    then show ?thesis using p(1) lt len(1) by (intro exI[of _ "length pre + k"]) (auto simp: nth_append)
  qed
  moreover have "(pre @ Y @ post) ! p = (pre @ X @ post) ! p" if "p < length pre \<or> length pre + length X - 1 < p" for p
    using that len(1) assms(2) by (cases X) (auto simp: nth_append)
  ultimately show ?thesis using assms(1) len(1) unfolding seg_perm_def by simp
qed

text \<open>On a segment whose left neighbour is not smaller than its elements.\<close>

lemma ins_sort_seg:
  assumes "1 \<le> l" "l \<le> Suc ir" "ir < length ids" "l = 1 \<or> (\<forall>q. l \<le> q \<and> q \<le> ir \<longrightarrow> ids ! q \<le> ids ! (l - 1))"
  shows "\<exists>ids'. ins_sort (int l + 1) (int ir) ids = Inr ids' \<and> seg_perm l ir ids ids' \<and>
    (\<forall>p q. l \<le> p \<and> p < q \<and> q \<le> ir \<longrightarrow> ids' ! q \<le> ids' ! p)"
proof (cases "l \<le> ir")
  case False
  then have "ins_sort (int l + 1) (int ir) ids = Inr ids" by (subst ins_sort.simps) simp
  then show ?thesis using False seg_perm_refl by auto
next
  case True
  define pre where "pre = take l ids"
  define X where "X = drop l (take (Suc ir) ids)"
  define post where "post = drop (Suc ir) ids"
  have lens: "length pre = l" "length X = Suc ir - l" using True assms(3) by (simp_all add: pre_def X_def)
  have ids: "ids = pre @ X @ post"
  proof -
    have "take l (take (Suc ir) ids) = pre" using True by (simp add: pre_def min_absorb1)
    then have "take (Suc ir) ids = pre @ X" unfolding X_def by (metis append_take_drop_id)
    then show ?thesis unfolding post_def by (metis append_take_drop_id append_assoc)
  qed
  obtain x R where X: "X = [x] @ R" using lens(2) True by (cases X) auto
  have ne: "pre \<noteq> []" using lens(1) assms(1) by auto
  then have "last pre = pre ! (l - 1)" using last_conv_nth[OF ne] lens(1) by simp
  then have last: "last pre = ids ! (l - 1)" "pre \<noteq> []" using ne assms(1) by (simp_all add: pre_def)
  have "\<forall>y \<in> set R. length pre = 1 \<or> y \<le> last pre"
  proof
    fix y assume "y \<in> set R"
    then have "y \<in> set X" using X by simp
    then obtain k where k: "k < Suc ir - l" "y = X ! k" using lens(2) by (auto simp: in_set_conv_nth)
    then have "y = ids ! (l + k)" using assms(3) by (simp add: X_def)
    then show "length pre = 1 \<or> y \<le> last pre" using assms(4) k(1) lens(1) last(1) by auto
  qed
  then obtain T where T: "ins_sort (int (length (pre @ [x]))) (int (length (pre @ [x] @ R)) - 1) (pre @ [x] @ R @ post) =
      Inr (pre @ T @ post)" "descending T" "mset T = mset [x] + mset R"
    using ins_sort_spec[OF last(2), of "[x]" R post] by auto
  have ij: "int (length (pre @ [x])) = int l + 1" "int (length (pre @ [x] @ R)) - 1 = int ir"
    using lens X True by simp_all
  have "ins_sort (int l + 1) (int ir) ids = Inr (pre @ T @ post)" using T(1) ids X by (simp only: ij append_assoc)
  moreover have mT: "mset T = mset X" using T(3) X by simp
  then have lT: "length T = length X" by (metis size_mset)
  have "X \<noteq> []" using X by simp
  from seg_perm_parts[OF mT this, of pre post] have "seg_perm l ir ids (pre @ T @ post)" using lens True ids by simp
  moreover have "(pre @ T @ post) ! q \<le> (pre @ T @ post) ! p" if "l \<le> p" "p < q" "q \<le> ir" for p q
    using that sorted_wrt_nth_less[OF T(2), of "p - l" "q - l"] lens lT by (simp add: nth_append)
  ultimately show ?thesis by blast
qed

subsection \<open>The whole sort\<close>

text \<open>In order but for pairs inside one of the pending segments.\<close>

definition ordered_but :: "(nat \<times> nat) list \<Rightarrow> nat \<Rightarrow> mdb_id list \<Rightarrow> bool" where
  "ordered_but segs N ids \<longleftrightarrow>
     (\<forall>p q. 1 \<le> p \<and> p < q \<and> q \<le> N \<and> (\<forall>s \<in> set segs. \<not> (fst s \<le> p \<and> q \<le> snd s)) \<longrightarrow> ids ! q \<le> ids ! p)"

definition apart :: "nat \<times> nat \<Rightarrow> nat \<times> nat \<Rightarrow> bool" where
  "apart s t \<longleftrightarrow> snd s < fst t \<or> snd t < fst s"

definition segs_ok :: "nat \<Rightarrow> (nat \<times> nat) list \<Rightarrow> bool" where
  "segs_ok N segs \<longleftrightarrow> (\<forall>s \<in> set segs. 1 \<le> fst s \<and> fst s \<le> Suc (snd s) \<and> snd s \<le> N) \<and> sorted_wrt apart segs"

lemma ordered_step:
  assumes ord: "ordered_but ((l, r) # st) N ids" and ok: "segs_ok N ((l, r) # st)" and perm: "seg_perm l r ids ids'"
    and len: "N < length ids"
    and new: "\<And>p q. l \<le> p \<Longrightarrow> p < q \<Longrightarrow> q \<le> r \<Longrightarrow> \<forall>s \<in> set new. \<not> (fst s \<le> p \<and> q \<le> snd s) \<Longrightarrow> ids' ! q \<le> ids' ! p"
    and sub: "set segs = set new \<union> set st"
  shows "ordered_but segs N ids'"
  unfolding ordered_but_def
proof (intro allI impI, elim conjE)
  fix p q assume pq: "1 \<le> p" "p < q" "q \<le> N" "\<forall>s \<in> set segs. \<not> (fst s \<le> p \<and> q \<le> snd s)"
  have lr: "1 \<le> l" "r \<le> N" and dis: "\<And>s. s \<in> set st \<Longrightarrow> r < fst s \<or> snd s < l"
    using ok by (auto simp: segs_ok_def apart_def)
  have img: "\<exists>x'. (if l \<le> x \<and> x \<le> r then l \<le> x' \<and> x' \<le> r else x' = x) \<and> ids' ! x = ids ! x'" if "x \<le> N" for x
    using perm that len unfolding seg_perm_def by (metis le_less_trans not_le)
  show "ids' ! q \<le> ids' ! p"
  proof (cases "l \<le> p \<and> q \<le> r")
    case True
    then show ?thesis using new[of p q] pq sub by auto
  next
    case False
    obtain p' where p': "if l \<le> p \<and> p \<le> r then l \<le> p' \<and> p' \<le> r else p' = p" "ids' ! p = ids ! p'"
      using img[of p] pq by auto
    obtain q' where q': "if l \<le> q \<and> q \<le> r then l \<le> q' \<and> q' \<le> r else q' = q" "ids' ! q = ids ! q'"
      using img[of q] pq by auto
    have lt: "1 \<le> p'" "p' < q'" "q' \<le> N" using p'(1) q'(1) pq False lr by (auto split: if_splits)
    have "\<not> (fst s \<le> p' \<and> q' \<le> snd s)" if "s \<in> set ((l, r) # st)" for s
    proof (cases "s = (l, r)")
      case True
      then show ?thesis using p'(1) q'(1) False pq(2) by (auto split: if_splits)
    next
      case st: False
      then have "s \<in> set st" using that by simp
      then show ?thesis using dis[of s] pq(4) sub p'(1) q'(1) False pq(2) by (auto split: if_splits)
    qed
    then have "ids ! q' \<le> ids ! p'" using ord lt unfolding ordered_but_def by blast
    then show ?thesis using p'(2) q'(2) by simp
  qed
qed

text \<open>The larger part is pushed, so segments shrink by half with every level of the stack.\<close>

fun depth_ok :: "nat \<Rightarrow> (nat \<times> nat) list \<Rightarrow> bool" where
  "depth_ok N [] = True"
| "depth_ok N ((l, r) # st) \<longleftrightarrow> (Suc r - l) * 2 ^ length st \<le> N \<and> depth_ok N st"

lemma depth_small:
  assumes "(Suc r - l) * 2 ^ n \<le> N" "8 \<le> r - l" "N < 2 ^ 31"
  shows "n < 28"
proof (rule ccontr)
  assume "\<not> n < 28"
  then have "(2 :: nat) ^ 28 \<le> 2 ^ n" by (intro power_increasing) auto
  then have "8 * 2 ^ 28 \<le> (Suc r - l) * 2 ^ n" using assms(2) by (intro mult_mono) auto
  then show False using assms(1,3) by simp
qed

lemma half_size:
  fixes s t u n N :: nat
  assumes "u * 2 ^ n \<le> N" "s + t \<le> u" "s \<le> t"
  shows "s * 2 ^ Suc n \<le> N" "t * 2 ^ n \<le> N"
proof -
  have "s * 2 \<le> u" "t \<le> u" using assms(2,3) by auto
  then have "s * 2 * 2 ^ n \<le> N" "t * 2 ^ n \<le> N" using order_trans[OF mult_le_mono1 assms(1)] by blast+
  then show "s * 2 ^ Suc n \<le> N" "t * 2 ^ n \<le> N" by (simp_all add: mult.assoc)
qed

abbreviation int_segs :: "(nat \<times> nat) list \<Rightarrow> (int \<times> int) list" where
  "int_segs st \<equiv> map (\<lambda>(l, r). (int l, int r)) st"

lemma push_ok: "length st < 28 \<Longrightarrow> push (int l, int r) (int_segs st) = Inr (int_segs ((l, r) # st))"
  by (simp add: push_def)

lemma left_neighbour:
  assumes "segs_ok N ((l, r) # st)" "ordered_but ((l, r) # st) N ids" "l \<noteq> 1" "l \<le> q" "q \<le> r"
  shows "ids ! q \<le> ids ! (l - 1)"
proof -
  have lr: "1 \<le> l" "r \<le> N" and dis: "\<And>s. s \<in> set st \<Longrightarrow> r < fst s \<or> snd s < l"
    using assms(1) by (auto simp: segs_ok_def apart_def)
  have "\<not> (fst s \<le> l - 1 \<and> q \<le> snd s)" if "s \<in> set ((l, r) # st)" for s
    using that dis[of s] assms(3-5) lr(1) by (cases "s = (l, r)") auto
  moreover have "1 \<le> l - 1" "l - 1 < q" "q \<le> N" using assms(3-5) lr by auto
  ultimately show ?thesis using assms(2) unfolding ordered_but_def by blast
qed

text \<open>The state of the loop: the current segment and the stack.\<close>

definition sort_inv :: "nat \<Rightarrow> (nat \<times> nat) list \<Rightarrow> mdb_id list \<Rightarrow> bool" where
  "sort_inv N segs ids \<longleftrightarrow> segs_ok N segs \<and> depth_ok N segs \<and> ordered_but segs N ids \<and> N < length ids"

lemma sort_small:
  assumes inv: "sort_inv N ((l, r) # st) ids"
  shows "\<exists>ids'. ins_sort (int l + 1) (int r) ids = Inr ids' \<and> seg_perm 1 N ids ids' \<and> sort_inv N st ids'"
proof -
  have p: "segs_ok N ((l, r) # st)" "ordered_but ((l, r) # st) N ids" "N < length ids" "depth_ok N st"
    using inv by (auto simp: sort_inv_def)
  have lr: "1 \<le> l" "l \<le> Suc r" "r \<le> N" using p(1) by (auto simp: segs_ok_def)
  have left: "l = 1 \<or> (\<forall>q. l \<le> q \<and> q \<le> r \<longrightarrow> ids ! q \<le> ids ! (l - 1))"
    using left_neighbour[OF p(1,2)] by blast
  have rl: "r < length ids" using lr(3) p(3) by simp
  obtain ids' where r: "ins_sort (int l + 1) (int r) ids = Inr ids'" "seg_perm l r ids ids'"
    "\<forall>p q. l \<le> p \<and> p < q \<and> q \<le> r \<longrightarrow> ids' ! q \<le> ids' ! p"
    using ins_sort_seg[OF lr(1,2) rl left] by blast
  have "ordered_but st N ids'" by (rule ordered_step[OF p(2,1) r(2) p(3), of "[]"]) (use r(3) in auto)
  moreover have "seg_perm 1 N ids ids'" by (rule seg_perm_mono[OF r(2)]) (use lr p(3) in auto)
  moreover have "segs_ok N st" using p(1) by (auto simp: segs_ok_def)
  ultimately show ?thesis using r(1) p(3,4) seg_perm_length[OF r(2)] by (auto simp: sort_inv_def)
qed

lemma sort_large:
  assumes inv: "sort_inv N ((l, r) # st) ids" and N: "N < 2 ^ 31" and large: "8 \<le> r - l"
  shows "\<exists>i j ids'. sort_partition (int l) (int r) ids = Inr (int i, int j, ids') \<and> seg_perm 1 N ids ids' \<and>
    l < j \<and> j < i \<and> i \<le> r \<and> length st < 28 \<and>
    (if j - l \<le> Suc r - i then sort_inv N ((l, j - 1) # (i, r) # st) ids' else sort_inv N ((i, r) # (l, j - 1) # st) ids')"
proof -
  have p: "segs_ok N ((l, r) # st)" "ordered_but ((l, r) # st) N ids" "N < length ids" "depth_ok N st"
    "(Suc r - l) * 2 ^ length st \<le> N" using inv by (auto simp: sort_inv_def)
  have lr: "1 \<le> l" "r \<le> N" using p(1) by (auto simp: segs_ok_def)
  have "Suc (Suc l) \<le> r" "r < length ids" using large lr p(3) by auto
  then obtain i j ids' a where r: "sort_partition (int l) (int r) ids = Inr (int i, int j, ids')" "seg_perm l r ids ids'"
    "l < j" "j < i" "i \<le> r" "\<forall>p. l \<le> p \<and> p < i \<longrightarrow> a \<le> ids' ! p" "\<forall>p. j \<le> p \<and> p \<le> r \<longrightarrow> ids' ! p \<le> a"
    using sort_partition_spec by blast
  have ord: "ordered_but segs N ids'" if "set segs = {(l, j - 1), (i, r)} \<union> set st" for segs
  proof (rule ordered_step[OF p(2,1) r(2) p(3), of "[(l, j - 1), (i, r)]"])
    fix x y assume xy: "l \<le> x" "x < y" "y \<le> r" "\<forall>s \<in> set [(l, j - 1), (i, r)]. \<not> (fst s \<le> x \<and> y \<le> snd s)"
    then have "x < i" "j \<le> y" using r(3) by auto
    then show "ids' ! y \<le> ids' ! x" using r(6,7) xy(1,3) order_trans by blast
  qed (use that in auto)
  have "\<And>s. s \<in> set st \<Longrightarrow> apart (l, j - 1) s \<and> apart (i, r) s"
    using p(1) r(3-5) by (fastforce simp: segs_ok_def apart_def)
  then have segs: "segs_ok N ((l, j - 1) # (i, r) # st)" "segs_ok N ((i, r) # (l, j - 1) # st)"
    using p(1) r(3-5) lr by (auto simp: segs_ok_def apart_def)
  have sizes: "Suc (j - 1) - l = j - l" "(j - l) + (Suc r - i) \<le> Suc r - l" using r(3-5) by auto
  have "N < length ids'" using p(3) seg_perm_length[OF r(2)] by simp
  then have "if j - l \<le> Suc r - i then sort_inv N ((l, j - 1) # (i, r) # st) ids'
      else sort_inv N ((i, r) # (l, j - 1) # st) ids'"
    using ord[of "(l, j - 1) # (i, r) # st"] ord[of "(i, r) # (l, j - 1) # st"] segs p(4) half_size[OF p(5), of "j - l" "Suc r - i"] half_size[OF p(5), of "Suc r - i" "j - l"] sizes
    by (auto simp: sort_inv_def insert_commute)
  moreover have "length st < 28" by (rule depth_small[OF p(5) large N])
  moreover have "seg_perm 1 N ids ids'" by (rule seg_perm_mono[OF r(2)]) (use lr p(3) in auto)
  ultimately show ?thesis using r(1,3-5) by blast
qed

lemma sort_loop_spec:
  assumes "sort_inv N ((l, r) # st) ids" "N < 2 ^ 31"
  shows "\<exists>ids'. sort_loop (int l) (int r) (int_segs st) ids = Inr ids' \<and> seg_perm 1 N ids ids' \<and> ordered_but [] N ids'"
  using assms(1)
proof (induction "sum_list (map (\<lambda>(l, r). 2 * (Suc r - l) + 1) ((l, r) # st))" arbitrary: l r st ids rule: less_induct)
  case less
  show ?case
  proof (cases "int r - int l < SMALL")
    case True
    obtain ids1 where r: "ins_sort (int l + 1) (int r) ids = Inr ids1" "seg_perm 1 N ids ids1" "sort_inv N st ids1"
      using sort_small[OF less.prems] by blast
    show ?thesis
    proof (cases st)
      case Nil
      then have "sort_loop (int l) (int r) (int_segs st) ids = Inr ids1"
        using True r(1) by (subst sort_loop.simps) simp
      then show ?thesis using r(2,3) Nil by (simp add: sort_inv_def)
    next
      case (Cons s st')
      obtain l' r' where s: "s = (l', r')" by (cases s)
      have "sort_loop (int l) (int r) (int_segs st) ids = sort_loop (int l') (int r') (int_segs st') ids1"
        using True r(1) Cons s by (subst sort_loop.simps) simp
      moreover obtain ids' where "sort_loop (int l') (int r') (int_segs st') ids1 = Inr ids'" "seg_perm 1 N ids1 ids'"
        "ordered_but [] N ids'" using less.hyps[of l' r' st' ids1] r(3) Cons s by auto
      ultimately show ?thesis using r(2) seg_perm_trans by metis
    qed
  next
    case False
    then have large: "8 \<le> r - l" by (simp add: SMALL_def)
    obtain i j ids1 where r: "sort_partition (int l) (int r) ids = Inr (int i, int j, ids1)" "seg_perm 1 N ids ids1"
      "l < j" "j < i" "i \<le> r" "length st < 28"
      "if j - l \<le> Suc r - i then sort_inv N ((l, j - 1) # (i, r) # st) ids1 else sort_inv N ((i, r) # (l, j - 1) # st) ids1"
      using sort_large[OF less.prems assms(2) large] by blast
    have cmp: "int j - int l \<le> int r - int i + 1 \<longleftrightarrow> j - l \<le> Suc r - i" "int j - 1 = int (j - 1)" using r(3-5) by auto
    have step: "sort_loop (int l) (int r) (int_segs st) ids =
        (if j - l \<le> Suc r - i then sort_loop (int l) (int (j - 1)) (int_segs ((i, r) # st)) ids1
         else sort_loop (int i) (int r) (int_segs ((l, j - 1) # st)) ids1)"
      using False push_ok[OF r(6)] by (subst sort_loop.simps) (simp only: r(1) bindE_Inr prod.case cmp if_False if_cancel)
    have "\<exists>ids'. sort_loop (int l) (int r) (int_segs st) ids = Inr ids' \<and> seg_perm 1 N ids1 ids' \<and> ordered_but [] N ids'"
      using less.hyps[of l "j - 1" "(i, r) # st" ids1] less.hyps[of i r "(l, j - 1) # st" ids1] step r(3-5,7)
      by (cases "j - l \<le> Suc r - i") auto
    then show ?thesis using r(2) seg_perm_trans by blast
  qed
qed

lemma midl_sort_ok:
  assumes "unat (ids ! 0) < length ids" "unat (ids ! 0) < 2 ^ 31"
  shows "\<exists>ids'. mdb_midl_sort ids = Inr ids' \<and> length ids' = length ids \<and> ids' ! 0 = ids ! 0 \<and>
    descending (ids_view ids') \<and> mset (ids_view ids') = mset (ids_view ids)"
proof -
  obtain N where N: "unat (ids ! 0) = N" "uint (ids ! 0) = int N" by (rule word_nat)
  have n: "N < length ids" "N < 2 ^ 31" using assms N by simp_all
  have "uint (ids ! 0) < 2 ^ 31" using N(2) n(2) by simp
  from sint_count[OF this] have cnt: "sint (ucast (ids ! 0) :: u32) = int N" using N(2) by simp
  have "sort_inv N [(1, N)] ids" using n by (auto simp: sort_inv_def segs_ok_def ordered_but_def)
  from sort_loop_spec[OF this n(2)] obtain ids' where
    r: "sort_loop 1 (int N) [] ids = Inr ids'" "seg_perm 1 N ids ids'" "ordered_but [] N ids'" by auto
  have ne: "ids \<noteq> []" using n(1) by auto
  have run: "mdb_midl_sort ids = Inr ids'" using r(1) by (simp only: mdb_midl_sort_def arr_get_0[OF ne] bindE_Inr cnt)
  have len: "length ids' = length ids" and hd: "ids' ! 0 = ids ! 0"
    using seg_perm_length[OF r(2)] seg_perm_at[OF r(2), of 0] ne by auto
  have split: "xs = xs ! 0 # take N (tl xs) @ drop N (tl xs)" if "xs \<noteq> []" for xs :: "mdb_id list"
    using that by (cases xs) simp_all
  have ne': "ids' \<noteq> []" using ne len by auto
  have rest: "drop N (tl ids') = drop N (tl ids)"
    by (rule nth_equalityI) (use len seg_perm_at[OF r(2)] in \<open>auto simp: nth_tl\<close>)
  have view: "ids_view ids' = take N (tl ids')" "ids_view ids = take N (tl ids)" using N hd by (simp_all add: ids_view_def)
  have "mset ids' = mset ids" using r(2) by (simp add: seg_perm_def)
  then have "mset (ids' ! 0 # ids_view ids' @ drop N (tl ids')) = mset (ids ! 0 # ids_view ids @ drop N (tl ids))"
    using split[OF ne] split[OF ne'] view by simp
  then have "mset (ids_view ids') = mset (ids_view ids)" using rest hd by simp
  moreover have "descending (ids_view ids')"
    using r(3) n(1) len unfolding view(1) sorted_wrt_iff_nth_less
    by (auto simp: ordered_but_def nth_tl)
  ultimately show ?thesis using run len hd by blast
qed

end
