(* ===== verification/Midl_Properties.thy ===== *)
theory Midl_Properties
  imports Midl_Sort
begin

section \<open>ID lists: theorems\<close>

text \<open>The theorems on \<^verbatim>\<open>midl.c\<close>. Lists are shorter than \<open>2 ^ 31\<close>, as the \<^verbatim>\<open>int\<close> indices of the sort need.\<close>





text \<open>C33. \<^verbatim>\<open>mdb_midl_xmerge\<close> merges a sorted list into another that has room for it, in place: the result is
  sorted and holds the ids of both.\<close>

theorem midl_xmerge_merges:
  assumes "unat (idl ! 0) + unat (merge ! 0) < length idl" "unat (merge ! 0) < length merge" "length idl \<le> 2 ^ 64"
    "descending (ids_view idl)" "descending (ids_view merge)"
  shows "\<exists>idl'. mdb_midl_xmerge idl merge = Inr idl' \<and> length idl' = length idl \<and> descending (ids_view idl') \<and>
    mset (ids_view idl') = mset (ids_view idl) + mset (ids_view merge) \<and>
    unat (idl' ! 0) = unat (idl ! 0) + unat (merge ! 0)"
  using assms by (rule xmerge_ok)

lemma midl_xmerge_merges_witness:
  "\<exists>idl'. mdb_midl_xmerge [2, 9, 4, 0, 0] [2, 7, 4] = Inr idl' \<and> descending (ids_view idl') \<and>
    mset (ids_view idl') = mset [9, 4] + mset [7, 4] \<and> unat (idl' ! 0) = 4"
proof -
  have v: "ids_view [2, 9, 4, 0, 0] = [9, 4]" "ids_view [2, 7, 4] = [7, 4]" by (simp_all add: ids_view_def take_Cons')
  have d: "descending [9, 4 :: mdb_id]" "descending [7, 4 :: mdb_id]" by simp_all
  show ?thesis using midl_xmerge_merges[of "[2, 9, 4, 0, 0]" "[2, 7, 4]", unfolded v, OF _ _ _ d] by auto
qed

text \<open>Appending a list of ids, a range of ids (highest first) and making room, each on a list that may have to
  grow, does to the sequence of ids what it says, and keeps the count within the allocated length.\<close>

theorem midl_appends:
  assumes "idl_ok l" "unat (idl_alloc l) < 2 ^ 31" "unat (app ! 0) < length app" "unat (app ! 0) < 2 ^ 31" "unat n < 2 ^ 31"
    "0 \<le> num" "num < 2 ^ 30" "unat (idl_ids l ! 0) < 2 ^ 30"
  shows "(\<exists>l'. mdb_midl_append_list (Some junk) app l = Inr (0, l') \<and> idl_ok l' \<and> idl_view l' = idl_view l @ ids_view app) \<and>
    (\<exists>l'. mdb_midl_append_range (Some junk) x n l = Inr (0, l') \<and> idl_ok l' \<and>
       idl_view l' = idl_view l @ rev (map (\<lambda>i. x + of_nat i) [0..<unat n])) \<and>
    (\<exists>l'. mdb_midl_need (Some junk) num l = Inr (0, l') \<and> idl_ok l' \<and> idl_view l' = idl_view l \<and>
       unat (idl_ids l ! 0) + nat num \<le> unat (idl_alloc l'))"
proof (intro conjI)
  show "\<exists>l'. mdb_midl_append_list (Some junk) app l = Inr (0, l') \<and> idl_ok l' \<and> idl_view l' = idl_view l @ ids_view app"
    by (rule append_list_ok) (use assms in auto)
  show "\<exists>l'. mdb_midl_append_range (Some junk) x n l = Inr (0, l') \<and> idl_ok l' \<and>
       idl_view l' = idl_view l @ rev (map (\<lambda>i. x + of_nat i) [0..<unat n])"
    by (rule append_range_ok) (use assms in auto)
  obtain k where k: "unat (idl_ids l ! 0) = k" "uint (idl_ids l ! 0) = int k" by (rule word_nat)
  show "\<exists>l'. mdb_midl_need (Some junk) num l = Inr (0, l') \<and> idl_ok l' \<and> idl_view l' = idl_view l \<and>
       unat (idl_ids l ! 0) + nat num \<le> unat (idl_alloc l')"
    by (rule need_ok) (use assms k in auto)
qed

lemma midl_appends_witness:
  "(\<exists>l'. mdb_midl_append_list (Some (\<lambda>_. 0)) [1, 7] \<lparr>idl_alloc = 1, idl_ids = [1, 8]\<rparr> = Inr (0, l') \<and> idl_ok l' \<and>
       idl_view l' = [8, 7]) \<and>
   (\<exists>l'. mdb_midl_append_range (Some (\<lambda>_. 0)) 3 2 \<lparr>idl_alloc = 1, idl_ids = [1, 8]\<rparr> = Inr (0, l') \<and> idl_ok l' \<and>
       idl_view l' = [8, 4, 3]) \<and>
   (\<exists>l'. mdb_midl_need (Some (\<lambda>_. 0)) 4 \<lparr>idl_alloc = 1, idl_ids = [1, 8]\<rparr> = Inr (0, l') \<and> idl_ok l' \<and> idl_view l' = [8] \<and>
       5 \<le> unat (idl_alloc l'))"
proof -
  let ?l = "\<lparr>idl_alloc = 1, idl_ids = [1, 8]\<rparr>"
  have "idl_view ?l = [8]" "ids_view [1, 7] = [7]" "rev (map (\<lambda>i. 3 + of_nat i) [0..<unat (2 :: u32)]) = [4, 3 :: mdb_id]"
    by (simp_all add: idl_view_def ids_view_def upt_rec)
  moreover have "idl_ok ?l" by (simp add: idl_ok_def)
  moreover have "unat (1 :: mdb_id) + nat 4 = 5" by simp
  ultimately show ?thesis using midl_appends[of ?l "[1, 7]" 2 4 "\<lambda>_. 0" 3] by (simp del: rev_map)
qed

text \<open>C34. \<^verbatim>\<open>mdb_mid2l_insert\<close> refines the update of a finite map: an id that is present is refused with -1, a full
  list with -2, both without change; else the pair is added, the other pairs and the order are kept.\<close>

theorem mid2l_insert_map:
  assumes "pairs_ok ids"
  shows "if fst y \<in> dom (map_of (pairs_view ids)) then mdb_mid2l_insert y ids = Inr (-1, ids)
    else if uint (fst (ids ! 0)) = MDB_IDL_UM_MAX then mdb_mid2l_insert y ids = Inr (-2, ids)
    else \<exists>ids'. mdb_mid2l_insert y ids = Inr (0, ids') \<and> pairs_ok ids' \<and>
      map_of (pairs_view ids') = (map_of (pairs_view ids))(fst y \<mapsto> snd y)"
proof -
  let ?v = "pairs_view ids"
  have dom: "fst y \<in> dom (map_of ?v) \<longleftrightarrow> fst y \<in> fst ` set ?v" by (simp add: dom_map_of_conv_image_fst)
  have "map_of (take k ?v @ y # drop k ?v) = (map_of ?v)(fst y \<mapsto> snd y)" if "fst y \<notin> fst ` set ?v" for k
  proof -
    have "fst y \<notin> fst ` set (take k ?v)" using that set_take_subset[of k ?v] by auto
    then have no: "map_of (take k ?v) (fst y) = None" by (simp add: map_of_eq_None_iff)
    have split: "map_of ?v = map_of (take k ?v @ drop k ?v)" by simp
    show ?thesis unfolding split map_of_append using no
      by (cases y) (auto simp: fun_eq_iff map_add_def split: option.splits)
  qed
  then show ?thesis using mid2l_insert_cases[OF assms, of y] unfolding dom by (auto split: if_splits)
qed

lemma mid2l_insert_map_witness:
  "\<exists>ids'. mdb_mid2l_insert (5, True) ((0, False) # replicate 131071 (0, False)) = Inr (0, ids') \<and> pairs_ok ids' \<and>
      map_of (pairs_view ids') = [5 \<mapsto> True]"
proof -
  let ?ids = "(0, False) # replicate 131071 (0, False)"
  have v: "pairs_view ?ids = []" by (simp add: pairs_view_def)
  then have "pairs_ok ?ids" by (simp add: pairs_ok_def MDB_IDL_UM_MAX_def)
  from mid2l_insert_map[OF this, of "(5, True)"] v show ?thesis by (simp add: MDB_IDL_UM_MAX_def)
qed

text \<open>\<^verbatim>\<open>mdb_midl_shrink\<close> allocates one word less than it records: when a shrunk list holds one id less than its
  recorded length, the next append does not grow it and writes behind its memory.\<close>

theorem midl_shrink_overflow:
  assumes "idl_ok l" "MDB_IDL_UM_MAX < uint (idl_alloc l)" "uint (idl_ids l ! 0) = MDB_IDL_UM_MAX - 1"
  shows "fst (mdb_midl_shrink (Some junk) l) = 1 \<and>
    mdb_midl_append mem x (snd (mdb_midl_shrink (Some junk) l)) = Inl Out_of_bounds"
  using shrink_short[OF assms] assms(2) by (simp add: mdb_midl_shrink_def)

lemma midl_shrink_overflow_witness:
  "mdb_midl_append None 3 (snd (mdb_midl_shrink (Some (\<lambda>_. 0)) \<lparr>idl_alloc = 131072, idl_ids = 131070 # replicate 131072 0\<rparr>)) =
     Inl Out_of_bounds"
proof -
  have "idl_ok \<lparr>idl_alloc = 131072, idl_ids = 131070 # replicate 131072 0\<rparr>" by (simp add: idl_ok_def)
  from midl_shrink_overflow[OF this, of "\<lambda>_. 0" None 3] show ?thesis by (simp add: MDB_IDL_UM_MAX_def)
qed

end
