(* ===== verification/Ticketd_Stream.thy ===== *)
theory Ticketd_Stream
  imports Ticketd_Safety
begin

section \<open>From the bytes of a stream to the handlers\<close>

text \<open>
  What a peer writes reaches the handlers of \<^verbatim>\<open>main.c\<close> as it was sent, however the network cuts the
  stream into reads. \<open>peer_reads\<close> is the sequence of read callbacks of one connection; \<open>receive\<close> is the
  handling of a message itself, without bytes.
\<close>

fun peer_reads ::
  "'x ext \<Rightarrow> addr \<Rightarrow> byte list list \<Rightarrow> byte list option \<Rightarrow> raft_server \<times> 'x world \<Rightarrow>
   (fault + byte list option \<times> raft_server \<times> 'x world) option" where
  "peer_reads ext c [] gt sw = Some (Inr (gt, sw))"
| "peer_reads ext c (buf # bufs) gt sw =
     (case peer_read_cb ext c (int (length buf)) buf gt sw of
        None \<Rightarrow> None
      | Some (Inl f) \<Rightarrow> Some (Inl f)
      | Some (Inr (gt, sw)) \<Rightarrow> peer_reads ext c bufs gt sw)"

lemma peer_reads_gather: "peer_reads ext c bufs gt sw = gather_reads (deserialize_and_handle_msg ext c) bufs gt sw"
  by (induction bufs arbitrary: gt sw) (auto simp: peer_read_cb_def split: option.splits sum.splits)

subsection \<open>The handler never refuses an image\<close>

lemma send_handshake_response_zero: "send_handshake_response ext p success leader sw = Inr (e, sw') \<Longrightarrow> e = 0"
  by (auto simp: send_handshake_response_def split: prod.splits)

lemma handle_handshake_zero: "handle_handshake ext c hs sw = Inr (e, sw') \<Longrightarrow> e = 0"
  by (auto simp: handle_handshake_def Let_def split: if_splits prod.splits dest: send_handshake_response_zero)

lemma handle_handshake_response_zero: "handle_handshake_response ext c hsr sw = Inr (e, sw') \<Longrightarrow> e = 0"
  by (auto simp: handle_handshake_response_def split: if_splits prod.splits)

lemma handle_entry_zero: "handle_entry ext c entry sw = Inr (e, sw') \<Longrightarrow> e = 0"
  by (cases sw) (auto simp: handle_entry_def Let_def)

lemma handler_zero:
  assumes "deserialize_and_handle_msg ext c img sw = Inr (e, sw')"
  shows "e = 0"
proof -
  have "handle_msg ext c m sw = Inr (e, sw') \<Longrightarrow> e = 0" for m
    by (cases m) (auto simp: handle_msg_def handle_leave_def handle_requestvote_def handle_appendentries_def
        split: if_splits prod.splits dest: handle_handshake_zero handle_handshake_response_zero)
  then show ?thesis using assms
    by (auto simp: deserialize_and_handle_msg_def handle_payload_def split: if_splits dest: handle_entry_zero)
qed

lemma deliver_handler:
  "deliver (deserialize_and_handle_msg ext c) imgs sw =
     bindE (foldE (\<lambda>img sw. bindE (deserialize_and_handle_msg ext c img sw) (\<lambda>(_, sw). Inr sw)) imgs sw) (\<lambda>sw. Inr (True, sw))"
proof (induction imgs arbitrary: sw)
  case (Cons img imgs)
  show ?case
  proof (cases "deserialize_and_handle_msg ext c img sw")
    case (Inr r)
    obtain e sw1 where "r = (e, sw1)" by (cases r)
    then show ?thesis using Cons.IH[of sw1] handler_zero[of ext c img sw e sw1] Inr by simp
  qed simp
qed simp

lemma reads_any_split:
  assumes "\<And>img. img \<in> set imgs \<Longrightarrow> tpl_image img" "concat bufs = concat imgs"
  shows "peer_reads ext c bufs None sw =
    Some (bindE (foldE (\<lambda>img sw. bindE (deserialize_and_handle_msg ext c img sw) (\<lambda>(_, sw). Inr sw)) imgs sw)
      (\<lambda>sw. Inr (None, sw)))"
proof -
  let ?run = "foldE (\<lambda>img sw. bindE (deserialize_and_handle_msg ext c img sw) (\<lambda>(_, sw). Inr sw)) imgs sw"
  have "gather_reads (deserialize_and_handle_msg ext c) bufs None sw =
    (case deliver (deserialize_and_handle_msg ext c) imgs sw of
       Inl f \<Rightarrow> Some (Inl f) | Inr (ok, s') \<Rightarrow> Some (Inr (None, s')))"
    by (rule gather_reads_stream[OF assms(1), where p = "[]"])
      (use assms(2) in \<open>auto simp: deliver_handler\<close>)
  then show ?thesis by (cases ?run) (simp_all add: peer_reads_gather deliver_handler)
qed

subsection \<open>Streams of messages\<close>

definition wire_ok :: "peer_msg \<Rightarrow> bool" where
  "wire_ok m = (case m of ENTRY_PAYLOAD e \<Rightarrow> c_int (ety_type e) \<and> length (ety_data e) \<le> 402 | _ \<Rightarrow> msg_ok m)"

definition wire_image :: "byte list \<Rightarrow> peer_msg \<Rightarrow> byte list" where
  "wire_image pad m = (case m of ENTRY_PAYLOAD e \<Rightarrow> payload_image pad e | _ \<Rightarrow> msg_image m)"

text \<open>A connection that expects a payload takes the next image for one, whatever it is; peers send one exactly then.\<close>

definition receive ::
  "'x ext \<Rightarrow> addr \<Rightarrow> peer_msg \<Rightarrow> raft_server \<times> 'x world \<Rightarrow> fault + raft_server \<times> 'x world" where
  "receive ext c m sw =
     bindE (conn_get (snd sw) (Some c)) (\<lambda>conn.
     bindE (case m of
              ENTRY_PAYLOAD e \<Rightarrow> bindE (assertE (0 < pc_n_expected_entries conn)) (\<lambda>_. handle_entry ext c e sw)
            | _ \<Rightarrow> bindE (assertE (\<not> 0 < pc_n_expected_entries conn)) (\<lambda>_. handle_msg ext c m sw)) (\<lambda>(_, sw).
     Inr sw))"

lemma tpl_image_wire:
  assumes "wire_ok m" "length pad = 4"
  shows "tpl_image (wire_image pad m)"
proof (cases "\<exists>e. m = ENTRY_PAYLOAD e")
  case True
  then obtain e where m: "m = ENTRY_PAYLOAD e" by blast
  have "length (payload_image pad e) < 2 ^ 32"
    using assms m length_payload_image[OF assms(2), of e] by (simp add: wire_ok_def)
  then show ?thesis using tpl_image_of m by (simp add: wire_image_def payload_image_def)
next
  case False
  then show ?thesis using assms(1) msg_wire_image(2)[of m] by (auto simp: wire_ok_def wire_image_def split: peer_msg.splits)
qed

lemma handle_wire_image:
  assumes "wire_ok m" "length pad = 4" "receive ext c m sw = Inr sw'"
  shows "\<exists>e. deserialize_and_handle_msg ext c (wire_image pad m) sw = Inr (e, sw')"
proof (cases "\<exists>e. m = ENTRY_PAYLOAD e")
  case True
  then obtain e where m: "m = ENTRY_PAYLOAD e" by blast
  have "deserialize_appendentries_payload (junk ext 440) (payload_image pad e) = Inr e"
    by (rule payload_roundtrip) (use assms m in \<open>auto simp: wire_ok_def\<close>)
  then show ?thesis using assms(3) m
    by (auto simp: receive_def deserialize_and_handle_msg_def handle_payload_def wire_image_def)
next
  case False
  then have ok: "msg_ok m" "wire_image pad m = msg_image m"
    using assms(1) by (auto simp: wire_ok_def wire_image_def split: peer_msg.splits)
  have r: "receive ext c m sw = bindE (conn_get (snd sw) (Some c)) (\<lambda>conn.
      bindE (bindE (assertE (\<not> 0 < pc_n_expected_entries conn)) (\<lambda>_. handle_msg ext c m sw)) (\<lambda>(_, sw). Inr sw))"
    using False by (cases m) (auto simp: receive_def)
  show ?thesis using assms(3) msg_roundtrip[OF ok(1), of "junk ext 440"]
    unfolding r ok(2) deserialize_and_handle_msg_def by auto
qed

lemma stream_delivers:
  assumes "\<forall>m \<in> set ms. wire_ok m" "length pad = 4" "concat bufs = concat (map (wire_image pad) ms)"
    "foldE (receive ext c) ms sw = Inr sw'"
  shows "peer_reads ext c bufs None sw = Some (Inr (None, sw'))"
proof -
  let ?h = "\<lambda>img sw. bindE (deserialize_and_handle_msg ext c img sw) (\<lambda>(_, sw). Inr sw)"
  have run: "foldE ?h (map (wire_image pad) ms) sw = Inr sw'" using assms(1,4)
  proof (induction ms arbitrary: sw)
    case (Cons m ms)
    then obtain sw1 where sw1: "receive ext c m sw = Inr sw1" "foldE (receive ext c) ms sw1 = Inr sw'" by auto
    obtain e where "deserialize_and_handle_msg ext c (wire_image pad m) sw = Inr (e, sw1)"
      using handle_wire_image[OF _ assms(2) sw1(1)] Cons.prems(1) by auto
    then show ?case using Cons.IH[OF _ sw1(2)] Cons.prems(1) by simp
  qed simp
  show ?thesis
    by (subst reads_any_split[where imgs = "map (wire_image pad) ms"])
      (use assms run in \<open>auto intro: tpl_image_wire\<close>)
qed

end
