(* ===== verification/Tpl_Bounds.thy ===== *)
theory Tpl_Bounds
  imports Wire_Roundtrip
begin

section \<open>Images from outside\<close>

text \<open>
  An image may come from anyone who can reach the port. \<^verbatim>\<open>tpl_load\<close> walks it first (\<^verbatim>\<open>tpl_sanity\<close>); here is what
  this buys: it returns on every byte string, and after it has accepted one, unpacking reads nothing
  outside of it, unless the image claims the string format of version 1.2.
\<close>

subsection \<open>Memory that can be written\<close>

definition mem_has :: "memory \<Rightarrow> nat \<Rightarrow> nat \<Rightarrow> bool" where
  "mem_has m a n \<longleftrightarrow> (\<exists>(b, bs) \<in> set m. b \<le> a \<and> a + n \<le> b + length bs)"

definition mem_grows :: "memory \<Rightarrow> memory \<Rightarrow> bool" where
  "mem_grows m m' \<longleftrightarrow> (\<forall>a n. mem_has m a n \<longrightarrow> mem_has m' a n)"

lemma mem_grows_refl: "mem_grows m m" by (simp add: mem_grows_def)

lemma mem_grows_trans: "mem_grows m m' \<Longrightarrow> mem_grows m' m'' \<Longrightarrow> mem_grows m m''" by (simp add: mem_grows_def)

lemma mem_write_ok: "mem_has m a (length xs) \<Longrightarrow> \<exists>m'. mem_write a xs m = Inr m' \<and> mem_grows m m'"
proof (induction m)
  case (Cons ob m)
  obtain b bs where ob: "ob = (b, bs)" by (cases ob)
  show ?case
  proof (cases "b \<le> a \<and> a + length xs \<le> b + length bs")
    case True
    have "length (take (a - b) bs @ xs @ drop (a - b + length xs) bs) = length bs" using True by auto
    then show ?thesis using True ob by (auto simp: mem_grows_def mem_has_def)
  next
    case False
    then have "mem_has m a (length xs)" using Cons.prems ob by (auto simp: mem_has_def)
    then show ?thesis using Cons.IH False ob by (auto simp: mem_grows_def mem_has_def)
  qed
qed (simp add: mem_has_def)

lemma mem_alloc_grows: "mem_alloc bs m = (a, m') \<Longrightarrow> mem_grows m m'"
  by (auto simp: mem_alloc_def Let_def mem_grows_def mem_has_def)

text \<open>Room for what unpacking writes to a field.\<close>

definition room :: "memory \<Rightarrow> tpl_node \<Rightarrow> bool" where
  "room m n \<longleftrightarrow>
     (if tn_type n = TPL_TYPE_BIN then mem_has m (tn_addr n) 8 \<and> mem_has m (tn_addr n + 8) 4
      else if tn_type n = TPL_TYPE_STR then mem_has m (tn_addr n) 8
      else tn_type n = TPL_TYPE_ARY \<or> mem_has m (tn_addr n) (tpl_sz (tn_type n)))"

lemma room_grows: "room m n \<Longrightarrow> mem_grows m m' \<Longrightarrow> room m' n"
  by (auto simp: room_def mem_grows_def)

lemma room_same:
  assumes "list_all2 (\<lambda>n n'. tn_type n' = tn_type n \<and> tn_addr n' = tn_addr n \<and> tn_children n' = tn_children n) ns ns'"
    "\<forall>n \<in> set ns. room m n"
  shows "\<forall>n \<in> set ns'. room m n"
  using assms
proof (induction rule: list_all2_induct)
  case (Cons n ns n' ns')
  have "room m n' = room m n" unfolding room_def using Cons.hyps by presburger
  then show ?case using Cons by simp
qed simp

subsection \<open>A walk that succeeds makes the reads safe\<close>

lemma word_at_Some: "word_at x img dv = Some w \<longleftrightarrow> img_u32 x img dv = Inr w"
  by (auto simp: word_at_def split: sum.splits)

lemma bindO_Some [simp]: "bindO x f = Some y \<longleftrightarrow> (\<exists>z. x = Some z \<and> f z = Some y)"
  by (auto simp: bindO_def split: option.splits)

lemma img_get_in: "dv + k \<le> length img \<Longrightarrow> \<exists>bs. img_get img dv k = Inr bs \<and> length bs = k"
  by (simp add: img_get_def)

lemma str_len: "(if 1 < slen then unat slen - 1 else 0) = unat slen - 1" for slen :: u32
  by (auto simp: word_less_nat_alt)

lemma unpack_array_ok:
  assumes "serlen_node (tr_xendian r) False (tr_text r) n dv = Some len" "tn_type n = TPL_TYPE_ARY" "\<not> tr_old_string r"
  shows "\<exists>n'. unpack_array r n dv = Inr (dv + len, n') \<and> tn_type n' = tn_type n \<and> tn_addr n' = tn_addr n \<and>
    tn_children n' = tn_children n"
proof -
  obtain t a d ns where n: "n = Tpl_Node t a d ns" by (cases n)
  then obtain w where "img_u32 (tr_xendian r) (tr_text r) dv = Inr w" using assms by (auto simp: word_at_Some)
  then have "unpack_array r n dv =
      Inr (dv + len, Tpl_Node t a (case d of D_ary _ sz _ \<Rightarrow> D_ary w sz (Some (dv + 4)) | _ \<Rightarrow> d) ns)"
    using assms(3) unfolding unpack_array_def by (simp add: assms(1)) (simp add: n)
  then show ?thesis by (simp add: n)
qed

lemma skip_node_ok:
  assumes "serlen_node (tr_xendian r) False (tr_text r) n dv = Some len" "\<not> tr_old_string r"
  shows "\<exists>n'. skip_node r n dv = Inr (dv + len, n') \<and> tn_type n' = tn_type n \<and> tn_addr n' = tn_addr n \<and>
    tn_children n' = tn_children n"
proof (cases "tn_type n = TPL_TYPE_ARY")
  case True
  then show ?thesis using unpack_array_ok[OF assms(1) True assms(2)] by (simp add: skip_node_def)
next
  case False
  then show ?thesis using assms by (cases n) (auto simp: skip_node_def word_at_Some Let_def split: if_splits)
qed

lemma unpack_node_ok:
  assumes "serlen_node (tr_xendian r) False (tr_text r) n dv = Some len" "\<not> tr_old_string r" "room m n"
  shows "\<exists>n' m'. unpack_node r n (dv, m) = Inr ((dv + len, m'), n') \<and> mem_grows m m'"
proof -
  obtain t a d ns where n: "n = Tpl_Node t a d ns" by (cases n)
  consider "t = TPL_TYPE_BIN" | "t = TPL_TYPE_STR" | "t = TPL_TYPE_ARY" | "t \<notin> {TPL_TYPE_BIN, TPL_TYPE_STR, TPL_TYPE_ARY}" by auto
  then show ?thesis
  proof cases
    case 1
    then obtain slen where s: "img_u32 (tr_xendian r) (tr_text r) dv = Inr slen" "len = 4 + unat slen"
      "dv + 4 + unat slen \<le> length (tr_text r)" using assms(1) n by (auto simp: word_at_Some split: if_splits)
    obtain bs where bs: "img_get (tr_text r) (dv + 4) (unat slen) = Inr bs" using img_get_in s(3) by blast
    obtain p m1 where p: "(if 0 < slen then mem_alloc bs m else (0, m)) = (p, m1)" by fastforce
    then have g1: "mem_grows m m1" using mem_alloc_grows mem_grows_refl by (auto split: if_splits)
    have rm: "mem_has m1 a (length (ptr_bytes p))" "mem_has m1 (a + 8) 4"
      using room_grows[OF assms(3) g1] n 1 by (auto simp: room_def)
    obtain m2 where m2: "mem_write a (ptr_bytes p) m1 = Inr m2" "mem_grows m1 m2" using mem_write_ok[OF rm(1)] by blast
    have "mem_has m2 (a + 8) (length (u32_bytes slen))" using rm(2) m2(2) by (simp add: mem_grows_def)
    then obtain m3 where m3: "mem_write (a + 8) (u32_bytes slen) m2 = Inr m3" "mem_grows m2 m3" using mem_write_ok by blast
    have "mem_grows m m3" using mem_grows_trans g1 m2(2) m3(2) by blast
    then show ?thesis using n 1 s bs p m2(1) m3(1) by (simp add: unpack_node_def)
  next
    case 2
    then obtain slen where s: "img_u32 (tr_xendian r) (tr_text r) dv = Inr slen" "len = 4 + (unat slen - 1)"
      "dv + 4 + (unat slen - 1) \<le> length (tr_text r)"
      using assms(1) n by (auto simp: word_at_Some Let_def word_less_nat_alt split: if_splits)
    obtain bs where bs: "img_get (tr_text r) (dv + 4) (unat slen - 1) = Inr bs" using img_get_in s(3) by blast
    obtain p m1 where p: "(if 0 < slen then mem_alloc (bs @ [0]) m else (0, m)) = (p, m1)" by fastforce
    then have g1: "mem_grows m m1" using mem_alloc_grows mem_grows_refl by (auto split: if_splits)
    have "mem_has m1 a (length (ptr_bytes p))" using room_grows[OF assms(3) g1] n 2 by (auto simp: room_def)
    then obtain m2 where m2: "mem_write a (ptr_bytes p) m1 = Inr m2" "mem_grows m1 m2" using mem_write_ok by blast
    have "mem_grows m m2" using mem_grows_trans g1 m2(2) by blast
    then show ?thesis using n 2 s bs p m2(1) assms(2)
      by (cases "0 < slen") (auto simp: unpack_node_def Let_def word_less_nat_alt split: prod.splits)
  next
    case 3
    then show ?thesis using unpack_array_ok[OF assms(1) _ assms(2)] n mem_grows_refl by (auto simp: unpack_node_def)
  next
    case 4
    then have s: "len = tpl_sz t" "dv + tpl_sz t \<le> length (tr_text r)" using assms(1) n by (auto split: if_splits)
    obtain bs where bs: "img_get (tr_text r) dv (tpl_sz t) = Inr bs" "length bs = tpl_sz t" using img_get_in s(2) by blast
    have "mem_has m a (length (tpl_byteswap (tr_xendian r) bs))"
      using assms(3) n 4 bs(2) by (auto simp: room_def tpl_byteswap_def)
    then obtain m1 where "mem_write a (tpl_byteswap (tr_xendian r) bs) m = Inr m1" "mem_grows m m1" using mem_write_ok by blast
    then show ?thesis using n 4 s bs(1) by (auto simp: unpack_node_def)
  qed
qed


lemma skip_nodes_ok:
  assumes "serlen_nodes (tr_xendian r) False (tr_text r) ns dv = Some len" "\<not> tr_old_string r"
  shows "\<exists>ns'. skip_nodes r ns dv = Inr ns' \<and>
    list_all2 (\<lambda>n n'. tn_type n' = tn_type n \<and> tn_addr n' = tn_addr n \<and> tn_children n' = tn_children n) ns ns'"
  using assms(1)
proof (induction ns arbitrary: dv len)
  case (Cons n ns)
  then obtain k l where "serlen_node (tr_xendian r) False (tr_text r) n dv = Some k"
    "serlen_nodes (tr_xendian r) False (tr_text r) ns (dv + k) = Some l" by auto
  then show ?case using skip_node_ok[OF _ assms(2)] Cons.IH by fastforce
qed simp

lemma unpack_nodes_ok:
  assumes "serlen_nodes (tr_xendian r) False (tr_text r) ns dv = Some len" "\<not> tr_old_string r" "\<forall>n \<in> set ns. room m n"
  shows "\<exists>ns' m'. unpack_nodes r ns (dv, m) = Inr (ns', m')"
  using assms(1,3)
proof (induction ns arbitrary: dv len m)
  case (Cons n ns)
  then obtain k l where k: "serlen_node (tr_xendian r) False (tr_text r) n dv = Some k"
    "serlen_nodes (tr_xendian r) False (tr_text r) ns (dv + k) = Some l" by auto
  obtain n' m' where "unpack_node r n (dv, m) = Inr ((dv + k, m'), n')" "mem_grows m m'"
    using unpack_node_ok[OF k(1) assms(2), of m] Cons.prems(2) by auto
  moreover from this(2) have "\<forall>n \<in> set ns. room m' n" using Cons.prems(2) room_grows by auto
  ultimately show ?case using Cons.IH[OF k(2)] by fastforce
qed simp

subsection \<open>The walk looks at types and children only\<close>

lemma serlen_node_data: "serlen_node x old img (Tpl_Node t a d ns) dv = serlen_node x old img (Tpl_Node t a' d' ns) dv"
  by simp

lemma serlen_same:
  assumes "list_all2 (\<lambda>n n'. tn_type n' = tn_type n \<and> tn_addr n' = tn_addr n \<and> tn_children n' = tn_children n) ns ns'"
  shows "serlen_nodes x old img ns' dv = serlen_nodes x old img ns dv"
  using assms
proof (induction arbitrary: dv rule: list_all2_induct)
  case (Cons n ns n' ns')
  have "serlen_node x old img n' dv = serlen_node x old img n dv"
    using Cons.hyps by (cases n; cases n') (simp del: serlen_node.simps, metis serlen_node_data)
  then show ?case using Cons.IH by simp
qed simp

fun has_str :: "tpl_node \<Rightarrow> bool" where
  "has_str (Tpl_Node t a d ns) \<longleftrightarrow> t = TPL_TYPE_STR \<or> (\<exists>n \<in> set ns. has_str n)"

lemma serlen_no_str:
  "\<not> has_str n \<Longrightarrow> serlen_node x old img n dv = serlen_node x False img n dv"
  "(\<And>n. n \<in> set ns \<Longrightarrow> \<not> has_str n) \<Longrightarrow> serlen_nodes x old img ns dv = serlen_nodes x False img ns dv"
proof (induction x old img n dv and x old img ns dv rule: serlen_node_serlen_nodes.induct)
  case (1 x old img t a d ns dv)
  then have "(\<lambda>dv. serlen_nodes x old img ns dv) = (\<lambda>dv. serlen_nodes x False img ns dv)" if "t = TPL_TYPE_ARY"
    using that by (intro ext) auto
  then show ?case using 1 by simp
qed simp_all

subsection \<open>Loading any byte string\<close>

lemma tpl_sanity_total: "\<exists>rc r'. tpl_sanity r = Inr (rc, r')"
proof (cases "length (tr_text r) < 9")
  case False
  then obtain b where "img_get (tr_text r) 3 1 = Inr [b]"
    by (auto simp: img_get_def numeral_eq_Suc take_Suc_conv_app_nth hd_drop_conv_nth Cons_nth_drop_Suc[symmetric])
  moreover have "\<forall>x. \<exists>w. img_u32 x (tr_text r) 4 = Inr w"
  proof
    fix x
    obtain bs where bs: "img_get (tr_text r) 4 4 = Inr bs" "length bs = 4" using img_get_in[of 4 4 "tr_text r"] False by auto
    then have "4 \<le> length (tpl_byteswap x bs)" by (simp add: tpl_byteswap_def)
    from bytes_int_ex[OF this] show "\<exists>w. img_u32 x (tr_text r) 4 = Inr w"
      using bs(1) by (auto simp: img_u32_def bytes_u32_def)
  qed
  then obtain f where "\<And>x. img_u32 x (tr_text r) 4 = Inr (f x)" by metis
  ultimately show ?thesis by (simp add: tpl_sanity_def tpl_needs_endian_swap_def Let_def)
qed (simp add: tpl_sanity_def)


text \<open>What an image with result 0 looks like.\<close>

lemma sanity_accepts:
  assumes "tpl_sanity ((fresh_map fmt ns)\<lparr>tr_text := img\<rparr>) = Inr (0, r)"
  obtains swap old where "r = (fresh_map fmt ns)\<lparr>tr_text := img, tr_xendian := swap, tr_old_string := old\<rparr>"
    "tpl_needs_endian_swap img = Inr swap" "sanity_data r = 0" "old \<longleftrightarrow> img ! 3 AND TPL_FL_NULLSTRINGS = 0"
proof -
  have codes: "ERR_NOT_MINSIZE \<noteq> 0" "ERR_MAGIC_MISMATCH \<noteq> 0" "ERR_UNSUPPORTED_FLAGS \<noteq> 0" "ERR_INCONSISTENT_SZ \<noteq> 0"
    by (simp_all add: ERR_NOT_MINSIZE_def ERR_MAGIC_MISMATCH_def ERR_UNSUPPORTED_FLAGS_def ERR_INCONSISTENT_SZ_def)
  have len: "9 \<le> length img" using assms codes by (auto simp: tpl_sanity_def fresh_map_def split: if_splits)
  obtain swap where swap: "tpl_needs_endian_swap img = Inr swap"
    using assms codes by (auto simp: tpl_sanity_def fresh_map_def Let_def split: if_splits)
  have b: "img_get img 3 1 = Inr [img ! 3]"
    using len by (simp add: img_get_def take_Suc_conv_app_nth hd_drop_conv_nth)
  let ?r = "(fresh_map fmt ns)\<lparr>tr_text := img, tr_xendian := swap, tr_old_string := (img ! 3 AND TPL_FL_NULLSTRINGS = 0)\<rparr>"
  have "r = ?r \<and> sanity_data ?r = 0"
    using assms codes swap b len by (cases swap) (auto simp: tpl_sanity_def fresh_map_def Let_def split: if_splits)
  then show thesis using that swap by blast
qed

lemma load_any:
  assumes "fmt_char CHR ''#'' \<notin> set fmt" "img ! 3 AND TPL_FL_NULLSTRINGS \<noteq> 0 \<or> (\<forall>n \<in> set ns. \<not> has_str n)"
  shows "\<exists>e r. tpl_load img (fresh_map fmt ns) = Inr (e, r) \<and>
    (e = 0 \<longrightarrow> (\<forall>m. (\<forall>n \<in> set ns. room m n) \<longrightarrow> (\<exists>r' m'. tpl_unpack r m = Inr (1, r', m'))))"
proof -
  let ?r0 = "(fresh_map fmt ns)\<lparr>tr_text := img\<rparr>"
  have fresh: "\<not> tr_wronly (fresh_map fmt ns)" "\<not> tr_rdonly (fresh_map fmt ns)" by (simp_all add: fresh_map_def)
  obtain rc r1 where rc: "tpl_sanity ?r0 = Inr (rc, r1)" using tpl_sanity_total by blast
  show ?thesis
  proof (cases "rc = 0")
    case False
    then show ?thesis using rc fresh by (auto simp: tpl_load_def)
  next
    case True
    with rc have "tpl_sanity ?r0 = Inr (0, r1)" by simp
    then obtain swap old where r1: "r1 = (fresh_map fmt ns)\<lparr>tr_text := img, tr_xendian := swap, tr_old_string := old\<rparr>"
      and swap: "tpl_needs_endian_swap img = Inr swap" and sd: "sanity_data r1 = 0"
      and old: "old \<longleftrightarrow> img ! 3 AND TPL_FL_NULLSTRINGS = 0" by (rule sanity_accepts)
    let ?fmt = "takeWhile (\<lambda>b. b \<noteq> 0) (drop 8 img)"
    note codes = ERR_FMT_INVALID_def ERR_FMT_MISSING_NUL_def ERR_FMT_MISMATCH_def ERR_INCONSISTENT_SZ2_def
      ERR_INCONSISTENT_SZ3_def ERR_INCONSISTENT_SZ4_def
    have fmt: "fmt = ?fmt" "9 + length ?fmt \<le> length img" and
      ser: "\<exists>len. serlen_nodes swap old img ns (8 + length fmt + 1) = Some len"
      using sd r1 by (auto simp: sanity_data_def fresh_map_def Let_def codes split: if_splits option.splits)
    obtain len where "serlen_nodes swap old img ns (8 + length fmt + 1) = Some len" using ser by blast
    then have len: "serlen_nodes swap False img ns (8 + length fmt + 1) = Some len"
      using assms(2) old serlen_no_str(2)[of ns swap old img] by (cases old) auto
    have "0 \<in> set (drop 8 img)"
    proof (rule ccontr)
      assume "0 \<notin> set (drop 8 img)"
      then have "?fmt = drop 8 img" unfolding takeWhile_eq_all_conv by metis
      then have "length ?fmt = length img - 8" by (simp only: length_drop)
      then show False using fmt(2) by linarith
    qed
    moreover have "filter (\<lambda>c. c = fmt_char CHR ''#'') fmt = []" using assms(1) by (auto simp: filter_empty_conv)
    ultimately have ds: "tpl_find_data_start img = Inr (8 + length fmt + 1)"
      using fmt(1) by (simp add: tpl_find_data_start_def Let_def)
    let ?r = "(fresh_map fmt ns)\<lparr>tr_rdonly := True, tr_xendian := swap, tr_text := img\<rparr>"
    have "serlen_nodes (tr_xendian ?r) False (tr_text ?r) ns (8 + length fmt + 1) = Some len" "\<not> tr_old_string ?r"
      using len by (simp_all add: fresh_map_def)
    from skip_nodes_ok[OF this] obtain ns' where ns': "skip_nodes ?r ns (8 + length fmt + 1) = Inr ns'"
      "list_all2 (\<lambda>n n'. tn_type n' = tn_type n \<and> tn_addr n' = tn_addr n \<and> tn_children n' = tn_children n) ns ns'" by blast
    let ?r' = "?r\<lparr>tr_children := ns'\<rparr>"
    have load: "tpl_load img (fresh_map fmt ns) = Inr (0, ?r')"
      using rc True r1 swap ds ns'(1) by (simp add: tpl_load_def tpl_unpackA0_def fresh_map_def)
    have "\<exists>r' m'. tpl_unpack ?r' m = Inr (1, r', m')" if room: "\<forall>n \<in> set ns. room m n" for m
    proof -
      have "serlen_nodes (tr_xendian ?r') False (tr_text ?r') ns' (8 + length fmt + 1) = Some len"
        using len serlen_same[OF ns'(2)] by (simp add: fresh_map_def)
      moreover have "\<not> tr_old_string ?r'" by (simp add: fresh_map_def)
      moreover have "\<forall>n \<in> set ns'. room m n" by (rule room_same[OF ns'(2) room])
      ultimately obtain ns'' m' where "unpack_nodes ?r' ns' (8 + length fmt + 1, m) = Inr (ns'', m')"
        using unpack_nodes_ok by blast
      then show ?thesis using ds by (simp add: tpl_unpack_def unpack_packed_def fresh_map_def)
    qed
    then show ?thesis using load by blast
  qed
qed

end
