(* ===== verification/Wire_Properties.thy ===== *)
theory Wire_Properties
  imports Ticketd_Stream Ticketd_Demo Tpl_Bounds
begin

section \<open>The serialiser and the wire: theorems\<close>

text \<open>The theorems on \<^verbatim>\<open>tpl.c\<close> and on the peer protocol of \<^verbatim>\<open>main.c\<close> as bytes.\<close>

text \<open>Three images nobody should send: strings in the format of version 1.2, a length of 0, no data.\<close>

definition old_string_image :: "byte list" where
  "old_string_image = TPL_MAGIC @ [0] @ u32_bytes 23 @ map fmt_char ''S(ss)'' @ [0] @ u32_bytes 1 @ [120] @ u32_bytes 0"

definition empty_image :: "byte list" where
  "empty_image = TPL_MAGIC @ [0, 0, 0, 0, 0, 0]"

definition short_image :: "byte list" where
  "short_image = TPL_MAGIC @ [0] @ u32_bytes 13 @ map fmt_char ''S(I)'' @ [0]"

subsection \<open>The serialiser\<close>

text \<open>C21. TPL copies fields: packing the fields of a map, dumping it, loading the image into a map of the same
  format and unpacking it writes exactly the values read, field by field, whatever the two memories are.\<close>

theorem tpl_transfer:
  assumes "fmt_ok fmt" "list_all2 (read_val m1) ns1 vs" "fields_match ns2 vs"
    "TPL_TYPE_STR \<in> tn_type ` set ns2 \<longrightarrow> fmt_char CHR ''s'' \<in> set fmt"
    "length (image_of fmt vs) \<le> pa_sz" "length (image_of fmt vs) < 2 ^ 32"
  shows "\<exists>r img r2. tpl_pack m1 (fresh_map fmt ns1) = Inr r \<and> tpl_dump_prealloc pa_sz r = Inr (0, img) \<and>
    tpl_peek img = Inr (Some fmt) \<and> tpl_load img (fresh_map fmt ns2) = Inr (0, r2) \<and>
    tpl_unpack r2 m2 = bindE (foldE store_val (zip (map tn_addr ns2) vs) m2) (\<lambda>m. Inr (1, r2, m))"
proof -
  obtain r where "tpl_pack m1 (fresh_map fmt ns1) = Inr r" "tpl_dump_prealloc pa_sz r = Inr (0, image_of fmt vs)"
    using pack_dump[OF assms(2), of fmt pa_sz] assms(5) by auto
  then show ?thesis
    using peek_image[OF assms(6,1)] load_image[OF assms(1,3,4,6)] unpack_image[OF assms(1,3), of m2] by blast
qed

lemma tpl_transfer_witness:
  "\<exists>r img r2. tpl_pack [(8, int_bytes 5 @ [0, 0, 0, 0] @ ptr_bytes 480), (480, [104, 105, 0])]
       (fresh_map (map fmt_char ''S(is)'') [Tpl_Node TPL_TYPE_INT32 8 D_undef [], Tpl_Node TPL_TYPE_STR 16 (D_str None) []]) = Inr r \<and>
     tpl_dump_prealloc 512 r = Inr (0, img) \<and> tpl_peek img = Inr (Some (map fmt_char ''S(is)'')) \<and>
     tpl_load img (fresh_map (map fmt_char ''S(is)'') [Tpl_Node TPL_TYPE_INT32 100 D_undef [], Tpl_Node TPL_TYPE_STR 108 (D_str None) []]) = Inr (0, r2) \<and>
     tpl_unpack r2 [(100, replicate 16 0)] =
       Inr (1, r2, [(100, int_bytes 5 @ [0, 0, 0, 0] @ ptr_bytes 116), (116, [104, 105, 0])])"
proof -
  let ?fmt = "map fmt_char ''S(is)''" and ?vs = "[V_num (int_bytes 5), V_str (Some [104, 105])]"
  let ?n1 = "[Tpl_Node TPL_TYPE_INT32 8 D_undef [], Tpl_Node TPL_TYPE_STR 16 (D_str None) []]"
  let ?n2 = "[Tpl_Node TPL_TYPE_INT32 100 D_undef [], Tpl_Node TPL_TYPE_STR 108 (D_str None) []]"
  let ?m1 = "[(8, int_bytes 5 @ [0, 0, 0, 0] @ ptr_bytes 480), (480, [104, 105, 0])]"
  have p: "bytes_ptr (ptr_bytes 480) = 480" by code_simp
  have f: "fmt_ok ?fmt" "fmt_char CHR ''s'' \<in> set ?fmt" by code_simp+
  have rd: "list_all2 (read_val ?m1) ?n1 ?vs" by (simp add: read_val_def p)
  have fm: "fields_match ?n2 ?vs" by (simp add: fields_match_def)
  have st: "foldE store_val (zip (map tn_addr ?n2) ?vs) [(100, replicate 16 0)] =
      Inr [(100, int_bytes 5 @ [0, 0, 0, 0] @ ptr_bytes 116), (116, [104, 105, 0])]" by code_simp
  have len: "length (image_of ?fmt ?vs) = 24" by (simp add: length_image_of)
  show ?thesis using tpl_transfer[OF f(1) rd fm, of 512 "[(100, replicate 16 0)]"] f(2) len unfolding st by simp
qed



text \<open>The old format of strings is not safe: an image without the flag \<^verbatim>\<open>TPL_FL_NULLSTRINGS\<close> is checked in the
  format of version 1.2, then \<^verbatim>\<open>tpl_load\<close> forgets that, and \<^verbatim>\<open>tpl_unpack\<close> takes the length of a string
  for its length plus one. Here a character is read as part of the next length, and the read leaves the image.\<close>

theorem tpl_old_strings_overread:
  "case tpl_map (Some (map fmt_char ''S(ss)'')) [8] of
     Inr (Some r0) \<Rightarrow>
       (case tpl_load old_string_image r0 of
          Inr (e, r) \<Rightarrow> e = 0 \<and> tpl_unpack r [(8, replicate 16 0)] = Inl Out_of_bounds
        | _ \<Rightarrow> False)
   | _ \<Rightarrow> False"
  by code_simp

subsection \<open>Messages as bytes\<close>

text \<open>C20. A message survives the wire: what \<^verbatim>\<open>peer_msg_serialize\<close> writes for a message, or for the payload behind an
  append-entries message, is one image that the receiver reads back as that message, whatever its
  uninitialised variables held.\<close>

theorem peer_message_roundtrip:
  assumes "wire_ok m" "length pad = 4" "length old = 440"
  shows "tpl_image (wire_image pad m) \<and>
    (case m of
       ENTRY_PAYLOAD e \<Rightarrow> payload_wire pad 69 e = Inr (wire_image pad m) \<and>
         deserialize_appendentries_payload old (wire_image pad m) = Inr e
     | _ \<Rightarrow> msg_wire m = Inr (wire_image pad m) \<and> deserialize_msg old (wire_image pad m) = Inr m)"
proof (cases "\<exists>e. m = ENTRY_PAYLOAD e")
  case True
  then obtain e where m: "m = ENTRY_PAYLOAD e" by blast
  then have e: "c_int (ety_type e)" "length (ety_data e) \<le> 402" using assms(1) by (simp_all add: wire_ok_def)
  have "payload_wire pad 69 e = Inr (payload_image pad e)"
    using payload_wire_cases[OF assms(2), of e 69] e(2) by (simp add: RAFT_BUFLEN_def)
  moreover have "deserialize_appendentries_payload old (payload_image pad e) = Inr e"
    by (rule payload_roundtrip[OF assms(2) _ e(1) assms(3)]) (use e(2) in simp)
  ultimately show ?thesis using tpl_image_wire[OF assms(1,2)] m by (simp add: wire_image_def)
next
  case False
  then have ok: "msg_ok m" "wire_image pad m = msg_image m"
    using assms(1) by (auto simp: wire_ok_def wire_image_def split: peer_msg.splits)
  then show ?thesis using False msg_wire_image(1,2)[OF ok(1)] msg_roundtrip[OF ok(1) assms(3)] by (cases m) auto
qed

lemma peer_message_roundtrip_witness:
  "deserialize_msg (replicate 440 7) (wire_image [0, 0, 0, 0] (MSG_REQUESTVOTE \<lparr>rv_term = 3, rv_candidate_id = 1, rv_last_log_idx = 9, rv_last_log_term = 2\<rparr>)) =
     Inr (MSG_REQUESTVOTE \<lparr>rv_term = 3, rv_candidate_id = 1, rv_last_log_idx = 9, rv_last_log_term = 2\<rparr>)"
  using peer_message_roundtrip[of "MSG_REQUESTVOTE \<lparr>rv_term = 3, rv_candidate_id = 1, rv_last_log_idx = 9, rv_last_log_term = 2\<rparr>"
      "[0, 0, 0, 0]" "replicate 440 7"] by (simp add: wire_ok_def c_int_def)

text \<open>How the network cuts a stream does not matter: reading a stream of images in any pieces does what
  handling the images one by one does, faults included, and leaves nothing over.\<close>

theorem peer_reads_any_split:
  assumes "\<forall>img \<in> set imgs. tpl_image img" "concat bufs = concat imgs"
  shows "peer_reads ext c bufs None sw =
    Some (bindE (foldE (\<lambda>img sw. bindE (deserialize_and_handle_msg ext c img sw) (\<lambda>(_, sw). Inr sw)) imgs sw)
      (\<lambda>sw. Inr (None, sw)))"
  by (rule reads_any_split) (use assms in auto)

text \<open>C19. From peer to handler: when the bytes of some messages, payloads included, arrive in any pieces, the
  read callbacks do exactly what the handlers do on the messages themselves.\<close>

theorem peer_stream_delivers:
  assumes "\<forall>m \<in> set ms. wire_ok m" "length pad = 4" "concat bufs = concat (map (wire_image pad) ms)"
    "foldE (receive ext c) ms sw = Inr sw'"
  shows "peer_reads ext c bufs None sw = Some (Inr (None, sw'))"
  using assms by (rule stream_delivers)

lemma demo_receive_leave: "receive demo_ext 3 MSG_LEAVE (s, demo_world) = Inr (s, demo_world)"
  by (simp add: receive_def handle_msg_def handle_leave_def conn_get_def demo_world_def demo_conn_def zero_conn_def)

lemma peer_stream_delivers_witness:
  "peer_reads demo_ext 3 [take 5 (msg_image MSG_LEAVE), drop 5 (msg_image MSG_LEAVE) @ msg_image MSG_LEAVE] None (demo_self, demo_world) =
     Some (Inr (None, demo_self, demo_world))"
proof -
  have "foldE (receive demo_ext 3) [MSG_LEAVE, MSG_LEAVE] (demo_self, demo_world) = Inr (demo_self, demo_world)"
    by (simp add: demo_receive_leave)
  then show ?thesis
    by (intro peer_stream_delivers[of "[MSG_LEAVE, MSG_LEAVE]" "[0, 0, 0, 0]"]) (simp_all add: wire_ok_def wire_image_def)
qed

lemma peer_reads_any_split_witness:
  "peer_reads demo_ext 3 [take 5 (msg_image MSG_LEAVE), drop 5 (msg_image MSG_LEAVE)] None (demo_self, demo_world) =
    Some (bindE (foldE (\<lambda>img sw. bindE (deserialize_and_handle_msg demo_ext 3 img sw) (\<lambda>(_, sw). Inr sw)) [msg_image MSG_LEAVE]
      (demo_self, demo_world)) (\<lambda>sw. Inr (None, sw)))"
  by (rule peer_reads_any_split) (use msg_wire_image(2)[of MSG_LEAVE] in simp_all)

subsection \<open>Where the code departs from its intent\<close>

text \<open>The buffer of an append-entries message is too small: the payload is dumped behind the 69 bytes of the
  message with the size of the whole buffer, so an entry with 403 to 471 bytes of data is written
  behind the buffer, and one with more ends the process.\<close>

theorem payload_overruns_buffer:
  assumes "length pad = 4" "402 < length (ety_data e)" "length (ety_data e) < 2 ^ 32" "msg_ok (MSG_APPENDENTRIES ae)"
  shows "length (msg_image (MSG_APPENDENTRIES ae)) = 69 \<and>
    payload_wire pad 69 e = (if length (ety_data e) \<le> 471 then Inl Out_of_bounds else Inl Assert_failed)"
proof -
  have f: "(map fmt_char ''S(I$(IIIII))'', 6) \<in> set i64_fmts" by (simp add: i64_fmts_def)
  have "length (msg_image (MSG_APPENDENTRIES ae)) = 69"
    using i64_transfer(3)[OF f, of "msg_bytes (MSG_APPENDENTRIES ae)" "msg_bytes (MSG_APPENDENTRIES ae)"]
      length_msg_bytes[OF assms(4)] by (simp add: msg_image_def)
  then show ?thesis using payload_wire_cases[OF assms(1,3), of 69] assms(2) by (auto simp: RAFT_BUFLEN_def)
qed

lemma payload_overruns_buffer_witness:
  "payload_wire [0, 0, 0, 0] 69 (zero_entry\<lparr>ety_data := replicate 403 1\<rparr>) = Inl Out_of_bounds"
  using payload_overruns_buffer[of "[0, 0, 0, 0]" "zero_entry\<lparr>ety_data := replicate 403 1\<rparr>" zero_ae]
  by (simp add: zero_ae_def c_int_def)

text \<open>C23. Anyone who can connect can end the process: an image that says its length is 0 makes \<^verbatim>\<open>tpl_map\<close> read a
  null pointer, and the result of \<^verbatim>\<open>tpl_load\<close> is ignored, so an image without the data its format
  announces is unpacked all the same, from behind its end.\<close>

lemma short_image_overread: "tpl_receive short_image [msg_addr] m = Inl Out_of_bounds"
proof -
  have peek: "tpl_peek short_image = Inr (Some (map fmt_char ''S(I)''))" by code_simp
  have load: "tpl_load short_image (fresh_map (map fmt_char ''S(I)'') (i64_nodes msg_addr 1)) =
      Inr (-1, (fresh_map (map fmt_char ''S(I)'') (i64_nodes msg_addr 1))\<lparr>tr_text := short_image, tr_old_string := True\<rparr>)"
    by code_simp
  have get: "tpl_find_data_start short_image = Inr 13" "img_get short_image 13 8 = Inl Out_of_bounds" by code_simp+
  have "tpl_map (Some (map fmt_char ''S(I)'')) [msg_addr] = Inr (Some (fresh_map (map fmt_char ''S(I)'') (i64_nodes msg_addr 1)))"
    by (rule i64_maps(1)) (simp add: i64_fmts_def)
  then show ?thesis using peek load get
    by (simp add: tpl_receive_def tpl_unpack_def unpack_packed_def fresh_map_def i64_nodes_def unpack_node_def)
qed

theorem malformed_image_crashes:
  assumes "conn_get (snd sw) (Some c) = Inr conn" "pc_n_expected_entries conn = 0"
  shows "peer_read_cb ext c 9 empty_image None sw = Some (Inl Null_deref) \<and>
    peer_read_cb ext c 13 short_image None sw = Some (Inl Out_of_bounds)"
proof
  have e: "8 < length empty_image" "take 3 empty_image = TPL_MAGIC" "image_len empty_image = Inr 0" by code_simp+
  have "deserialize_and_handle_msg ext c [] sw = Inl Null_deref"
    using assms by (simp add: deserialize_and_handle_msg_def deserialize_msg_def tpl_receive_def tpl_peek_def tpl_map_def)
  then have "gather_loop (deserialize_and_handle_msg ext c) empty_image sw = Some (Inl Null_deref)"
    using e by (subst gather_loop.simps) simp
  then show "peer_read_cb ext c 9 empty_image None sw = Some (Inl Null_deref)"
    by (simp add: peer_read_cb_def tpl_gather_mem_def)
  have s: "8 < length short_image" "take 3 short_image = TPL_MAGIC" "image_len short_image = Inr 13" "length short_image = 13"
    by code_simp+
  have "deserialize_and_handle_msg ext c short_image sw = Inl Out_of_bounds"
    using assms short_image_overread by (simp add: deserialize_and_handle_msg_def deserialize_msg_def)
  then have "gather_loop (deserialize_and_handle_msg ext c) short_image sw = Some (Inl Out_of_bounds)"
    using s by (subst gather_loop.simps) simp
  then show "peer_read_cb ext c 13 short_image None sw = Some (Inl Out_of_bounds)"
    by (simp add: peer_read_cb_def tpl_gather_mem_def)
qed

lemma malformed_image_crashes_witness:
  "peer_read_cb demo_ext 3 9 empty_image None (demo_self, demo_world) = Some (Inl Null_deref)"
  using malformed_image_crashes[of "(demo_self, demo_world)" 3 demo_conn demo_ext]
  by (simp add: conn_get_def demo_world_def demo_conn_def zero_conn_def)

end
