(* ===== verification/Http_Parser.thy ===== *)
theory Http_Parser
  imports C_Strings
begin

section \<open>The HTTP parser (picohttpparser.c)\<close>

text \<open>
  \<^verbatim>\<open>src/src/picohttpparser/picohttpparser.c\<close>: requests, responses and headers. The buffer is the list of its
  bytes, a pointer into it an offset, and a read behind it a fault. A parsing function returns the
  offset it stopped at or, where the code stores \<^verbatim>\<open>*ret\<close> and returns \<^verbatim>\<open>NULL\<close>, that number: -1 for an error, -2
  for input that ends too early.

  The code is compiled with or without SSE 4.2; \<open>sse\<close> says which. \<^verbatim>\<open>_mm_cmpestri\<close> is modelled as documented: the
  first of 16 bytes that lies in one of the ranges, or 16. Plain \<^verbatim>\<open>char\<close> is signed.
\<close>

type_synonym 'a phr = "fault + int + 'a"

definition bindP :: "'a phr \<Rightarrow> ('a \<Rightarrow> 'b phr) \<Rightarrow> 'b phr" where
  "bindP m k = bindE m (\<lambda>r. case r of Inl e \<Rightarrow> Inr (Inl e) | Inr x \<Rightarrow> k x)"

abbreviation okP :: "'a \<Rightarrow> 'a phr" where "okP x \<equiv> Inr (Inr x)"
abbreviation failP :: "int \<Rightarrow> 'a phr" where "failP e \<equiv> Inr (Inl e)"

lemma bindP_simps [simp]: "bindP (okP x) k = k x" "bindP (failP e) k = failP e" "bindP (Inl f) k = Inl f"
  by (simp_all add: bindP_def)

lemma bindP_okP [simp]: "(bindP m k = okP y) = (\<exists>x. m = okP x \<and> k x = okP y)"
proof (cases m)
  case (Inr r)
  then show ?thesis by (cases r) simp_all
qed simp

text \<open>A call that may fail while results are being stored: they are returned in both cases.\<close>

definition tryP :: "'a phr \<Rightarrow> 's \<Rightarrow> ('a \<Rightarrow> fault + (int + 'b) \<times> 's) \<Rightarrow> fault + (int + 'b) \<times> 's" where
  "tryP m s k = bindE m (\<lambda>r. case r of Inl e \<Rightarrow> Inr (Inl e, s) | Inr x \<Rightarrow> k x)"

lemma tryP_simps [simp]: "tryP (okP x) s k = k x" "tryP (failP e) s k = Inr (Inl e, s)" "tryP (Inl f) s k = Inl f"
  by (simp_all add: tryP_def)

abbreviation CR :: byte where "CR \<equiv> 13"
abbreviation LF :: byte where "LF \<equiv> 10"
abbreviation SP :: byte where "SP \<equiv> 32"
abbreviation HT :: byte where "HT \<equiv> 9"
abbreviation COLON :: byte where "COLON \<equiv> 58"

subsection \<open>Characters\<close>

definition IS_PRINTABLE_ASCII :: "byte \<Rightarrow> bool" where
  "IS_PRINTABLE_ASCII c \<longleftrightarrow> (ucast c :: u32) - 32 < 95"

definition CHECK_EOF :: "byte list \<Rightarrow> nat \<Rightarrow> unit phr" where
  "CHECK_EOF buf i = (if i = length buf then failP (-2) else okP ())"

definition buf_get :: "byte list \<Rightarrow> nat \<Rightarrow> byte phr" where
  "buf_get buf i = (if i < length buf then okP (buf ! i) else Inl Out_of_bounds)"

definition EXPECT_CHAR :: "byte \<Rightarrow> byte list \<Rightarrow> nat \<Rightarrow> nat phr" where
  "EXPECT_CHAR ch buf i =
     bindP (CHECK_EOF buf i) (\<lambda>_. bindP (buf_get buf i) (\<lambda>b. if b \<noteq> ch then failP (-1) else okP (i + 1)))"

text \<open>The loops that look for the first character with a property and check for the end before each one.\<close>

function scan_to :: "(byte \<Rightarrow> bool) \<Rightarrow> byte list \<Rightarrow> nat \<Rightarrow> nat phr" where
  "scan_to P buf i =
     (if i = length buf then failP (-2)
      else if length buf < i then Inl Out_of_bounds
      else if P (buf ! i) then okP i
      else scan_to P buf (i + 1))"
  by auto
termination by (relation "measure (\<lambda>(P, buf, i). length buf - i)") auto

declare scan_to.simps [simp del]

subsection \<open>findchar_fast\<close>

definition in_ranges :: "(byte \<times> byte) list \<Rightarrow> byte \<Rightarrow> bool" where
  "in_ranges ranges b \<longleftrightarrow> (\<exists>(lo, hi) \<in> set ranges. lo \<le> b \<and> b \<le> hi)"

definition cmpestri :: "(byte \<times> byte) list \<Rightarrow> byte list \<Rightarrow> nat" where
  "cmpestri ranges b16 = length (takeWhile (\<lambda>b. \<not> in_ranges ranges b) b16)"

function find_blocks :: "(byte \<times> byte) list \<Rightarrow> byte list \<Rightarrow> nat \<Rightarrow> nat \<Rightarrow> fault + nat \<times> bool" where
  "find_blocks ranges buf i left =
     (if length buf < i + 16 then Inl Out_of_bounds
      else
        (let r = cmpestri ranges (take 16 (drop i buf)) in
         if r \<noteq> 16 then Inr (i + r, True)
         else if left - 16 \<noteq> 0 then find_blocks ranges buf (i + 16) (left - 16)
         else Inr (i + 16, False)))"
  by auto
termination by (relation "measure (\<lambda>(ranges, buf, i, left). length buf - i)") auto

declare find_blocks.simps [simp del]

definition findchar_fast :: "bool \<Rightarrow> (byte \<times> byte) list \<Rightarrow> byte list \<Rightarrow> nat \<Rightarrow> fault + nat \<times> bool" where
  "findchar_fast sse ranges buf i =
     (if sse \<and> 16 \<le> length buf - i
      then find_blocks ranges buf i ((length buf - i) div 16 * 16)
      else Inr (i, False))"

subsection \<open>Tokens\<close>

definition token_bad :: "byte \<Rightarrow> bool" where
  "token_bad b \<longleftrightarrow> \<not> IS_PRINTABLE_ASCII b \<and> (b < 32 \<or> b = 127)"

text \<open>\<^verbatim>\<open>ADVANCE_TOKEN\<close>: the token and where it ends, at a space.\<close>

definition ADVANCE_TOKEN :: "bool \<Rightarrow> byte list \<Rightarrow> nat \<Rightarrow> ((nat \<times> nat) \<times> nat) phr" where
  "ADVANCE_TOKEN sse buf tok_start =
     bindE (findchar_fast sse [(0, 32), (127, 127)] buf tok_start) (\<lambda>(i, found2).
     bindP (if found2 then okP () else CHECK_EOF buf i) (\<lambda>_.
     bindP (scan_to (\<lambda>b. b = SP \<or> token_bad b) buf i) (\<lambda>i.
     bindP (buf_get buf i) (\<lambda>b.
     if b = SP then okP ((tok_start, i - tok_start), i) else failP (-1)))))"

definition is_ctl :: "byte \<Rightarrow> bool" where
  "is_ctl b \<longleftrightarrow> b < 32 \<and> b \<noteq> 9 \<or> b = 127"

text \<open>Eight times \<^verbatim>\<open>DOIT\<close>: whether a character that is not printable was met, and where the pointer is.\<close>

fun DOIT :: "nat \<Rightarrow> byte list \<Rightarrow> nat \<Rightarrow> (bool \<times> nat) phr" where
  "DOIT 0 buf i = okP (False, i)"
| "DOIT (Suc n) buf i =
     bindP (buf_get buf i) (\<lambda>b. if \<not> IS_PRINTABLE_ASCII b then okP (True, i) else DOIT n buf (i + 1))"

lemma DOIT_bounds: "DOIT n buf i = okP (np, j) \<Longrightarrow> i \<le> j \<and> (\<not> np \<longrightarrow> j = i + n) \<and> (np \<longrightarrow> j < i + n)"
proof (induction n arbitrary: i)
  case (Suc n)
  then show ?case by (fastforce split: if_splits)
qed simp

function eol_fast :: "byte list \<Rightarrow> nat \<Rightarrow> (bool \<times> nat) phr" where
  "eol_fast buf i =
     (if 8 \<le> length buf - i
      then
        (case DOIT 8 buf i of
           Inl f \<Rightarrow> Inl f
         | Inr (Inl e) \<Rightarrow> failP e
         | Inr (Inr (np, j)) \<Rightarrow>
             if \<not> np then eol_fast buf j
             else if j < length buf \<and> is_ctl (buf ! j) then okP (True, j)
             else eol_fast buf (j + 1))
      else okP (False, i))"
  by auto
termination
  by (relation "measure (\<lambda>(buf, i). length buf - i)") (auto dest!: DOIT_bounds)

declare eol_fast.simps [simp del]

definition eol_slow :: "byte list \<Rightarrow> nat \<Rightarrow> nat phr" where
  "eol_slow buf i = scan_to (\<lambda>b. \<not> IS_PRINTABLE_ASCII b \<and> is_ctl b) buf i"

text \<open>From \<^verbatim>\<open>FOUND_CTL\<close> on: the token and what is behind the end of the line.\<close>

definition eol_token :: "byte list \<Rightarrow> nat \<Rightarrow> nat \<Rightarrow> ((nat \<times> nat) \<times> nat) phr" where
  "eol_token buf token_start i =
     bindP (buf_get buf i) (\<lambda>b.
     if b = CR
     then bindP (EXPECT_CHAR LF buf (i + 1)) (\<lambda>i. okP ((token_start, i - 2 - token_start), i))
     else if b = LF then okP ((token_start, i - token_start), i + 1)
     else failP (-1))"

definition get_token_to_eol :: "bool \<Rightarrow> byte list \<Rightarrow> nat \<Rightarrow> ((nat \<times> nat) \<times> nat) phr" where
  "get_token_to_eol sse buf token_start =
     bindP (if sse
            then
              bindE (findchar_fast sse [(0, 8), (10, 31), (127, 127)] buf token_start) (\<lambda>(i, found). okP (found, i))
            else eol_fast buf token_start) (\<lambda>(found, i).
     if found then eol_token buf token_start i
     else bindP (eol_slow buf i) (\<lambda>i. eol_token buf token_start i))"

subsection \<open>Complete messages, numbers, versions\<close>

function complete_loop :: "byte list \<Rightarrow> nat \<Rightarrow> nat \<Rightarrow> nat phr" where
  "complete_loop buf ret_cnt i =
     (if i = length buf then failP (-2)
      else if length buf < i then Inl Out_of_bounds
      else if buf ! i = CR
      then
        (if i + 1 = length buf then failP (-2)
         else if buf ! (i + 1) \<noteq> LF then failP (-1)
         else if ret_cnt + 1 = 2 then okP (i + 2)
         else complete_loop buf (ret_cnt + 1) (i + 2))
      else if buf ! i = LF
      then (if ret_cnt + 1 = 2 then okP (i + 1) else complete_loop buf (ret_cnt + 1) (i + 1))
      else complete_loop buf 0 (i + 1))"
  by auto
termination by (relation "measure (\<lambda>(buf, ret_cnt, i). length buf - i)") auto

declare complete_loop.simps [simp del]

definition is_complete :: "byte list \<Rightarrow> nat \<Rightarrow> nat phr" where
  "is_complete buf last_len = complete_loop buf 0 (if last_len < 3 then 0 else last_len - 3)"

text \<open>The digits of a number up to the first other character; the number is only defined where it fits an \<^verbatim>\<open>int\<close>.\<close>

definition parse_int :: "byte list \<Rightarrow> nat \<Rightarrow> (int \<times> nat) phr" where
  "parse_int buf i =
     bindP (CHECK_EOF buf i) (\<lambda>_.
     bindP (buf_get buf i) (\<lambda>b.
     if \<not> digit b then failP (-1)
     else bindP (scan_to (\<lambda>b. \<not> digit b) buf i) (\<lambda>j. okP (digits_val (take (j - i) (drop i buf)), j))))"

definition parse_http_version :: "byte list \<Rightarrow> nat \<Rightarrow> (int \<times> nat) phr" where
  "parse_http_version buf i =
     bindP (EXPECT_CHAR (of_char CHR ''H'') buf i) (\<lambda>i.
     bindP (EXPECT_CHAR (of_char CHR ''T'') buf i) (\<lambda>i.
     bindP (EXPECT_CHAR (of_char CHR ''T'') buf i) (\<lambda>i.
     bindP (EXPECT_CHAR (of_char CHR ''P'') buf i) (\<lambda>i.
     bindP (EXPECT_CHAR (of_char CHR ''/'') buf i) (\<lambda>i.
     bindP (EXPECT_CHAR (of_char CHR ''1'') buf i) (\<lambda>i.
     bindP (EXPECT_CHAR (of_char CHR ''.'') buf i) (\<lambda>i.
     parse_int buf i)))))))"

subsection \<open>Headers\<close>

record phr_header =
  h_name :: "nat option"
  h_name_len :: nat
  h_value :: "nat option"
  h_value_len :: nat

definition token_char_map :: "byte list" where
  "token_char_map =
     [0, 0, 0, 0, 0, 0, 0, 0, 0, 0, 0, 0, 0, 0, 0, 0, 0, 0, 0, 0, 0, 0, 0, 0, 0, 0, 0, 0, 0, 0, 0, 0,
      0, 1, 1, 1, 1, 1, 1, 1, 0, 0, 1, 1, 0, 1, 1, 0, 1, 1, 1, 1, 1, 1, 1, 1, 1, 1, 0, 0, 0, 0, 0, 0,
      0, 1, 1, 1, 1, 1, 1, 1, 1, 1, 1, 1, 1, 1, 1, 1, 1, 1, 1, 1, 1, 1, 1, 1, 1, 1, 1, 0, 0, 0, 1, 1,
      1, 1, 1, 1, 1, 1, 1, 1, 1, 1, 1, 1, 1, 1, 1, 1, 1, 1, 1, 1, 1, 1, 1, 1, 1, 1, 1, 0, 1, 0, 1, 0,
      0, 0, 0, 0, 0, 0, 0, 0, 0, 0, 0, 0, 0, 0, 0, 0, 0, 0, 0, 0, 0, 0, 0, 0, 0, 0, 0, 0, 0, 0, 0, 0,
      0, 0, 0, 0, 0, 0, 0, 0, 0, 0, 0, 0, 0, 0, 0, 0, 0, 0, 0, 0, 0, 0, 0, 0, 0, 0, 0, 0, 0, 0, 0, 0,
      0, 0, 0, 0, 0, 0, 0, 0, 0, 0, 0, 0, 0, 0, 0, 0, 0, 0, 0, 0, 0, 0, 0, 0, 0, 0, 0, 0, 0, 0, 0, 0,
      0, 0, 0, 0, 0, 0, 0, 0, 0, 0, 0, 0, 0, 0, 0, 0, 0, 0, 0, 0, 0, 0, 0, 0, 0, 0, 0, 0, 0, 0, 0, 0]"

text \<open>The name of a header: \<^verbatim>\<open>*buf < ' '\<close> compares a signed character.\<close>

definition name_end :: "bool \<Rightarrow> byte list \<Rightarrow> nat \<Rightarrow> nat phr" where
  "name_end sse buf i =
     bindE (findchar_fast sse [(COLON, COLON), (0, 31)] buf i) (\<lambda>(i, found).
     bindP (if found then okP () else CHECK_EOF buf i) (\<lambda>_.
     bindP (scan_to (\<lambda>b. b = COLON \<or> sint b < 32) buf i) (\<lambda>i.
     bindP (buf_get buf i) (\<lambda>b.
     if b = COLON then okP i else failP (-1)))))"

text \<open>The end of \<^verbatim>\<open>parse_headers\<close>'s body: the value. The array of headers is returned also when parsing fails.\<close>

definition header_value ::
  "bool \<Rightarrow> byte list \<Rightarrow> nat \<Rightarrow> nat \<Rightarrow> phr_header list \<Rightarrow> fault + (int + nat) \<times> phr_header list" where
  "header_value sse buf i num hs =
     tryP (get_token_to_eol sse buf i) hs (\<lambda>((tok, len), i).
     bindE (arr_get hs (int num)) (\<lambda>h.
     bindE (arr_set hs (int num) (h\<lparr>h_value := Some tok, h_value_len := len\<rparr>)) (\<lambda>hs.
     Inr (Inr i, hs))))"

definition header_name ::
  "bool \<Rightarrow> byte list \<Rightarrow> nat \<Rightarrow> nat \<Rightarrow> phr_header list \<Rightarrow> fault + (int + nat) \<times> phr_header list" where
  "header_name sse buf i num hs =
     bindE (arr_get hs (int num)) (\<lambda>h.
     bindE (arr_set hs (int num) (h\<lparr>h_name := Some i\<rparr>)) (\<lambda>hs.
     tryP (name_end sse buf i) hs (\<lambda>j.
     bindE (arr_set hs (int num) (h\<lparr>h_name := Some i, h_name_len := j - i\<rparr>)) (\<lambda>hs.
     tryP (scan_to (\<lambda>b. \<not> (b = SP \<or> b = HT)) buf (j + 1)) hs (\<lambda>k.
     header_value sse buf k num hs)))))"

definition header_line ::
  "bool \<Rightarrow> byte list \<Rightarrow> nat \<Rightarrow> nat \<Rightarrow> phr_header list \<Rightarrow> fault + (int + nat) \<times> phr_header list" where
  "header_line sse buf i num hs =
     tryP (buf_get buf i) hs (\<lambda>b.
     if \<not> (num \<noteq> 0 \<and> (b = SP \<or> b = HT))
     then
       (if token_char_map ! unat b = 0 then Inr (Inl (-1), hs) else header_name sse buf i num hs)
     else
       bindE (arr_get hs (int num)) (\<lambda>h.
       bindE (arr_set hs (int num) (h\<lparr>h_name := None, h_name_len := 0\<rparr>)) (\<lambda>hs.
       header_value sse buf i num hs)))"

end
