(* ===== verification/Http_Scan.thy ===== *)
theory Http_Scan
  imports Http_Parser
begin

section \<open>The scanning loops of the HTTP parser\<close>

text \<open>
  What the loops of \<^verbatim>\<open>picohttpparser.c\<close> find, and that skipping ahead, 16 bytes at a time with SSE or 8 at a
  time without, finds the same. \<^verbatim>\<open>name_end\<close> is the exception: the ranges it skips ahead with take characters as unsigned,
  its loop as signed, so the two agree on ASCII only.
\<close>

subsection \<open>One scan\<close>

text \<open>No character from \<open>i\<close> to before \<open>j\<close> stops a scan.\<close>

definition clear :: "(byte \<Rightarrow> bool) \<Rightarrow> byte list \<Rightarrow> nat \<Rightarrow> nat \<Rightarrow> bool" where
  "clear P buf i j \<longleftrightarrow> i \<le> j \<and> j \<le> length buf \<and> (\<forall>k. i \<le> k \<and> k < j \<longrightarrow> \<not> P (buf ! k))"

lemma clear_refl [simp]: "clear P buf i i \<longleftrightarrow> i \<le> length buf"
  by (auto simp: clear_def)

lemma clear_trans: "clear P buf i j \<Longrightarrow> clear P buf j k \<Longrightarrow> clear P buf i k"
  unfolding clear_def by (metis le_trans linorder_not_le)

lemma clear_mono: "clear P buf i j \<Longrightarrow> (\<And>b. b \<in> set buf \<Longrightarrow> Q b \<Longrightarrow> P b) \<Longrightarrow> clear Q buf i j"
  by (fastforce simp: clear_def)

lemma clear_Suc: "clear P buf i (Suc i) \<longleftrightarrow> i < length buf \<and> \<not> P (buf ! i)"
  by (auto simp: clear_def le_less_Suc_eq)

lemma scan_to_cases:
  assumes "i \<le> length buf"
  shows "(scan_to P buf i = failP (-2) \<and> clear P buf i (length buf)) \<or>
    (\<exists>j. scan_to P buf i = okP j \<and> clear P buf i j \<and> j < length buf \<and> P (buf ! j))"
  using assms
proof (induction P buf i rule: scan_to.induct)
  case (1 P buf i)
  show ?case
  proof (cases "i = length buf \<or> P (buf ! i)")
    case True
    then show ?thesis using 1(2) by (subst (1 2) scan_to.simps) auto
  next
    case False
    then have i: "i < length buf" "\<not> P (buf ! i)" "\<not> length buf < i" using 1(2) by auto
    then have step: "scan_to P buf i = scan_to P buf (i + 1)" by (subst scan_to.simps) simp
    have "clear P buf i (i + 1)" using i by (simp add: clear_Suc)
    then show ?thesis using 1(1) False i unfolding step by (fastforce intro: clear_trans)
  qed
qed

lemma scan_to_skip: "clear P buf i j \<Longrightarrow> scan_to P buf j = scan_to P buf i"
proof (induction "j - i" arbitrary: i)
  case (Suc n)
  then have i: "i < length buf" "\<not> P (buf ! i)" "clear P buf (i + 1) j" by (auto simp: clear_def)
  then have "scan_to P buf i = scan_to P buf (i + 1)" by (subst scan_to.simps) simp
  then show ?case using Suc(1)[of "i + 1"] Suc(2) i(3) by simp
qed (simp add: clear_def)

lemma scan_to_found: "clear P buf i j \<Longrightarrow> j < length buf \<Longrightarrow> P (buf ! j) \<Longrightarrow> scan_to P buf i = okP j"
  using scan_to_skip[of P buf i j] by (simp add: scan_to.simps[of P buf j])

lemma scan_to_end: "clear P buf i (length buf) \<Longrightarrow> scan_to P buf i = failP (-2)"
  using scan_to_skip[of P buf i "length buf"] by (simp add: scan_to.simps[of P buf "length buf"])

lemma scan_to_okP:
  assumes "scan_to P buf i = okP j" "i \<le> length buf"
  shows "clear P buf i j" "j < length buf" "P (buf ! j)"
  using scan_to_cases[OF assms(2), of P] assms(1) by auto

lemma scan_to_cong: "(\<And>b. b \<in> set buf \<Longrightarrow> P b = Q b) \<Longrightarrow> scan_to P buf i = scan_to Q buf i"
proof (induction P buf i rule: scan_to.induct)
  case (1 P buf i)
  then show ?case by (subst (1 2) scan_to.simps) auto
qed

subsection \<open>Skipping ahead\<close>

lemma takeWhile_prefix_block:
  assumes "k = length (takeWhile (\<lambda>b. \<not> P b) (take 16 (drop i buf)))" "i + 16 \<le> length buf"
  shows "clear P buf i (i + k)" "k \<noteq> 16 \<longrightarrow> i + k < length buf \<and> P (buf ! (i + k))"
proof -
  let ?b = "take 16 (drop i buf)"
  have len: "length ?b = 16" using assms(2) by simp
  have k: "k \<le> 16" using assms(1) length_takeWhile_le[of "\<lambda>b. \<not> P b" ?b] len by simp
  have nth: "\<And>n. n < 16 \<Longrightarrow> ?b ! n = buf ! (i + n)" using assms(2) by simp
  have "\<not> P (buf ! (i + n))" if "n < k" for n
  proof -
    have "takeWhile (\<lambda>b. \<not> P b) ?b ! n = buf ! (i + n)"
      using that k nth[of n] takeWhile_nth[of n "\<lambda>b. \<not> P b" ?b] assms(1) by simp
    then show ?thesis using that assms(1) nth_mem[of n "takeWhile (\<lambda>b. \<not> P b) ?b"] set_takeWhileD by fastforce
  qed
  then have "\<not> P (buf ! n)" if "i \<le> n" "n < i + k" for n
    using that le_Suc_ex[OF that(1)] by auto
  then show "clear P buf i (i + k)" using k assms(2) by (auto simp: clear_def)
  show "k \<noteq> 16 \<longrightarrow> i + k < length buf \<and> P (buf ! (i + k))"
    using nth_length_takeWhile[of "\<lambda>b. \<not> P b" ?b] k len nth[of k] assms by auto
qed

lemma find_blocks_clear:
  "i + left \<le> length buf \<Longrightarrow> 16 dvd left \<Longrightarrow> 0 < left \<Longrightarrow>
   \<exists>j found. find_blocks ranges buf i left = Inr (j, found) \<and> clear (in_ranges ranges) buf i j \<and>
     (found \<longrightarrow> j < length buf \<and> in_ranges ranges (buf ! j))"
proof (induction ranges buf i left rule: find_blocks.induct)
  case (1 ranges buf i left)
  let ?k = "cmpestri ranges (take 16 (drop i buf))"
  have le: "16 \<le> left" using 1(3,4) by (auto elim!: dvdE)
  have bounds: "i + 16 \<le> length buf" using le 1(2) by simp
  have k: "clear (in_ranges ranges) buf i (i + ?k)" "?k \<noteq> 16 \<longrightarrow> i + ?k < length buf \<and> in_ranges ranges (buf ! (i + ?k))"
    by (rule takeWhile_prefix_block[OF _ bounds], simp add: cmpestri_def)+
  show ?case
  proof (cases "?k = 16 \<and> left - 16 \<noteq> 0")
    case True
    moreover have "16 dvd left - 16" using 1(3) by (simp add: dvd_diff_nat)
    ultimately obtain j found where j: "find_blocks ranges buf (i + 16) (left - 16) = Inr (j, found)"
      "clear (in_ranges ranges) buf (i + 16) j" "found \<longrightarrow> j < length buf \<and> in_ranges ranges (buf ! j)"
      using 1(1)[OF _ refl] bounds le 1(2) by (auto simp: not_less)
    have "find_blocks ranges buf i left = find_blocks ranges buf (i + 16) (left - 16)"
      using bounds True by (subst find_blocks.simps) (simp add: Let_def)
    moreover have "clear (in_ranges ranges) buf i j" using k(1) True j(2) clear_trans by metis
    ultimately show ?thesis using j by auto
  next
    case False
    define n where "n = cmpestri ranges (take 16 (drop i buf))"
    have "find_blocks ranges buf i left = Inr (i + n, n \<noteq> 16)"
      using bounds False unfolding n_def[symmetric] by (subst find_blocks.simps) (simp add: Let_def n_def[symmetric])
    then show ?thesis using k unfolding n_def[symmetric] by blast
  qed
qed

lemma findchar_clear:
  assumes "i \<le> length buf"
  shows "\<exists>j found. findchar_fast sse ranges buf i = Inr (j, found) \<and> clear (in_ranges ranges) buf i j \<and>
    (found \<longrightarrow> j < length buf \<and> in_ranges ranges (buf ! j))"
proof (cases "sse \<and> 16 \<le> length buf - i")
  case True
  then show ?thesis
    unfolding findchar_fast_def using find_blocks_clear[of i "(length buf - i) div 16 * 16" buf ranges] assms
    by (simp add: div_greater_zero_iff)
next
  case False
  then show ?thesis using assms by (auto simp: findchar_fast_def)
qed

subsection \<open>Characters\<close>

lemma byte_nat: "b < c \<longleftrightarrow> unat b < unat c" "b \<le> c \<longleftrightarrow> unat b \<le> unat c" "b = c \<longleftrightarrow> unat b = unat c" "unat b < 256"
  for b c :: byte
  using unsigned_less[of b, where ?'a = nat] unsigned_word_eqI[of b c, where ?'a = nat]
  by (auto simp: word_less_nat_alt word_le_nat_alt)

lemma sint_byte: "sint b = (if uint b < 128 then uint b else uint b - 256)" for b :: byte
proof -
  have "sint b = signed_take_bit 7 (uint b)" by (simp add: sint_uint)
  moreover have "signed_take_bit 7 (uint b) = uint b" if "uint b < 128"
    using that order_trans[OF _ uint_ge_0[of b], of "- 128"] by (intro signed_take_bit_int_eq_self) simp_all
  moreover have "signed_take_bit 7 (uint b) = uint b - 256" if "128 \<le> uint b"
  proof -
    have "uint b = take_bit 8 (uint b - 256)"
      using that uint_lt2p[of b] by (simp add: take_bit_eq_mod mod_diff_right_eq[symmetric])
    then have "signed_take_bit 7 (uint b) = signed_take_bit 7 (uint b - 256)"
      using signed_take_bit_take_bit[of 7 8 "uint b - 256"] by simp
    also have "\<dots> = uint b - 256" using that uint_lt2p[of b] by (intro signed_take_bit_int_eq_self) simp_all
    finally show ?thesis .
  qed
  ultimately show ?thesis by simp
qed

lemma printable_iff: "IS_PRINTABLE_ASCII b \<longleftrightarrow> 32 \<le> b \<and> b < 127"
proof -
  have "uint ((ucast b :: u32) - 32) = (if uint b < 32 then uint b - 32 + 2 ^ 32 else uint b - 32)"
    using uint_lt2p[of b] by (simp add: uint_sub_if' unsigned_ucast_eq take_bit_int_eq_self)
  then show ?thesis
    by (auto simp: IS_PRINTABLE_ASCII_def word_less_def word_le_def) (use uint_ge_0[of b] in linarith)
qed

lemma token_bad_iff: "token_bad b \<longleftrightarrow> b < 32 \<or> b = 127"
  by (auto simp: token_bad_def printable_iff byte_nat)

lemma is_ctl_printable: "\<not> IS_PRINTABLE_ASCII b \<and> is_ctl b \<longleftrightarrow> is_ctl b"
  by (auto simp: is_ctl_def printable_iff byte_nat)

lemma ranges_token: "in_ranges [(0, 32), (127, 127)] b \<longleftrightarrow> b = SP \<or> token_bad b"
  by (auto simp: in_ranges_def token_bad_iff byte_nat)

lemma ranges_eol: "in_ranges [(0, 8), (10, 31), (127, 127)] b \<longleftrightarrow> is_ctl b"
  by (auto simp: in_ranges_def is_ctl_def byte_nat)

lemma ranges_name: "in_ranges [(COLON, COLON), (0, 31)] b \<longleftrightarrow> b = COLON \<or> b < 32"
  by (auto simp: in_ranges_def byte_nat)

lemma signed_less_32: "sint b < 32 \<longleftrightarrow> b < 32 \<or> 128 \<le> b" for b :: byte
  using uint_lt2p[of b] by (auto simp: sint_byte word_less_def word_le_def)

subsection \<open>Tokens\<close>

lemma ADVANCE_TOKEN_eq:
  assumes "i \<le> length buf"
  shows "ADVANCE_TOKEN sse buf i =
    bindP (scan_to (\<lambda>b. b = SP \<or> token_bad b) buf i) (\<lambda>j. if buf ! j = SP then okP ((i, j - i), j) else failP (-1))"
proof -
  let ?P = "\<lambda>b. b = SP \<or> token_bad b"
  obtain j found where j: "findchar_fast sse [(0, 32), (127, 127)] buf i = Inr (j, found)" "clear ?P buf i j"
    "found \<longrightarrow> j < length buf"
    using findchar_clear[OF assms, of sse "[(0, 32), (127, 127)]"] unfolding ranges_token by blast
  have le: "j \<le> length buf" using j(2) by (simp add: clear_def)
  show ?thesis
    using scan_to_cases[OF le, of ?P] scan_to_skip[OF j(2)] j le
    by (auto simp: ADVANCE_TOKEN_def CHECK_EOF_def buf_get_def clear_def)
qed

lemma DOIT_cases:
  assumes "i + n \<le> length buf"
  shows "\<exists>np j. DOIT n buf i = okP (np, j) \<and> clear (\<lambda>b. \<not> IS_PRINTABLE_ASCII b) buf i j \<and> (np \<longrightarrow> j < length buf)"
  using assms
proof (induction n arbitrary: i)
  case (Suc n)
  show ?case
  proof (cases "IS_PRINTABLE_ASCII (buf ! i)")
    case True
    moreover obtain np j where "DOIT n buf (i + 1) = okP (np, j)" "clear (\<lambda>b. \<not> IS_PRINTABLE_ASCII b) buf (i + 1) j"
      "np \<longrightarrow> j < length buf" using Suc.IH[of "i + 1"] Suc.prems by auto
    moreover have "clear (\<lambda>b. \<not> IS_PRINTABLE_ASCII b) buf i (i + 1)" using True Suc.prems by (simp add: clear_Suc)
    ultimately show ?thesis using Suc.prems clear_trans by (auto simp: buf_get_def)
  qed (use Suc.prems in \<open>auto simp: buf_get_def\<close>)
qed auto

lemma eol_fast_cases:
  assumes "i \<le> length buf"
  shows "\<exists>found j. eol_fast buf i = okP (found, j) \<and> clear is_ctl buf i j \<and> (found \<longrightarrow> j < length buf \<and> is_ctl (buf ! j))"
  using assms
proof (induction "length buf - i" arbitrary: i rule: less_induct)
  case less
  show ?case
  proof (cases "8 \<le> length buf - i")
    case True
    obtain np j where j: "DOIT 8 buf i = okP (np, j)" "clear (\<lambda>b. \<not> IS_PRINTABLE_ASCII b) buf i j" "np \<longrightarrow> j < length buf"
      using DOIT_cases[of i 8 buf] True by force
    have cl: "clear is_ctl buf i j" by (rule clear_mono[OF j(2)]) (use is_ctl_printable in blast)
    have b: "i \<le> j" "\<not> np \<longrightarrow> j = i + 8" "j \<le> length buf" using DOIT_bounds[OF j(1)] j(2) by (auto simp: clear_def)
    let ?j = "if np then j + 1 else j"
    show ?thesis
    proof (cases "np \<and> is_ctl (buf ! j)")
      case True
      then show ?thesis using j cl \<open>8 \<le> length buf - i\<close> by (subst eol_fast.simps) auto
    next
      case False
      then have step: "eol_fast buf i = eol_fast buf ?j" using j \<open>8 \<le> length buf - i\<close> by (subst eol_fast.simps) auto
      have "clear is_ctl buf i ?j" using cl False j(3) clear_trans[OF cl, of "j + 1"] by (auto simp: clear_Suc)
      moreover have "?j \<le> length buf" "length buf - ?j < length buf - i" using b j(3) True by (auto split: if_splits)
      ultimately show ?thesis using less.hyps[of ?j] clear_trans unfolding step by metis
    qed
  qed (use less.prems in \<open>auto simp: eol_fast.simps[of buf i]\<close>)
qed

lemma get_token_to_eol_eq:
  assumes "i \<le> length buf"
  shows "get_token_to_eol sse buf i = bindP (scan_to is_ctl buf i) (eol_token buf i)"
proof -
  obtain found j where j: "(if sse then bindE (findchar_fast sse [(0, 8), (10, 31), (127, 127)] buf i) (\<lambda>(i, found). okP (found, i))
      else eol_fast buf i) = okP (found, j)" "clear is_ctl buf i j" "found \<longrightarrow> j < length buf \<and> is_ctl (buf ! j)"
    using findchar_clear[OF assms, of sse "[(0, 8), (10, 31), (127, 127)]"] eol_fast_cases[OF assms]
    unfolding ranges_eol by (cases sse) auto
  then show ?thesis
    using scan_to_skip[OF j(2)] scan_to_found[OF j(2)]
    by (auto simp: get_token_to_eol_def eol_slow_def is_ctl_printable)
qed

text \<open>Names, where the ranges and the loop agree.\<close>

lemma name_end_eq:
  assumes "i \<le> length buf" "\<not> sse \<or> (\<forall>b \<in> set buf. b < 128)"
  shows "name_end sse buf i =
    bindP (scan_to (\<lambda>b. b = COLON \<or> sint b < 32) buf i) (\<lambda>j. if buf ! j = COLON then okP j else failP (-1))"
proof -
  let ?P = "\<lambda>b. b = COLON \<or> sint b < 32"
  obtain j found where j: "findchar_fast sse [(COLON, COLON), (0, 31)] buf i = Inr (j, found)" "clear ?P buf i j"
    "found \<longrightarrow> j < length buf"
  proof (cases sse)
    case True
    obtain j found where "findchar_fast sse [(COLON, COLON), (0, 31)] buf i = Inr (j, found)"
      "clear (\<lambda>b. b = COLON \<or> b < 32) buf i j" "found \<longrightarrow> j < length buf"
      using findchar_clear[OF assms(1), of sse "[(COLON, COLON), (0, 31)]"] unfolding ranges_name by blast
    moreover have "b = COLON \<or> b < 32" if "b \<in> set buf" "?P b" for b
      using that assms(2) True signed_less_32[of b] by (metis leD)
    ultimately show ?thesis using clear_mono[of "\<lambda>b. b = COLON \<or> b < 32" buf i j ?P] that by blast
  qed (use assms(1) that in \<open>auto simp: findchar_fast_def\<close>)
  have le: "j \<le> length buf" using j(2) by (simp add: clear_def)
  show ?thesis
    using scan_to_cases[OF le, of ?P] scan_to_skip[OF j(2)] j le
    by (auto simp: name_end_def CHECK_EOF_def buf_get_def clear_def)
qed

end
