(* ===== verification/Http_Message.thy ===== *)
theory Http_Message
  imports Http_Scan
begin

section \<open>Requests, responses and headers (picohttpparser.c)\<close>

text \<open>
  The rest of the parser. The results are records; a token is the offset and the length of a part of
  the buffer. As in the code, they hold what was found so far also when parsing fails. The array of
  headers belongs to the caller, \<^verbatim>\<open>*num_headers\<close> says its length on entry.
\<close>

subsection \<open>Every step stays in the buffer\<close>

lemma scan_to_stop:
  assumes "i \<le> length buf"
  obtains "scan_to P buf i = failP (-2)" | j where "scan_to P buf i = okP j" "i \<le> j" "j < length buf"
  using scan_to_cases[OF assms, of P] by (auto simp: clear_def)

lemma ADVANCE_TOKEN_cases:
  assumes "i \<le> length buf"
  shows "(\<exists>e \<in> {-1, -2}. ADVANCE_TOKEN sse buf i = failP e) \<or>
    (\<exists>l. ADVANCE_TOKEN sse buf i = okP ((i, l), i + l) \<and> i + l < length buf)"
proof (rule scan_to_stop[OF assms, of "\<lambda>b. b = SP \<or> token_bad b"])
  fix j assume "scan_to (\<lambda>b. b = SP \<or> token_bad b) buf i = okP j" "i \<le> j" "j < length buf"
  then show ?thesis by (cases "buf ! j = SP") (auto simp: ADVANCE_TOKEN_eq[OF assms] intro!: exI[of _ "j - i"])
qed (simp add: ADVANCE_TOKEN_eq[OF assms])

lemma EXPECT_CHAR_cases:
  assumes "i \<le> length buf"
  shows "(\<exists>e \<in> {-1, -2}. EXPECT_CHAR ch buf i = failP e) \<or> (EXPECT_CHAR ch buf i = okP (i + 1) \<and> i < length buf \<and> buf ! i = ch)"
  using assms by (auto simp: EXPECT_CHAR_def CHECK_EOF_def buf_get_def)

lemma eol_cases:
  assumes "i \<le> length buf"
  shows "(\<exists>e \<in> {-1, -2}. get_token_to_eol sse buf i = failP e) \<or>
    (\<exists>l j. get_token_to_eol sse buf i = okP ((i, l), j) \<and> i + l < j \<and> j \<le> length buf)"
proof -
  consider "scan_to is_ctl buf i = failP (-2)" | j where "scan_to is_ctl buf i = okP j" "i \<le> j" "j < length buf"
    using scan_to_cases[OF assms, of is_ctl] by (auto simp: clear_def)
  then show ?thesis
  proof cases
    case (2 j)
    then show ?thesis using EXPECT_CHAR_cases[of "j + 1" buf LF]
      by (auto simp: get_token_to_eol_eq[OF assms] eol_token_def buf_get_def)
  qed (simp add: get_token_to_eol_eq[OF assms])
qed

lemma name_end_cases:
  assumes "i \<le> length buf"
  shows "(\<exists>e \<in> {-1, -2}. name_end sse buf i = failP e) \<or> (\<exists>j. name_end sse buf i = okP j \<and> i \<le> j \<and> j < length buf)"
proof -
  obtain j found where j: "findchar_fast sse [(COLON, COLON), (0, 31)] buf i = Inr (j, found)" "i \<le> j" "j \<le> length buf"
    using findchar_clear[OF assms, of sse "[(COLON, COLON), (0, 31)]"] by (auto simp: clear_def)
  show ?thesis
  proof (rule scan_to_stop[OF j(3), of "\<lambda>b. b = COLON \<or> sint b < 32"])
    fix k assume "scan_to (\<lambda>b. b = COLON \<or> sint b < 32) buf j = okP k" "j \<le> k" "k < length buf"
    then show ?thesis using j by (cases "buf ! k = COLON") (auto simp: name_end_def CHECK_EOF_def buf_get_def)
  qed (use j in \<open>auto simp: name_end_def CHECK_EOF_def\<close>)
qed

lemma parse_int_cases:
  assumes "i \<le> length buf"
  shows "(\<exists>e \<in> {-1, -2}. parse_int buf i = failP e) \<or> (\<exists>v j. parse_int buf i = okP (v, j) \<and> i < j \<and> j < length buf)"
proof (cases "i < length buf \<and> digit (buf ! i)")
  case True
  then show ?thesis using scan_to_cases[OF assms, of "\<lambda>b. \<not> digit b"]
    by (auto simp: parse_int_def CHECK_EOF_def buf_get_def clear_def)
qed (use assms in \<open>auto simp: parse_int_def CHECK_EOF_def buf_get_def\<close>)

lemma expect_then:
  assumes "i \<le> length buf" "\<And>j. i < j \<Longrightarrow> j \<le> length buf \<Longrightarrow> (\<exists>e \<in> {-1, -2}. k j = failP e) \<or> (\<exists>v j'. k j = okP (v, j') \<and> j < j' \<and> j' < length buf)"
  shows "(\<exists>e \<in> {-1, -2}. bindP (EXPECT_CHAR ch buf i) k = failP e) \<or>
    (\<exists>v j'. bindP (EXPECT_CHAR ch buf i) k = okP (v, j') \<and> i < j' \<and> j' < length buf)"
  using EXPECT_CHAR_cases[OF assms(1), of ch] assms(2)[of "i + 1"] by fastforce

lemma http_version_cases:
  assumes "i \<le> length buf"
  shows "(\<exists>e \<in> {-1, -2}. parse_http_version buf i = failP e) \<or>
    (\<exists>v j. parse_http_version buf i = okP (v, j) \<and> i < j \<and> j < length buf)"
  unfolding parse_http_version_def by (intro expect_then assms parse_int_cases) auto

subsection \<open>parse_headers\<close>

lemma header_value_cases:
  assumes "i \<le> length buf" "num < length hs"
  shows "(\<exists>e \<in> {-1, -2}. header_value sse buf i num hs = Inr (Inl e, hs)) \<or>
    (\<exists>l j. header_value sse buf i num hs = Inr (Inr j, hs[num := (hs ! num)\<lparr>h_value := Some i, h_value_len := l\<rparr>]) \<and>
       i + l < j \<and> j \<le> length buf)"
  using eol_cases[OF assms(1), of sse] assms(2) by (auto simp: header_value_def arr_get_def arr_set_def)

text \<open>A header that lies before offset \<open>r\<close>.\<close>

definition header_in :: "nat \<Rightarrow> phr_header \<Rightarrow> bool" where
  "header_in r h \<longleftrightarrow>
     (case h_name h of None \<Rightarrow> h_name_len h = 0 | Some p \<Rightarrow> p + h_name_len h \<le> r) \<and>
     (case h_value h of None \<Rightarrow> False | Some p \<Rightarrow> p + h_value_len h \<le> r)"

lemma header_in_mono: "header_in r h \<Longrightarrow> r \<le> r' \<Longrightarrow> header_in r' h"
  by (auto simp: header_in_def split: option.splits)

text \<open>What one line of the headers does: it fails or moves on, and it touches one header only.\<close>

definition line_ok :: "nat \<Rightarrow> nat \<Rightarrow> nat \<Rightarrow> phr_header list \<Rightarrow> fault + (int + nat) \<times> phr_header list \<Rightarrow> bool" where
  "line_ok i len num hs r \<longleftrightarrow>
     (\<exists>h. (\<exists>e \<in> {-1, -2}. r = Inr (Inl e, hs[num := h])) \<or>
       (\<exists>j. r = Inr (Inr j, hs[num := h]) \<and> i < j \<and> j \<le> len \<and> header_in j h))"

lemma line_ok_value:
  assumes "k \<le> length buf" "num < length hs" "i \<le> k"
    "case h_name h of None \<Rightarrow> h_name_len h = 0 | Some p \<Rightarrow> p + h_name_len h \<le> k"
  shows "line_ok i (length buf) num hs (header_value sse buf k num (hs[num := h]))"
  using header_value_cases[OF assms(1), of num "hs[num := h]" sse] assms(2-4)
  unfolding line_ok_def by (fastforce simp: header_in_def split: option.splits)

lemma header_line_ok:
  assumes "i < length buf" "num < length hs"
  shows "line_ok i (length buf) num hs (header_line sse buf i num hs)"
proof -
  let ?h = "hs ! num"
  have fails: "line_ok i (length buf) num hs (Inr (Inl e, hs[num := h]))" if "e \<in> {-1, -2}" for e h
    using that by (auto simp: line_ok_def)
  have same: "hs[num := ?h] = hs" by simp
  have nm: "line_ok i (length buf) num hs (header_name sse buf i num hs)"
  proof -
    consider e where "e \<in> {-1, -2}" "name_end sse buf i = failP e"
      | j where "name_end sse buf i = okP j" "i \<le> j" "j < length buf" using name_end_cases[of i buf sse] assms by auto
    then show ?thesis
    proof cases
      case (1 e)
      then show ?thesis using fails[of e] assms by (simp add: header_name_def arr_get_def arr_set_def)
    next
      case (2 j)
      let ?h' = "?h\<lparr>h_name := Some i, h_name_len := j - i\<rparr>"
      have hn: "header_name sse buf i num hs = tryP (scan_to (\<lambda>b. \<not> (b = SP \<or> b = HT)) buf (j + 1)) (hs[num := ?h']) (\<lambda>k.
          header_value sse buf k num (hs[num := ?h']))"
        using 2 assms by (simp add: header_name_def arr_get_def arr_set_def)
      have "scan_to (\<lambda>b. \<not> (b = SP \<or> b = HT)) buf (j + 1) = failP (-2) \<or>
          (\<exists>k. scan_to (\<lambda>b. \<not> (b = SP \<or> b = HT)) buf (j + 1) = okP k \<and> j < k \<and> k < length buf)"
        using scan_to_cases[of "j + 1" buf "\<lambda>b. \<not> (b = SP \<or> b = HT)"] 2(3) by (auto simp: clear_def)
      then show ?thesis
        using fails[of "-2" ?h'] line_ok_value[of _ buf num hs i ?h' sse] 2(2) assms(2) unfolding hn by fastforce
    qed
  qed
  show ?thesis
    using nm fails[of "-1" ?h] line_ok_value[of i buf num hs i "?h\<lparr>h_name := None, h_name_len := 0\<rparr>" sse] assms
    by (auto simp: header_line_def buf_get_def arr_get_def arr_set_def)
qed

lemma header_line_progress:
  assumes "header_line sse buf i num hs = Inr (Inr j, hs')" "i < length buf"
  shows "i < j"
proof (cases "num < length hs")
  case True
  then show ?thesis using header_line_ok[OF assms(2), of num hs sse] assms(1) by (auto simp: line_ok_def)
next
  case False
  then show ?thesis using assms
    by (auto simp: header_line_def header_name_def buf_get_def arr_get_def split: if_splits)
qed

function parse_headers ::
  "bool \<Rightarrow> byte list \<Rightarrow> nat \<Rightarrow> nat \<Rightarrow> nat \<Rightarrow> phr_header list \<Rightarrow> fault + (int + nat) \<times> nat \<times> phr_header list" where
  "parse_headers sse buf i num max_headers hs =
     (if i = length buf then Inr (Inl (-2), num, hs)
      else if length buf < i then Inl Out_of_bounds
      else if buf ! i = CR then tryP (EXPECT_CHAR LF buf (i + 1)) (num, hs) (\<lambda>j. Inr (Inr j, num, hs))
      else if buf ! i = LF then Inr (Inr (i + 1), num, hs)
      else if num = max_headers then Inr (Inl (-1), num, hs)
      else
        (case header_line sse buf i num hs of
           Inl f \<Rightarrow> Inl f
         | Inr (Inl e, hs) \<Rightarrow> Inr (Inl e, num, hs)
         | Inr (Inr j, hs) \<Rightarrow> parse_headers sse buf j (num + 1) max_headers hs))"
  by auto
termination
  by (relation "measure (\<lambda>(sse, buf, i, num, max_headers, hs). length buf - i)") (auto dest!: header_line_progress)

declare parse_headers.simps [simp del]

subsection \<open>Requests\<close>

record phr_request =
  rq_method :: "nat option"
  rq_method_len :: nat
  rq_path :: "nat option"
  rq_path_len :: nat
  rq_minor_version :: int
  rq_num_headers :: nat
  rq_headers :: "phr_header list"

definition skip_empty_line :: "byte list \<Rightarrow> nat \<Rightarrow> nat phr" where
  "skip_empty_line buf i =
     bindP (CHECK_EOF buf i) (\<lambda>_.
     bindP (buf_get buf i) (\<lambda>b.
     if b = CR then EXPECT_CHAR LF buf (i + 1) else if b = LF then okP (i + 1) else okP i))"

definition line_end :: "byte list \<Rightarrow> nat \<Rightarrow> nat phr" where
  "line_end buf i =
     bindP (buf_get buf i) (\<lambda>b.
     if b = CR then EXPECT_CHAR LF buf (i + 1) else if b = LF then okP (i + 1) else failP (-1))"

definition parse_request ::
  "bool \<Rightarrow> byte list \<Rightarrow> nat \<Rightarrow> nat \<Rightarrow> phr_request \<Rightarrow> fault + (int + nat) \<times> phr_request" where
  "parse_request sse buf i max_headers rq =
     tryP (skip_empty_line buf i) rq (\<lambda>i.
     tryP (ADVANCE_TOKEN sse buf i) rq (\<lambda>((method, method_len), i).
     let rq = rq\<lparr>rq_method := Some method, rq_method_len := method_len\<rparr> in
     tryP (ADVANCE_TOKEN sse buf (i + 1)) rq (\<lambda>((path, path_len), i).
     let rq = rq\<lparr>rq_path := Some path, rq_path_len := path_len\<rparr> in
     tryP (parse_http_version buf (i + 1)) rq (\<lambda>(minor_version, i).
     let rq = rq\<lparr>rq_minor_version := minor_version\<rparr> in
     tryP (line_end buf i) rq (\<lambda>i.
     bindE (parse_headers sse buf i (rq_num_headers rq) max_headers (rq_headers rq)) (\<lambda>(r, num, hs).
     Inr (r, rq\<lparr>rq_num_headers := num, rq_headers := hs\<rparr>)))))))"

text \<open>The number of bytes consumed, or the error.\<close>

definition consumed :: "int + nat \<Rightarrow> int" where
  "consumed r = (case r of Inl e \<Rightarrow> e | Inr j \<Rightarrow> int j)"

definition phr_parse_request ::
  "bool \<Rightarrow> byte list \<Rightarrow> phr_header list \<Rightarrow> nat \<Rightarrow> nat \<Rightarrow> fault + int \<times> phr_request" where
  "phr_parse_request sse buf hs max_headers last_len =
     (let rq = \<lparr>rq_method = None, rq_method_len = 0, rq_path = None, rq_path_len = 0, rq_minor_version = -1,
                rq_num_headers = 0, rq_headers = hs\<rparr> in
      bindE (tryP (if last_len \<noteq> 0 then is_complete buf last_len else okP 0) rq (\<lambda>_.
             parse_request sse buf 0 max_headers rq)) (\<lambda>(r, rq).
      Inr (consumed r, rq)))"

subsection \<open>Responses and headers\<close>

record phr_response =
  rs_minor_version :: int
  rs_status :: int
  rs_msg :: "nat option"
  rs_msg_len :: nat
  rs_num_headers :: nat
  rs_headers :: "phr_header list"

definition skip_space :: "byte list \<Rightarrow> nat \<Rightarrow> nat phr" where
  "skip_space buf i = bindP (buf_get buf i) (\<lambda>b. if b \<noteq> SP then failP (-1) else okP (i + 1))"

definition parse_response ::
  "bool \<Rightarrow> byte list \<Rightarrow> nat \<Rightarrow> nat \<Rightarrow> phr_response \<Rightarrow> fault + (int + nat) \<times> phr_response" where
  "parse_response sse buf i max_headers rs =
     tryP (parse_http_version buf i) rs (\<lambda>(minor_version, i).
     let rs = rs\<lparr>rs_minor_version := minor_version\<rparr> in
     tryP (skip_space buf i) rs (\<lambda>i.
     tryP (parse_int buf i) rs (\<lambda>(status, i).
     let rs = rs\<lparr>rs_status := status\<rparr> in
     tryP (skip_space buf i) rs (\<lambda>i.
     tryP (get_token_to_eol sse buf i) rs (\<lambda>((msg, msg_len), i).
     let rs = rs\<lparr>rs_msg := Some msg, rs_msg_len := msg_len\<rparr> in
     bindE (parse_headers sse buf i (rs_num_headers rs) max_headers (rs_headers rs)) (\<lambda>(r, num, hs).
     Inr (r, rs\<lparr>rs_num_headers := num, rs_headers := hs\<rparr>)))))))"

definition phr_parse_response ::
  "bool \<Rightarrow> byte list \<Rightarrow> phr_header list \<Rightarrow> nat \<Rightarrow> nat \<Rightarrow> fault + int \<times> phr_response" where
  "phr_parse_response sse buf hs max_headers last_len =
     (let rs = \<lparr>rs_minor_version = -1, rs_status = 0, rs_msg = None, rs_msg_len = 0, rs_num_headers = 0,
                rs_headers = hs\<rparr> in
      bindE (tryP (if last_len \<noteq> 0 then is_complete buf last_len else okP 0) rs (\<lambda>_.
             parse_response sse buf 0 max_headers rs)) (\<lambda>(r, rs).
      Inr (consumed r, rs)))"

definition phr_parse_headers ::
  "bool \<Rightarrow> byte list \<Rightarrow> phr_header list \<Rightarrow> nat \<Rightarrow> nat \<Rightarrow> fault + int \<times> nat \<times> phr_header list" where
  "phr_parse_headers sse buf hs max_headers last_len =
     bindE (tryP (if last_len \<noteq> 0 then is_complete buf last_len else okP 0) (0, hs) (\<lambda>_.
            parse_headers sse buf 0 0 max_headers hs)) (\<lambda>(r, num, hs).
     Inr (consumed r, num, hs))"

end
