(* ===== verification/Http_Stable.thy ===== *)
theory Http_Stable
  imports Http_Message
begin

section \<open>What the HTTP parser guarantees on any input\<close>

text \<open>
  Three facts about every input: with and without SSE the parser gives the same results on ASCII; a
  verdict that is not "more input, please" does not change when more input comes; results lie in the
  part of the buffer that was consumed.
\<close>

lemma tryP_cong:
  assumes "m = m'" "\<And>x. m' = okP x \<Longrightarrow> k x = k' x"
  shows "tryP m s k = tryP m' s k'"
  using assms by (auto simp: tryP_def bindE_def split: sum.splits)

subsection \<open>With and without SSE\<close>

definition ascii :: "byte list \<Rightarrow> bool" where
  "ascii buf \<longleftrightarrow> (\<forall>b \<in> set buf. b < 128)"

lemma header_value_sse: "i \<le> length buf \<Longrightarrow> header_value sse buf i num hs = header_value False buf i num hs"
  by (simp add: header_value_def get_token_to_eol_eq)

lemma header_name_sse:
  assumes "i < length buf" "ascii buf"
  shows "header_name sse buf i num hs = header_name False buf i num hs"
proof -
  have nm: "name_end sse buf i = name_end False buf i"
    using assms by (simp add: name_end_eq[of i buf sse] name_end_eq[of i buf False] ascii_def)
  have j: "j + 1 \<le> length buf" if "name_end False buf i = okP j" for j
    using name_end_cases[of i buf False] that assms(1) by auto
  have k: "header_value sse buf k num hs = header_value False buf k num hs"
    if "scan_to P buf (j + 1) = okP k" "j + 1 \<le> length buf" for P j k num hs
    using scan_to_okP(2)[OF that] header_value_sse[of k buf sse num hs] by simp
  show ?thesis unfolding header_name_def nm
    by (intro arg_cong2[of _ _ _ _ bindE] refl ext tryP_cong) (use j k in blast)
qed

lemma header_line_sse:
  assumes "i < length buf" "ascii buf"
  shows "header_line sse buf i num hs = header_line False buf i num hs"
  unfolding header_line_def header_name_sse[OF assms, of sse] header_value_sse[OF less_imp_le[OF assms(1)], of sse] ..

lemma parse_headers_sse:
  "ascii buf \<Longrightarrow> parse_headers sse buf i num max_headers hs = parse_headers False buf i num max_headers hs"
proof (induction "length buf - i" arbitrary: i num hs rule: less_induct)
  case less
  show ?case
  proof (cases "i < length buf")
    case True
    note line = header_line_sse[OF True less.prems, of sse num hs]
    have "parse_headers sse buf j (num + 1) max_headers hs' = parse_headers False buf j (num + 1) max_headers hs'"
      if "header_line False buf i num hs = Inr (Inr j, hs')" for j hs'
      using header_line_progress[OF that True] less.hyps[of j] less.prems True by simp
    then show ?thesis
      unfolding parse_headers.simps[of sse buf i] parse_headers.simps[of False buf i] line
      by (auto split: sum.splits)
  next
    case False
    then show ?thesis unfolding parse_headers.simps[of sse buf i] parse_headers.simps[of False buf i] by auto
  qed
qed

lemma skip_empty_line_bound: "skip_empty_line buf i = okP j \<Longrightarrow> i \<le> length buf \<Longrightarrow> j \<le> length buf"
  using EXPECT_CHAR_cases[of "i + 1" buf LF] by (auto simp: skip_empty_line_def CHECK_EOF_def buf_get_def split: if_splits)

lemma ADVANCE_TOKEN_bound:
  "ADVANCE_TOKEN sse buf i = okP ((t, l), j) \<Longrightarrow> i \<le> length buf \<Longrightarrow> t = i \<and> j = i + l \<and> i + l < length buf"
  using ADVANCE_TOKEN_cases[of i buf sse] by auto

lemma parse_request_sse:
  assumes "ascii buf" "i \<le> length buf"
  shows "parse_request sse buf i max_headers rq = parse_request False buf i max_headers rq"
proof -
  have adv: "ADVANCE_TOKEN sse buf i = ADVANCE_TOKEN False buf i" if "i \<le> length buf" for i
    by (simp add: ADVANCE_TOKEN_eq that)
  show ?thesis unfolding parse_request_def Let_def parse_headers_sse[OF assms(1), of sse]
    by (intro tryP_cong refl)
      (use assms(2) in \<open>auto intro!: tryP_cong adv dest!: skip_empty_line_bound ADVANCE_TOKEN_bound\<close>)
qed

lemma parse_response_sse:
  assumes "ascii buf" "i \<le> length buf"
  shows "parse_response sse buf i max_headers rs = parse_response False buf i max_headers rs"
proof -
  have sp: "k \<le> length buf" if "skip_space buf j = okP k" for j k
    using that by (auto simp: skip_space_def buf_get_def split: if_splits)
  have eol: "get_token_to_eol sse buf i = get_token_to_eol False buf i" if "i \<le> length buf" for i
    by (simp add: get_token_to_eol_eq that)
  show ?thesis unfolding parse_response_def Let_def parse_headers_sse[OF assms(1), of sse]
    by (intro tryP_cong refl) (auto intro!: tryP_cong eol dest!: sp)
qed

subsection \<open>More input\<close>

text \<open>\<open>m'\<close> is the result with more input: the same, unless \<open>m\<close> asked for more.\<close>

definition settled :: "'a phr \<Rightarrow> 'a phr \<Rightarrow> bool" where
  "settled m m' \<longleftrightarrow> m = failP (-2) \<or> m' = m"

definition settledR :: "fault + (int + 'a) \<times> 's \<Rightarrow> fault + (int + 'a) \<times> 's \<Rightarrow> bool" where
  "settledR m m' \<longleftrightarrow> (\<exists>s. m = Inr (Inl (-2), s)) \<or> m' = m"

lemma settled_refl [simp]: "settled m m" "settledR r r"
  by (simp_all add: settled_def settledR_def)

lemma settled_bindP:
  assumes "settled m m'" "\<And>x. m = okP x \<Longrightarrow> settled (k x) (k' x)"
  shows "settled (bindP m k) (bindP m' k')"
proof (cases m)
  case (Inr r)
  then show ?thesis using assms by (cases r) (auto simp: settled_def)
qed (use assms in \<open>auto simp: settled_def\<close>)

lemma settled_tryP:
  assumes "settled m m'" "\<And>x. m = okP x \<Longrightarrow> settledR (k x) (k' x)"
  shows "settledR (tryP m s k) (tryP m' s k')"
proof (cases m)
  case (Inr r)
  then show ?thesis using assms by (cases r) (auto simp: settled_def settledR_def)
qed (use assms in \<open>auto simp: settled_def settledR_def\<close>)

lemma settled_bindE:
  "(\<And>x. m = Inr x \<Longrightarrow> settledR (k x) (k' x)) \<Longrightarrow> settledR (bindE m k) (bindE m k')"
  by (cases m) simp_all

lemma settled_scan: "i \<le> length buf \<Longrightarrow> settled (scan_to P buf i) (scan_to P (buf @ ext) i)"
proof (cases "scan_to P buf i = failP (-2)")
  case False
  assume i: "i \<le> length buf"
  then obtain j where j: "scan_to P buf i = okP j" "clear P buf i j" "j < length buf" "P (buf ! j)"
    using scan_to_cases[OF i, of P] False by auto
  then have "clear P (buf @ ext) i j" by (auto simp: clear_def nth_append)
  then show ?thesis using scan_to_found[of P "buf @ ext" i j] j by (simp add: settled_def nth_append)
qed (simp add: settled_def)

lemma settled_get: "i < length buf \<Longrightarrow> buf_get (buf @ ext) i = buf_get buf i"
  by (simp add: buf_get_def nth_append)

lemma settled_expect: "i \<le> length buf \<Longrightarrow> settled (EXPECT_CHAR ch buf i) (EXPECT_CHAR ch (buf @ ext) i)"
  by (cases "i = length buf") (auto simp: settled_def EXPECT_CHAR_def CHECK_EOF_def settled_get)

lemma settled_advance:
  assumes "i \<le> length buf"
  shows "settled (ADVANCE_TOKEN False buf i) (ADVANCE_TOKEN False (buf @ ext) i)"
proof -
  have "i \<le> length (buf @ ext)" using assms by simp
  then show ?thesis unfolding ADVANCE_TOKEN_eq[OF assms] ADVANCE_TOKEN_eq[OF \<open>i \<le> length (buf @ ext)\<close>]
    by (intro settled_bindP settled_scan assms) (use scan_to_okP(2)[OF _ assms] in \<open>auto simp: nth_append\<close>)
qed

lemma settled_eol_token:
  "i < length buf \<Longrightarrow> settled (eol_token buf s i) (eol_token (buf @ ext) s i)"
  by (auto simp: eol_token_def settled_get buf_get_def[of buf] intro!: settled_bindP settled_expect)

lemma settled_eol:
  assumes "i \<le> length buf"
  shows "settled (get_token_to_eol False buf i) (get_token_to_eol False (buf @ ext) i)"
proof -
  have "i \<le> length (buf @ ext)" using assms by simp
  then show ?thesis unfolding get_token_to_eol_eq[OF assms] get_token_to_eol_eq[OF \<open>i \<le> length (buf @ ext)\<close>]
    by (intro settled_bindP settled_scan assms settled_eol_token) (use scan_to_okP(2)[OF _ assms] in auto)
qed

lemma settled_name_end:
  assumes "i \<le> length buf"
  shows "settled (name_end False buf i) (name_end False (buf @ ext) i)"
proof -
  have i': "i \<le> length (buf @ ext)" using assms by simp
  have "settled (bindP (scan_to (\<lambda>b. b = COLON \<or> sint b < 32) buf i) (\<lambda>j. if buf ! j = COLON then okP j else failP (-1)))
      (bindP (scan_to (\<lambda>b. b = COLON \<or> sint b < 32) (buf @ ext) i) (\<lambda>j. if (buf @ ext) ! j = COLON then okP j else failP (-1)))"
    by (intro settled_bindP settled_scan assms) (use scan_to_okP(2)[OF _ assms] in \<open>auto simp: nth_append\<close>)
  then show ?thesis using name_end_eq[OF assms, of False] name_end_eq[OF i', of False] by simp
qed

lemma settled_parse_int:
  assumes "i \<le> length buf"
  shows "settled (parse_int buf i) (parse_int (buf @ ext) i)"
proof (cases "i = length buf")
  case False
  then have i: "i < length buf" using assms by simp
  then show ?thesis unfolding parse_int_def settled_get[OF i]
    by (auto simp: CHECK_EOF_def buf_get_def intro!: settled_bindP settled_scan dest: scan_to_okP(2)[OF _ assms])
qed (auto simp: settled_def parse_int_def CHECK_EOF_def)

lemma settled_expect_then:
  assumes "i \<le> length buf" "\<And>j. j \<le> length buf \<Longrightarrow> settled (k j) (k' j)"
  shows "settled (bindP (EXPECT_CHAR ch buf i) k) (bindP (EXPECT_CHAR ch (buf @ ext) i) k')"
  by (intro settled_bindP settled_expect assms) (use EXPECT_CHAR_cases[OF assms(1), of ch] in auto)

lemma settled_http_version:
  "i \<le> length buf \<Longrightarrow> settled (parse_http_version buf i) (parse_http_version (buf @ ext) i)"
  unfolding parse_http_version_def by (intro settled_expect_then settled_parse_int)

lemma settled_header_value:
  "i \<le> length buf \<Longrightarrow> settledR (header_value False buf i num hs) (header_value False (buf @ ext) i num hs)"
  unfolding header_value_def by (intro settled_tryP settled_eol) simp_all

lemma settled_header_name:
  assumes "i < length buf"
  shows "settledR (header_name False buf i num hs) (header_name False (buf @ ext) i num hs)"
proof -
  have "j + 1 \<le> length buf" if "name_end False buf i = okP j" for j
    using name_end_cases[of i buf False] that assms by auto
  moreover have "k \<le> length buf" if "scan_to P buf (j + 1) = okP k" "j + 1 \<le> length buf" for P j k
    using scan_to_okP(2)[OF that] by simp
  ultimately show ?thesis unfolding header_name_def
    by (intro settled_bindE settled_tryP settled_name_end settled_scan settled_header_value) (use assms in auto)
qed

lemma settled_header_line:
  assumes "i < length buf"
  shows "settledR (header_line False buf i num hs) (header_line False (buf @ ext) i num hs)"
  unfolding header_line_def settled_get[OF assms]
  by (intro settled_tryP settled_refl)
    (auto intro!: settled_bindE settled_header_name settled_header_value assms less_imp_le)

lemma settled_headers:
  assumes "i \<le> length buf" "max_headers \<le> length hs" "num \<le> max_headers"
  shows "settledR (parse_headers False buf i num max_headers hs) (parse_headers False (buf @ ext) i num max_headers hs)"
  using assms
proof (induction "length buf - i" arbitrary: i num hs rule: less_induct)
  case less
  show ?case
  proof (cases "i = length buf")
    case True
    then show ?thesis by (subst parse_headers.simps) (simp add: settledR_def)
  next
    case False
    then have i: "i < length buf" using less.prems by simp
    have b: "(buf @ ext) ! i = buf ! i" using i by (simp add: nth_append)
    have cr: "settledR (tryP (EXPECT_CHAR LF buf (i + 1)) (num, hs) (\<lambda>j. Inr (Inr j, num, hs)))
        (tryP (EXPECT_CHAR LF (buf @ ext) (i + 1)) (num, hs) (\<lambda>j. Inr (Inr j, num, hs)))"
      by (intro settled_tryP settled_expect) (use i in simp_all)
    have step: "settledR
        (case header_line False buf i num hs of Inl f \<Rightarrow> Inl f | Inr (Inl e, hs) \<Rightarrow> Inr (Inl e, num, hs)
         | Inr (Inr j, hs) \<Rightarrow> parse_headers False buf j (num + 1) max_headers hs)
        (case header_line False (buf @ ext) i num hs of Inl f \<Rightarrow> Inl f | Inr (Inl e, hs) \<Rightarrow> Inr (Inl e, num, hs)
         | Inr (Inr j, hs) \<Rightarrow> parse_headers False (buf @ ext) j (num + 1) max_headers hs)" (is "settledR ?l ?r")
      if n: "num \<noteq> max_headers"
    proof -
      have n: "num < length hs" "num + 1 \<le> max_headers" using n less.prems by auto
      consider h e where "header_line False buf i num hs = Inr (Inl e, hs[num := h])"
        | h j where "header_line False buf i num hs = Inr (Inr j, hs[num := h])" "i < j" "j \<le> length buf"
        using header_line_ok[OF i n(1), of False] by (auto simp: line_ok_def)
      then show ?thesis
      proof cases
        case (1 h e)
        then show ?thesis using settled_header_line[OF i, of num hs ext] by (cases "e = -2") (auto simp: settledR_def)
      next
        case (2 h j)
        then have "header_line False (buf @ ext) i num hs = header_line False buf i num hs"
          using settled_header_line[OF i, of num hs ext] by (auto simp: settledR_def)
        then show ?thesis using less.hyps[of j "hs[num := h]" "num + 1"] less.prems(2) n(2) 2 i by simp
      qed
    qed
    show ?thesis unfolding parse_headers.simps[of False _ i] b using i cr step by auto
  qed
qed

lemma settled_line_end: "i < length buf \<Longrightarrow> settled (line_end buf i) (line_end (buf @ ext) i)"
  by (auto simp: line_end_def settled_get buf_get_def[of buf] intro!: settled_expect)

lemma settled_skip_empty_line: "i \<le> length buf \<Longrightarrow> settled (skip_empty_line buf i) (skip_empty_line (buf @ ext) i)"
  by (cases "i = length buf")
    (auto simp: skip_empty_line_def CHECK_EOF_def settled_get buf_get_def[of buf] settled_def[of "failP (-2)"] intro!: settled_expect)

lemma line_end_bound: "line_end buf i = okP j \<Longrightarrow> i < j \<and> j \<le> length buf"
  using EXPECT_CHAR_cases[of "i + 1" buf LF] by (auto simp: line_end_def buf_get_def split: if_splits)

lemma http_version_bound: "parse_http_version buf i = okP (v, j) \<Longrightarrow> i \<le> length buf \<Longrightarrow> i < j \<and> j < length buf"
  using http_version_cases[of i buf] by auto

lemmas request_bounds = skip_empty_line_bound ADVANCE_TOKEN_bound http_version_bound line_end_bound

lemma settled_request:
  assumes "i \<le> length buf" "rq_num_headers rq \<le> max_headers" "max_headers \<le> length (rq_headers rq)"
  shows "settledR (parse_request False buf i max_headers rq) (parse_request False (buf @ ext) i max_headers rq)"
proof -
  have fin: "settledR
      (bindE (parse_headers False buf i (rq_num_headers rq) max_headers (rq_headers rq)) (\<lambda>(r, num, hs). Inr (r, f num hs)))
      (bindE (parse_headers False (buf @ ext) i (rq_num_headers rq) max_headers (rq_headers rq)) (\<lambda>(r, num, hs). Inr (r, f num hs)))"
    if "i \<le> length buf" for i and f :: "nat \<Rightarrow> phr_header list \<Rightarrow> phr_request"
    using settled_headers[OF that assms(3,2), of ext] by (auto simp: settledR_def)
  show ?thesis unfolding parse_request_def Let_def
    by (auto intro!: settled_tryP settled_skip_empty_line settled_advance settled_http_version settled_line_end fin
        dest!: request_bounds simp: assms(1))
qed

subsection \<open>Results lie in the buffer\<close>

lemma complete_loop_cases:
  "i \<le> length buf \<Longrightarrow> (\<exists>e \<in> {-1, -2}. complete_loop buf n i = failP e) \<or> (\<exists>j. complete_loop buf n i = okP j)"
proof (induction buf n i rule: complete_loop.induct)
  case (1 buf n i)
  show ?case
  proof (cases "i = length buf \<or> buf ! i = CR \<and> (i + 1 = length buf \<or> buf ! (i + 1) \<noteq> LF)")
    case False
    let ?j = "if buf ! i = CR then i + 2 else i + 1" and ?n = "if buf ! i = CR \<or> buf ! i = LF then n + 1 else 0"
    have "?j \<le> length buf" using False 1(4) by auto
    moreover have "complete_loop buf n i = (if ?n = 2 then okP ?j else complete_loop buf ?n ?j)"
      using False 1(4) by (subst complete_loop.simps) auto
    ultimately show ?thesis using 1(1-3) False 1(4) by (auto split: if_splits)
  qed (use 1(4) in \<open>auto simp: complete_loop.simps[of buf n i]\<close>)
qed

definition ends_at :: "nat \<Rightarrow> byte list \<Rightarrow> int + nat \<Rightarrow> bool" where
  "ends_at i buf r \<longleftrightarrow> (case r of Inl e \<Rightarrow> e = -1 \<or> e = -2 | Inr j \<Rightarrow> i < j \<and> j \<le> length buf)"

definition limit :: "byte list \<Rightarrow> int + nat \<Rightarrow> nat" where
  "limit buf r = (case r of Inl e \<Rightarrow> length buf | Inr j \<Rightarrow> j)"

lemma headers_in:
  assumes "i \<le> length buf" "num \<le> max_headers" "max_headers \<le> length hs"
  shows "\<exists>r num' hs'. parse_headers sse buf i num max_headers hs = Inr (r, num', hs') \<and> ends_at i buf r \<and>
    num \<le> num' \<and> num' \<le> max_headers \<and> length hs' = length hs \<and> (\<forall>k < num. hs' ! k = hs ! k) \<and>
    (\<forall>k. num \<le> k \<and> k < num' \<longrightarrow> header_in (limit buf r) (hs' ! k))"
  using assms
proof (induction "length buf - i" arbitrary: i num hs rule: less_induct)
  case less
  show ?case
  proof (cases "i = length buf \<or> buf ! i = CR \<or> buf ! i = LF \<or> num = max_headers")
    case True
    then show ?thesis using less.prems EXPECT_CHAR_cases[of "i + 1" buf LF]
      by (subst parse_headers.simps) (auto simp: ends_at_def)
  next
    case False
    then have i: "i < length buf" and num: "num < length hs" "num < max_headers" using less.prems by auto
    consider h e where "header_line sse buf i num hs = Inr (Inl e, hs[num := h])" "e \<in> {-1, -2}"
      | h j where "header_line sse buf i num hs = Inr (Inr j, hs[num := h])" "i < j" "j \<le> length buf" "header_in j h"
      using header_line_ok[OF i num(1), of sse] unfolding line_ok_def by blast
    then show ?thesis
    proof cases
      case (1 h e)
      then show ?thesis using False i less.prems by (subst parse_headers.simps) (auto simp: ends_at_def)
    next
      case (2 h j)
      have step: "parse_headers sse buf i num max_headers hs = parse_headers sse buf j (num + 1) max_headers (hs[num := h])"
        using 2 False i by (subst parse_headers.simps) simp
      have "length buf - j < length buf - i" using 2 by simp
      then obtain r num' hs' where IH: "parse_headers sse buf j (num + 1) max_headers (hs[num := h]) = Inr (r, num', hs')"
        "ends_at j buf r" "num + 1 \<le> num'" "num' \<le> max_headers" "length hs' = length hs"
        "\<forall>k < num + 1. hs' ! k = hs[num := h] ! k" "\<forall>k. num + 1 \<le> k \<and> k < num' \<longrightarrow> header_in (limit buf r) (hs' ! k)"
        using less.hyps[of j "num + 1" "hs[num := h]"] 2 i num less.prems by auto
      have "j \<le> limit buf r" using IH(2) 2(3) by (auto simp: ends_at_def limit_def split: sum.splits)
      then have "header_in (limit buf r) (hs' ! num)" using IH(6) num(1) 2(4) header_in_mono by auto
      then have "\<forall>k. num \<le> k \<and> k < num' \<longrightarrow> header_in (limit buf r) (hs' ! k)"
        using IH(7) by (metis Suc_eq_plus1 Suc_leI le_neq_implies_less)
      moreover have "ends_at i buf r" using IH(2) 2(2) by (auto simp: ends_at_def split: sum.splits)
      ultimately show ?thesis using IH step by auto
    qed
  qed
qed

definition request_in :: "nat \<Rightarrow> phr_request \<Rightarrow> bool" where
  "request_in r rq \<longleftrightarrow>
     (\<exists>m p. rq_method rq = Some m \<and> m + rq_method_len rq \<le> r \<and> rq_path rq = Some p \<and> p + rq_path_len rq \<le> r) \<and>
     (\<forall>k < rq_num_headers rq. header_in r (rq_headers rq ! k))"

lemma parse_request_in:
  assumes "rq_num_headers rq = 0" "max_headers \<le> length (rq_headers rq)"
  shows "\<exists>r rq'. parse_request sse buf 0 max_headers rq = Inr (r, rq') \<and> ends_at 0 buf r \<and>
    rq_num_headers rq' \<le> max_headers \<and> length (rq_headers rq') = length (rq_headers rq) \<and>
    (\<forall>j. r = Inr j \<longrightarrow> request_in j rq')"
proof -
  let ?ok = "\<lambda>x. \<exists>r rq'. x = Inr (r, rq') \<and> ends_at 0 buf r \<and> rq_num_headers rq' \<le> max_headers \<and>
    length (rq_headers rq') = length (rq_headers rq) \<and> (\<forall>j. r = Inr j \<longrightarrow> request_in j rq')"
  have step: "?ok (tryP m rq1 k)"
    if "(\<exists>e \<in> {-1, -2}. m = failP e) \<or> (\<exists>x. m = okP x \<and> Q x)" "\<And>x. Q x \<Longrightarrow> ?ok (k x)"
      "rq_num_headers rq1 = 0" "rq_headers rq1 = rq_headers rq"
    for m rq1 k and Q :: "'z \<Rightarrow> bool"
    using that by (auto simp: ends_at_def)
  have empty: "(\<exists>e \<in> {-1, -2}. skip_empty_line buf 0 = failP e) \<or> (\<exists>x. skip_empty_line buf 0 = okP x \<and> x \<le> length buf)"
    using EXPECT_CHAR_cases[of 1 buf LF] by (cases buf) (auto simp: skip_empty_line_def CHECK_EOF_def buf_get_def Suc_le_eq)
  have adv: "(\<exists>e \<in> {-1, -2}. ADVANCE_TOKEN sse buf i = failP e) \<or>
      (\<exists>x. ADVANCE_TOKEN sse buf i = okP x \<and> (case x of ((t, l), j) \<Rightarrow> t + l = j \<and> j < length buf \<and> i \<le> j))"
    if "i \<le> length buf" for i
    using ADVANCE_TOKEN_cases[OF that, of sse] by auto
  have ver: "(\<exists>e \<in> {-1, -2}. parse_http_version buf i = failP e) \<or>
      (\<exists>x. parse_http_version buf i = okP x \<and> (case x of (v, j) \<Rightarrow> i < j \<and> j < length buf))"
    if "i \<le> length buf" for i
    using http_version_cases[OF that] by auto
  have le: "(\<exists>e \<in> {-1, -2}. line_end buf i = failP e) \<or> (\<exists>j. line_end buf i = okP j \<and> i < j \<and> j \<le> length buf)"
    if "i < length buf" for i
    using EXPECT_CHAR_cases[of "i + 1" buf LF] that by (auto simp: line_end_def buf_get_def)
  show ?thesis unfolding parse_request_def Let_def
    apply (rule step[OF empty]; (simp add: assms)?)
    subgoal for i
      apply (rule step[OF adv]; clarsimp simp: assms)
      subgoal for m ml
        apply (rule step[OF adv]; clarsimp simp: assms)
        subgoal for p pl
          apply (rule step[OF ver]; clarsimp simp: assms)
          subgoal for v j
            apply (rule step[OF le]; clarsimp simp: assms)
            subgoal for k
              using headers_in[of k buf 0 max_headers "rq_headers rq" sse] assms
              by (fastforce simp: ends_at_def limit_def request_in_def split: sum.splits)
            done
          done
        done
      done
    done
qed

end
