(* ===== verification/Http_Roundtrip.thy ===== *)
theory Http_Roundtrip
  imports Http_Stable
begin

section \<open>Reading back a request\<close>

text \<open>
  A request written from its method, path, version and headers is read back as these, whatever follows it. Lines end
  in CR LF or in LF; a header without a name continues the one before it.
\<close>

definition eol :: "bool \<Rightarrow> byte list" where
  "eol crlf = (if crlf then [CR, LF] else [LF])"

type_synonym header_src = "byte list option \<times> byte list"

definition render_header :: "bool \<Rightarrow> header_src \<Rightarrow> byte list" where
  "render_header crlf h = (case h of (n, v) \<Rightarrow> (case n of Some nm \<Rightarrow> nm @ [COLON, SP] @ v | None \<Rightarrow> v) @ eol crlf)"

definition blank :: "byte \<Rightarrow> bool" where
  "blank b \<longleftrightarrow> b = SP \<or> b = HT"

definition header_ok :: "bool \<Rightarrow> header_src \<Rightarrow> bool" where
  "header_ok first h \<longleftrightarrow>
     (case h of (n, v) \<Rightarrow>
        (case n of
           Some nm \<Rightarrow> nm \<noteq> [] \<and> token_char_map ! unat (hd nm) \<noteq> 0 \<and> (\<forall>b \<in> set nm. b \<noteq> COLON \<and> 32 \<le> b \<and> b < 128) \<and>
             (v \<noteq> [] \<longrightarrow> \<not> blank (hd v))
         | None \<Rightarrow> \<not> first \<and> v \<noteq> [] \<and> blank (hd v)) \<and>
        (\<forall>b \<in> set v. \<not> is_ctl b))"

fun headers_ok :: "bool \<Rightarrow> header_src list \<Rightarrow> bool" where
  "headers_ok first [] = True"
| "headers_ok first (h # hds) = (header_ok first h \<and> headers_ok False hds)"

definition render_request :: "bool \<Rightarrow> byte list \<Rightarrow> byte list \<Rightarrow> nat \<Rightarrow> header_src list \<Rightarrow> byte list" where
  "render_request crlf method path minor hds =
     method @ [SP] @ path @ [SP] @ map of_char ''HTTP/1.'' @ dec_digits minor @ eol crlf @
     concat (map (render_header crlf) hds) @ eol crlf"

definition word_ok :: "byte list \<Rightarrow> bool" where
  "word_ok w \<longleftrightarrow> (\<forall>b \<in> set w. b \<noteq> SP \<and> \<not> token_bad b)"

text \<open>What a result stands for.\<close>

definition part :: "byte list \<Rightarrow> nat option \<Rightarrow> nat \<Rightarrow> byte list option" where
  "part buf p len = (case p of None \<Rightarrow> None | Some p \<Rightarrow> Some (take len (drop p buf)))"

definition reads :: "byte list \<Rightarrow> phr_header \<Rightarrow> header_src \<Rightarrow> bool" where
  "reads buf h src \<longleftrightarrow>
     part buf (h_name h) (h_name_len h) = fst src \<and> part buf (h_value h) (h_value_len h) = Some (snd src)"

subsection \<open>Tokens at a place\<close>

lemma clear_at:
  assumes "buf = pre @ tok @ rest" "\<forall>x \<in> set tok. \<not> P x"
  shows "clear P buf (length pre) (length pre + length tok)"
  using assms by (auto simp: clear_def nth_append)

lemma scan_at:
  assumes "buf = pre @ tok @ b # rest" "\<forall>x \<in> set tok. \<not> P x" "P b"
  shows "scan_to P buf (length pre) = okP (length pre + length tok)"
  using scan_to_found[OF clear_at[of buf pre tok "b # rest" P]] assms by (simp add: nth_append)

lemma advance_at:
  assumes "buf = pre @ tok @ SP # rest" "word_ok tok"
  shows "ADVANCE_TOKEN sse buf (length pre) = okP ((length pre, length tok), length pre + length tok)"
  using scan_at[OF assms(1), of "\<lambda>b. b = SP \<or> token_bad b"] assms
  by (subst ADVANCE_TOKEN_eq) (auto simp: word_ok_def nth_append)

lemma ctl_eol: "is_ctl CR" "is_ctl LF"
  by (simp_all add: is_ctl_def)

lemma eol_at:
  assumes "buf = pre @ v @ eol crlf @ rest" "\<forall>b \<in> set v. \<not> is_ctl b"
  shows "get_token_to_eol sse buf (length pre) =
    okP ((length pre, length v), length pre + length v + length (eol crlf))"
proof -
  obtain e es where e: "eol crlf @ rest = e # es" "is_ctl e" using ctl_eol by (cases crlf) (auto simp: eol_def)
  have "scan_to is_ctl buf (length pre) = okP (length pre + length v)"
    by (rule scan_at[of buf pre v e es]) (use assms e in auto)
  then show ?thesis using assms(1)
    by (subst get_token_to_eol_eq)
      (auto simp: eol_token_def buf_get_def eol_def nth_append EXPECT_CHAR_def CHECK_EOF_def split: if_splits)
qed

lemma name_at:
  assumes "buf = pre @ nm @ COLON # rest" "\<forall>b \<in> set nm. b \<noteq> COLON \<and> 32 \<le> b \<and> b < 128"
  shows "name_end sse buf (length pre) = okP (length pre + length nm)"
proof -
  let ?i = "length pre" and ?P = "\<lambda>b. b = COLON \<or> sint b < 32"
  have i: "?i \<le> length buf" using assms(1) by simp
  obtain j found where j: "findchar_fast sse [(COLON, COLON), (0, 31)] buf ?i = Inr (j, found)"
    "clear (\<lambda>b. b = COLON \<or> b < 32) buf ?i j"
    using findchar_clear[OF i, of sse "[(COLON, COLON), (0, 31)]"] unfolding ranges_name by blast
  have colon: "buf ! (?i + length nm) = COLON" using assms(1) by (simp add: nth_append)
  have nm: "\<forall>x \<in> set nm. \<not> ?P x" using assms(2) by (auto simp: signed_less_32)
  have "j \<le> ?i + length nm" using j(2) colon unfolding clear_def by (meson le_add1 not_le)
  then have cl: "clear ?P buf ?i j" using clear_at[OF assms(1) nm] j(2) by (auto simp: clear_def)
  have "scan_to ?P buf j = okP (?i + length nm)" using scan_to_skip[OF cl] scan_at[OF assms(1) nm] by simp
  moreover have "j < length buf" using \<open>j \<le> ?i + length nm\<close> assms(1) by simp
  ultimately show ?thesis using j(1) colon assms(1) by (simp add: name_end_def CHECK_EOF_def buf_get_def)
qed

subsection \<open>Headers\<close>

lemma token_char_not_space:
  assumes "token_char_map ! unat b \<noteq> 0"
  shows "b \<noteq> SP" "b \<noteq> HT" "b \<noteq> CR" "b \<noteq> LF"
  using assms by (auto simp: token_char_map_def)

lemma part_at: "buf = pre @ v @ rest \<Longrightarrow> part buf (Some (length pre)) (length v) = Some v"
  by (simp add: part_def)

lemma header_value_at:
  assumes "buf = pre @ v @ eol crlf @ rest" "\<forall>b \<in> set v. \<not> is_ctl b" "num < length hs"
  shows "header_value sse buf (length pre) num hs =
    Inr (Inr (length pre + length v + length (eol crlf)), hs[num := (hs ! num)\<lparr>h_value := Some (length pre), h_value_len := length v\<rparr>])"
  using eol_at[OF assms(1,2), of sse] assms(3) by (simp add: header_value_def arr_get_def arr_set_def)

lemma header_name_at:
  assumes buf: "buf = pre @ nm @ [COLON, SP] @ v @ eol crlf @ rest" and ok: "header_ok first (Some nm, v)" and num: "num < length hs"
  shows "\<exists>h. header_name sse buf (length pre) num hs =
      Inr (Inr (length pre + length (render_header crlf (Some nm, v))), hs[num := h]) \<and> reads buf h (Some nm, v)"
proof -
  let ?k = "length (pre @ nm @ [COLON, SP])"
  let ?h = "(hs ! num)\<lparr>h_name := Some (length pre), h_name_len := length nm\<rparr>"
  have nm: "name_end sse buf (length pre) = okP (length pre + length nm)"
    by (rule name_at[of buf pre nm "[SP] @ v @ eol crlf @ rest"]) (use buf ok in \<open>auto simp: header_ok_def\<close>)
  obtain b bs where b: "v @ eol crlf @ rest = b # bs" "\<not> blank b"
    using ok by (cases v; cases crlf) (auto simp: header_ok_def blank_def eol_def)
  have sp: "scan_to (\<lambda>b. \<not> (b = SP \<or> b = HT)) buf (length pre + length nm + 1) = okP ?k"
    using scan_at[of buf "pre @ nm @ [COLON]" "[SP]" b bs "\<lambda>b. \<not> (b = SP \<or> b = HT)"] buf b by (simp add: blank_def)
  have val: "header_value sse buf ?k num (hs[num := ?h]) =
      Inr (Inr (?k + length v + length (eol crlf)), hs[num := ?h\<lparr>h_value := Some ?k, h_value_len := length v\<rparr>])"
    using header_value_at[of buf "pre @ nm @ [COLON, SP]" v crlf rest num "hs[num := ?h]" sse] buf ok num
    by (simp add: header_ok_def)
  have "header_name sse buf (length pre) num hs = header_value sse buf ?k num (hs[num := ?h])"
    using nm sp num by (simp add: header_name_def arr_get_def arr_set_def)
  moreover have "reads buf (?h\<lparr>h_value := Some ?k, h_value_len := length v\<rparr>) (Some nm, v)"
    using part_at[of buf pre nm] part_at[of buf "pre @ nm @ [COLON, SP]" v] buf by (simp add: reads_def)
  ultimately show ?thesis using val by (auto simp: render_header_def)
qed

lemma header_line_at:
  assumes buf: "buf = pre @ render_header crlf src @ rest" and ok: "header_ok (num = 0) src" and num: "num < length hs"
  shows "\<exists>h. header_line sse buf (length pre) num hs = Inr (Inr (length pre + length (render_header crlf src)), hs[num := h]) \<and>
    reads buf h src"
proof (cases "fst src")
  case None
  then obtain v where src: "src = (None, v)" by (cases src) auto
  then obtain b bs where v: "v = b # bs" "blank b" using ok by (cases v) (auto simp: header_ok_def)
  let ?h = "(hs ! num)\<lparr>h_name := None, h_name_len := 0\<rparr>"
  have b: "buf_get buf (length pre) = okP b" using buf src v by (simp add: render_header_def buf_get_def nth_append)
  have "header_line sse buf (length pre) num hs = header_value sse buf (length pre) num (hs[num := ?h])"
    using b v(2) ok src num by (auto simp: header_line_def header_ok_def blank_def arr_get_def arr_set_def)
  moreover have "reads buf (?h\<lparr>h_value := Some (length pre), h_value_len := length v\<rparr>) src"
    using part_at[of buf pre v] buf src by (simp add: reads_def render_header_def part_def)
  ultimately show ?thesis
    using header_value_at[of buf pre v crlf rest num "hs[num := ?h]" sse] buf ok src num
    by (auto simp: header_ok_def render_header_def)
next
  case (Some nm)
  then obtain v where src: "src = (Some nm, v)" by (cases src) auto
  then obtain b bs where nm: "nm = b # bs" "token_char_map ! unat b \<noteq> 0" using ok by (cases nm) (auto simp: header_ok_def)
  have b: "buf_get buf (length pre) = okP b" using buf src nm by (simp add: render_header_def buf_get_def nth_append)
  have "header_line sse buf (length pre) num hs = header_name sse buf (length pre) num hs"
    using b nm(2) token_char_not_space[OF nm(2)] by (simp add: header_line_def)
  then show ?thesis using header_name_at[of buf pre nm v crlf rest "num = 0" num hs sse] buf ok src num
    by (simp add: render_header_def)
qed

lemma header_start:
  assumes "header_ok first src"
  shows "\<exists>b bs. render_header crlf src = b # bs \<and> b \<noteq> CR \<and> b \<noteq> LF"
proof (cases "fst src")
  case None
  then show ?thesis using assms by (cases src; cases "snd src") (auto simp: header_ok_def render_header_def blank_def)
next
  case (Some nm)
  then show ?thesis using assms token_char_not_space(3,4)[of "hd nm"]
    by (cases src; cases nm) (auto simp: header_ok_def render_header_def)
qed

lemma headers_at:
  assumes "buf = pre @ concat (map (render_header crlf) hds) @ eol crlf @ rest" "headers_ok (num = 0) hds"
    "num + length hds \<le> max_headers" "max_headers \<le> length hs"
  shows "\<exists>hs'. parse_headers sse buf (length pre) num max_headers hs =
      Inr (Inr (length pre + length (concat (map (render_header crlf) hds) @ eol crlf)), num + length hds, hs') \<and>
    length hs' = length hs \<and> (\<forall>k < num. hs' ! k = hs ! k) \<and> (\<forall>k < length hds. reads buf (hs' ! (num + k)) (hds ! k))"
  using assms
proof (induction hds arbitrary: pre num hs)
  case Nil
  have start: "buf ! length pre = hd (eol crlf)" using Nil.prems(1) by (cases crlf) (auto simp: eol_def nth_append)
  then have "parse_headers sse buf (length pre) num max_headers hs = Inr (Inr (length pre + length (eol crlf)), num, hs)"
    using Nil.prems(1)
    by (subst parse_headers.simps) (auto simp: eol_def EXPECT_CHAR_def CHECK_EOF_def buf_get_def nth_append split: if_splits)
  then show ?case by simp
next
  case (Cons src hds)
  let ?r = "render_header crlf src"
  have num: "num < length hs" "num \<noteq> max_headers" using Cons.prems(3,4) by auto
  have ok: "header_ok (num = 0) src" "headers_ok False hds" using Cons.prems(2) by auto
  have buf: "buf = pre @ ?r @ concat (map (render_header crlf) hds) @ eol crlf @ rest"
    "buf = (pre @ ?r) @ concat (map (render_header crlf) hds) @ eol crlf @ rest" using Cons.prems(1) by simp_all
  obtain h where h: "header_line sse buf (length pre) num hs = Inr (Inr (length pre + length ?r), hs[num := h])" "reads buf h src"
    using header_line_at[OF buf(1) ok(1) num(1)] by blast
  obtain b bs where b: "?r = b # bs" "b \<noteq> CR" "b \<noteq> LF" using header_start[OF ok(1)] by blast
  then have "buf ! length pre = b" "length pre < length buf" using buf(1) by (simp_all add: nth_append)
  then have step: "parse_headers sse buf (length pre) num max_headers hs =
      parse_headers sse buf (length (pre @ ?r)) (num + 1) max_headers (hs[num := h])"
    using h(1) b(2,3) num(2) by (subst parse_headers.simps) simp
  obtain hs' where IH: "parse_headers sse buf (length (pre @ ?r)) (num + 1) max_headers (hs[num := h]) =
      Inr (Inr (length (pre @ ?r) + length (concat (map (render_header crlf) hds) @ eol crlf)), num + 1 + length hds, hs')"
    "length hs' = length hs" "\<forall>k < num + 1. hs' ! k = hs[num := h] ! k" "\<forall>k < length hds. reads buf (hs' ! (num + 1 + k)) (hds ! k)"
    using Cons.IH[OF buf(2), of "num + 1" "hs[num := h]"] ok(2) Cons.prems(3,4) by auto
  have "reads buf (hs' ! (num + k)) ((src # hds) ! k)" if "k < length (src # hds)" for k
    using that IH(3,4) h(2) num(1) by (cases k) auto
  moreover have "\<forall>k < num. hs' ! k = hs ! k" using IH(3) by auto
  ultimately show ?case using IH(1,2) step by auto
qed

subsection \<open>Requests\<close>

lemma expect_at: "buf = pre @ ch # rest \<Longrightarrow> i = length pre \<Longrightarrow> EXPECT_CHAR ch buf i = okP (i + 1)"
  by (simp add: EXPECT_CHAR_def CHECK_EOF_def buf_get_def)

lemma digits_at:
  assumes "buf = pre @ dec_digits n @ b # rest" "\<not> digit b"
  shows "parse_int buf (length pre) = okP (int n, length pre + length (dec_digits n))"
proof -
  obtain d ds where d: "dec_digits n = d # ds" "digit d" using dec_digits_nonempty[of n] dec_digits_digit[of n]
    by (cases "dec_digits n") auto
  have "scan_to (\<lambda>b. \<not> digit b) buf (length pre) = okP (length pre + length (dec_digits n))"
    by (rule scan_at[OF assms(1)]) (use assms(2) dec_digits_digit[of n] in \<open>auto simp: list_all_iff\<close>)
  moreover have "buf ! length pre = d" "length pre < length buf" using assms(1) d by (simp_all add: nth_append)
  moreover have "take (length (dec_digits n)) (drop (length pre) buf) = dec_digits n" using assms(1) by simp
  ultimately show ?thesis using d(2) by (simp add: parse_int_def CHECK_EOF_def buf_get_def dec_digits_val)
qed

lemma version_at:
  assumes "buf = pre @ map of_char ''HTTP/1.'' @ dec_digits n @ b # rest" "\<not> digit b"
  shows "parse_http_version buf (length pre) = okP (int n, length pre + 7 + length (dec_digits n))"
proof -
  have "parse_int buf (length (pre @ map of_char ''HTTP/1.'')) =
      okP (int n, length (pre @ map of_char ''HTTP/1.'') + length (dec_digits n))"
    by (rule digits_at) (use assms in simp_all)
  then show ?thesis using assms(1)
    by (simp add: parse_http_version_def EXPECT_CHAR_def CHECK_EOF_def buf_get_def nth_append numeral_eq_Suc)
qed

lemma line_end_at: "buf = pre @ eol crlf @ rest \<Longrightarrow> line_end buf (length pre) = okP (length pre + length (eol crlf))"
  by (cases crlf) (auto simp: line_end_def eol_def buf_get_def EXPECT_CHAR_def CHECK_EOF_def nth_append)

lemma word_start: "word_ok w \<Longrightarrow> w = b # bs \<Longrightarrow> b \<noteq> CR \<and> b \<noteq> LF"
  by (auto simp: word_ok_def token_bad_iff)

lemma empty_line_at:
  assumes "buf = (if lead then eol crlf else []) @ w @ SP # rest" "word_ok w"
  shows "skip_empty_line buf 0 = okP (length (if lead then eol crlf else []))"
  using assms word_start[OF assms(2)]
  by (cases w) (auto simp: skip_empty_line_def eol_def buf_get_def EXPECT_CHAR_def CHECK_EOF_def)

text \<open>What is found in a request.\<close>

definition request_reads :: "byte list \<Rightarrow> phr_request \<Rightarrow> byte list \<Rightarrow> byte list \<Rightarrow> nat \<Rightarrow> header_src list \<Rightarrow> bool" where
  "request_reads buf rq method path minor hds \<longleftrightarrow>
     part buf (rq_method rq) (rq_method_len rq) = Some method \<and> part buf (rq_path rq) (rq_path_len rq) = Some path \<and>
     rq_minor_version rq = int minor \<and> rq_num_headers rq = length hds \<and>
     (\<forall>k < length hds. reads buf (rq_headers rq ! k) (hds ! k))"

lemma eol_first: "\<exists>e es. eol crlf @ rest = e # es \<and> \<not> digit e"
  by (cases crlf) (auto simp: eol_def digit_def)

lemma parse_request_at:
  assumes buf: "buf = (if lead then eol crlf else []) @ render_request crlf method path minor hds @ rest"
    and words: "word_ok method" "word_ok path" and hds: "headers_ok True hds"
    and max: "length hds \<le> max_headers" "max_headers \<le> length (rq_headers rq)" and rq: "rq_num_headers rq = 0"
  shows "\<exists>rq'. parse_request sse buf 0 max_headers rq =
      Inr (Inr (length (if lead then eol crlf else []) + length (render_request crlf method path minor hds)), rq') \<and>
    request_reads buf rq' method path minor hds"
proof -
  let ?lead = "if lead then eol crlf else []" and ?http = "map of_char ''HTTP/1.'' :: byte list"
  let ?hds = "concat (map (render_header crlf) hds) @ eol crlf @ rest"
  let ?p1 = "?lead @ method @ [SP]" and ?p2 = "?lead @ method @ [SP] @ path @ [SP]"
  let ?p3 = "?p2 @ ?http @ dec_digits minor"
  have b1: "buf = ?lead @ method @ SP # path @ [SP] @ ?http @ dec_digits minor @ eol crlf @ ?hds"
    and b2: "buf = ?p1 @ path @ SP # ?http @ dec_digits minor @ eol crlf @ ?hds"
    and b3: "buf = ?p2 @ ?http @ dec_digits minor @ eol crlf @ ?hds"
    and b4: "buf = ?p3 @ eol crlf @ ?hds" and b5: "buf = (?p3 @ eol crlf) @ ?hds"
    using buf by (simp_all add: render_request_def)
  obtain e es where e: "eol crlf @ ?hds = e # es" "\<not> digit e" using eol_first by blast
  have ver: "parse_http_version buf (length ?p2) = okP (int minor, length ?p3)"
    using version_at[of buf ?p2 minor e es] b3 e by simp
  obtain hs' where hs': "parse_headers sse buf (length (?p3 @ eol crlf)) 0 max_headers (rq_headers rq) =
      Inr (Inr (length (?p3 @ eol crlf) + length (concat (map (render_header crlf) hds) @ eol crlf)), length hds, hs')"
    "\<forall>k < length hds. reads buf (hs' ! k) (hds ! k)"
    using headers_at[OF b5, of 0 max_headers "rq_headers rq" sse] hds max by auto
  define n0 n1 n3 n5 where "n0 = length ?lead" and "n1 = length ?p1" and "n3 = length ?p3"
    and "n5 = length ?lead + length (render_request crlf method path minor hds)"
  note n_defs = n0_def n1_def n3_def n5_def
  have steps: "skip_empty_line buf 0 = okP n0" "ADVANCE_TOKEN sse buf n0 = okP ((n0, length method), n0 + length method)"
    "ADVANCE_TOKEN sse buf (Suc (n0 + length method)) = okP ((n1, length path), n1 + length path)"
    "parse_http_version buf (Suc (n1 + length path)) = okP (int minor, n3)" "line_end buf n3 = okP (n3 + length (eol crlf))"
    "parse_headers sse buf (n3 + length (eol crlf)) 0 max_headers (rq_headers rq) = Inr (Inr n5, length hds, hs')"
    unfolding n_defs using empty_line_at[OF b1 words(1)] advance_at[OF b1 words(1), of sse] advance_at[OF b2 words(2), of sse]
      ver line_end_at[OF b4] hs'(1) by (simp_all add: render_request_def ac_simps split del: if_split)
  let ?rq = "rq\<lparr>rq_method := Some n0, rq_method_len := length method, rq_path := Some n1,
    rq_path_len := length path, rq_minor_version := int minor, rq_num_headers := length hds, rq_headers := hs'\<rparr>"
  have "parse_request sse buf 0 max_headers rq = Inr (Inr n5, ?rq)" by (simp add: parse_request_def steps rq)
  moreover have "request_reads buf ?rq method path minor hds"
    unfolding request_reads_def n_defs using part_at[OF b1] part_at[OF b2] hs'(2) by simp
  ultimately show ?thesis unfolding n_defs by blast
qed

end
