(* ===== verification/Http_Complete.thy ===== *)
theory Http_Complete
  imports Http_Stable
begin

section \<open>The quick check for a complete message\<close>

text \<open>
  Called again with more input, the parser first looks for an empty line near the end (\<^verbatim>\<open>is_complete\<close>), so that a peer who sends
  byte by byte does not make it parse everything each time. Here: the check lets every complete request pass.
\<close>

text \<open>From \<open>i\<close> to \<open>j\<close> every CR is followed by LF.\<close>

definition calm :: "byte list \<Rightarrow> nat \<Rightarrow> nat \<Rightarrow> bool" where
  "calm buf i j \<longleftrightarrow> i \<le> j \<and> j \<le> length buf \<and> (\<forall>k. i \<le> k \<and> k < j \<and> buf ! k = CR \<longrightarrow> k + 1 < j \<and> buf ! (k + 1) = LF)"

lemma calm_refl: "i \<le> length buf \<Longrightarrow> calm buf i i"
  by (auto simp: calm_def)

lemma calm_trans:
  assumes "calm buf i j" "calm buf j k"
  shows "calm buf i k"
  unfolding calm_def
proof (intro conjI allI impI)
  fix n assume n: "i \<le> n \<and> n < k \<and> buf ! n = CR"
  have "j \<le> k" using assms(2) by (simp add: calm_def)
  then show "n + 1 < k" "buf ! (n + 1) = LF"
    using n assms unfolding calm_def by (cases "n < j"; fastforce)+
qed (use assms in \<open>auto simp: calm_def\<close>)

lemma calm_clear: "clear P buf i j \<Longrightarrow> P CR \<Longrightarrow> calm buf i j"
  by (auto simp: clear_def calm_def)

lemma calm_char: "i < length buf \<Longrightarrow> buf ! i \<noteq> CR \<Longrightarrow> calm buf i (Suc i)"
  by (auto simp: calm_def le_less_Suc_eq)

lemma calm_crlf:
  assumes "Suc i < length buf" "buf ! Suc i = LF"
  shows "calm buf i (Suc (Suc i))"
proof -
  have "k = i" if "i \<le> k" "k < Suc (Suc i)" "buf ! k = CR" for k
    using that assms(2) by (cases "k = Suc i") auto
  then show ?thesis using assms by (auto simp: calm_def)
qed

text \<open>A line end at \<open>i\<close> leads to \<open>j\<close>.\<close>

definition line_break :: "byte list \<Rightarrow> nat \<Rightarrow> nat \<Rightarrow> bool" where
  "line_break buf i j \<longleftrightarrow> j \<le> length buf \<and>
     (j = Suc i \<and> buf ! i = LF \<or> j = Suc (Suc i) \<and> buf ! i = CR \<and> buf ! Suc i = LF)"

lemma line_break_calm: "line_break buf i j \<Longrightarrow> calm buf i j \<and> i < j \<and> buf ! (j - 1) = LF"
  using calm_char[of i buf] calm_crlf[of i buf] by (auto simp: line_break_def)

subsection \<open>What a parsed request looks like\<close>

lemma line_break_LF: "i < length buf \<Longrightarrow> buf ! i = LF \<Longrightarrow> line_break buf i (Suc i)"
  by (simp add: line_break_def)

lemma expect_break: "EXPECT_CHAR LF buf (Suc i) = okP j \<Longrightarrow> i < length buf \<Longrightarrow> buf ! i = CR \<Longrightarrow> line_break buf i j"
  using EXPECT_CHAR_cases[of "Suc i" buf LF] by (auto simp: line_break_def)

lemma line_end_break: "line_end buf i = okP j \<Longrightarrow> line_break buf i j"
  by (auto simp: line_end_def buf_get_def intro: expect_break line_break_LF split: if_splits)

lemma skip_empty_calm: "skip_empty_line buf i = okP j \<Longrightarrow> i \<le> length buf \<Longrightarrow> calm buf i j"
  using expect_break[of buf i j] line_break_calm[of buf i j] calm_char[of i buf] calm_refl[of i buf]
  by (auto simp: skip_empty_line_def CHECK_EOF_def buf_get_def split: if_splits)

lemma advance_calm:
  assumes "ADVANCE_TOKEN sse buf i = okP ((t, l), j)" "i \<le> length buf"
  shows "calm buf i (j + 1)"
proof -
  have "scan_to (\<lambda>b. b = SP \<or> token_bad b) buf i = okP j" "buf ! j = SP"
    using assms(1) by (auto simp: ADVANCE_TOKEN_eq[OF assms(2)] split: if_splits)
  then show ?thesis using scan_to_okP[OF _ assms(2)] calm_clear[of "\<lambda>b. b = SP \<or> token_bad b" buf i j] calm_char[of j buf]
    by (fastforce simp: token_bad_iff intro: calm_trans)
qed

lemma eol_break:
  assumes "get_token_to_eol sse buf i = okP ((t, l), j)" "i \<le> length buf"
  shows "calm buf i j \<and> i < j \<and> buf ! (j - 1) = LF"
proof -
  obtain k where k: "scan_to is_ctl buf i = okP k" "eol_token buf i k = okP ((t, l), j)"
    using assms by (auto simp: get_token_to_eol_eq)
  note k' = scan_to_okP[OF k(1) assms(2)]
  have "line_break buf k j" using k(2) k'(2)
    by (auto simp: eol_token_def buf_get_def intro: expect_break line_break_LF split: if_splits)
  moreover have "calm buf i k" using calm_clear[OF k'(1)] by (simp add: is_ctl_def)
  ultimately show ?thesis using line_break_calm[of buf k j] calm_trans k'(1) by (fastforce simp: clear_def)
qed

lemma name_calm:
  assumes "name_end sse buf i = okP j" "i \<le> length buf"
  shows "calm buf i (j + 1)"
proof -
  obtain m found where m: "findchar_fast sse [(COLON, COLON), (0, 31)] buf i = Inr (m, found)"
    "clear (\<lambda>b. b = COLON \<or> b < 32) buf i m"
    using findchar_clear[OF assms(2), of sse "[(COLON, COLON), (0, 31)]"] unfolding ranges_name by blast
  then have "m \<le> length buf" by (simp add: clear_def)
  have j: "scan_to (\<lambda>b. b = COLON \<or> sint b < 32) buf m = okP j" "buf ! j = COLON" "j < length buf"
    using assms(1) m(1) by (auto simp: name_end_def CHECK_EOF_def buf_get_def split: if_splits)
  have "calm buf i m" by (rule calm_clear[OF m(2)]) simp
  moreover have "calm buf m j" using calm_clear[OF scan_to_okP(1)[OF j(1) \<open>m \<le> length buf\<close>]] by (simp add: signed_less_32)
  ultimately show ?thesis using calm_char[of j buf] j(2,3) by (auto intro: calm_trans)
qed

lemma tryP_okE:
  assumes "tryP m s k = Inr (Inr r, s')"
  obtains x where "m = okP x" "k x = Inr (Inr r, s')"
proof (cases m)
  case (Inr x)
  then show ?thesis using assms that by (cases x) auto
qed (use assms in simp)

lemma header_value_calm:
  assumes "header_value sse buf i num hs = Inr (Inr j, hs')" "i \<le> length buf"
  shows "calm buf i j \<and> i < j \<and> buf ! (j - 1) = LF"
proof -
  obtain t l where "get_token_to_eol sse buf i = okP ((t, l), j)"
    using assms eol_cases[OF assms(2), of sse] by (auto simp: header_value_def)
  then show ?thesis using eol_break assms(2) by blast
qed

lemma header_line_calm:
  assumes "header_line sse buf i num hs = Inr (Inr j, hs')" "i < length buf"
  shows "calm buf i j \<and> i < j \<and> buf ! (j - 1) = LF"
proof (cases "num \<noteq> 0 \<and> (buf ! i = SP \<or> buf ! i = HT)")
  case True
  then show ?thesis using assms header_value_calm[of sse buf i num _ j hs'] by (auto simp: header_line_def buf_get_def)
next
  case False
  then have "header_name sse buf i num hs = Inr (Inr j, hs')"
    using assms by (auto simp: header_line_def buf_get_def split: if_splits)
  then obtain n k hs2 where n: "name_end sse buf i = okP n" "scan_to (\<lambda>b. \<not> (b = SP \<or> b = HT)) buf (n + 1) = okP k"
    "header_value sse buf k num hs2 = Inr (Inr j, hs')"
    unfolding header_name_def by (auto elim!: tryP_okE)
  have n1: "n + 1 \<le> length buf" "calm buf i (n + 1)"
    using name_end_cases[of i buf sse] name_calm[OF n(1)] n(1) assms(2) by auto
  have k: "clear (\<lambda>b. \<not> (b = SP \<or> b = HT)) buf (n + 1) k" "k < length buf" using scan_to_okP[OF n(2) n1(1)] by auto
  have "calm buf (n + 1) k" by (rule calm_clear[OF k(1)]) simp
  moreover have "calm buf k j \<and> k < j \<and> buf ! (j - 1) = LF" using header_value_calm[OF n(3)] k(2) by simp
  moreover have "i \<le> k" using n1(2) k(1) by (auto simp: calm_def clear_def)
  ultimately show ?thesis using calm_trans[OF n1(2)] calm_trans[of buf i k j] by auto
qed

lemma headers_calm:
  assumes "parse_headers sse buf i num max_headers hs = Inr (Inr j, num', hs')" "0 < i" "buf ! (i - 1) = LF"
  shows "\<exists>p. calm buf i j \<and> i \<le> p + 1 \<and> buf ! p = LF \<and> line_break buf (p + 1) j"
  using assms
proof (induction "length buf - i" arbitrary: i num hs rule: less_induct)
  case less
  have i: "i < length buf" using less.prems(1) by (subst (asm) parse_headers.simps) (auto split: if_splits)
  show ?case
  proof (cases "buf ! i = CR \<or> buf ! i = LF")
    case True
    then have "line_break buf i j"
      using less.prems(1) i EXPECT_CHAR_cases[of "Suc i" buf LF]
      by (subst (asm) parse_headers.simps) (auto intro: expect_break line_break_LF split: if_splits)
    then show ?thesis using line_break_calm[of buf i j] less.prems(2,3) by (intro exI[of _ "i - 1"]) simp
  next
    case False
    then obtain m hs2 where m: "header_line sse buf i num hs = Inr (Inr m, hs2)"
      "parse_headers sse buf m (num + 1) max_headers hs2 = Inr (Inr j, num', hs')"
      using less.prems(1) i by (subst (asm) parse_headers.simps) (auto split: if_splits sum.splits)
    have c: "calm buf i m" "i < m" "buf ! (m - 1) = LF" using header_line_calm[OF m(1) i] by auto
    have "m \<le> length buf" using c(1) by (simp add: calm_def)
    then have "length buf - m < length buf - i" using c(2) by simp
    then obtain p where "calm buf m j" "m \<le> p + 1" "buf ! p = LF" "line_break buf (p + 1) j"
      using less.hyps[of m "num + 1" hs2] m(2) c(2,3) i by auto
    then show ?thesis using c(1,2) calm_trans[OF c(1)] by (intro exI[of _ p]) auto
  qed
qed

lemma expect_calm: "EXPECT_CHAR ch buf i = okP j \<Longrightarrow> i \<le> length buf \<Longrightarrow> ch \<noteq> CR \<Longrightarrow> calm buf i j \<and> j \<le> length buf"
  using EXPECT_CHAR_cases[of i buf ch] calm_char[of i buf] by auto

lemma int_calm:
  assumes "parse_int buf i = okP (v, j)" "i \<le> length buf"
  shows "calm buf i j"
proof -
  have "scan_to (\<lambda>b. \<not> digit b) buf i = okP j"
    using assms(1) by (auto simp: parse_int_def CHECK_EOF_def buf_get_def split: if_splits)
  then show ?thesis using scan_to_okP(1)[OF _ assms(2)] calm_clear by (force simp: digit_def)
qed

lemma expect_calm_then:
  assumes "bindP (EXPECT_CHAR ch buf i) k = okP (v, j)" "i \<le> length buf" "ch \<noteq> CR"
    "\<And>i'. k i' = okP (v, j) \<Longrightarrow> i' \<le> length buf \<Longrightarrow> calm buf i' j"
  shows "calm buf i j"
proof -
  obtain i' where "EXPECT_CHAR ch buf i = okP i'" "k i' = okP (v, j)" using assms(1) by auto
  then show ?thesis using assms(2-4) expect_calm[of ch buf i i'] calm_trans by blast
qed

lemma version_calm: "parse_http_version buf i = okP (v, j) \<Longrightarrow> i \<le> length buf \<Longrightarrow> calm buf i j"
  unfolding parse_http_version_def by ((erule expect_calm_then, assumption, simp)+, erule int_calm, assumption)

lemma request_calm:
  assumes "parse_request sse buf 0 max_headers rq = Inr (Inr r, rq')"
  shows "\<exists>p. calm buf 0 r \<and> buf ! p = LF \<and> line_break buf (p + 1) r"
proof -
  obtain i0 t1 l1 i1 t2 l2 i2 v i3 i4 where s: "skip_empty_line buf 0 = okP i0"
    "ADVANCE_TOKEN sse buf i0 = okP ((t1, l1), i1)" "ADVANCE_TOKEN sse buf (i1 + 1) = okP ((t2, l2), i2)"
    "parse_http_version buf (i2 + 1) = okP (v, i3)" "line_end buf i3 = okP i4"
    and h: "\<exists>num hs num' hs'. parse_headers sse buf i4 num max_headers hs = Inr (Inr r, num', hs')"
    using assms unfolding parse_request_def Let_def by (auto elim!: tryP_okE split: prod.splits) blast
  have b: "i0 \<le> length buf" "i1 < length buf" "i2 < length buf"
    using skip_empty_line_bound[OF s(1)] ADVANCE_TOKEN_bound[OF s(2)] ADVANCE_TOKEN_bound[OF s(3)] by auto
  have c: "calm buf 0 i0" "calm buf i0 (i1 + 1)" "calm buf (i1 + 1) (i2 + 1)" "calm buf (i2 + 1) i3"
    using skip_empty_calm[OF s(1)] advance_calm[OF s(2)] advance_calm[OF s(3)] version_calm[OF s(4)] b by auto
  have d: "calm buf i3 i4" "i3 < i4" "buf ! (i4 - 1) = LF" using line_break_calm[OF line_end_break[OF s(5)]] by auto
  obtain p where p: "calm buf i4 r" "buf ! p = LF" "line_break buf (p + 1) r" using h headers_calm[of sse buf i4] d(2,3) by fastforce
  have "calm buf 0 r" using c d(1) p(1) calm_trans by metis
  then show ?thesis using p by blast
qed

subsection \<open>The check finds the empty line\<close>

lemma complete_break:
  assumes "line_break buf i j"
  shows "complete_loop buf 1 i = okP j"
  using assms by (subst complete_loop.simps) (auto simp: line_break_def)

lemma complete_found:
  assumes "calm buf 0 r" "buf ! p = LF" "line_break buf (p + 1) r" "i \<le> p" "n < 2"
  shows "\<exists>j. complete_loop buf n i = okP j"
  using assms(4,5)
proof (induction "p - i" arbitrary: i n rule: less_induct)
  case less
  have r: "p + 1 < r" "r \<le> length buf" using assms(3) by (auto simp: line_break_def)
  then have i: "i < length buf" using less.prems(1) by simp
  have cr: "i < p" "buf ! (i + 1) = LF" "i + 1 < length buf" if "buf ! i = CR"
  proof -
    have "i \<noteq> p" using that assms(2) by auto
    then show "i < p" using less.prems(1) by simp
    then show "buf ! (i + 1) = LF" "i + 1 < length buf" using that assms(1) r by (simp_all add: calm_def)
  qed
  let ?j = "if buf ! i = CR then i + 2 else i + 1" and ?n = "if buf ! i = CR \<or> buf ! i = LF then n + 1 else 0"
  have step: "complete_loop buf n i = (if ?n = 2 then okP ?j else complete_loop buf ?n ?j)"
    using i cr by (subst complete_loop.simps) auto
  show ?case
  proof (cases "?n = 2")
    case False
    show ?thesis
    proof (cases "?j \<le> p")
      case True
      then have "p - ?j < p - i" using less.prems(1) by auto
      moreover have "?n < 2" using False less.prems(2) by auto
      moreover have "complete_loop buf n i = complete_loop buf ?n ?j" using step False by (simp only: if_False)
      ultimately show ?thesis using less.hyps[of ?j ?n] True by presburger
    next
      case j: False
      have "i = p" if "buf ! i \<noteq> CR" using that j less.prems(1) by simp
      then have "?j = p + 1" "?n = 1" using j less.prems(2) cr assms(2) False by (auto split: if_splits)
      then show ?thesis using complete_break[OF assms(3)] step by (simp split: if_splits)
    qed
  qed (simp add: step)
qed

lemma is_complete_found:
  assumes "parse_request sse buf 0 max_headers rq = Inr (Inr r, rq')" "last_len < r"
  shows "\<exists>j. is_complete buf last_len = okP j"
proof -
  obtain p where p: "calm buf 0 r" "buf ! p = LF" "line_break buf (p + 1) r" using request_calm[OF assms(1)] by blast
  then have "(if last_len < 3 then 0 else last_len - 3) \<le> p" using assms(2) by (auto simp: line_break_def)
  then show ?thesis unfolding is_complete_def using complete_found[OF p] by simp
qed

end
