(* ===== verification/Http_Chunked.thy ===== *)
theory Http_Chunked
  imports Http_Scan
begin

section \<open>The decoder of chunked bodies (picohttpparser.c)\<close>

text \<open>
  \<^verbatim>\<open>phr_decode_chunked\<close> removes the framing of a chunked body in place, and keeps its position in a decoder
  so that the body may come in pieces. \<open>chunk_run\<close> holds the decoder, the buffer and the local variables \<^verbatim>\<open>dst\<close> and \<^verbatim>\<open>src\<close>.
  The cases of the \<^verbatim>\<open>switch\<close> that fall through call the next. The state of a decoder is one of the six of
  the code, so that the assertion against others does not occur.
\<close>

datatype chunk_state =
    CHUNKED_IN_CHUNK_SIZE
  | CHUNKED_IN_CHUNK_EXT
  | CHUNKED_IN_CHUNK_DATA
  | CHUNKED_IN_CHUNK_CRLF
  | CHUNKED_IN_TRAILERS_LINE_HEAD
  | CHUNKED_IN_TRAILERS_LINE_MIDDLE

record phr_chunked_decoder =
  bytes_left_in_chunk :: u64
  consume_trailer :: bool
  hex_count :: byte
  dec_state :: chunk_state

definition decode_hex :: "byte \<Rightarrow> int" where
  "decode_hex ch =
     (let ch = sint ch in
      if 48 \<le> ch \<and> ch \<le> 57 then ch - 48
      else if 65 \<le> ch \<and> ch \<le> 70 then ch - 65 + 10
      else if 97 \<le> ch \<and> ch \<le> 102 then ch - 97 + 10
      else -1)"

record chunk_run =
  cr_dec :: phr_chunked_decoder
  cr_buf :: "byte list"
  cr_dst :: nat
  cr_src :: nat

text \<open>How a case ends: with \<^verbatim>\<open>break\<close>, or at \<^verbatim>\<open>Exit\<close> with a result.\<close>

datatype chunk_out = Chunk_Next chunk_run | Chunk_Exit int chunk_run

abbreviation set_state :: "chunk_state \<Rightarrow> chunk_run \<Rightarrow> chunk_run" where
  "set_state s st \<equiv> st\<lparr>cr_dec := (cr_dec st)\<lparr>dec_state := s\<rparr>\<rparr>"

definition memmove :: "byte list \<Rightarrow> nat \<Rightarrow> nat \<Rightarrow> nat \<Rightarrow> fault + byte list" where
  "memmove buf dst src n =
     (if dst + n \<le> length buf \<and> src + n \<le> length buf
      then Inr (take dst buf @ take n (drop src buf) @ drop (dst + n) buf)
      else Inl Out_of_bounds)"

text \<open>A \<^verbatim>\<open>for\<close> loop over \<^verbatim>\<open>src\<close>: to the first byte with a property, or to \<^verbatim>\<open>Exit\<close> at the end of the buffer.\<close>

definition chunk_scan :: "(byte \<Rightarrow> bool) \<Rightarrow> chunk_run \<Rightarrow> (chunk_run \<Rightarrow> fault + chunk_out) \<Rightarrow> fault + chunk_out" where
  "chunk_scan P st k =
     bindE (scan_to P (cr_buf st) (cr_src st)) (\<lambda>r.
     case r of
       Inl e \<Rightarrow> Inr (Chunk_Exit e (st\<lparr>cr_src := length (cr_buf st)\<rparr>))
     | Inr src \<Rightarrow> k (st\<lparr>cr_src := src\<rparr>))"

definition chunk_complete :: "chunk_run \<Rightarrow> chunk_out" where
  "chunk_complete st = Chunk_Exit (int (length (cr_buf st) - cr_src st)) st"

definition src_byte :: "chunk_run \<Rightarrow> (byte \<Rightarrow> fault + chunk_out) \<Rightarrow> fault + chunk_out" where
  "src_byte st k = (if cr_src st < length (cr_buf st) then k (cr_buf st ! cr_src st) else Inl Out_of_bounds)"

definition chunk_crlf :: "chunk_run \<Rightarrow> fault + chunk_out" where
  "chunk_crlf st =
     chunk_scan (\<lambda>b. b \<noteq> CR) st (\<lambda>st.
     src_byte st (\<lambda>b.
     if b \<noteq> LF then Inr (Chunk_Exit (-1) st)
     else Inr (Chunk_Next (set_state CHUNKED_IN_CHUNK_SIZE (st\<lparr>cr_src := cr_src st + 1\<rparr>)))))"

definition move_data :: "nat \<Rightarrow> chunk_run \<Rightarrow> fault + chunk_run" where
  "move_data n st =
     bindE (if cr_dst st \<noteq> cr_src st then memmove (cr_buf st) (cr_dst st) (cr_src st) n else Inr (cr_buf st)) (\<lambda>buf.
     Inr (st\<lparr>cr_buf := buf, cr_src := cr_src st + n, cr_dst := cr_dst st + n\<rparr>))"

definition chunk_data :: "chunk_run \<Rightarrow> fault + chunk_out" where
  "chunk_data st =
     (let avail = length (cr_buf st) - cr_src st; left = bytes_left_in_chunk (cr_dec st) in
      if avail < unat left
      then
        bindE (move_data avail st) (\<lambda>st.
        Inr (Chunk_Exit (-2) (st\<lparr>cr_dec := (cr_dec st)\<lparr>bytes_left_in_chunk := left - of_nat avail\<rparr>\<rparr>)))
      else
        bindE (move_data (unat left) st) (\<lambda>st.
        chunk_crlf (st\<lparr>cr_dec := (cr_dec st)\<lparr>bytes_left_in_chunk := 0, dec_state := CHUNKED_IN_CHUNK_CRLF\<rparr>\<rparr>)))"

definition chunk_ext :: "chunk_run \<Rightarrow> fault + chunk_out" where
  "chunk_ext st =
     chunk_scan (\<lambda>b. b = LF) st (\<lambda>st.
     let st = st\<lparr>cr_src := cr_src st + 1\<rparr> in
     if bytes_left_in_chunk (cr_dec st) = 0
     then
       (if consume_trailer (cr_dec st) then Inr (Chunk_Next (set_state CHUNKED_IN_TRAILERS_LINE_HEAD st))
        else Inr (chunk_complete st))
     else chunk_data (set_state CHUNKED_IN_CHUNK_DATA st))"

text \<open>The loop over the digits: \<open>Some\<close> is a result at \<^verbatim>\<open>Exit\<close>, \<open>None\<close> the \<^verbatim>\<open>break\<close>.\<close>

function size_loop :: "chunk_run \<Rightarrow> fault + int option \<times> chunk_run" where
  "size_loop st =
     (if cr_src st = length (cr_buf st) then Inr (Some (-2), st)
      else if length (cr_buf st) < cr_src st then Inl Out_of_bounds
      else
        (let v = decode_hex (cr_buf st ! cr_src st); d = cr_dec st in
         if v = -1 then (if hex_count d = 0 then Inr (Some (-1), st) else Inr (None, st))
         else if hex_count d = 16 then Inr (Some (-1), st)
         else
           size_loop (st\<lparr>cr_src := cr_src st + 1,
             cr_dec := d\<lparr>bytes_left_in_chunk := bytes_left_in_chunk d * 16 + of_int v, hex_count := hex_count d + 1\<rparr>\<rparr>)))"
  by auto
termination by (relation "measure (\<lambda>st. length (cr_buf st) - cr_src st)") auto

declare size_loop.simps [simp del]

definition chunk_size :: "chunk_run \<Rightarrow> fault + chunk_out" where
  "chunk_size st =
     bindE (size_loop st) (\<lambda>(ret, st).
     case ret of
       Some e \<Rightarrow> Inr (Chunk_Exit e st)
     | None \<Rightarrow> chunk_ext (st\<lparr>cr_dec := (cr_dec st)\<lparr>hex_count := 0, dec_state := CHUNKED_IN_CHUNK_EXT\<rparr>\<rparr>))"

definition trailers_middle :: "chunk_run \<Rightarrow> fault + chunk_out" where
  "trailers_middle st =
     chunk_scan (\<lambda>b. b = LF) st (\<lambda>st.
     Inr (Chunk_Next (set_state CHUNKED_IN_TRAILERS_LINE_HEAD (st\<lparr>cr_src := cr_src st + 1\<rparr>))))"

definition trailers_head :: "chunk_run \<Rightarrow> fault + chunk_out" where
  "trailers_head st =
     chunk_scan (\<lambda>b. b \<noteq> CR) st (\<lambda>st.
     src_byte st (\<lambda>b.
     let st = st\<lparr>cr_src := cr_src st + 1\<rparr> in
     if b = LF then Inr (chunk_complete st)
     else trailers_middle (set_state CHUNKED_IN_TRAILERS_LINE_MIDDLE st)))"

definition chunk_step :: "chunk_run \<Rightarrow> fault + chunk_out" where
  "chunk_step st =
     (case dec_state (cr_dec st) of
        CHUNKED_IN_CHUNK_SIZE \<Rightarrow> chunk_size st
      | CHUNKED_IN_CHUNK_EXT \<Rightarrow> chunk_ext st
      | CHUNKED_IN_CHUNK_DATA \<Rightarrow> chunk_data st
      | CHUNKED_IN_CHUNK_CRLF \<Rightarrow> chunk_crlf st
      | CHUNKED_IN_TRAILERS_LINE_HEAD \<Rightarrow> trailers_head st
      | CHUNKED_IN_TRAILERS_LINE_MIDDLE \<Rightarrow> trailers_middle st)"

text \<open>Every round of the loop moves \<^verbatim>\<open>src\<close> on.\<close>

definition advances :: "chunk_run \<Rightarrow> chunk_run \<Rightarrow> bool" where
  "advances st st' \<longleftrightarrow> cr_src st < cr_src st' \<and> cr_src st' \<le> length (cr_buf st') \<and> length (cr_buf st') = length (cr_buf st)"

lemma scan_to_found_bounds: "scan_to P buf i = okP j \<Longrightarrow> i \<le> j \<and> j < length buf"
proof (cases "i \<le> length buf")
  case True
  then show "scan_to P buf i = okP j \<Longrightarrow> ?thesis" using scan_to_okP[of P buf i j] by (auto simp: clear_def)
next
  case False
  then show "scan_to P buf i = okP j \<Longrightarrow> ?thesis" by (simp add: scan_to.simps[of P buf i])
qed

lemma chunk_scan_next:
  assumes "chunk_scan P st k = Inr (Chunk_Next st')"
  obtains j where "cr_src st \<le> j" "j < length (cr_buf st)" "k (st\<lparr>cr_src := j\<rparr>) = Inr (Chunk_Next st')"
proof (cases "scan_to P (cr_buf st) (cr_src st)")
  case (Inr r)
  then show ?thesis using assms that scan_to_found_bounds[of P "cr_buf st" "cr_src st"]
    by (cases r) (auto simp: chunk_scan_def)
qed (use assms in \<open>simp add: chunk_scan_def\<close>)

lemma move_data_bounds:
  "move_data n st = Inr st' \<Longrightarrow> cr_src st' = cr_src st + n \<and> length (cr_buf st') = length (cr_buf st)"
  by (auto simp: move_data_def memmove_def split: if_splits)

lemma chunk_crlf_next: "chunk_crlf st = Inr (Chunk_Next st') \<Longrightarrow> advances st st'"
  by (auto simp: chunk_crlf_def src_byte_def advances_def elim!: chunk_scan_next split: if_splits)

lemma chunk_data_next: "chunk_data st = Inr (Chunk_Next st') \<Longrightarrow> advances st st'"
  by (auto simp: chunk_data_def Let_def advances_def dest!: move_data_bounds chunk_crlf_next split: if_splits)

lemma chunk_ext_next: "chunk_ext st = Inr (Chunk_Next st') \<Longrightarrow> advances st st'"
  by (fastforce simp: chunk_ext_def Let_def advances_def chunk_complete_def elim!: chunk_scan_next dest!: chunk_data_next split: if_splits)

lemma size_loop_bounds:
  "size_loop st = Inr (r, st') \<Longrightarrow> cr_src st \<le> cr_src st' \<and> cr_buf st' = cr_buf st"
proof (induction st rule: size_loop.induct)
  case (1 st)
  note IH = 1(1)[OF _ _ refl refl]
  show ?case using 1(2) by (subst (asm) size_loop.simps) (auto simp: Let_def dest!: IH split: if_splits)
qed

lemma chunk_size_next: "chunk_size st = Inr (Chunk_Next st') \<Longrightarrow> advances st st'"
  by (auto simp: chunk_size_def advances_def dest!: size_loop_bounds chunk_ext_next split: option.splits)

lemma trailers_middle_next: "trailers_middle st = Inr (Chunk_Next st') \<Longrightarrow> advances st st'"
  by (auto simp: trailers_middle_def advances_def elim!: chunk_scan_next)

lemma trailers_head_next: "trailers_head st = Inr (Chunk_Next st') \<Longrightarrow> advances st st'"
  by (fastforce simp: trailers_head_def src_byte_def Let_def advances_def chunk_complete_def elim!: chunk_scan_next
      dest!: trailers_middle_next split: if_splits)

lemma chunk_step_next: "chunk_step st = Inr (Chunk_Next st') \<Longrightarrow> advances st st'"
  by (auto simp: chunk_step_def split: chunk_state.splits intro: chunk_size_next chunk_ext_next chunk_data_next chunk_crlf_next
      trailers_head_next trailers_middle_next)

function chunk_loop :: "chunk_run \<Rightarrow> fault + int \<times> chunk_run" where
  "chunk_loop st =
     (case chunk_step st of
        Inl f \<Rightarrow> Inl f
      | Inr (Chunk_Exit ret st) \<Rightarrow> Inr (ret, st)
      | Inr (Chunk_Next st) \<Rightarrow> chunk_loop st)"
  by auto
termination
  by (relation "measure (\<lambda>st. length (cr_buf st) - cr_src st)") (auto simp: advances_def dest!: chunk_step_next)

declare chunk_loop.simps [simp del]

text \<open>The result, the decoder, \<^verbatim>\<open>*bufsz\<close> and the buffer.\<close>

definition phr_decode_chunked ::
  "phr_chunked_decoder \<Rightarrow> byte list \<Rightarrow> fault + int \<times> phr_chunked_decoder \<times> nat \<times> byte list" where
  "phr_decode_chunked decoder buf =
     bindE (chunk_loop \<lparr>cr_dec = decoder, cr_buf = buf, cr_dst = 0, cr_src = 0\<rparr>) (\<lambda>(ret, st).
     bindE (if cr_dst st \<noteq> cr_src st then memmove (cr_buf st) (cr_dst st) (cr_src st) (length (cr_buf st) - cr_src st)
            else Inr (cr_buf st)) (\<lambda>buf.
     Inr (ret, cr_dec st, cr_dst st, buf)))"

end
