(* ===== verification/Http_Dechunk.thy ===== *)
theory Http_Dechunk
  imports Http_Chunked
begin

section \<open>What the chunked decoder computes\<close>

text \<open>
  The specification is an automaton that takes one byte at a time (\<open>chunk_byte\<close>, \<open>dechunk\<close>). The decoder,
  which works on whole buffers in place, implements it; that a body may be cut anywhere, and that decoding undoes
  encoding, are then facts about the automaton.
\<close>

datatype chunk_act = Act_Go phr_chunked_decoder "byte list" | Act_Done | Act_Bad

definition ext_byte :: "phr_chunked_decoder \<Rightarrow> byte \<Rightarrow> chunk_act" where
  "ext_byte d b =
     (if b \<noteq> LF then Act_Go (d\<lparr>dec_state := CHUNKED_IN_CHUNK_EXT\<rparr>) []
      else if bytes_left_in_chunk d \<noteq> 0 then Act_Go (d\<lparr>dec_state := CHUNKED_IN_CHUNK_DATA\<rparr>) []
      else if consume_trailer d then Act_Go (d\<lparr>dec_state := CHUNKED_IN_TRAILERS_LINE_HEAD\<rparr>) []
      else Act_Done)"

definition chunk_byte :: "phr_chunked_decoder \<Rightarrow> byte \<Rightarrow> chunk_act" where
  "chunk_byte d b =
     (case dec_state d of
        CHUNKED_IN_CHUNK_SIZE \<Rightarrow>
          if decode_hex b = -1 then (if hex_count d = 0 then Act_Bad else ext_byte (d\<lparr>hex_count := 0\<rparr>) b)
          else if hex_count d = 16 then Act_Bad
          else Act_Go (d\<lparr>bytes_left_in_chunk := bytes_left_in_chunk d * 16 + of_int (decode_hex b), hex_count := hex_count d + 1\<rparr>) []
      | CHUNKED_IN_CHUNK_EXT \<Rightarrow> ext_byte d b
      | CHUNKED_IN_CHUNK_DATA \<Rightarrow>
          let left = bytes_left_in_chunk d - 1 in
          Act_Go (d\<lparr>bytes_left_in_chunk := left, dec_state := if left = 0 then CHUNKED_IN_CHUNK_CRLF else CHUNKED_IN_CHUNK_DATA\<rparr>) [b]
      | CHUNKED_IN_CHUNK_CRLF \<Rightarrow>
          if b = CR then Act_Go d [] else if b = LF then Act_Go (d\<lparr>dec_state := CHUNKED_IN_CHUNK_SIZE\<rparr>) [] else Act_Bad
      | CHUNKED_IN_TRAILERS_LINE_HEAD \<Rightarrow>
          if b = CR then Act_Go d [] else if b = LF then Act_Done else Act_Go (d\<lparr>dec_state := CHUNKED_IN_TRAILERS_LINE_MIDDLE\<rparr>) []
      | CHUNKED_IN_TRAILERS_LINE_MIDDLE \<Rightarrow>
          if b = LF then Act_Go (d\<lparr>dec_state := CHUNKED_IN_TRAILERS_LINE_HEAD\<rparr>) [] else Act_Go d [])"

text \<open>More to come, done with the rest of the input, or an error; and the data.\<close>

datatype chunk_result = Incomplete phr_chunked_decoder | Complete "byte list" | Malformed

fun dechunk :: "phr_chunked_decoder \<Rightarrow> byte list \<Rightarrow> chunk_result \<times> byte list" where
  "dechunk d [] = (Incomplete d, [])"
| "dechunk d (b # bs) =
     (case chunk_byte d b of
        Act_Go d' out \<Rightarrow> (case dechunk d' bs of (r, data) \<Rightarrow> (r, out @ data))
      | Act_Done \<Rightarrow> (Complete bs, [])
      | Act_Bad \<Rightarrow> (Malformed, []))"

text \<open>A decoder is inside a chunk only while data is missing.\<close>

definition dec_ok :: "phr_chunked_decoder \<Rightarrow> bool" where
  "dec_ok d \<longleftrightarrow> (dec_state d = CHUNKED_IN_CHUNK_DATA \<longrightarrow> bytes_left_in_chunk d \<noteq> 0)"

lemma chunk_byte_ok: "chunk_byte d b = Act_Go d' out \<Longrightarrow> dec_ok d \<Longrightarrow> dec_ok d'"
  by (auto simp: chunk_byte_def ext_byte_def dec_ok_def Let_def split: chunk_state.splits if_splits)

lemma dechunk_ok: "dechunk d bs = (Incomplete d', out) \<Longrightarrow> dec_ok d \<Longrightarrow> dec_ok d'"
  by (induction bs arbitrary: d out) (auto split: chunk_act.splits prod.splits dest: chunk_byte_ok)

text \<open>Pieces: the automaton goes on where it stopped.\<close>

lemma dechunk_append:
  "dechunk d (xs @ ys) =
    (case dechunk d xs of
       (Incomplete d', out) \<Rightarrow> (case dechunk d' ys of (r, data) \<Rightarrow> (r, out @ data))
     | (Complete rest, out) \<Rightarrow> (Complete (rest @ ys), out)
     | (Malformed, out) \<Rightarrow> (Malformed, out))"
  by (induction xs arbitrary: d) (auto split: chunk_act.splits prod.splits chunk_result.splits)

subsection \<open>One case of the switch\<close>

definition run_ok :: "chunk_run \<Rightarrow> bool" where
  "run_ok st \<longleftrightarrow> cr_dst st \<le> cr_src st \<and> cr_src st \<le> length (cr_buf st) \<and> dec_ok (cr_dec st)"

definition todo :: "chunk_run \<Rightarrow> chunk_result \<times> byte list" where
  "todo st = dechunk (cr_dec st) (drop (cr_src st) (cr_buf st))"

definition goes :: "chunk_run \<Rightarrow> chunk_run \<Rightarrow> bool" where
  "goes st st' \<longleftrightarrow> run_ok st' \<and> length (cr_buf st') = length (cr_buf st) \<and>
     (\<exists>out. take (cr_dst st') (cr_buf st') = take (cr_dst st) (cr_buf st) @ out \<and>
       todo st = (case todo st' of (r, data) \<Rightarrow> (r, out @ data)))"

definition ends :: "chunk_run \<Rightarrow> int \<Rightarrow> chunk_run \<Rightarrow> bool" where
  "ends st ret st' \<longleftrightarrow> cr_dst st' \<le> cr_src st' \<and> cr_src st' \<le> length (cr_buf st') \<and> length (cr_buf st') = length (cr_buf st) \<and>
     (case todo st of
        (r, out) \<Rightarrow>
          take (cr_dst st') (cr_buf st') = take (cr_dst st) (cr_buf st) @ out \<and>
          (case r of
             Incomplete d \<Rightarrow> ret = -2 \<and> cr_dec st' = d \<and> cr_src st' = length (cr_buf st')
           | Complete rest \<Rightarrow> ret = int (length rest) \<and> drop (cr_src st') (cr_buf st') = rest
           | Malformed \<Rightarrow> ret = -1))"

definition outcome :: "chunk_run \<Rightarrow> fault + chunk_out \<Rightarrow> bool" where
  "outcome st x \<longleftrightarrow>
     (case x of Inl f \<Rightarrow> False | Inr (Chunk_Next st') \<Rightarrow> goes st st' | Inr (Chunk_Exit ret st') \<Rightarrow> ends st ret st')"

lemma goes_trans: "goes st st1 \<Longrightarrow> goes st1 st2 \<Longrightarrow> goes st st2"
  by (auto simp: goes_def split: prod.splits)

lemma goes_ends: "goes st st1 \<Longrightarrow> ends st1 ret st2 \<Longrightarrow> ends st ret st2"
  by (auto simp: goes_def ends_def split: prod.splits)

lemma goes_outcome: "goes st st1 \<Longrightarrow> outcome st1 x \<Longrightarrow> outcome st x"
  by (auto simp: outcome_def split: sum.splits chunk_out.splits intro: goes_trans goes_ends)

lemma todo_Cons:
  "cr_src st < length (cr_buf st) \<Longrightarrow>
   todo st = dechunk (cr_dec st) (cr_buf st ! cr_src st # drop (Suc (cr_src st)) (cr_buf st))"
  by (simp add: todo_def Cons_nth_drop_Suc)

lemma goes_byte:
  assumes "run_ok st" "cr_src st < length (cr_buf st)" "chunk_byte (cr_dec st) (cr_buf st ! cr_src st) = Act_Go d' []"
  shows "goes st (st\<lparr>cr_src := Suc (cr_src st), cr_dec := d'\<rparr>)"
  using assms chunk_byte_ok[OF assms(3)] todo_Cons[OF assms(2)]
  by (auto simp: goes_def run_ok_def todo_def split: prod.splits)

lemma done_byte:
  assumes "run_ok st" "cr_src st < length (cr_buf st)" "chunk_byte (cr_dec st) (cr_buf st ! cr_src st) = Act_Done"
  shows "ends st (int (length (cr_buf st) - Suc (cr_src st))) (st\<lparr>cr_src := Suc (cr_src st), cr_dec := d'\<rparr>)"
  using assms todo_Cons[OF assms(2)] by (auto simp: ends_def run_ok_def)

lemma bad_byte:
  assumes "run_ok st" "cr_src st < length (cr_buf st)" "chunk_byte (cr_dec st) (cr_buf st ! cr_src st) = Act_Bad"
  shows "ends st (-1) st"
  using assms todo_Cons[OF assms(2)] by (auto simp: ends_def run_ok_def)

lemma dechunk_stay: "(\<And>b. b \<in> set xs \<Longrightarrow> chunk_byte d b = Act_Go d []) \<Longrightarrow> dechunk d (xs @ ys) = dechunk d ys"
  by (induction xs) (auto split: prod.splits)

lemma scan_outcome:
  assumes ok: "run_ok st" and stay: "\<And>b. \<not> P b \<Longrightarrow> chunk_byte (cr_dec st) b = Act_Go (cr_dec st) []"
    and found: "\<And>j. run_ok (st\<lparr>cr_src := j\<rparr>) \<Longrightarrow> j < length (cr_buf st) \<Longrightarrow> P (cr_buf st ! j) \<Longrightarrow>
      outcome (st\<lparr>cr_src := j\<rparr>) (k (st\<lparr>cr_src := j\<rparr>))"
  shows "outcome st (chunk_scan P st k)"
proof -
  have src: "cr_src st \<le> length (cr_buf st)" using ok by (simp add: run_ok_def)
  have goes: "goes st (st\<lparr>cr_src := j\<rparr>)" if c: "clear P (cr_buf st) (cr_src st) j" for j
  proof -
    let ?xs = "take (j - cr_src st) (drop (cr_src st) (cr_buf st))"
    have split: "drop (cr_src st) (cr_buf st) = ?xs @ drop j (cr_buf st)"
      using c by (metis append_take_drop_id drop_drop le_add_diff_inverse2 clear_def)
    have "\<not> P b" if "b \<in> set ?xs" for b
      using that c by (auto simp: in_set_conv_nth clear_def)
    then have "todo st = todo (st\<lparr>cr_src := j\<rparr>)"
      unfolding todo_def by (subst split) (simp add: dechunk_stay stay)
    then show ?thesis using ok c by (auto simp: goes_def run_ok_def clear_def split: prod.splits)
  qed
  show ?thesis
  proof (cases "scan_to P (cr_buf st) (cr_src st) = failP (-2)")
    case True
    then have "clear P (cr_buf st) (cr_src st) (length (cr_buf st))" using scan_to_cases[OF src, of P] by auto
    then have "goes st (st\<lparr>cr_src := length (cr_buf st)\<rparr>)" by (rule goes)
    moreover have "ends (st\<lparr>cr_src := length (cr_buf st)\<rparr>) (-2) (st\<lparr>cr_src := length (cr_buf st)\<rparr>)"
      using ok by (auto simp: ends_def todo_def run_ok_def)
    ultimately show ?thesis using True goes_ends by (auto simp: chunk_scan_def outcome_def)
  next
    case False
    then obtain j where j: "scan_to P (cr_buf st) (cr_src st) = okP j" "clear P (cr_buf st) (cr_src st) j"
      "j < length (cr_buf st)" "P (cr_buf st ! j)" using scan_to_cases[OF src, of P] by auto
    have "run_ok (st\<lparr>cr_src := j\<rparr>)" using ok j(2) by (auto simp: run_ok_def clear_def)
    then show ?thesis using goes_outcome[OF goes[OF j(2)] found] j by (simp add: chunk_scan_def)
  qed
qed

lemma crlf_outcome:
  assumes "run_ok st" "dec_state (cr_dec st) = CHUNKED_IN_CHUNK_CRLF"
  shows "outcome st (chunk_crlf st)"
  unfolding chunk_crlf_def
proof (rule scan_outcome[OF assms(1)])
  fix j assume j: "run_ok (st\<lparr>cr_src := j\<rparr>)" "j < length (cr_buf st)" "cr_buf st ! j \<noteq> CR"
  show "outcome (st\<lparr>cr_src := j\<rparr>) (src_byte (st\<lparr>cr_src := j\<rparr>) (\<lambda>b.
      if b \<noteq> LF then Inr (Chunk_Exit (-1) (st\<lparr>cr_src := j\<rparr>))
      else Inr (Chunk_Next (set_state CHUNKED_IN_CHUNK_SIZE (st\<lparr>cr_src := j, cr_src := cr_src (st\<lparr>cr_src := j\<rparr>) + 1\<rparr>)))))"
    using goes_byte[OF j(1)] bad_byte[OF j(1)] j(2,3) assms(2)
    by (auto simp: outcome_def src_byte_def chunk_byte_def)
qed (use assms(2) in \<open>auto simp: chunk_byte_def\<close>)

lemma middle_outcome:
  assumes "run_ok st" "dec_state (cr_dec st) = CHUNKED_IN_TRAILERS_LINE_MIDDLE"
  shows "outcome st (trailers_middle st)"
  unfolding trailers_middle_def
proof (rule scan_outcome[OF assms(1)])
  fix j assume j: "run_ok (st\<lparr>cr_src := j\<rparr>)" "j < length (cr_buf st)" "cr_buf st ! j = LF"
  then show "outcome (st\<lparr>cr_src := j\<rparr>) (Inr (Chunk_Next (set_state CHUNKED_IN_TRAILERS_LINE_HEAD
      (st\<lparr>cr_src := j, cr_src := cr_src (st\<lparr>cr_src := j\<rparr>) + 1\<rparr>))))"
    using goes_byte[OF j(1)] assms(2) by (auto simp: outcome_def chunk_byte_def)
qed (use assms(2) in \<open>auto simp: chunk_byte_def\<close>)

lemma head_outcome:
  assumes "run_ok st" "dec_state (cr_dec st) = CHUNKED_IN_TRAILERS_LINE_HEAD"
  shows "outcome st (trailers_head st)"
  unfolding trailers_head_def
proof (rule scan_outcome[OF assms(1)])
  fix j assume j: "run_ok (st\<lparr>cr_src := j\<rparr>)" "j < length (cr_buf st)" "cr_buf st ! j \<noteq> CR"
  let ?st = "st\<lparr>cr_src := Suc j, cr_dec := (cr_dec st)\<lparr>dec_state := CHUNKED_IN_TRAILERS_LINE_MIDDLE\<rparr>\<rparr>"
  have "goes (st\<lparr>cr_src := j\<rparr>) ?st" if "cr_buf st ! j \<noteq> LF"
    using goes_byte[OF j(1)] that j(2,3) assms(2) by (auto simp: chunk_byte_def)
  moreover have "run_ok ?st" using j(1,2) by (auto simp: run_ok_def dec_ok_def)
  ultimately have "outcome (st\<lparr>cr_src := j\<rparr>) (trailers_middle ?st)" if "cr_buf st ! j \<noteq> LF"
    using that goes_outcome middle_outcome[of ?st] by auto
  then show "outcome (st\<lparr>cr_src := j\<rparr>) (src_byte (st\<lparr>cr_src := j\<rparr>) (\<lambda>b.
      let st = st\<lparr>cr_src := j, cr_src := cr_src (st\<lparr>cr_src := j\<rparr>) + 1\<rparr> in
      if b = LF then Inr (chunk_complete st) else trailers_middle (set_state CHUNKED_IN_TRAILERS_LINE_MIDDLE st)))"
    using done_byte[OF j(1), of "cr_dec st"] j(2,3) assms(2)
    by (cases "cr_buf st ! j = LF") (simp_all add: src_byte_def chunk_byte_def chunk_complete_def outcome_def of_nat_diff)
qed (use assms(2) in \<open>auto simp: chunk_byte_def\<close>)

subsection \<open>Data\<close>

lemma dechunk_data:
  assumes "dec_state d = CHUNKED_IN_CHUNK_DATA" "length xs < unat (bytes_left_in_chunk d)"
  shows "dechunk d (xs @ ys) =
    (case dechunk (d\<lparr>bytes_left_in_chunk := bytes_left_in_chunk d - of_nat (length xs)\<rparr>) ys of (r, data) \<Rightarrow> (r, xs @ data))"
  using assms
proof (induction xs arbitrary: d)
  case (Cons x xs)
  let ?l = "bytes_left_in_chunk d"
  have "?l \<noteq> 0" using Cons.prems(2) by auto
  then have unat: "unat (?l - 1) = unat ?l - 1" by (rule unat_minus_one)
  then have "?l - 1 \<noteq> 0" using Cons.prems(2) by auto
  then have "chunk_byte d x = Act_Go (d\<lparr>bytes_left_in_chunk := ?l - 1\<rparr>) [x]"
    using Cons.prems(1) by (cases d) (simp add: chunk_byte_def Let_def)
  moreover have "length xs < unat (?l - 1)" using Cons.prems(2) unat by simp
  ultimately show ?case
    using Cons.IH[of "d\<lparr>bytes_left_in_chunk := ?l - 1\<rparr>"] Cons.prems(1)
    by (auto simp: algebra_simps split: prod.splits)
qed (auto split: prod.splits)

lemma dechunk_chunk:
  assumes "dec_state d = CHUNKED_IN_CHUNK_DATA" "length xs = unat (bytes_left_in_chunk d)" "bytes_left_in_chunk d \<noteq> 0"
  shows "dechunk d (xs @ ys) =
    (case dechunk (d\<lparr>bytes_left_in_chunk := 0, dec_state := CHUNKED_IN_CHUNK_CRLF\<rparr>) ys of (r, data) \<Rightarrow> (r, xs @ data))"
proof -
  have "xs \<noteq> []" using assms by (metis list.size(3) unat_eq_0)
  then obtain zs z where xs: "xs = zs @ [z]" by (metis rev_exhaust)
  let ?l = "bytes_left_in_chunk d"
  have "?l = of_nat (unat ?l)" by simp
  also have "\<dots> = of_nat (Suc (length zs))" using assms(2) xs by simp
  finally have "?l - of_nat (length zs) = 1" by simp
  then show ?thesis using dechunk_data[of d zs "z # ys"] assms xs
    by (auto simp: chunk_byte_def Let_def split: prod.splits)
qed

lemma move_data_ok:
  assumes "cr_dst st \<le> cr_src st" "cr_src st + n \<le> length (cr_buf st)"
  obtains buf where "move_data n st = Inr (st\<lparr>cr_buf := buf, cr_src := cr_src st + n, cr_dst := cr_dst st + n\<rparr>)"
    "length buf = length (cr_buf st)" "take (cr_dst st + n) buf = take (cr_dst st) (cr_buf st) @ take n (drop (cr_src st) (cr_buf st))"
    "drop (cr_src st + n) buf = drop (cr_src st + n) (cr_buf st)"
proof (cases "cr_dst st = cr_src st")
  case True
  then show ?thesis using that[of "cr_buf st"] by (simp add: move_data_def take_add)
next
  case False
  let ?buf = "take (cr_dst st) (cr_buf st) @ take n (drop (cr_src st) (cr_buf st)) @ drop (cr_dst st + n) (cr_buf st)"
  have lens: "length (take (cr_dst st) (cr_buf st)) = cr_dst st" "length (take n (drop (cr_src st) (cr_buf st))) = n"
    using assms by simp_all
  have "drop (cr_src st + n) ?buf = drop (cr_src st + n) (cr_buf st)"
    using assms by (simp add: drop_append lens del: length_take)
  moreover have "take (cr_dst st + n) ?buf = take (cr_dst st) (cr_buf st) @ take n (drop (cr_src st) (cr_buf st))"
    "length ?buf = length (cr_buf st)" using assms by (simp_all add: take_append lens del: length_take)
  moreover have "move_data n st = Inr (st\<lparr>cr_buf := ?buf, cr_src := cr_src st + n, cr_dst := cr_dst st + n\<rparr>)"
    using False assms by (simp add: move_data_def memmove_def)
  ultimately show ?thesis using that by blast
qed

lemma data_outcome:
  assumes ok: "run_ok st" and data: "dec_state (cr_dec st) = CHUNKED_IN_CHUNK_DATA"
  shows "outcome st (chunk_data st)"
proof -
  let ?rest = "drop (cr_src st) (cr_buf st)" and ?left = "bytes_left_in_chunk (cr_dec st)"
  define n where "n = min (length ?rest) (unat ?left)"
  have b: "cr_dst st \<le> cr_src st" "cr_src st + n \<le> length (cr_buf st)" "?left \<noteq> 0"
    using ok data by (auto simp: run_ok_def dec_ok_def n_def)
  obtain buf where mv: "move_data n st = Inr (st\<lparr>cr_buf := buf, cr_src := cr_src st + n, cr_dst := cr_dst st + n\<rparr>)"
    "length buf = length (cr_buf st)" "take (cr_dst st + n) buf = take (cr_dst st) (cr_buf st) @ take n ?rest"
    "drop (cr_src st + n) buf = drop (cr_src st + n) (cr_buf st)" using move_data_ok[OF b(1,2)] by blast
  have rest: "?rest = take n ?rest @ drop (cr_src st + n) (cr_buf st)" by (metis append_take_drop_id drop_drop add.commute)
  show ?thesis
  proof (cases "length ?rest < unat ?left")
    case True
    then have n: "n = length (cr_buf st) - cr_src st" by (simp add: n_def)
    let ?st = "st\<lparr>cr_buf := buf, cr_src := cr_src st + n, cr_dst := cr_dst st + n,
      cr_dec := (cr_dec st)\<lparr>bytes_left_in_chunk := ?left - of_nat n\<rparr>\<rparr>"
    have "todo st = (Incomplete (cr_dec ?st), ?rest)"
      using dechunk_data[OF data True, of "[]"] n by (simp add: todo_def)
    then have "ends st (-2) ?st" using b mv(2,3) n by (simp add: ends_def)
    then show ?thesis using True mv(1) n by (simp add: chunk_data_def Let_def outcome_def)
  next
    case False
    then have n: "n = unat ?left" "n \<le> length ?rest" by (auto simp: n_def)
    let ?st = "st\<lparr>cr_buf := buf, cr_src := cr_src st + n, cr_dst := cr_dst st + n,
      cr_dec := (cr_dec st)\<lparr>bytes_left_in_chunk := 0, dec_state := CHUNKED_IN_CHUNK_CRLF\<rparr>\<rparr>"
    have "length (take n ?rest) = unat ?left" using n by simp
    then have "todo st = (case todo ?st of (r, out) \<Rightarrow> (r, take n ?rest @ out))"
      using dechunk_chunk[OF data _ b(3), of "take n ?rest" "drop (cr_src st + n) (cr_buf st)"] rest mv(4)
      by (simp add: todo_def)
    moreover have ok': "run_ok ?st" using b(1,2) mv(2) by (simp add: run_ok_def dec_ok_def)
    ultimately have "goes st ?st" using mv(2,3) by (auto simp: goes_def)
    then have "outcome st (chunk_crlf ?st)" using goes_outcome crlf_outcome[OF ok'] by simp
    then show ?thesis using False mv(1) n by (simp add: chunk_data_def Let_def)
  qed
qed

subsection \<open>Sizes\<close>

lemma ext_outcome:
  assumes "run_ok st" "dec_state (cr_dec st) = CHUNKED_IN_CHUNK_EXT"
  shows "outcome st (chunk_ext st)"
  unfolding chunk_ext_def
proof (rule scan_outcome[OF assms(1)])
  fix b :: byte assume "b \<noteq> LF"
  then show "chunk_byte (cr_dec st) b = Act_Go (cr_dec st) []"
    using assms(2) by (cases "cr_dec st") (simp add: chunk_byte_def ext_byte_def)
next
  fix j assume j: "run_ok (st\<lparr>cr_src := j\<rparr>)" "j < length (cr_buf st)" "cr_buf st ! j = LF"
  let ?left = "bytes_left_in_chunk (cr_dec st)"
  let ?st = "\<lambda>s. st\<lparr>cr_src := Suc j, cr_dec := (cr_dec st)\<lparr>dec_state := s\<rparr>\<rparr>"
  have byte: "chunk_byte (cr_dec st) (cr_buf st ! j) =
      (if ?left \<noteq> 0 then Act_Go ((cr_dec st)\<lparr>dec_state := CHUNKED_IN_CHUNK_DATA\<rparr>) []
       else if consume_trailer (cr_dec st) then Act_Go ((cr_dec st)\<lparr>dec_state := CHUNKED_IN_TRAILERS_LINE_HEAD\<rparr>) []
       else Act_Done)"
    using assms(2) j(3) by (simp add: chunk_byte_def ext_byte_def)
  consider "?left \<noteq> 0" | "?left = 0" "consume_trailer (cr_dec st)" | "?left = 0" "\<not> consume_trailer (cr_dec st)" by blast
  then show "outcome (st\<lparr>cr_src := j\<rparr>)
     (let st = st\<lparr>cr_src := j, cr_src := cr_src (st\<lparr>cr_src := j\<rparr>) + 1\<rparr> in
      if bytes_left_in_chunk (cr_dec st) = 0
      then if consume_trailer (cr_dec st) then Inr (Chunk_Next (set_state CHUNKED_IN_TRAILERS_LINE_HEAD st))
           else Inr (chunk_complete st)
      else chunk_data (set_state CHUNKED_IN_CHUNK_DATA st))"
  proof cases
    case 1
    then have g: "goes (st\<lparr>cr_src := j\<rparr>) (?st CHUNKED_IN_CHUNK_DATA)" using goes_byte[OF j(1)] j(2) byte by simp
    then have "run_ok (?st CHUNKED_IN_CHUNK_DATA)" by (simp add: goes_def)
    then show ?thesis using 1 goes_outcome[OF g data_outcome] by simp
  next
    case 2
    then show ?thesis using goes_byte[OF j(1)] j(2) byte by (simp add: outcome_def)
  next
    case 3
    then show ?thesis using done_byte[OF j(1), of "cr_dec st"] j(2) byte by (simp add: outcome_def chunk_complete_def of_nat_diff)
  qed
qed

lemma size_loop_outcome:
  assumes "run_ok st" "dec_state (cr_dec st) = CHUNKED_IN_CHUNK_SIZE"
  shows "\<exists>r st'. size_loop st = Inr (r, st') \<and>
    (case r of
       Some ret \<Rightarrow> ends st ret st'
     | None \<Rightarrow> goes st st' \<and> dec_state (cr_dec st') = CHUNKED_IN_CHUNK_SIZE \<and> cr_src st' < length (cr_buf st') \<and>
         decode_hex (cr_buf st' ! cr_src st') = -1 \<and> hex_count (cr_dec st') \<noteq> 0)"
  using assms
proof (induction st rule: size_loop.induct)
  case (1 st)
  let ?d = "cr_dec st" and ?b = "cr_buf st ! cr_src st"
  have src: "\<not> length (cr_buf st) < cr_src st" using 1(2) by (simp add: run_ok_def)
  consider "cr_src st = length (cr_buf st)"
    | "cr_src st < length (cr_buf st)" "decode_hex ?b = -1 \<and> hex_count ?d = 0 \<or> decode_hex ?b \<noteq> -1 \<and> hex_count ?d = 16"
    | "cr_src st < length (cr_buf st)" "decode_hex ?b = -1" "hex_count ?d \<noteq> 0"
    | "cr_src st < length (cr_buf st)" "decode_hex ?b \<noteq> -1" "hex_count ?d \<noteq> 16" using src by linarith
  then show ?case
  proof cases
    case 1
    then have "size_loop st = Inr (Some (-2), st)" by (subst size_loop.simps) simp
    moreover have "ends st (-2) st" using 1 \<open>run_ok st\<close> by (simp add: ends_def todo_def run_ok_def)
    ultimately show ?thesis by simp
  next
    case 2
    then have "size_loop st = Inr (Some (-1), st)" by (subst size_loop.simps) (auto simp: Let_def)
    moreover have "chunk_byte ?d ?b = Act_Bad" using 2 1(3) by (auto simp: chunk_byte_def)
    ultimately show ?thesis using bad_byte[OF \<open>run_ok st\<close> 2(1)] by simp
  next
    case 3
    then have "size_loop st = Inr (None, st)" by (subst size_loop.simps) (auto simp: Let_def)
    moreover have "goes st st" using \<open>run_ok st\<close> by (auto simp: goes_def split: prod.splits)
    ultimately show ?thesis using 3 1(3) by simp
  next
    case 4
    let ?d' = "?d\<lparr>bytes_left_in_chunk := bytes_left_in_chunk ?d * 16 + of_int (decode_hex ?b), hex_count := hex_count ?d + 1\<rparr>"
    let ?st = "st\<lparr>cr_src := cr_src st + 1, cr_dec := ?d'\<rparr>"
    have step: "size_loop st = size_loop ?st" using 4 by (subst size_loop.simps) (simp add: Let_def)
    have "chunk_byte ?d ?b = Act_Go ?d' []" using 4 1(3) by (simp add: chunk_byte_def)
    then have g: "goes st ?st" using goes_byte[OF \<open>run_ok st\<close> 4(1)] by simp
    then have "run_ok ?st" by (simp add: goes_def)
    then obtain r st' where IH: "size_loop ?st = Inr (r, st')"
      "case r of Some ret \<Rightarrow> ends ?st ret st'
       | None \<Rightarrow> goes ?st st' \<and> dec_state (cr_dec st') = CHUNKED_IN_CHUNK_SIZE \<and> cr_src st' < length (cr_buf st') \<and>
           decode_hex (cr_buf st' ! cr_src st') = -1 \<and> hex_count (cr_dec st') \<noteq> 0"
      using 1(1)[OF _ src refl refl 4(2,3)] 4(1) 1(3) by auto
    then show ?thesis unfolding step using goes_trans[OF g] goes_ends[OF g] by (auto split: option.splits)
  qed
qed

lemma size_outcome:
  assumes "run_ok st" "dec_state (cr_dec st) = CHUNKED_IN_CHUNK_SIZE"
  shows "outcome st (chunk_size st)"
proof -
  obtain r st' where r: "size_loop st = Inr (r, st')" and cases: "case r of
       Some ret \<Rightarrow> ends st ret st'
     | None \<Rightarrow> goes st st' \<and> dec_state (cr_dec st') = CHUNKED_IN_CHUNK_SIZE \<and> cr_src st' < length (cr_buf st') \<and>
         decode_hex (cr_buf st' ! cr_src st') = -1 \<and> hex_count (cr_dec st') \<noteq> 0"
    using size_loop_outcome[OF assms] by blast
  show ?thesis
  proof (cases r)
    case None
    let ?st = "st'\<lparr>cr_dec := (cr_dec st')\<lparr>hex_count := 0, dec_state := CHUNKED_IN_CHUNK_EXT\<rparr>\<rparr>"
    have st': "goes st st'" "dec_state (cr_dec st') = CHUNKED_IN_CHUNK_SIZE" "cr_src st' < length (cr_buf st')"
      "decode_hex (cr_buf st' ! cr_src st') = -1" "hex_count (cr_dec st') \<noteq> 0" using None cases by auto
    have ok: "run_ok ?st" using st'(1) by (simp add: goes_def run_ok_def dec_ok_def)
    have "chunk_byte (cr_dec st') (cr_buf st' ! cr_src st') = chunk_byte (cr_dec ?st) (cr_buf st' ! cr_src st')"
      using st'(2,4,5) by (simp add: chunk_byte_def ext_byte_def)
    then have "todo st' = todo ?st" using todo_Cons[of st'] todo_Cons[of ?st] st'(3) by simp
    then have "goes st' ?st" using ok by (auto simp: goes_def split: prod.splits)
    then have "outcome st (chunk_ext ?st)" using st'(1) goes_trans goes_outcome ext_outcome[OF ok] by force
    then show ?thesis using None r by (simp add: chunk_size_def)
  qed (use r cases in \<open>simp add: chunk_size_def outcome_def\<close>)
qed

lemma step_outcome: "run_ok st \<Longrightarrow> outcome st (chunk_step st)"
  by (auto simp: chunk_step_def split: chunk_state.splits intro: size_outcome ext_outcome data_outcome crlf_outcome
      head_outcome middle_outcome)

lemma loop_ends: "run_ok st \<Longrightarrow> \<exists>ret st'. chunk_loop st = Inr (ret, st') \<and> ends st ret st'"
proof (induction st rule: chunk_loop.induct)
  case (1 st)
  from step_outcome[OF 1(2)] consider ret st' where "chunk_step st = Inr (Chunk_Exit ret st')" "ends st ret st'"
    | st' where "chunk_step st = Inr (Chunk_Next st')" "goes st st'"
    by (auto simp: outcome_def split: sum.splits chunk_out.splits)
  then show ?case
  proof cases
    case (1 ret st')
    then show ?thesis by (subst chunk_loop.simps) simp
  next
    case (2 st')
    then have "run_ok st'" by (simp add: goes_def)
    then obtain ret st2 where "chunk_loop st' = Inr (ret, st2)" "ends st' ret st2" using 1(1)[OF 2(1) refl] by blast
    then show ?thesis using 2 goes_ends by (subst chunk_loop.simps) auto
  qed
qed

subsection \<open>The decoder implements the automaton\<close>

lemma decode_dechunk:
  assumes "dec_ok d" "dechunk d buf = (r, out)"
  shows "\<exists>ret d' buf'. phr_decode_chunked d buf = Inr (ret, d', length out, buf') \<and> length buf' = length buf \<and>
    take (length out) buf' = out \<and>
    (case r of
       Incomplete d'' \<Rightarrow> ret = -2 \<and> d' = d''
     | Complete rest \<Rightarrow> ret = int (length rest) \<and> take (length rest) (drop (length out) buf') = rest
     | Malformed \<Rightarrow> ret = -1)"
proof -
  let ?st = "\<lparr>cr_dec = d, cr_buf = buf, cr_dst = 0, cr_src = 0\<rparr>"
  have "run_ok ?st" using assms(1) by (simp add: run_ok_def)
  then obtain ret st where st: "chunk_loop ?st = Inr (ret, st)" "ends ?st ret st" using loop_ends by blast
  have e: "cr_dst st \<le> cr_src st" "cr_src st \<le> length (cr_buf st)" "length (cr_buf st) = length buf" "take (cr_dst st) (cr_buf st) = out"
    "case r of Incomplete d \<Rightarrow> ret = -2 \<and> cr_dec st = d \<and> cr_src st = length (cr_buf st)
     | Complete rest \<Rightarrow> ret = int (length rest) \<and> drop (cr_src st) (cr_buf st) = rest | Malformed \<Rightarrow> ret = -1"
    using st(2) assms(2) by (auto simp: ends_def todo_def)
  have dst: "cr_dst st = length out" using e(1,2,4) by auto
  let ?n = "length (cr_buf st) - cr_src st"
  obtain buf' where b: "(if cr_dst st \<noteq> cr_src st then memmove (cr_buf st) (cr_dst st) (cr_src st) ?n else Inr (cr_buf st)) = Inr buf'"
    "length buf' = length buf" "take (cr_dst st) buf' = out" "take ?n (drop (cr_dst st) buf') = drop (cr_src st) (cr_buf st)"
  proof (cases "cr_dst st = cr_src st")
    case True
    then show ?thesis using that[of "cr_buf st"] e by simp
  next
    case False
    let ?b = "take (cr_dst st) (cr_buf st) @ drop (cr_src st) (cr_buf st) @ drop (cr_dst st + ?n) (cr_buf st)"
    have "memmove (cr_buf st) (cr_dst st) (cr_src st) ?n = Inr ?b" using e(1,2) by (simp add: memmove_def)
    moreover have "length ?b = length buf" "take (cr_dst st) ?b = out" "take ?n (drop (cr_dst st) ?b) = drop (cr_src st) (cr_buf st)"
      using e(1-4) dst by simp_all
    ultimately show ?thesis using that False by auto
  qed
  have "phr_decode_chunked d buf = Inr (ret, cr_dec st, length out, buf')" using st(1) b(1) dst by (simp add: phr_decode_chunked_def)
  moreover have "length (drop (cr_src st) (cr_buf st)) = ?n" by simp
  ultimately show ?thesis using e(5) b(2-4) dst by (auto split: chunk_result.splits)
qed

text \<open>A body that comes in pieces, decoded as the header file asks: again while the result is -2.\<close>

fun decode_pieces :: "phr_chunked_decoder \<Rightarrow> byte list list \<Rightarrow> fault + int \<times> byte list" where
  "decode_pieces d [] = Inr (-2, [])"
| "decode_pieces d (buf # bufs) =
     bindE (phr_decode_chunked d buf) (\<lambda>(ret, d, n, buf).
     if ret = -2 then bindE (decode_pieces d bufs) (\<lambda>(ret, data). Inr (ret, take n buf @ data))
     else Inr (ret, take n buf))"

lemma pieces_dechunk:
  assumes "dec_ok d" "dechunk d (concat bufs) = (r, out)"
  shows "\<exists>ret. decode_pieces d bufs = Inr (ret, out) \<and>
    (case r of Incomplete _ \<Rightarrow> ret = -2 | Complete rest \<Rightarrow> 0 \<le> ret \<and> ret \<le> int (length rest) | Malformed \<Rightarrow> ret = -1)"
  using assms
proof (induction bufs arbitrary: d r out)
  case (Cons buf bufs)
  obtain r1 out1 where one: "dechunk d buf = (r1, out1)" by (cases "dechunk d buf")
  obtain ret d' buf' where dec: "phr_decode_chunked d buf = Inr (ret, d', length out1, buf')" "take (length out1) buf' = out1"
    "case r1 of Incomplete d'' \<Rightarrow> ret = -2 \<and> d' = d'' | Complete rest \<Rightarrow> ret = int (length rest) | Malformed \<Rightarrow> ret = -1"
    using decode_dechunk[OF Cons.prems(1) one] by (cases r1) auto
  show ?case
  proof (cases r1)
    case (Incomplete d2)
    obtain out2 where two: "dechunk d2 (concat bufs) = (r, out2)" "out = out1 @ out2"
      using Cons.prems(2) one Incomplete by (auto simp: dechunk_append split: prod.splits)
    then show ?thesis using Cons.IH[OF dechunk_ok[OF one[unfolded Incomplete] Cons.prems(1)] two(1)] dec Incomplete by auto
  qed (use dec one Cons.prems(2) in \<open>auto simp: dechunk_append\<close>)
qed auto

subsection \<open>Encoding\<close>

definition hex_char :: "nat \<Rightarrow> byte" where
  "hex_char k = of_nat (if k < 10 then 48 + k else 87 + k)"

fun hex_digits :: "nat \<Rightarrow> byte list" where
  "hex_digits n = (if n < 16 then [hex_char n] else hex_digits (n div 16) @ [hex_char (n mod 16)])"

declare hex_digits.simps [simp del]

text \<open>A chunk with its extension, as RFC 7230 has it; the extension ends in a CR there.\<close>

definition encode_chunk :: "byte list \<times> byte list \<Rightarrow> byte list" where
  "encode_chunk c = (case c of (ext, data) \<Rightarrow> hex_digits (length data) @ ext @ [LF] @ data @ [CR, LF])"

definition encode_body :: "(byte list \<times> byte list) list \<Rightarrow> byte list \<Rightarrow> byte list" where
  "encode_body chunks ext = concat (map encode_chunk chunks) @ hex_digits 0 @ ext @ [LF]"

definition encode_trailer :: "byte list list \<Rightarrow> byte list" where
  "encode_trailer lines = concat (map (\<lambda>l. l @ [LF]) lines) @ [CR, LF]"

definition ext_ok :: "byte list \<Rightarrow> bool" where
  "ext_ok ext \<longleftrightarrow> LF \<notin> set ext \<and> (ext \<noteq> [] \<longrightarrow> decode_hex (hd ext) = -1)"

definition chunk_ok :: "byte list \<times> byte list \<Rightarrow> bool" where
  "chunk_ok c \<longleftrightarrow> (case c of (ext, data) \<Rightarrow> ext_ok ext \<and> data \<noteq> [] \<and> length data < 2 ^ 64)"

definition trailer_ok :: "byte list \<Rightarrow> bool" where
  "trailer_ok l \<longleftrightarrow> l \<noteq> [] \<and> hd l \<noteq> CR \<and> LF \<notin> set l"

text \<open>A decoder as it starts.\<close>

definition new_decoder :: "bool \<Rightarrow> phr_chunked_decoder" where
  "new_decoder trailer = \<lparr>bytes_left_in_chunk = 0, consume_trailer = trailer, hex_count = 0, dec_state = CHUNKED_IN_CHUNK_SIZE\<rparr>"

lemma decode_hex_char:
  assumes "k < 16"
  shows "decode_hex (hex_char k) = int k"
proof -
  have "sint (hex_char k) = int (if k < 10 then 48 + k else 87 + k)"
    unfolding hex_char_def using assms by (intro sint_byte_small) simp
  then show ?thesis using assms by (simp add: decode_hex_def Let_def)
qed

lemma length_hex_digits: "n < 16 ^ Suc k \<Longrightarrow> length (hex_digits n) \<le> Suc k"
proof (induction n arbitrary: k rule: hex_digits.induct)
  case (1 n)
  show ?case
  proof (cases "n < 16")
    case False
    then obtain j where k: "k = Suc j" using 1(2) by (cases k) auto
    then have "n div 16 < 16 ^ Suc j" using 1(2) by (simp add: less_mult_imp_div_less mult.commute)
    then show ?thesis using 1(1)[OF False, of j] False k by (simp add: hex_digits.simps[of n])
  qed (simp add: hex_digits.simps[of n])
qed

lemma dechunk_digits:
  assumes "length (hex_digits n) \<le> 16"
  shows "dechunk (new_decoder t) (hex_digits n @ ys) =
    dechunk ((new_decoder t)\<lparr>bytes_left_in_chunk := of_nat n, hex_count := of_nat (length (hex_digits n))\<rparr>) ys"
  using assms
proof (induction n arbitrary: ys rule: hex_digits.induct)
  case (1 n)
  show ?case
  proof (cases "n < 16")
    case True
    then show ?thesis
      by (simp add: hex_digits.simps[of n] new_decoder_def chunk_byte_def decode_hex_char split: prod.splits)
  next
    case False
    let ?m = "n div 16"
    have len: "length (hex_digits n) = Suc (length (hex_digits ?m))" using False by (simp add: hex_digits.simps[of n])
    let ?d = "(new_decoder t)\<lparr>bytes_left_in_chunk := of_nat ?m, hex_count := of_nat (length (hex_digits ?m))\<rparr>"
    have "(of_nat (length (hex_digits ?m)) :: byte) \<noteq> 16"
      using 1(2) len by (auto simp: word_unat_eq_iff unsigned_of_nat take_bit_nat_eq_self)
    moreover have "(of_nat ?m * 16 + of_nat (n mod 16) :: u64) = of_nat n"
      by (metis of_nat_add of_nat_mult of_nat_numeral div_mult_mod_eq)
    ultimately have "dechunk ?d (hex_char (n mod 16) # ys) =
        dechunk ((new_decoder t)\<lparr>bytes_left_in_chunk := of_nat n, hex_count := of_nat (length (hex_digits n))\<rparr>) ys"
      using len by (simp add: new_decoder_def chunk_byte_def decode_hex_char add.commute split: prod.splits)
    then show ?thesis using 1(1)[OF False, of "hex_char (n mod 16) # ys"] 1(2) len False by (simp add: hex_digits.simps[of n])
  qed
qed

text \<open>The rest of the line with the size.\<close>

lemma dechunk_ext:
  assumes "dec_state d = CHUNKED_IN_CHUNK_SIZE" "hex_count d \<noteq> 0" "ext_ok ext"
  shows "dechunk d (ext @ LF # ys) = dechunk (d\<lparr>hex_count := 0, dec_state := CHUNKED_IN_CHUNK_EXT\<rparr>) (LF # ys)"
proof -
  let ?d = "d\<lparr>hex_count := 0, dec_state := CHUNKED_IN_CHUNK_EXT\<rparr>"
  have hex: "decode_hex LF = -1" by (simp add: decode_hex_def)
  have stay: "dechunk ?d (xs @ LF # ys) = dechunk ?d (LF # ys)" if "LF \<notin> set xs" for xs
    by (rule dechunk_stay) (use that in \<open>auto simp: chunk_byte_def ext_byte_def\<close>)
  show ?thesis
  proof (cases ext)
    case Nil
    then show ?thesis using assms(1,2) hex by (simp add: chunk_byte_def ext_byte_def)
  next
    case (Cons b bs)
    then have "dechunk d (ext @ LF # ys) = dechunk ?d (bs @ LF # ys)"
      using assms by (auto simp: ext_ok_def chunk_byte_def ext_byte_def split: prod.splits)
    then show ?thesis using stay[of bs] assms(3) Cons by (simp add: ext_ok_def)
  qed
qed

lemma dechunk_size_line:
  assumes "n < 2 ^ 64" "ext_ok ext"
  shows "dechunk (new_decoder t) (hex_digits n @ ext @ [LF] @ ys) =
    dechunk ((new_decoder t)\<lparr>bytes_left_in_chunk := of_nat n, dec_state := CHUNKED_IN_CHUNK_EXT\<rparr>) (LF # ys)"
proof -
  have len: "length (hex_digits n) \<le> 16" using length_hex_digits[of n 15] assms(1) by simp
  have "hex_digits n \<noteq> []" by (simp add: hex_digits.simps[of n])
  then have "(of_nat (length (hex_digits n)) :: byte) \<noteq> 0"
    using len by (auto simp: word_unat_eq_iff unsigned_of_nat take_bit_nat_eq_self)
  then show ?thesis using dechunk_digits[OF len, of t "ext @ LF # ys"] assms(2)
    by (simp add: dechunk_ext new_decoder_def)
qed

lemma dechunk_encode_chunk:
  assumes "chunk_ok (ext, data)"
  shows "dechunk (new_decoder t) (encode_chunk (ext, data) @ ys) =
    (case dechunk (new_decoder t) ys of (r, out) \<Rightarrow> (r, data @ out))"
proof -
  let ?d = "(new_decoder t)\<lparr>bytes_left_in_chunk := of_nat (length data), dec_state := CHUNKED_IN_CHUNK_DATA\<rparr>"
  have ok: "ext_ok ext" "data \<noteq> []" "length data < 2 ^ 64" using assms by (auto simp: chunk_ok_def)
  have len: "unat (of_nat (length data) :: u64) = length data" using ok(3) by (simp add: unsigned_of_nat take_bit_nat_eq_self)
  then have nz: "(of_nat (length data) :: u64) \<noteq> 0" using ok(2) by (metis length_0_conv unat_0)
  have "dechunk (new_decoder t) (encode_chunk (ext, data) @ ys) = dechunk ?d (data @ CR # LF # ys)"
    using dechunk_size_line[OF ok(3,1), of t "data @ CR # LF # ys"] nz
    by (simp add: encode_chunk_def chunk_byte_def ext_byte_def split: prod.splits)
  also have "\<dots> = (case dechunk (?d\<lparr>bytes_left_in_chunk := 0, dec_state := CHUNKED_IN_CHUNK_CRLF\<rparr>) (CR # LF # ys) of (r, out) \<Rightarrow> (r, data @ out))"
    by (rule dechunk_chunk) (use len nz in simp_all)
  also have "dechunk (?d\<lparr>bytes_left_in_chunk := 0, dec_state := CHUNKED_IN_CHUNK_CRLF\<rparr>) (CR # LF # ys) = dechunk (new_decoder t) ys"
    by (simp add: chunk_byte_def new_decoder_def split: prod.splits)
  finally show ?thesis .
qed

lemma dechunk_encode_chunks:
  assumes "\<forall>c \<in> set chunks. chunk_ok c"
  shows "dechunk (new_decoder t) (concat (map encode_chunk chunks) @ ys) =
    (case dechunk (new_decoder t) ys of (r, out) \<Rightarrow> (r, concat (map snd chunks) @ out))"
  using assms
proof (induction chunks)
  case (Cons c chunks)
  then show ?case by (cases c) (simp add: dechunk_encode_chunk split: prod.splits)
qed (simp split: prod.splits)

lemma dechunk_trailer_line:
  assumes "dec_state d = CHUNKED_IN_TRAILERS_LINE_HEAD" "trailer_ok l"
  shows "dechunk d (l @ LF # ys) = dechunk d ys"
proof -
  obtain b bs where l: "l = b # bs" "b \<noteq> CR" "b \<noteq> LF" "LF \<notin> set bs" using assms(2) by (cases l) (auto simp: trailer_ok_def)
  let ?d = "d\<lparr>dec_state := CHUNKED_IN_TRAILERS_LINE_MIDDLE\<rparr>"
  have "dechunk ?d (bs @ LF # ys) = dechunk ?d (LF # ys)"
    by (rule dechunk_stay) (use l(4) in \<open>auto simp: chunk_byte_def\<close>)
  moreover have "d\<lparr>dec_state := CHUNKED_IN_TRAILERS_LINE_HEAD\<rparr> = d" using assms(1) by (cases d) simp
  ultimately show ?thesis using assms(1) l by (simp add: chunk_byte_def split: prod.splits)
qed

lemma dechunk_encode_trailer:
  assumes "dec_state d = CHUNKED_IN_TRAILERS_LINE_HEAD" "\<forall>l \<in> set lines. trailer_ok l"
  shows "dechunk d (encode_trailer lines @ rest) = (Complete rest, [])"
  using assms(2)
proof (induction lines)
  case Nil
  then show ?case using assms(1) by (simp add: encode_trailer_def chunk_byte_def)
next
  case (Cons l lines)
  then show ?case using dechunk_trailer_line[OF assms(1), of l] by (simp add: encode_trailer_def)
qed

lemma dechunk_encode_body:
  assumes "\<forall>c \<in> set chunks. chunk_ok c" "ext_ok ext" "\<forall>l \<in> set lines. trailer_ok l"
  shows "dechunk (new_decoder t) (encode_body chunks ext @ (if t then encode_trailer lines else []) @ rest) =
    (Complete rest, concat (map snd chunks))"
proof -
  let ?trailer = "if t then encode_trailer lines else []"
  have "dechunk (new_decoder t) (hex_digits 0 @ ext @ [LF] @ ?trailer @ rest) = (Complete rest, [])"
    using dechunk_size_line[of 0 ext t "?trailer @ rest"] assms(2,3) dechunk_encode_trailer[of _ lines rest]
    by (auto simp: chunk_byte_def ext_byte_def new_decoder_def)
  then show ?thesis using dechunk_encode_chunks[OF assms(1), of t] by (simp add: encode_body_def)
qed

lemma new_decoder_ok [simp]: "dec_ok (new_decoder t)"
  by (simp add: dec_ok_def new_decoder_def)

end
