(* ===== verification/Http_Properties.thy ===== *)
theory Http_Properties
  imports Http_Roundtrip Http_Complete Http_Dechunk
begin

section \<open>The HTTP parser: theorems\<close>

text \<open>The theorems on \<^verbatim>\<open>picohttpparser.c\<close>. Requests stand for responses and bare headers too, which share all but the first line.\<close>

subsection \<open>Requests\<close>





text \<open>C37. The vector instructions change nothing on ASCII: the parser built with SSE 4.2 and the one built without give the same
  result, number for number and pointer for pointer.\<close>

theorem http_request_sse_agrees:
  assumes "ascii buf"
  shows "phr_parse_request True buf hs max_headers last_len = phr_parse_request False buf hs max_headers last_len"
  by (simp add: phr_parse_request_def parse_request_sse[OF assms, of 0 True])

lemma http_request_sse_agrees_witness:
  "phr_parse_request True [71, 69, 84, 32, 47, 32, 72] [] 0 0 = phr_parse_request False [71, 69, 84, 32, 47, 32, 72] [] 0 0"
  by (rule http_request_sse_agrees) (simp add: ascii_def)

text \<open>Trying again is safe: the quick check for an empty line, made when \<^verbatim>\<open>last_len\<close> bytes were seen before, lets every
  request pass that ends behind them.\<close>

theorem http_request_retry:
  assumes "phr_parse_request sse buf hs max_headers 0 = Inr (r, rq)" "int last_len < r" "max_headers \<le> length hs"
  shows "phr_parse_request sse buf hs max_headers last_len = Inr (r, rq)"
proof -
  let ?rq = "\<lparr>rq_method = None, rq_method_len = 0, rq_path = None, rq_path_len = 0, rq_minor_version = -1,
    rq_num_headers = 0, rq_headers = hs\<rparr>"
  obtain x where x: "parse_request sse buf 0 max_headers ?rq = Inr (x, rq)" "r = consumed x"
    using assms(1) by (auto simp: phr_parse_request_def)
  show ?thesis
  proof (cases x)
    case (Inr j)
    then obtain k where "is_complete buf last_len = okP k"
      using is_complete_found[of sse buf max_headers ?rq j rq last_len] x assms(2) by (auto simp: consumed_def)
    then show ?thesis using x by (simp add: phr_parse_request_def)
  next
    case (Inl e)
    then have "e = -1 \<or> e = -2" using parse_request_in[of ?rq max_headers sse buf] x(1) assms(3) by (auto simp: ends_at_def)
    then show ?thesis using x Inl assms(2) by (simp add: consumed_def)
  qed
qed

text \<open>A small request, for the witnesses: \<^verbatim>\<open>GET / HTTP/1.1\<close> with a header and a continuation line.\<close>

definition demo_request :: "byte list" where
  "demo_request = render_request True [71, 69, 84] [47] 1 [(Some [72], [120, 121]), (None, [32, 122])]"

definition demo_headers :: "phr_header list" where
  "demo_headers = replicate 4 \<lparr>h_name = None, h_name_len = 0, h_value = None, h_value_len = 0\<rparr>"




lemma demo_request_parsed: "case phr_parse_request False demo_request demo_headers 4 0 of Inr (r, rq) \<Rightarrow> r = 29 | _ \<Rightarrow> False"
  by code_simp


lemma http_request_retry_witness: "\<exists>rq. phr_parse_request False demo_request demo_headers 4 26 = Inr (29, rq)"
proof -
  obtain rq where "phr_parse_request False demo_request demo_headers 4 0 = Inr (29, rq)"
    using demo_request_parsed by (auto split: sum.splits)
  then show ?thesis using http_request_retry[of False demo_request demo_headers 4 29 rq 26] by (auto simp: demo_headers_def)
qed

subsection \<open>Chunked bodies\<close>

text \<open>C39. The chunked decoder implements the automaton that takes one byte at a time: on any buffer and any decoder it left itself it returns,
  it leaves the decoded data at the front of the buffer, and it reports an incomplete body with the state of the
  automaton, a complete one with the number of bytes behind it, which it moves behind the data, or an error.\<close>

theorem http_chunked_refines:
  assumes "dec_ok d"
  shows "\<exists>ret d' n buf'. phr_decode_chunked d buf = Inr (ret, d', n, buf') \<and> length buf' = length buf \<and>
    (case dechunk d buf of
       (r, data) \<Rightarrow> take n buf' = data \<and>
         (case r of
            Incomplete d'' \<Rightarrow> ret = -2 \<and> d' = d'' \<and> dec_ok d''
          | Complete rest \<Rightarrow> ret = int (length rest) \<and> take (length rest) (drop n buf') = rest
          | Malformed \<Rightarrow> ret = -1))"
proof -
  obtain r out where r: "dechunk d buf = (r, out)" by (cases "dechunk d buf")
  then show ?thesis using decode_dechunk[OF assms r] dechunk_ok[OF _ assms, of buf] by (cases r) auto
qed

text \<open>C40. Decoding undoes encoding, in pieces: a body cut into chunks of any sizes, with extensions and trailers, sent in any pieces
  and decoded piece by piece, gives the data back.\<close>

theorem http_chunked_roundtrip:
  assumes "\<forall>c \<in> set chunks. chunk_ok c" "ext_ok ext" "\<forall>l \<in> set lines. trailer_ok l"
    "concat bufs = encode_body chunks ext @ (if trailer then encode_trailer lines else []) @ rest"
  shows "\<exists>ret. decode_pieces (new_decoder trailer) bufs = Inr (ret, concat (map snd chunks)) \<and> 0 \<le> ret \<and> ret \<le> int (length rest)"
  using pieces_dechunk[of "new_decoder trailer" bufs] dechunk_encode_body[OF assms(1-3), of trailer rest] assms(4) by simp

lemma http_chunked_roundtrip_witness:
  "\<exists>ret. decode_pieces (new_decoder True) [[53, 13], [10, 1, 2], [3, 10, 4, 13, 10, 48], [10, 13, 10]] = Inr (ret, [1, 2, 3, 10, 4]) \<and>
    0 \<le> ret \<and> ret \<le> int (length ([] :: byte list))"
proof -
  have "\<forall>c \<in> set [([13], [1, 2, 3, 10, 4])]. chunk_ok c" by (simp add: chunk_ok_def ext_ok_def decode_hex_def)
  moreover have "concat [[53, 13], [10, 1, 2], [3, 10, 4, 13, 10, 48], [10, 13, 10]] =
      encode_body [([13], [1, 2, 3, 10, 4])] [] @ (if True then encode_trailer [] else []) @ []"
    by (simp add: encode_body_def encode_chunk_def encode_trailer_def hex_digits.simps hex_char_def)
  ultimately show ?thesis
    using http_chunked_roundtrip[of "[([13], [1, 2, 3, 10, 4])]" "[]" "[]" _ True "[]"]
    by (simp add: ext_ok_def del: decode_pieces.simps)
qed

lemma http_chunked_refines_witness:
  "\<exists>ret d' n buf'. phr_decode_chunked (new_decoder False) [50, 10, 7, 8, 10, 48, 10, 9] = Inr (ret, d', n, buf') \<and>
     take n buf' = [7, 8] \<and> ret = 1"
proof -
  have "dechunk (new_decoder False) [50, 10, 7, 8, 10, 48, 10, 9] = (Complete [9], [7, 8])" by code_simp
  then show ?thesis using http_chunked_refines[of "new_decoder False" "[50, 10, 7, 8, 10, 48, 10, 9]"] by auto
qed

subsection \<open>Where the code departs from its intent\<close>

text \<open>A header name with a character above 127: refused without SSE and, when 16 more bytes follow, accepted with SSE. The
  vector instruction compares characters as unsigned, the loop as signed.\<close>

theorem http_name_depends_on_sse:
  "case phr_parse_headers False ([72, 200, 58] @ replicate 16 120 @ [10, 10]) demo_headers 4 0 of Inr (r, _) \<Rightarrow> r = -1 | _ \<Rightarrow> False"
  "case phr_parse_headers True ([72, 200, 58] @ replicate 16 120 @ [10, 10]) demo_headers 4 0 of Inr (r, _) \<Rightarrow> r = 21 | _ \<Rightarrow> False"
  by code_simp+

text \<open>An empty list of headers that comes in two pieces is never complete: the quick check waits for two line ends, but
  \<^verbatim>\<open>phr_parse_headers\<close> needs one only.\<close>

theorem http_empty_headers_retry:
  "phr_parse_headers False [CR, LF] [] 0 0 = Inr (2, 0, [])" "phr_parse_headers False [CR, LF] [] 0 1 = Inr (-2, 0, [])"
  by code_simp+

end
